(* ===== verification/Prelude.thy ===== *)
theory Prelude
  imports Main "HOL-Library.Word" "HOL-Library.AList"
begin

text \<open>
  Shared vocabulary of the development: the scalar types of the Rust code (\<open>Uuid\<close>, \<open>i64\<close>,
  timestamps), tables as lists of rows with lookup and update by key, the sequence-number
  allocation \<open>COALESCE(MAX(seq), 0) + 1\<close>, and five interfaces as locales that several components
  provide: string codecs, sequenced logs, isolated tenants, systems with an invariant, and monotone fences. The last section holds the bounded channels the relays use.
\<close>

named_theorems row_simps \<open>lookup after update, insert and delete in a keyed table\<close>
named_theorems inv_intros \<open>one preservation lemma per operation\<close>

section \<open>Scalar types\<close>

type_synonym uuid = "128 word"
type_synonym timestamp = int
type_synonym i64 = int

abbreviation i64_max :: i64 where
  "i64_max \<equiv> 9223372036854775807"

abbreviation i64_min :: i64 where
  "i64_min \<equiv> - 9223372036854775808"

text \<open>The release build of the Rust code wraps on \<open>i64\<close> overflow.\<close>

definition wrap_i64 :: "int \<Rightarrow> i64" where
  "wrap_i64 n = (n + 9223372036854775808) mod 18446744073709551616 - 9223372036854775808"

lemma wrap_i64_id [simp]: "i64_min \<le> n \<Longrightarrow> n \<le> i64_max \<Longrightarrow> wrap_i64 n = n"
  by (simp add: wrap_i64_def)

lemma wrap_i64_bounds: "i64_min \<le> wrap_i64 n \<and> wrap_i64 n \<le> i64_max"
proof -
  have "0 \<le> (n + 9223372036854775808) mod 18446744073709551616"
    and "(n + 9223372036854775808) mod 18446744073709551616 < (18446744073709551616 :: int)"
    by simp_all
  then show ?thesis
    unfolding wrap_i64_def by linarith
qed

lemma wrap_i64_Suc_neq: "i64_min \<le> n \<Longrightarrow> n \<le> i64_max \<Longrightarrow> wrap_i64 (n + 1) \<noteq> n"
  by (cases "n = i64_max") (simp_all add: wrap_i64_def)

section \<open>Tables: lists of rows with a key\<close>

definition row_get :: "('r \<Rightarrow> 'k) \<Rightarrow> 'k \<Rightarrow> 'r list \<Rightarrow> 'r option" where
  "row_get key k rows = find (\<lambda>r. key r = k) rows"

definition row_upd :: "('r \<Rightarrow> 'k) \<Rightarrow> 'k \<Rightarrow> ('r \<Rightarrow> 'r) \<Rightarrow> 'r list \<Rightarrow> 'r list" where
  "row_upd key k f rows = map (\<lambda>r. if key r = k then f r else r) rows"

lemma row_get_Nil [simp]: "row_get key k [] = None"
  by (simp add: row_get_def)

lemma row_get_Cons [simp]:
  "row_get key k (r # rows) = (if key r = k then Some r else row_get key k rows)"
  by (simp add: row_get_def)

lemma row_upd_Nil [simp]: "row_upd key k f [] = []"
  by (simp add: row_upd_def)

lemma row_upd_Cons [simp]:
  "row_upd key k f (r # rows) = (if key r = k then f r else r) # row_upd key k f rows"
  by (simp add: row_upd_def)

lemma row_get_SomeD: "row_get key k rows = Some r \<Longrightarrow> r \<in> set rows \<and> key r = k"
  by (induction rows) (auto split: if_splits)

lemma row_get_None_iff: "row_get key k rows = None \<longleftrightarrow> k \<notin> key ` set rows"
  by (induction rows) auto

lemma row_get_Some_ex: "k \<in> key ` set rows \<Longrightarrow> \<exists>r. row_get key k rows = Some r"
  using row_get_None_iff [of key k rows] by auto

lemma row_get_append [row_simps]:
  "row_get key k (rows @ rows') =
    (case row_get key k rows of Some r \<Rightarrow> Some r | None \<Rightarrow> row_get key k rows')"
  by (induction rows) auto

lemma row_get_upd [row_simps]:
  assumes "\<And>r. key (f r) = key r"
  shows "row_get key k (row_upd key k' f rows) =
    (if k = k' then map_option f (row_get key k rows) else row_get key k rows)"
  by (induction rows) (auto simp: assms)

lemma map_key_row_upd [row_simps]:
  assumes "\<And>r. g (f r) = g r"
  shows "map g (row_upd key k f rows) = map g rows"
  by (simp add: row_upd_def assms)

lemma set_row_upd:
  "set (row_upd key k f rows) = (\<lambda>r. if key r = k then f r else r) ` set rows"
  by (simp add: row_upd_def)

lemma ids_row_upd:
  assumes "\<And>r. g (f r) = g r"
  shows "g ` set (row_upd key i f rows) = g ` set rows"
  using assms by (metis list.set_map map_key_row_upd)

lemma row_get_mem:
  assumes "distinct (map key rows)" and "r \<in> set rows"
  shows "row_get key (key r) rows = Some r"
  using assms by (induction rows) (auto simp: image_iff)

text \<open>A loop that updates, one by one, the rows a query returned is one pass over the table.\<close>

lemma foldl_row_upd:
  assumes f: "\<And>x r. key (f x r) = key r" and dist: "distinct (map key xs)"
  shows "foldl (\<lambda>acc x. row_upd key (key x) (f x) acc) rows xs =
    map (\<lambda>r. case row_get key (key r) xs of Some x \<Rightarrow> f x r | None \<Rightarrow> r) rows"
  using dist
proof (induction xs arbitrary: rows)
  case (Cons x xs)
  from Cons.prems have "row_get key (key x) xs = None"
    by (auto simp: row_get_None_iff)
  with Cons show ?case
    by (auto simp: row_upd_def f comp_def intro!: map_cong)
qed simp

lemma foldl_row_upd_filter:
  assumes f: "\<And>x r. key (f x r) = key r" and dist: "distinct (map key rows)"
  shows "foldl (\<lambda>acc x. row_upd key (key x) (f x) acc) rows (filter P rows) =
    map (\<lambda>r. if P r then f r r else r) rows"
proof -
  have dist': "distinct (map key (filter P rows))"
    using dist by (simp add: distinct_map_filter)
  have "row_get key (key r) (filter P rows) = (if P r then Some r else None)" if r: "r \<in> set rows" for r
  proof (cases "P r")
    case True
    with r dist' show ?thesis by (auto intro!: row_get_mem)
  next
    case False
    have "key x \<noteq> key r" if "x \<in> set (filter P rows)" for x
      using that r False dist by (auto simp: distinct_map inj_on_eq_iff)
    with False show ?thesis by (force simp: row_get_None_iff)
  qed
  then show ?thesis
    unfolding foldl_row_upd [OF f dist'] by (auto intro!: map_cong)
qed

section \<open>Sequence numbers\<close>

text \<open>\<open>SELECT COALESCE(MAX(seq), 0)\<close> over the sequence numbers of one run.\<close>

definition max_seq :: "i64 list \<Rightarrow> i64" where
  "max_seq xs = (if xs = [] then 0 else Max (set xs))"

lemma max_seq_snoc: "max_seq (xs @ [max_seq xs + 1]) = max_seq xs + 1"
proof (cases "xs = []")
  case False
  then have "Max (insert (Max (set xs) + 1) (set xs)) = Max (set xs) + 1"
    by (simp add: max_def)
  with False show ?thesis
    by (simp add: max_seq_def)
qed (simp add: max_seq_def)

definition contiguous :: "i64 list \<Rightarrow> bool" where
  "contiguous xs \<longleftrightarrow> xs = map int [1..<Suc (length xs)]"

lemma contiguous_Nil [simp]: "contiguous []"
  by (simp add: contiguous_def)

lemma max_seq_Nil [simp]: "max_seq [] = 0"
  by (simp add: max_seq_def)

lemma max_seq_ge: "x \<in> set xs \<Longrightarrow> x \<le> max_seq xs"
  by (auto simp: max_seq_def)

lemma contiguous_max:
  assumes "contiguous xs"
  shows "max_seq xs = int (length xs)"
proof (cases "xs = []")
  case False
  have "set xs = int ` {1..<Suc (length xs)}"
    using assms unfolding contiguous_def by (metis list.set_map set_upt)
  moreover have "Max (int ` {1..<Suc (length xs)}) = int (length xs)"
  proof (intro Max_eqI)
    show "int (length xs) \<in> int ` {1..<Suc (length xs)}"
      using False by (intro imageI) (simp add: Suc_leI)
  qed auto
  ultimately show ?thesis
    using False by (simp add: max_seq_def)
qed simp

lemma contiguous_snoc:
  assumes "contiguous xs"
  shows "contiguous (xs @ [max_seq xs + 1])"
proof -
  have "xs @ [max_seq xs + 1] = map int [1..<Suc (length xs)] @ [int (Suc (length xs))]"
    using assms contiguous_max [OF assms] by (simp add: contiguous_def)
  then show ?thesis
    by (simp add: contiguous_def)
qed

lemma contiguous_distinct: "contiguous xs \<Longrightarrow> distinct xs"
  unfolding contiguous_def by (metis distinct_map distinct_upt inj_on_of_nat)

lemma contiguous_sorted: "contiguous xs \<Longrightarrow> sorted xs"
proof -
  assume "contiguous xs"
  then have "xs = map int [1..<Suc (length xs)]"
    by (simp only: contiguous_def)
  moreover have "sorted (map int [1..<Suc (length xs)])"
    unfolding sorted_map by (rule sorted_wrt_mono_rel [OF _ sorted_upt]) simp
  ultimately show "sorted xs"
    by simp
qed

section \<open>Interfaces\<close>

text \<open>
  A closed enum stored as text: \<open>as_str\<close> writes the column, \<open>parse\<close> reads it back. The laws are
  the round trip in both directions, so a column value outside the image of \<open>as_str\<close> is never
  read as an enum value.
\<close>

locale string_codec =
  fixes as_str :: "'e \<Rightarrow> string"
    and parse :: "string \<Rightarrow> 'e option"
  assumes parse_as_str: "parse (as_str e) = Some e"
    and as_str_parse: "parse s = Some e \<Longrightarrow> s = as_str e"
begin

lemma as_str_inject: "as_str a = as_str b \<longleftrightarrow> a = b"
  by (metis option.inject parse_as_str)

lemma parse_Some_iff: "parse s = Some e \<longleftrightarrow> s = as_str e"
  using as_str_parse parse_as_str by blast

lemma parse_None_iff: "parse s = None \<longleftrightarrow> s \<notin> range as_str"
  by (metis not_None_eq parse_Some_iff rangeE rangeI)

end

text \<open>
  An append-only log whose rows are numbered per key by \<open>MAX(seq) + 1\<close>. The law is what one
  accepted append does to the numbers; the lemma is that numbering stays \<open>1, 2, \<dots>, n\<close>.
\<close>

locale seq_log =
  fixes seqs :: "'s \<Rightarrow> 'k \<Rightarrow> i64 list"
    and app :: "'k \<Rightarrow> 's \<Rightarrow> 's \<Rightarrow> bool"
  assumes app_own: "app k s s' \<Longrightarrow> seqs s' k = seqs s k @ [max_seq (seqs s k) + 1]"
    and app_other: "app k s s' \<Longrightarrow> k' \<noteq> k \<Longrightarrow> seqs s' k' = seqs s k'"
begin

lemma contiguous_app: "app k s s' \<Longrightarrow> contiguous (seqs s k') \<Longrightarrow> contiguous (seqs s' k')"
  by (cases "k' = k") (simp_all add: app_own app_other contiguous_snoc)

lemma contiguous_apps:
  "(\<lambda>s s'. \<exists>k. app k s s')\<^sup>*\<^sup>* s s' \<Longrightarrow> contiguous (seqs s k') \<Longrightarrow> contiguous (seqs s' k')"
  by (induction rule: rtranclp_induct) (auto intro: contiguous_app)

lemma app_prefix: "app k s s' \<Longrightarrow> \<exists>zs. seqs s' k' = seqs s k' @ zs"
  by (cases "k' = k") (auto simp: app_own app_other)

end

text \<open>
  Operations on behalf of one tenant that leave what every other tenant sees alone: so does every sequence of operations on
  behalf of others.
\<close>

locale tenant_isolation =
  fixes view :: "'s \<Rightarrow> 'k \<Rightarrow> 'v"
    and op :: "'k \<Rightarrow> 's \<Rightarrow> 's \<Rightarrow> bool"
  assumes respects: "op k s s' \<Longrightarrow> k' \<noteq> k \<Longrightarrow> view s' k' = view s k'"
begin

lemma others_unseen: "(\<lambda>s s'. \<exists>k \<in> K. op k s s')\<^sup>*\<^sup>* s s' \<Longrightarrow> k' \<notin> K \<Longrightarrow> view s' k' = view s k'"
  by (induction rule: rtranclp_induct) (force, metis respects)

end

sublocale seq_log \<subseteq> tenant_isolation seqs app
  by unfold_locales (rule app_other)

text \<open>A system of atomic steps with an inductive invariant.\<close>

locale invariant_system =
  fixes init :: "'s \<Rightarrow> bool"
    and step :: "'s \<Rightarrow> 's \<Rightarrow> bool"
    and inv :: "'s \<Rightarrow> bool"
  assumes init_inv: "init s \<Longrightarrow> inv s"
    and step_inv: "inv s \<Longrightarrow> step s t \<Longrightarrow> inv t"
begin

lemma steps_inv: "step\<^sup>*\<^sup>* s t \<Longrightarrow> inv s \<Longrightarrow> inv t"
  by (induction rule: rtranclp_induct) (auto intro: step_inv)

lemma reachable_inv: "init s \<Longrightarrow> step\<^sup>*\<^sup>* s t \<Longrightarrow> inv t"
  using init_inv steps_inv by blast

end

text \<open>
  A quantity that no step lowers, e.g. a fencing epoch: a holder that carries a value taken
  before some step raised it never sees its value current again.
\<close>

locale monotone_fence =
  fixes step :: "'s \<Rightarrow> 's \<Rightarrow> bool"
    and fence :: "'s \<Rightarrow> int option"
  assumes step_mono: "step s t \<Longrightarrow> fence s = Some a \<Longrightarrow> \<exists>b. fence t = Some b \<and> a \<le> b"
begin

lemma steps_mono: "step\<^sup>*\<^sup>* s t \<Longrightarrow> fence s = Some a \<Longrightarrow> \<exists>b. fence t = Some b \<and> a \<le> b"
proof (induction rule: rtranclp_induct)
  case (step t u)
  then show ?case using step_mono by (meson order_trans)
qed simp

lemma stale_forever: "step\<^sup>*\<^sup>* s t \<Longrightarrow> fence s = Some a \<Longrightarrow> e < a \<Longrightarrow> fence t \<noteq> Some e"
  using steps_mono by fastforce

end

section \<open>Text\<close>

text \<open>Text is a list of bytes. \<open>str::split\<close>, \<open>str::split_once\<close> on one character, and the decimal text of a number.\<close>

fun split_char :: "char \<Rightarrow> string \<Rightarrow> string list" where
  "split_char ch [] = [[]]"
| "split_char ch (x # xs) =
    (if x = ch then [] # split_char ch xs
     else (case split_char ch xs of [] \<Rightarrow> [[x]] | s # ss \<Rightarrow> (x # s) # ss))"

fun split_once :: "char \<Rightarrow> string \<Rightarrow> (string \<times> string) option" where
  "split_once ch [] = None"
| "split_once ch (x # xs) =
    (if x = ch then Some ([], xs)
     else (case split_once ch xs of None \<Rightarrow> None | Some (a, b) \<Rightarrow> Some (x # a, b)))"

definition digit :: "nat \<Rightarrow> char" where
  "digit n = ''0123456789'' ! n"

fun decimal :: "nat \<Rightarrow> string" where
  "decimal n = (if n < 10 then [digit n] else decimal (n div 10) @ [digit (n mod 10)])"

declare decimal.simps [simp del]

lemma split_char_not_Nil [simp]: "split_char ch s \<noteq> []"
  by (induction s) (auto split: list.splits)

lemma split_char_plain: "ch \<notin> set xs \<Longrightarrow> split_char ch xs = [xs]"
  by (induction xs) auto

lemma split_char_append: "ch \<notin> set xs \<Longrightarrow> split_char ch (xs @ ch # ys) = xs # split_char ch ys"
  by (induction xs) auto

lemma unat_byte_less: "unat (b :: 8 word) < 256"
  using unsigned_less [of b, where ?'a = nat] by simp

lemma split_once_append: "ch \<notin> set xs \<Longrightarrow> split_once ch (xs @ ch # ys) = Some (xs, ys)"
  by (induction xs) auto

lemma split_once_SomeD: "split_once ch xs = Some (a, b) \<Longrightarrow> xs = a @ ch # b \<and> ch \<notin> set a"
  by (induction xs arbitrary: a) (auto split: if_splits option.splits)

lemma length_decimal: "length (decimal n) \<le> k \<longleftrightarrow> n < 10 ^ k" if "0 < k" for k
  using that
proof (induction n arbitrary: k rule: decimal.induct)
  case (1 n)
  show ?case
  proof (cases "n < 10")
    case True
    with 1(2) show ?thesis
      by (cases k) (simp_all add: decimal.simps [of n] less_le_trans)
  next
    case False
    show ?thesis
    proof (cases k)
      case (Suc m)
      have "length (decimal n) \<le> k \<longleftrightarrow> length (decimal (n div 10)) \<le> m"
        using False Suc by (simp add: decimal.simps [of n])
      moreover have "length (decimal (n div 10)) \<le> m \<longleftrightarrow> n div 10 < 10 ^ m"
      proof (cases "m = 0")
        case True
        then show ?thesis using False by (simp add: decimal.simps [of "n div 10"] div_greater_zero_iff)
      qed (use 1(1) [OF False] in simp)
      moreover have "n div 10 < 10 ^ m \<longleftrightarrow> n < 10 ^ k"
        using Suc by (simp add: div_less_iff_less_mult mult.commute)
      ultimately show ?thesis by simp
    qed (use 1(2) in simp)
  qed
qed

section \<open>Lists of results\<close>

text \<open>\<open>collect\<close> of an iterator of results: the first error, or all values.\<close>

fun collect :: "('e + 'a) list \<Rightarrow> 'e + 'a list" where
  "collect [] = Inr []"
| "collect (Inl e # _) = Inl e"
| "collect (Inr x # xs) = (case collect xs of Inl e \<Rightarrow> Inl e | Inr ys \<Rightarrow> Inr (x # ys))"

lemma collect_append: "collect (xs @ ys) = (case collect xs of Inl e \<Rightarrow> Inl e | Inr as \<Rightarrow> (case collect ys of Inl e \<Rightarrow> Inl e | Inr bs \<Rightarrow> Inr (as @ bs)))"
  by (induction xs rule: collect.induct) (auto split: sum.splits)

lemma collect_length: "collect xs = Inr ys \<Longrightarrow> length ys = length xs"
  by (induction xs arbitrary: ys rule: collect.induct) (auto split: sum.splits)

section \<open>JSON values\<close>

text \<open>
  \<open>serde_json::Value\<close>. An object is the association list of its map; a
  number is kept as its text, since no operation inspects it.
\<close>

datatype json =
    JNull
  | JBool bool
  | JNumber string
  | JString string
  | JArray "json list"
  | JObject "(string \<times> json) list"

section \<open>Association lists\<close>

lemma alist_update_subset: "set (AList.update k v al) \<subseteq> insert (k, v) (set al)"
  by (induction al) auto

lemma alist_update_set:
  assumes "distinct (map fst al)"
  shows "set (AList.update k v al) = insert (k, v) {x \<in> set al. fst x \<noteq> k}"
  using assms by (induction al) (auto simp: image_iff)

lemma update_fresh: "k \<notin> fst ` set al \<Longrightarrow> AList.update k v al = al @ [(k, v)]"
  by (induction al) auto

lemma alist_map_entry_map:
  assumes "distinct (map fst al)"
  shows "AList.map_entry k f al = map (\<lambda>(i, v). (i, if i = k then f v else v)) al"
  using assms by (induction al) (auto intro!: map_idI [symmetric] simp: image_iff)

lemma map_entry_keys: "map fst (AList.map_entry j f al) = map fst al"
  by (induction al) auto

lemma in_set_tl: "x \<in> set (tl xs) \<Longrightarrow> x \<in> set xs"
  by (cases xs) auto

lemma option_eqI: "(\<And>v. x = Some v \<longleftrightarrow> y = Some v) \<Longrightarrow> x = y"
  by (cases x; cases y) auto

section \<open>Channels\<close>

text \<open>
  A bounded channel is the list of what was sent and not yet received, with a flag that tells whether
  the receiver still exists.
\<close>

record 'a channel =
  ch_buf :: "'a list"
  ch_open :: bool

definition try_send :: "nat \<Rightarrow> 'a \<Rightarrow> 'a channel \<Rightarrow> bool \<times> 'a channel" where
  "try_send capacity x ch =
    (if ch_open ch \<and> length (ch_buf ch) < capacity then (True, ch\<lparr>ch_buf := ch_buf ch @ [x]\<rparr>) else (False, ch))"

definition new_channel :: "'a channel" where
  "new_channel = \<lparr>ch_buf = [], ch_open = True\<rparr>"

text \<open>What the receiving side does: take the next message, or go away.\<close>

definition recv :: "'a channel \<Rightarrow> 'a option \<times> 'a channel" where
  "recv ch = (case ch_buf ch of [] \<Rightarrow> (None, ch) | x # xs \<Rightarrow> (Some x, ch\<lparr>ch_buf := xs\<rparr>))"

definition drop_receiver :: "'a channel \<Rightarrow> 'a channel" where
  "drop_receiver ch = \<lparr>ch_buf = [], ch_open = False\<rparr>"

end
