(* ===== verification/Coord_Domain.thy ===== *)
theory Coord_Domain
  imports Prelude
begin

text \<open>
  \<open>vingilot/coordinator/coordinator/src/domain.rs\<close>: the statuses, modes and access levels of a
  Run, the closed transition table, and the text the SQL columns hold for each.
\<close>

section \<open>Definitions\<close>

datatype run_status =
    Draft | Provisioning | Ready | Running | Verifying
  | Paused | Blocked | Completed | Failed | Cancelled

datatype run_mode = Interactive | Delegated | Chat

datatype access = Read | Write

definition all_statuses :: "run_status list" where
  "all_statuses =
    [Draft, Provisioning, Ready, Running, Verifying, Paused, Blocked, Completed, Failed, Cancelled]"

definition can_transition_to :: "run_status \<Rightarrow> run_status \<Rightarrow> bool" where
  "can_transition_to self nxt \<longleftrightarrow> (self, nxt) \<in> set
    [(Draft, Provisioning), (Draft, Cancelled),
     (Provisioning, Ready), (Provisioning, Failed), (Provisioning, Cancelled),
     (Ready, Running), (Ready, Cancelled),
     (Running, Verifying), (Running, Paused), (Running, Blocked), (Running, Failed),
     (Running, Cancelled),
     (Verifying, Completed), (Verifying, Running), (Verifying, Blocked), (Verifying, Failed),
     (Verifying, Cancelled),
     (Paused, Running), (Paused, Failed), (Paused, Cancelled),
     (Blocked, Running), (Blocked, Failed), (Blocked, Cancelled)]"

definition is_terminal :: "run_status \<Rightarrow> bool" where
  "is_terminal self \<longleftrightarrow> self \<in> {Completed, Failed, Cancelled}"

fun status_as_str :: "run_status \<Rightarrow> string" where
  "status_as_str Draft = ''draft''"
| "status_as_str Provisioning = ''provisioning''"
| "status_as_str Ready = ''ready''"
| "status_as_str Running = ''running''"
| "status_as_str Verifying = ''verifying''"
| "status_as_str Paused = ''paused''"
| "status_as_str Blocked = ''blocked''"
| "status_as_str Completed = ''completed''"
| "status_as_str Failed = ''failed''"
| "status_as_str Cancelled = ''cancelled''"

definition status_parse :: "string \<Rightarrow> run_status option" where
  "status_parse s =
    (if s = ''draft'' then Some Draft
     else if s = ''provisioning'' then Some Provisioning
     else if s = ''ready'' then Some Ready
     else if s = ''running'' then Some Running
     else if s = ''verifying'' then Some Verifying
     else if s = ''paused'' then Some Paused
     else if s = ''blocked'' then Some Blocked
     else if s = ''completed'' then Some Completed
     else if s = ''failed'' then Some Failed
     else if s = ''cancelled'' then Some Cancelled
     else None)"

fun mode_as_str :: "run_mode \<Rightarrow> string" where
  "mode_as_str Interactive = ''interactive''"
| "mode_as_str Delegated = ''delegated''"
| "mode_as_str Chat = ''chat''"

definition mode_parse :: "string \<Rightarrow> run_mode option" where
  "mode_parse s =
    (if s = ''interactive'' then Some Interactive
     else if s = ''delegated'' then Some Delegated
     else if s = ''chat'' then Some Chat
     else None)"

fun access_as_str :: "access \<Rightarrow> string" where
  "access_as_str Read = ''read''"
| "access_as_str Write = ''write''"

definition access_parse :: "string \<Rightarrow> access option" where
  "access_parse s =
    (if s = ''read'' then Some Read
     else if s = ''write'' then Some Write
     else None)"

section \<open>The codecs\<close>

interpretation status_codec: string_codec status_as_str status_parse
proof unfold_locales
  show "status_parse (status_as_str e) = Some e" for e
    by (cases e) (simp_all add: status_parse_def)
  show "status_parse s = Some e \<Longrightarrow> s = status_as_str e" for s e
    by (auto simp: status_parse_def split: if_splits)
qed

interpretation mode_codec: string_codec mode_as_str mode_parse
proof unfold_locales
  show "mode_parse (mode_as_str e) = Some e" for e
    by (cases e) (simp_all add: mode_parse_def)
  show "mode_parse s = Some e \<Longrightarrow> s = mode_as_str e" for s e
    by (auto simp: mode_parse_def split: if_splits)
qed

interpretation access_codec: string_codec access_as_str access_parse
proof unfold_locales
  show "access_parse (access_as_str e) = Some e" for e
    by (cases e) (simp_all add: access_parse_def)
  show "access_parse s = Some e \<Longrightarrow> s = access_as_str e" for s e
    by (auto simp: access_parse_def split: if_splits)
qed

section \<open>The transition table\<close>

lemma all_statuses_complete: "s \<in> set all_statuses"
  by (cases s) (simp_all add: all_statuses_def)

lemma can_transition_to_irrefl: "\<not> can_transition_to s s"
  by (cases s) (simp_all add: can_transition_to_def)

lemma terminal_no_transition: "is_terminal s \<Longrightarrow> \<not> can_transition_to s t"
  by (auto simp: is_terminal_def can_transition_to_def)

lemma non_terminal_can_cancel: "\<not> is_terminal s \<Longrightarrow> can_transition_to s Cancelled"
  by (cases s) (simp_all add: is_terminal_def can_transition_to_def)

lemma only_draft_unreachable: "(\<exists>s. can_transition_to s t) \<longleftrightarrow> t \<noteq> Draft"
  by (cases t) (auto simp: can_transition_to_def)

section \<open>Properties\<close>

text \<open>
  The status, mode and access columns are read back as they were written, and a column value that
  none of the enum's values writes is read as none of them.
\<close>

theorem column_codecs_roundtrip:
  "(status_parse s = Some st \<longleftrightarrow> s = status_as_str st) \<and>
   (mode_parse s = Some m \<longleftrightarrow> s = mode_as_str m) \<and>
   (access_parse s = Some a \<longleftrightarrow> s = access_as_str a)"
  by (simp add: status_codec.parse_Some_iff mode_codec.parse_Some_iff access_codec.parse_Some_iff)

text \<open>
  The transition table: a terminal status has no way out, every other status can be cancelled,
  nothing leads back to \<open>draft\<close>, and no status leads to itself.
\<close>

lemma transition_table_shape:
  "(is_terminal s \<longleftrightarrow> (\<forall>t. \<not> can_transition_to s t)) \<and>
   (can_transition_to s Cancelled \<longleftrightarrow> \<not> is_terminal s) \<and>
   \<not> can_transition_to s Draft \<and> \<not> can_transition_to s s"
proof -
  have "is_terminal s \<or> can_transition_to s Cancelled"
    using non_terminal_can_cancel by blast
  moreover have "is_terminal s \<Longrightarrow> \<not> can_transition_to s t" for t
    by (rule terminal_no_transition)
  ultimately show ?thesis
    by (cases s) (auto simp: can_transition_to_def)
qed

end
