(* ===== verification/Coord_Store.thy ===== *)
theory Coord_Store
  imports Coord_Domain
begin

text \<open>
  The Postgres store of the coordinator, as its migrations declare it: one record per table and
  the database as the lists of rows. A query without \<open>ORDER BY\<close> returns rows in table order, and
  no theorem assumes anything about that order. Constraints of the schema (primary keys, unique
  and partial unique indexes, foreign keys, \<open>CHECK\<close>s) are checked by the operations that write,
  and their violation is a value of \<open>db_error\<close>. Failures of the connection are not modelled; a
  crash between two statements is (\<open>Coord_System\<close> takes every statement as a step).
\<close>

section \<open>Errors of the database\<close>

datatype db_error =
    UniqueViolation string
  | ForeignKeyViolation string
  | CheckViolation string
  | NumericOutOfRange
  | RowNotFound
  | DecodeError string

section \<open>Clocks\<close>

text \<open>
  What one operation reads of time: the process clock \<open>Utc::now()\<close>, the database clock
  \<open>now()\<close> (both in microseconds), and \<open>Utc::now() + Duration::seconds(s)\<close> as the library
  computes it, \<open>None\<close> where it panics on overflow.
\<close>

record clock =
  utc_now :: timestamp
  db_now :: timestamp
  utc_plus :: "i64 \<Rightarrow> timestamp option"

section \<open>Tables\<close>

record workspace_row =
  ws_id :: uuid
  ws_revision :: i64
  ws_state :: json
  ws_state_hash :: string
  ws_updated_at :: timestamp

record workspace_event_row =
  we_workspace_id :: uuid
  we_revision :: i64
  we_prev_revision :: i64
  we_mutations :: json
  we_state_hash :: string
  we_created_at :: timestamp

record run_row =
  r_id :: uuid
  r_workspace_id :: uuid
  r_parent_run_id :: "uuid option"
  r_objective :: string
  r_mode :: string
  r_status :: string
  r_wall_limit_secs :: "i64 option"
  r_wall_started_at :: "timestamp option"
  r_tokens_observed :: i64
  r_tokens_observed_at :: "timestamp option"
  r_created_at :: timestamp
  r_updated_at :: timestamp

record transition_row =
  t_run_id :: uuid
  t_seq :: i64
  t_from_status :: string
  t_to_status :: string
  t_reason :: string
  t_created_at :: timestamp

record binding_row =
  b_id :: uuid
  b_repo_id :: string
  b_target_id :: string
  b_role :: string
  b_base_commit :: string
  b_branch :: "string option"
  b_lifecycle :: string
  b_owner_run_id :: "uuid option"
  b_epoch :: i64
  b_lease_expires_at :: "timestamp option"
  b_idempotency_key :: string
  b_created_at :: timestamp
  b_updated_at :: timestamp

record grant_row =
  g_run_id :: uuid
  g_binding_id :: uuid
  g_access :: string

record evidence_tab_row =
  e_run_id :: uuid
  e_seq :: i64
  e_kind :: string
  e_content :: string
  e_created_at :: timestamp

record db =
  workspaces :: "workspace_row list"
  workspace_events :: "workspace_event_row list"
  runs :: "run_row list"
  run_transitions :: "transition_row list"
  worktree_bindings :: "binding_row list"
  run_worktree_grants :: "grant_row list"
  run_evidence :: "evidence_tab_row list"

definition empty_db :: db where
  "empty_db = \<lparr>workspaces = [], workspace_events = [], runs = [], run_transitions = [],
     worktree_bindings = [], run_worktree_grants = [], run_evidence = []\<rparr>"

section \<open>Lookups by primary key\<close>

abbreviation get_workspace_row :: "db \<Rightarrow> uuid \<Rightarrow> workspace_row option" where
  "get_workspace_row d w \<equiv> row_get ws_id w (workspaces d)"

abbreviation get_run_row :: "db \<Rightarrow> uuid \<Rightarrow> run_row option" where
  "get_run_row d r \<equiv> row_get r_id r (runs d)"

abbreviation get_binding_row :: "db \<Rightarrow> uuid \<Rightarrow> binding_row option" where
  "get_binding_row d b \<equiv> row_get b_id b (worktree_bindings d)"

definition transitions_of :: "db \<Rightarrow> uuid \<Rightarrow> transition_row list" where
  "transitions_of d r = filter (\<lambda>t. t_run_id t = r) (run_transitions d)"

definition evidence_of :: "db \<Rightarrow> uuid \<Rightarrow> evidence_tab_row list" where
  "evidence_of d r = filter (\<lambda>e. e_run_id e = r) (run_evidence d)"

end
