(* ===== verification/Coord_Sample.thy ===== *)
theory Coord_Sample
  imports Coord_Store
begin

text \<open>
  Small concrete states of the coordinator's database, on which the theorems of the other
  theories are instantiated.
\<close>

definition sample_clock :: clock where
  "sample_clock = \<lparr>utc_now = 1000, db_now = 1000, utc_plus = (\<lambda>s. Some (1000 + s * 1000000))\<rparr>"

definition sample_workspace :: workspace_row where
  "sample_workspace = \<lparr>ws_id = 7, ws_revision = 0, ws_state = JObject [], ws_state_hash = ''h0'',
     ws_updated_at = 0\<rparr>"

definition sample_run :: "uuid \<Rightarrow> run_status \<Rightarrow> run_row" where
  "sample_run i s = \<lparr>r_id = i, r_workspace_id = 7, r_parent_run_id = None, r_objective = ''ship'',
     r_mode = ''interactive'', r_status = status_as_str s, r_wall_limit_secs = Some 60,
     r_wall_started_at = None, r_tokens_observed = 0, r_tokens_observed_at = None,
     r_created_at = 0, r_updated_at = 0\<rparr>"

definition sample_binding :: "uuid \<Rightarrow> uuid \<Rightarrow> string \<Rightarrow> binding_row" where
  "sample_binding i owner key = \<lparr>b_id = i, b_repo_id = ''repo'', b_target_id = ''target'',
     b_role = ''primary'', b_base_commit = ''c0'', b_branch = None, b_lifecycle = ''ready'',
     b_owner_run_id = Some owner, b_epoch = 3, b_lease_expires_at = Some 5000,
     b_idempotency_key = key, b_created_at = 0, b_updated_at = 0\<rparr>"

definition sample_db :: "run_row list \<Rightarrow> binding_row list \<Rightarrow> db" where
  "sample_db rs bs = empty_db\<lparr>workspaces := [sample_workspace], runs := rs, worktree_bindings := bs\<rparr>"

lemmas sample_defs = sample_clock_def sample_workspace_def sample_run_def sample_binding_def
  sample_db_def empty_db_def

end
