(* ===== verification/Rust_Text.thy ===== *)
theory Rust_Text
  imports Prelude "HOL-Library.Sublist"
begin

text \<open>
  What the code uses of Rust's \<open>str\<close>: white space and trimming, prefixes and suffixes, searching and splitting at a text, parsing
  of unsigned numbers and truncation to a number of characters. A text is the list of its UTF-8 bytes.
\<close>

section \<open>White space\<close>

text \<open>
  \<open>char::is_whitespace\<close> on UTF-8 text: the encodings of the code points with the Unicode property
  \<open>White_Space\<close>, and the length of the one a text starts with (0 for none).
\<close>

definition white_space :: "string list" where
  "white_space =
    [[CHR 0x09], [CHR 0x0A], [CHR 0x0B], [CHR 0x0C], [CHR 0x0D], [CHR 0x20],
     [CHR 0xC2, CHR 0x85], [CHR 0xC2, CHR 0xA0], [CHR 0xE1, CHR 0x9A, CHR 0x80],
     [CHR 0xE2, CHR 0x80, CHR 0x80], [CHR 0xE2, CHR 0x80, CHR 0x81], [CHR 0xE2, CHR 0x80, CHR 0x82],
     [CHR 0xE2, CHR 0x80, CHR 0x83], [CHR 0xE2, CHR 0x80, CHR 0x84], [CHR 0xE2, CHR 0x80, CHR 0x85],
     [CHR 0xE2, CHR 0x80, CHR 0x86], [CHR 0xE2, CHR 0x80, CHR 0x87], [CHR 0xE2, CHR 0x80, CHR 0x88],
     [CHR 0xE2, CHR 0x80, CHR 0x89], [CHR 0xE2, CHR 0x80, CHR 0x8A], [CHR 0xE2, CHR 0x80, CHR 0xA8],
     [CHR 0xE2, CHR 0x80, CHR 0xA9], [CHR 0xE2, CHR 0x80, CHR 0xAF], [CHR 0xE2, CHR 0x81, CHR 0x9F],
     [CHR 0xE3, CHR 0x80, CHR 0x80]]"

definition ws_len :: "string \<Rightarrow> nat" where
  "ws_len s = (case find (\<lambda>w. prefix w s) white_space of None \<Rightarrow> 0 | Some w \<Rightarrow> length w)"

lemma ws_len_le: "ws_len s \<le> length s"
  by (auto simp: ws_len_def find_Some_iff dest: prefix_length_le split: option.split)

function skip_ws :: "string \<Rightarrow> string" where
  "skip_ws s = (if ws_len s = 0 then s else skip_ws (drop (ws_len s) s))"
  by pat_completeness auto
termination
proof (relation "measure length")
  fix s
  assume "ws_len s \<noteq> 0"
  with ws_len_le [of s] show "(drop (ws_len s) s, s) \<in> measure length"
    by simp
qed simp

declare skip_ws.simps [simp del]

lemma length_skip_ws: "length (skip_ws s) \<le> length s"
  by (induction s rule: skip_ws.induct) (subst skip_ws.simps, force)

lemma skip_ws_no_ws: "ws_len (skip_ws s) = 0"
  by (induction s rule: skip_ws.induct) (subst skip_ws.simps, simp)

fun take_token :: "string \<Rightarrow> string" where
  "take_token [] = []"
| "take_token (ch # cs) = (if ws_len (ch # cs) = 0 then ch # take_token cs else [])"

definition ws_suffix_len :: "string \<Rightarrow> nat" where
  "ws_suffix_len s = (case find (\<lambda>w. suffix w s) white_space of None \<Rightarrow> 0 | Some w \<Rightarrow> length w)"

lemma ws_suffix_len_le: "ws_suffix_len s \<le> length s"
  by (auto simp: ws_suffix_len_def find_Some_iff dest: suffix_length_le split: option.split)

function trim_end :: "string \<Rightarrow> string" where
  "trim_end s = (if ws_suffix_len s = 0 then s else trim_end (take (length s - ws_suffix_len s) s))"
  by pat_completeness auto
termination
proof (relation "measure length")
  fix s
  assume "ws_suffix_len s \<noteq> 0"
  with ws_suffix_len_le [of s] show "(take (length s - ws_suffix_len s) s, s) \<in> measure length"
    by auto
qed simp

declare trim_end.simps [simp del]

text \<open>\<open>str::trim\<close>.\<close>

definition str_trim :: "string \<Rightarrow> string" where
  "str_trim s = trim_end (skip_ws s)"

text \<open>\<open>str::split_whitespace().count()\<close>.\<close>

function count_words :: "string \<Rightarrow> nat" where
  "count_words s =
    (case skip_ws s of [] \<Rightarrow> 0 | rest \<Rightarrow> Suc (count_words (drop (length (take_token rest)) rest)))"
  by pat_completeness auto
termination
proof (relation "measure length")
  fix s c cs
  assume rest: "skip_ws s = c # cs"
  have "length (skip_ws s) \<le> length s" by (rule length_skip_ws)
  moreover have "ws_len (c # cs) = 0" using skip_ws_no_ws [of s] rest by simp
  ultimately show "(drop (length (take_token (c # cs))) (c # cs), s) \<in> measure length" using rest by simp
qed simp

declare count_words.simps [simp del]

definition plain_char :: "char \<Rightarrow> bool" where
  "plain_char ch \<longleftrightarrow> 0x20 < (of_char ch :: nat) \<and> (of_char ch :: nat) < 0x80"

lemma white_space_heads: "list_all (\<lambda>w. w \<noteq> [] \<and> \<not> plain_char (hd w)) white_space"
  by (simp add: white_space_def plain_char_def)

lemma ws_len_plain:
  assumes "plain_char ch"
  shows "ws_len (ch # cs) = 0"
proof -
  have "\<not> prefix w (ch # cs)" if "w \<in> set white_space" for w
    using that assms white_space_heads by (auto simp: list_all_iff prefix_Cons)
  then have "find (\<lambda>w. prefix w (ch # cs)) white_space = None"
    by (simp add: find_None_iff)
  then show ?thesis
    by (simp add: ws_len_def)
qed

lemma ws_len_space: "ws_len (CHR '' '' # cs) = 1"
  by (simp add: ws_len_def white_space_def)

section \<open>Prefixes, searching, splitting\<close>

definition strip_prefix :: "string \<Rightarrow> string \<Rightarrow> string option" where
  "strip_prefix p s = (if prefix p s then Some (drop (length p) s) else None)"

definition strip_suffix :: "string \<Rightarrow> string \<Rightarrow> string option" where
  "strip_suffix p s = (if suffix p s then Some (take (length s - length p) s) else None)"

text \<open>\<open>str::find\<close> of a text, as what stands before and after its first occurrence.\<close>

fun split_at_str :: "string \<Rightarrow> string \<Rightarrow> (string \<times> string) option" where
  "split_at_str p [] = (if p = [] then Some ([], []) else None)"
| "split_at_str p (c # cs) =
    (if prefix p (c # cs) then Some ([], drop (length p) (c # cs))
     else (case split_at_str p cs of None \<Rightarrow> None | Some (a, b) \<Rightarrow> Some (c # a, b)))"

lemma split_at_str_Some: "split_at_str p s = Some (a, b) \<Longrightarrow> s = a @ p @ b"
  by (induction p s arbitrary: a b rule: split_at_str.induct) (auto simp: prefix_def split: if_splits option.splits)

lemma split_at_str_None: "split_at_str p s = None \<longleftrightarrow> \<not> sublist p s"
  by (induction p s rule: split_at_str.induct) (auto simp: sublist_Cons_right split: option.splits)

section \<open>Numbers\<close>

text \<open>\<open>str::parse\<close> for an unsigned type with a largest value: an optional plus sign, then digits, with a check of the range.\<close>

definition digit_value :: "char \<Rightarrow> nat option" where
  "digit_value c = (let n = (of_char c :: nat) in if 48 \<le> n \<and> n \<le> 57 then Some (n - 48) else None)"

fun digits_value :: "nat \<Rightarrow> string \<Rightarrow> nat \<Rightarrow> nat option" where
  "digits_value bound [] n = Some n"
| "digits_value bound (c # cs) n =
    (case digit_value c of
       None \<Rightarrow> None
     | Some d \<Rightarrow> if n * 10 + d > bound then None else digits_value bound cs (n * 10 + d))"

definition parse_uint :: "nat \<Rightarrow> string \<Rightarrow> nat option" where
  "parse_uint bound s =
    (let ds = (case s of c # cs \<Rightarrow> if c = CHR ''+'' then cs else s | [] \<Rightarrow> [])
     in if ds = [] then None else digits_value bound ds 0)"

abbreviation u64_max :: nat where
  "u64_max \<equiv> 18446744073709551615"

lemma digits_value_le: "digits_value bound cs n = Some m \<Longrightarrow> n \<le> bound \<Longrightarrow> m \<le> bound"
  by (induction bound cs n rule: digits_value.induct) (auto split: option.splits if_splits)

lemma parse_uint_le: "parse_uint bound s = Some m \<Longrightarrow> m \<le> bound"
  unfolding parse_uint_def Let_def by (rule digits_value_le [of bound _ 0 m]) (simp_all split: if_splits)

section \<open>Characters\<close>

text \<open>\<open>chars().take(n)\<close> of a UTF-8 text: continuation bytes belong to the character before them.\<close>

definition continuation :: "char \<Rightarrow> bool" where
  "continuation c \<longleftrightarrow> 0x80 \<le> (of_char c :: nat) \<and> (of_char c :: nat) < 0xC0"

fun take_chars :: "nat \<Rightarrow> string \<Rightarrow> string" where
  "take_chars n [] = []"
| "take_chars n (c # cs) =
    (if continuation c then c # take_chars n cs
     else (case n of 0 \<Rightarrow> [] | Suc m \<Rightarrow> c # take_chars m cs))"

lemma take_chars_prefix: "prefix (take_chars n s) s"
  by (induction n s rule: take_chars.induct) (auto split: nat.splits)

lemma take_chars_count: "length (filter (\<lambda>c. \<not> continuation c) (take_chars n s)) \<le> n"
  by (induction n s rule: take_chars.induct) (auto split: nat.splits)


section \<open>Texts of digits\<close>

lemma white_space_lasts: "list_all (\<lambda>w. w \<noteq> [] \<and> \<not> plain_char (last w)) white_space"
  by (simp add: white_space_def plain_char_def)

lemma ws_suffix_len_plain:
  assumes "s \<noteq> []" "plain_char (last s)"
  shows "ws_suffix_len s = 0"
proof -
  have "\<not> suffix w s" if "w \<in> set white_space" for w
    using that assms white_space_lasts by (auto simp: list_all_iff suffix_def)
  then have "find (\<lambda>w. suffix w s) white_space = None" by (simp add: find_None_iff)
  then show ?thesis by (simp add: ws_suffix_len_def)
qed

lemma str_trim_plain: "s \<noteq> [] \<Longrightarrow> plain_char (hd s) \<Longrightarrow> plain_char (last s) \<Longrightarrow> str_trim s = s"
  using ws_len_plain [of "hd s" "tl s"] ws_suffix_len_plain [of s] skip_ws.simps [of s] trim_end.simps [of s] by (simp add: str_trim_def)

lemma digit_in: "n < 10 \<Longrightarrow> digit n \<in> set ''0123456789''"
  unfolding digit_def by (rule nth_mem) simp

lemma digit_value_digit: "n < 10 \<Longrightarrow> digit_value (digit n) = Some n"
  by (auto simp: less_Suc_eq numeral_eq_Suc digit_def digit_value_def)

lemma digits_value_append: "digits_value bound (xs @ ys) n = Option.bind (digits_value bound xs n) (digits_value bound ys)"
  by (induction bound xs n rule: digits_value.induct) (auto split: option.splits)

lemma set_decimal: "set (decimal n) \<subseteq> set ''0123456789''"
proof (induction n rule: decimal.induct)
  case (1 n)
  then show ?case using digit_in [of n] digit_in [of "n mod 10"] by (subst decimal.simps) auto
qed

lemma decimal_not_Nil: "decimal n \<noteq> []"
  by (subst decimal.simps) simp

lemma digits_value_decimal: "digits_value bound (decimal n) 0 = (if n \<le> bound then Some n else None)"
proof (induction n rule: decimal.induct)
  case (1 n)
  show ?case
  proof (cases "n < 10")
    case True
    then show ?thesis by (simp add: decimal.simps [of n] digit_value_digit)
  next
    case False
    have "n div 10 \<le> n" by simp
    with 1 [OF False] False show ?thesis by (auto simp: decimal.simps [of n] digits_value_append digit_value_digit split: if_splits)
  qed
qed

lemma parse_uint_decimal: "parse_uint bound (decimal n) = (if n \<le> bound then Some n else None)"
proof -
  obtain c cs where cs: "decimal n = c # cs" using decimal_not_Nil by (cases "decimal n") auto
  have "c \<noteq> CHR ''+''" using set_decimal [of n] cs by auto
  then show ?thesis using digits_value_decimal [of bound n] by (simp add: parse_uint_def cs)
qed

lemma plain_decimal: "c \<in> set (decimal n) \<Longrightarrow> plain_char c"
  using set_decimal [of n] by (auto simp: plain_char_def)

end
