(* ===== verification/Coord_Run.thy ===== *)
theory Coord_Run
  imports Coord_Sample Rust_Text
begin

text \<open>
  \<open>vingilot/coordinator/coordinator/src/run.rs\<close>: creating Runs, validated transitions with their
  log, the derived depth, the two read models, and token observations. An operation that is one
  transaction returns \<open>Inl error\<close> with the database unchanged or \<open>Inr\<close> the new database.
\<close>

section \<open>Definitions\<close>

datatype run_error =
    RunNotFound uuid
  | IllegalTransition run_status run_status
  | CorruptStatus uuid
  | RunDb db_error

record new_run =
  nr_workspace_id :: uuid
  nr_parent_run_id :: "uuid option"
  nr_objective :: string
  nr_mode :: run_mode
  nr_wall_limit_secs :: "i64 option"

text \<open>
  \<open>create\<close>: the fresh \<open>Uuid::new_v4()\<close> is the argument \<open>i\<close>. The primary key is checked when the
  row is inserted and the foreign keys after it, so \<open>parent_run_id\<close> may name the new row itself.
\<close>

definition create :: "clock \<Rightarrow> uuid \<Rightarrow> new_run \<Rightarrow> db \<Rightarrow> run_error + uuid \<times> db" where
  "create c i new d =
    (let row = \<lparr>r_id = i, r_workspace_id = nr_workspace_id new,
                r_parent_run_id = nr_parent_run_id new, r_objective = nr_objective new,
                r_mode = mode_as_str (nr_mode new), r_status = status_as_str Draft,
                r_wall_limit_secs = nr_wall_limit_secs new, r_wall_started_at = None,
                r_tokens_observed = 0, r_tokens_observed_at = None,
                r_created_at = db_now c, r_updated_at = db_now c\<rparr>;
         d' = d\<lparr>runs := runs d @ [row]\<rparr>
     in if get_run_row d i \<noteq> None then Inl (RunDb (UniqueViolation ''runs_pkey''))
        else if get_workspace_row d (nr_workspace_id new) = None
        then Inl (RunDb (ForeignKeyViolation ''runs_workspace_id_fkey''))
        else case nr_parent_run_id new of
            None \<Rightarrow> Inr (i, d')
          | Some p \<Rightarrow>
              if get_run_row d' p = None
              then Inl (RunDb (ForeignKeyViolation ''runs_parent_run_id_fkey''))
              else Inr (i, d'))"

definition enter_status :: "clock \<Rightarrow> run_status \<Rightarrow> run_row \<Rightarrow> run_row" where
  "enter_status c to_st r =
    (if to_st = Running
     then r\<lparr>r_status := status_as_str to_st, r_updated_at := db_now c,
            r_wall_started_at := (case r_wall_started_at r of Some t \<Rightarrow> Some t | None \<Rightarrow> Some (db_now c))\<rparr>
     else r\<lparr>r_status := status_as_str to_st, r_updated_at := db_now c\<rparr>)"

definition transition :: "clock \<Rightarrow> uuid \<Rightarrow> run_status \<Rightarrow> string \<Rightarrow> db \<Rightarrow> run_error + db" where
  "transition c i to_st reason d =
    (case get_run_row d i of
       None \<Rightarrow> Inl (RunNotFound i)
     | Some r \<Rightarrow>
         (case status_parse (r_status r) of
            None \<Rightarrow> Inl (CorruptStatus i)
          | Some from_st \<Rightarrow>
              if \<not> can_transition_to from_st to_st then Inl (IllegalTransition from_st to_st)
              else
                let m = max_seq (map t_seq (transitions_of d i)) in
                if m = i64_max then Inl (RunDb NumericOutOfRange)
                else
                  let row = \<lparr>t_run_id = i, t_seq = m + 1, t_from_status = status_as_str from_st,
                             t_to_status = status_as_str to_st, t_reason = reason,
                             t_created_at = db_now c\<rparr>
                  in Inr (d\<lparr>run_transitions := run_transitions d @ [row],
                            runs := row_upd r_id i (enter_status c to_st) (runs d)\<rparr>)))"

text \<open>The loop of \<open>depth\<close> walks parents and stops only at a root; \<open>None\<close> is not returning.\<close>

partial_function (option) depth_loop :: "db \<Rightarrow> uuid \<Rightarrow> i64 \<Rightarrow> (run_error + i64) option" where
  "depth_loop d current dep =
    (case get_run_row d current of
       None \<Rightarrow> Some (Inl (RunNotFound current))
     | Some r \<Rightarrow>
         (case r_parent_run_id r of
            None \<Rightarrow> Some (Inr dep)
          | Some p \<Rightarrow> depth_loop d p (dep + 1)))"

definition depth :: "db \<Rightarrow> uuid \<Rightarrow> (run_error + i64) option" where
  "depth d i = depth_loop d i 0"

record run_summary_row =
  rs_id :: uuid
  rs_parent_run_id :: "uuid option"
  rs_objective :: string
  rs_mode :: string
  rs_status :: string
  rs_wall_limit_secs :: "i64 option"
  rs_wall_started_at :: "timestamp option"
  rs_tokens_observed :: i64
  rs_tokens_observed_at :: "timestamp option"
  rs_created_at :: timestamp
  rs_updated_at :: timestamp

definition run_summary :: "run_row \<Rightarrow> run_summary_row" where
  "run_summary r =
    \<lparr>rs_id = r_id r, rs_parent_run_id = r_parent_run_id r, rs_objective = r_objective r,
     rs_mode = r_mode r, rs_status = r_status r, rs_wall_limit_secs = r_wall_limit_secs r,
     rs_wall_started_at = r_wall_started_at r, rs_tokens_observed = r_tokens_observed r,
     rs_tokens_observed_at = r_tokens_observed_at r, rs_created_at = r_created_at r,
     rs_updated_at = r_updated_at r\<rparr>"

text \<open>\<open>ORDER BY updated_at DESC LIMIT 200\<close>; SQL leaves the order of equal keys open.\<close>

definition list_for_workspace :: "db \<Rightarrow> uuid \<Rightarrow> run_summary_row list" where
  "list_for_workspace d w =
    map run_summary
      (take 200 (sort_key (\<lambda>r. - r_updated_at r) (filter (\<lambda>r. r_workspace_id r = w) (runs d))))"

record worktree_summary_row =
  wt_binding_id :: uuid
  wt_repo_id :: string
  wt_branch :: "string option"
  wt_role :: string
  wt_lifecycle :: string
  wt_base_commit :: string
  wt_owner_run_id :: "uuid option"
  wt_owner_run_status :: "string option"
  wt_owner_run_objective :: "string option"
  wt_added :: "i64 option"
  wt_removed :: "i64 option"
  wt_commit_sha :: "string option"

text \<open>
  \<open>str::lines\<close>: pieces ended by a line feed, without it and without a carriage return before it;
  a last piece with no line feed is a line when it is not empty and keeps its carriage return.
\<close>

fun lines_acc :: "string \<Rightarrow> string \<Rightarrow> string list" where
  "lines_acc acc [] = (if acc = [] then [] else [rev acc])"
| "lines_acc acc (ch # cs) =
    (if ch = CHR 0x0A
     then (case acc of [] \<Rightarrow> [] | a # as \<Rightarrow> rev (if a = CHR 0x0D then as else acc)) # lines_acc [] cs
     else lines_acc (ch # acc) cs)"

definition str_lines :: "string \<Rightarrow> string list" where
  "str_lines s = lines_acc [] s"

fun count_line :: "i64 \<times> i64 \<Rightarrow> string \<Rightarrow> i64 \<times> i64" where
  "count_line (added, removed) line =
    (if prefix ''+++'' line \<or> prefix ''---'' line then (added, removed)
     else if prefix ''+'' line then (added + 1, removed)
     else if prefix ''-'' line then (added, removed + 1)
     else (added, removed))"

definition count_diff_lines :: "string \<Rightarrow> i64 \<times> i64" where
  "count_diff_lines diff = foldl count_line (0, 0) (str_lines diff)"

definition commit_sha_from_content :: "string \<Rightarrow> string option" where
  "commit_sha_from_content content =
    (case skip_ws content of [] \<Rightarrow> None | rest \<Rightarrow> Some (take_token rest))"

text \<open>The \<open>LATERAL\<close> subquery: the content of the row of a kind with the highest \<open>seq\<close>.\<close>

definition latest_evidence :: "db \<Rightarrow> uuid \<Rightarrow> string \<Rightarrow> string option" where
  "latest_evidence d run kind =
    (case sort_key (\<lambda>e. - e_seq e) (filter (\<lambda>e. e_kind e = kind) (evidence_of d run)) of
       [] \<Rightarrow> None
     | e # _ \<Rightarrow> Some (e_content e))"

definition worktree_summary :: "db \<Rightarrow> binding_row \<Rightarrow> worktree_summary_row" where
  "worktree_summary d b =
    (let owner = Option.bind (b_owner_run_id b) (get_run_row d);
         diff_content = Option.bind (b_owner_run_id b) (\<lambda>r. latest_evidence d r ''diff'');
         commit_content = Option.bind (b_owner_run_id b) (\<lambda>r. latest_evidence d r ''commit'')
     in \<lparr>wt_binding_id = b_id b, wt_repo_id = b_repo_id b, wt_branch = b_branch b,
         wt_role = b_role b, wt_lifecycle = b_lifecycle b, wt_base_commit = b_base_commit b,
         wt_owner_run_id = b_owner_run_id b, wt_owner_run_status = map_option r_status owner,
         wt_owner_run_objective = map_option r_objective owner,
         wt_added = map_option (\<lambda>s. fst (count_diff_lines s)) diff_content,
         wt_removed = map_option (\<lambda>s. snd (count_diff_lines s)) diff_content,
         wt_commit_sha = Option.bind commit_content commit_sha_from_content\<rparr>)"

definition visible_binding :: "db \<Rightarrow> uuid \<Rightarrow> binding_row \<Rightarrow> bool" where
  "visible_binding d w b \<longleftrightarrow>
    (case b_owner_run_id b of
       None \<Rightarrow> True
     | Some r \<Rightarrow> map_option r_workspace_id (get_run_row d r) = Some w)"

definition list_worktrees_for_workspace :: "db \<Rightarrow> uuid \<Rightarrow> worktree_summary_row list" where
  "list_worktrees_for_workspace d w =
    map (worktree_summary d)
      (sort_key b_created_at (filter (visible_binding d w) (worktree_bindings d)))"

definition observe_tokens :: "clock \<Rightarrow> uuid \<Rightarrow> i64 \<Rightarrow> timestamp \<Rightarrow> db \<Rightarrow> run_error + db" where
  "observe_tokens c i tot observed_at d =
    (if get_run_row d i = None then Inl (RunNotFound i)
     else Inr (d\<lparr>runs := row_upd r_id i
        (\<lambda>r. r\<lparr>r_tokens_observed := max (r_tokens_observed r) tot,
               r_tokens_observed_at := Some observed_at, r_updated_at := db_now c\<rparr>) (runs d)\<rparr>))"

section \<open>The invariant of the runs and their log\<close>

text \<open>
  The transition log of a run explains its status: numbered \<open>1..n\<close>, it starts at \<open>draft\<close>, every
  row is a legal edge that begins where the previous one ended, and the last one ends at the
  status of the run. The wall clock starts with the first entry into \<open>running\<close>.
\<close>

definition legal_edge :: "string \<Rightarrow> string \<Rightarrow> bool" where
  "legal_edge x y \<longleftrightarrow>
    (case (status_parse x, status_parse y) of
       (Some a, Some b) \<Rightarrow> can_transition_to a b
     | _ \<Rightarrow> False)"

fun status_chain :: "string \<Rightarrow> transition_row list \<Rightarrow> string \<Rightarrow> bool" where
  "status_chain a [] b \<longleftrightarrow> a = b"
| "status_chain a (t # ts) b \<longleftrightarrow>
    t_from_status t = a \<and> legal_edge a (t_to_status t) \<and> status_chain (t_to_status t) ts b"

definition first_running :: "transition_row list \<Rightarrow> timestamp option" where
  "first_running ts = map_option t_created_at (find (\<lambda>t. t_to_status t = ''running'') ts)"

definition run_ok :: "transition_row list \<Rightarrow> run_row \<Rightarrow> bool" where
  "run_ok log r \<longleftrightarrow>
    contiguous (map t_seq log) \<and> status_chain ''draft'' log (r_status r) \<and>
    r_wall_started_at r = first_running log"

definition parents_ok :: "(uuid \<times> uuid option) list \<Rightarrow> bool" where
  "parents_ok ps \<longleftrightarrow>
    (\<forall>k < length ps. \<forall>p. snd (ps ! k) = Some p \<longrightarrow> p \<in> fst ` set (take k ps))"

definition parent_links :: "db \<Rightarrow> (uuid \<times> uuid option) list" where
  "parent_links d = map (\<lambda>r. (r_id r, r_parent_run_id r)) (runs d)"

definition runs_inv :: "db \<Rightarrow> bool" where
  "runs_inv d \<longleftrightarrow>
    distinct (map r_id (runs d)) \<and>
    (\<forall>r \<in> set (runs d). run_ok (transitions_of d (r_id r)) r) \<and>
    (\<forall>t \<in> set (run_transitions d). t_run_id t \<in> r_id ` set (runs d)) \<and>
    parents_ok (parent_links d)"

subsection \<open>Facts about the log\<close>

lemma status_chain_append:
  "status_chain a (ts @ us) b \<longleftrightarrow> (\<exists>m. status_chain a ts m \<and> status_chain m us b)"
  by (induction ts arbitrary: a) auto

lemma status_chain_snoc:
  "status_chain a ts m \<Longrightarrow> t_from_status t = m \<Longrightarrow> legal_edge m (t_to_status t) \<Longrightarrow>
   status_chain a (ts @ [t]) (t_to_status t)"
  by (auto simp: status_chain_append)

lemma first_running_snoc:
  "first_running (ts @ [t]) =
    (case first_running ts of
       Some x \<Rightarrow> Some x
     | None \<Rightarrow> if t_to_status t = ''running'' then Some (t_created_at t) else None)"
  by (induction ts) (auto simp: first_running_def)

lemma legal_edge_as_str [simp]:
  "legal_edge (status_as_str a) (status_as_str b) \<longleftrightarrow> can_transition_to a b"
  by (simp add: legal_edge_def status_codec.parse_as_str)

lemma status_as_str_running_iff [simp]: "status_as_str s = ''running'' \<longleftrightarrow> s = Running"
  by (cases s) simp_all

lemma status_chain_last_known:
  "status_chain a ts b \<Longrightarrow> status_parse a \<noteq> None \<Longrightarrow> status_parse b \<noteq> None"
  by (induction ts arbitrary: a) (auto simp: legal_edge_def split: option.splits)

lemma run_ok_status_known: "run_ok log r \<Longrightarrow> \<exists>s. r_status r = status_as_str s"
proof -
  assume "run_ok log r"
  then have "status_chain ''draft'' log (r_status r)"
    by (simp add: run_ok_def)
  moreover have "status_parse ''draft'' \<noteq> None"
    using status_codec.parse_as_str [of Draft] by simp
  ultimately show ?thesis
    using status_chain_last_known by (auto simp: status_codec.parse_Some_iff)
qed

subsection \<open>What a successful operation did\<close>

lemma transition_InrE:
  assumes "transition c i to_st reason d = Inr d'"
  obtains r from_st where
    "get_run_row d i = Some r" and "r_status r = status_as_str from_st"
    and "can_transition_to from_st to_st"
    and "max_seq (map t_seq (transitions_of d i)) \<noteq> i64_max"
    and "d' = d\<lparr>run_transitions := run_transitions d @
            [\<lparr>t_run_id = i, t_seq = max_seq (map t_seq (transitions_of d i)) + 1,
              t_from_status = status_as_str from_st, t_to_status = status_as_str to_st,
              t_reason = reason, t_created_at = db_now c\<rparr>],
          runs := row_upd r_id i (enter_status c to_st) (runs d)\<rparr>"
  using assms
  by (auto simp: transition_def Let_def status_codec.parse_Some_iff
      split: option.splits if_splits)

lemma create_InrE:
  assumes "create c i new d = Inr (j, d')"
  obtains "j = i" and "get_run_row d i = None"
    and "get_workspace_row d (nr_workspace_id new) \<noteq> None"
    and "\<And>p. nr_parent_run_id new = Some p \<Longrightarrow> p \<noteq> i \<Longrightarrow> p \<in> r_id ` set (runs d)"
    and "d' = d\<lparr>runs := runs d @ [\<lparr>r_id = i, r_workspace_id = nr_workspace_id new,
                r_parent_run_id = nr_parent_run_id new, r_objective = nr_objective new,
                r_mode = mode_as_str (nr_mode new), r_status = status_as_str Draft,
                r_wall_limit_secs = nr_wall_limit_secs new, r_wall_started_at = None,
                r_tokens_observed = 0, r_tokens_observed_at = None,
                r_created_at = db_now c, r_updated_at = db_now c\<rparr>]\<rparr>"
  using assms
  by (auto simp: create_def Let_def row_simps row_get_None_iff
      split: option.splits if_splits dest!: row_get_SomeD)

lemma observe_tokens_InrE:
  assumes "observe_tokens c i tot at d = Inr d'"
  obtains "i \<in> r_id ` set (runs d)"
    and "d' = d\<lparr>runs := row_upd r_id i
        (\<lambda>r. r\<lparr>r_tokens_observed := max (r_tokens_observed r) tot,
               r_tokens_observed_at := Some at, r_updated_at := db_now c\<rparr>) (runs d)\<rparr>"
  using assms by (auto simp: observe_tokens_def row_get_None_iff split: if_splits)

lemma enter_status_simps [simp]:
  "r_id (enter_status c s r) = r_id r"
  "r_parent_run_id (enter_status c s r) = r_parent_run_id r"
  "r_workspace_id (enter_status c s r) = r_workspace_id r"
  "r_status (enter_status c s r) = status_as_str s"
  "r_wall_limit_secs (enter_status c s r) = r_wall_limit_secs r"
  "r_tokens_observed (enter_status c s r) = r_tokens_observed r"
  by (simp_all add: enter_status_def)

lemma enter_status_wall:
  "r_wall_started_at (enter_status c s r) =
    (case r_wall_started_at r of
       Some t \<Rightarrow> Some t | None \<Rightarrow> if s = Running then Some (db_now c) else None)"
  by (simp add: enter_status_def split: option.split)

subsection \<open>Preservation\<close>

lemma transitions_of_snoc [simp]:
  "transitions_of (d\<lparr>run_transitions := run_transitions d @ [t]\<rparr>) i =
    transitions_of d i @ (if t_run_id t = i then [t] else [])"
  by (simp add: transitions_of_def)

lemma transitions_of_frame [simp]:
  "transitions_of (d\<lparr>runs := x\<rparr>) i = transitions_of d i"
  "transitions_of (d\<lparr>run_transitions := ts, runs := x\<rparr>) i = transitions_of (d\<lparr>run_transitions := ts\<rparr>) i"
  by (simp_all add: transitions_of_def)

lemma runs_inv_get: "runs_inv d \<Longrightarrow> get_run_row d i = Some r \<Longrightarrow> run_ok (transitions_of d i) r"
  by (auto simp: runs_inv_def dest!: row_get_SomeD)

lemma parent_links_row_upd [simp]:
  "(\<And>r. r_id (f r) = r_id r) \<Longrightarrow> (\<And>r. r_parent_run_id (f r) = r_parent_run_id r) \<Longrightarrow>
   parent_links (d\<lparr>runs := row_upd r_id i f (runs d)\<rparr>) = parent_links d"
  by (simp add: parent_links_def row_upd_def)

lemma run_ok_step:
  assumes "run_ok log r" and "r_status r = status_as_str from_st" and "can_transition_to from_st to_st"
    and "t_seq t = max_seq (map t_seq log) + 1" and "t_from_status t = status_as_str from_st"
    and "t_to_status t = status_as_str to_st" and "t_created_at t = db_now c"
  shows "run_ok (log @ [t]) (enter_status c to_st r)"
  using assms status_chain_snoc [of "''draft''" log "status_as_str from_st" t]
    contiguous_snoc [of "map t_seq log"]
  by (auto simp: run_ok_def first_running_snoc enter_status_wall split: option.split)

lemma transition_runs_inv [inv_intros]:
  assumes inv: "runs_inv d" and tr: "transition c i to_st reason d = Inr d'"
  shows "runs_inv d'"
proof -
  from tr obtain r from_st where
    r: "get_run_row d i = Some r" "r_status r = status_as_str from_st"
    and legal: "can_transition_to from_st to_st"
    and d': "d' = d\<lparr>run_transitions := run_transitions d @
            [\<lparr>t_run_id = i, t_seq = max_seq (map t_seq (transitions_of d i)) + 1,
              t_from_status = status_as_str from_st, t_to_status = status_as_str to_st,
              t_reason = reason, t_created_at = db_now c\<rparr>],
          runs := row_upd r_id i (enter_status c to_st) (runs d)\<rparr>"
    by (rule transition_InrE)
  have ids: "map r_id (runs d') = map r_id (runs d)"
    by (simp add: d' row_simps)
  then have id_set: "r_id ` set (runs d') = r_id ` set (runs d)"
    by (metis list.set_map)
  have ok: "run_ok (transitions_of d' (r_id x)) x" if x: "x \<in> set (runs d')" for x
  proof -
    from x obtain y where y: "y \<in> set (runs d)"
      and xy: "x = (if r_id y = i then enter_status c to_st y else y)"
      by (auto simp: d' set_row_upd)
    show ?thesis
    proof (cases "r_id y = i")
      case True
      with inv y r(1) have "y = r"
        using row_get_mem [of r_id "runs d" y] by (auto simp: runs_inv_def)
      with True xy r legal inv show ?thesis
        by (auto simp: d' intro!: run_ok_step dest: runs_inv_get)
    next
      case False
      with xy y inv show ?thesis
        by (auto simp: d' runs_inv_def)
    qed
  qed
  have links: "parent_links d' = parent_links d"
    by (simp add: parent_links_def d' row_upd_def)
  have fk: "\<forall>t \<in> set (run_transitions d'). t_run_id t \<in> r_id ` set (runs d')"
    using inv r(1) unfolding id_set by (auto simp: d' runs_inv_def dest!: row_get_SomeD)
  from inv ids ok links fk show ?thesis
    by (simp add: runs_inv_def)
qed

lemma observe_tokens_runs_inv [inv_intros]:
  assumes inv: "runs_inv d" and ob: "observe_tokens c i tot at d = Inr d'"
  shows "runs_inv d'"
proof -
  from ob have d': "d' = d\<lparr>runs := row_upd r_id i
        (\<lambda>r. r\<lparr>r_tokens_observed := max (r_tokens_observed r) tot,
               r_tokens_observed_at := Some at, r_updated_at := db_now c\<rparr>) (runs d)\<rparr>"
    by (rule observe_tokens_InrE)
  have ids: "map r_id (runs d') = map r_id (runs d)"
    by (simp add: d' row_simps)
  then have id_set: "r_id ` set (runs d') = r_id ` set (runs d)"
    by (metis list.set_map)
  have "\<forall>x \<in> set (runs d'). run_ok (transitions_of d' (r_id x)) x"
    using inv by (auto simp: d' runs_inv_def set_row_upd run_ok_def)
  moreover have "parent_links d' = parent_links d"
    by (simp add: d')
  moreover have "run_transitions d' = run_transitions d"
    by (simp add: d')
  ultimately show ?thesis
    using inv ids id_set by (simp add: runs_inv_def)
qed

lemma parents_ok_snoc:
  "parents_ok ps \<Longrightarrow> (\<And>p. q = Some p \<Longrightarrow> p \<in> fst ` set ps) \<Longrightarrow> parents_ok (ps @ [(i, q)])"
  by (auto simp: parents_ok_def nth_append less_Suc_eq)

lemma create_runs_inv [inv_intros]:
  assumes inv: "runs_inv d" and cr: "create c i new d = Inr (j, d')"
    and fresh: "nr_parent_run_id new \<noteq> Some i"
  shows "runs_inv d'"
  using cr
proof (rule create_InrE)
  assume none: "get_run_row d i = None"
    and parent: "\<And>p. nr_parent_run_id new = Some p \<Longrightarrow> p \<noteq> i \<Longrightarrow> p \<in> r_id ` set (runs d)"
    and d': "d' = d\<lparr>runs := runs d @ [\<lparr>r_id = i, r_workspace_id = nr_workspace_id new,
                r_parent_run_id = nr_parent_run_id new, r_objective = nr_objective new,
                r_mode = mode_as_str (nr_mode new), r_status = status_as_str Draft,
                r_wall_limit_secs = nr_wall_limit_secs new, r_wall_started_at = None,
                r_tokens_observed = 0, r_tokens_observed_at = None,
                r_created_at = db_now c, r_updated_at = db_now c\<rparr>]\<rparr>"
  from none have new_id: "i \<notin> r_id ` set (runs d)"
    by (simp add: row_get_None_iff)
  with inv have no_log: "transitions_of d i = []"
    by (auto simp: runs_inv_def transitions_of_def filter_empty_conv)
  have "parents_ok (parent_links d')"
    using inv fresh parent
    by (auto simp: d' parent_links_def runs_inv_def image_image intro!: parents_ok_snoc)
  with inv new_id no_log show ?thesis
    by (auto simp: d' runs_inv_def run_ok_def first_running_def)
qed

section \<open>Depth\<close>

fun ancestor :: "db \<Rightarrow> nat \<Rightarrow> uuid \<Rightarrow> uuid option" where
  "ancestor d 0 i = Some i"
| "ancestor d (Suc n) i =
    Option.bind (Option.bind (get_run_row d i) r_parent_run_id) (ancestor d n)"

text \<open>The specification of \<open>depth\<close>: the number of hops to the root of the parent chain.\<close>

definition root_at :: "db \<Rightarrow> uuid \<Rightarrow> nat \<Rightarrow> bool" where
  "root_at d i n \<longleftrightarrow>
    (\<exists>a r. ancestor d n i = Some a \<and> get_run_row d a = Some r \<and> r_parent_run_id r = None)"

lemma depth_loop_root_at:
  "root_at d i n \<Longrightarrow> depth_loop d i k = Some (Inr (k + int n))"
proof (induction n arbitrary: i k)
  case 0
  then show ?case by (auto simp: root_at_def depth_loop.simps)
next
  case (Suc n)
  from Suc.prems obtain r p where r: "get_run_row d i = Some r" "r_parent_run_id r = Some p"
    and p: "root_at d p n"
    by (auto simp: root_at_def bind_eq_Some_conv)
  from Suc.IH [OF p, of "k + 1"] r show ?case
    by (simp add: depth_loop.simps algebra_simps)
qed

lemma root_at_index:
  assumes inv: "runs_inv d" and k: "k < length (runs d)"
  shows "\<exists>n. n \<le> k \<and> root_at d (r_id (runs d ! k)) n"
  using k
proof (induction k rule: less_induct)
  case (less k)
  let ?r = "runs d ! k"
  have get: "get_run_row d (r_id ?r) = Some ?r"
    using inv less.prems by (intro row_get_mem) (auto simp: runs_inv_def)
  show ?case
  proof (cases "r_parent_run_id ?r")
    case None
    with get have "root_at d (r_id ?r) 0"
      by (simp add: root_at_def)
    then show ?thesis
      by blast
  next
    case (Some p)
    with inv less.prems have "p \<in> fst ` set (take k (parent_links d))"
      by (auto simp: runs_inv_def parents_ok_def parent_links_def)
    then obtain j where j: "j < k" "r_id (runs d ! j) = p"
      using less.prems by (auto simp: parent_links_def take_map in_set_conv_nth)
    from less.IH [OF j(1)] j less.prems obtain n where "n \<le> j" "root_at d p n"
      by auto
    with get Some j(1) show ?thesis
      by (intro exI [of _ "Suc n"]) (auto simp: root_at_def)
  qed
qed

lemma depth_returns:
  assumes "runs_inv d" and "get_run_row d i = Some r"
  shows "\<exists>n. n < length (runs d) \<and> depth d i = Some (Inr (int n)) \<and> root_at d i n"
proof -
  from assms(2) obtain k where k: "k < length (runs d)" "r_id (runs d ! k) = i"
    by (auto dest!: row_get_SomeD simp: in_set_conv_nth)
  from root_at_index [OF assms(1) k(1)] k obtain n where "n \<le> k" "root_at d i n"
    by auto
  then show ?thesis
    using k(1) by (auto simp: depth_def depth_loop_root_at intro!: exI [of _ n])
qed

section \<open>Read models\<close>

lemma take_sorted_rest:
  assumes "sorted (map f xs)" and "x \<in> set (take n xs)" and "y \<in> set (drop n xs)"
  shows "f x \<le> f y"
proof -
  have "sorted (map f (take n xs) @ map f (drop n xs))"
    using assms(1) by (simp flip: map_append)
  then show ?thesis
    using assms(2,3) by (auto simp: sorted_append)
qed

definition is_added :: "string \<Rightarrow> bool" where
  "is_added l \<longleftrightarrow> prefix ''+'' l \<and> \<not> prefix ''+++'' l"

definition is_removed :: "string \<Rightarrow> bool" where
  "is_removed l \<longleftrightarrow> prefix ''-'' l \<and> \<not> prefix ''---'' l"

lemma count_line_foldl:
  "foldl count_line (a, b) ls =
    (a + int (length (filter is_added ls)), b + int (length (filter is_removed ls)))"
proof (induction ls arbitrary: a b)
  case (Cons l ls)
  show ?case
    by (cases l) (auto simp: Cons is_added_def is_removed_def)
qed simp

subsection \<open>The commit line the executor writes\<close>

lemma take_token_plain:
  "list_all plain_char tok \<Longrightarrow> take_token (tok @ CHR '' '' # rest) = tok"
  by (induction tok) (simp_all add: ws_len_plain ws_len_space)

lemma commit_sha_roundtrip:
  assumes "sha \<noteq> []" and "list_all plain_char sha"
  shows "commit_sha_from_content (sha @ '' '' @ msg) = Some sha"
proof -
  have "skip_ws (sha @ '' '' @ msg) = sha @ '' '' @ msg"
    using assms by (subst skip_ws.simps) (cases sha, auto simp: ws_len_plain)
  with assms take_token_plain [of sha msg] show ?thesis
    by (cases sha) (auto simp: commit_sha_from_content_def)
qed

section \<open>Properties\<close>

text \<open>
  A transition, on every branch: an unknown run, a status outside the enum and an edge outside the
  table are refused with the error of that case; a legal one appends one row to the run's log, with
  the next number and both statuses, and sets the status; no other run and no other log changes.
\<close>

theorem transition_spec:
  "(case get_run_row d i of
      None \<Rightarrow> transition c i s reason d = Inl (RunNotFound i)
    | Some r \<Rightarrow> (case status_parse (r_status r) of
          None \<Rightarrow> transition c i s reason d = Inl (CorruptStatus i)
        | Some from \<Rightarrow>
            if \<not> can_transition_to from s then transition c i s reason d = Inl (IllegalTransition from s)
            else if max_seq (map t_seq (transitions_of d i)) = i64_max
            then transition c i s reason d = Inl (RunDb NumericOutOfRange)
            else \<exists>d'. transition c i s reason d = Inr d' \<and>
              transitions_of d' i = transitions_of d i @
                [\<lparr>t_run_id = i, t_seq = max_seq (map t_seq (transitions_of d i)) + 1,
                  t_from_status = r_status r, t_to_status = status_as_str s, t_reason = reason,
                  t_created_at = db_now c\<rparr>] \<and>
              map_option r_status (get_run_row d' i) = Some (status_as_str s) \<and>
              (\<forall>j. j \<noteq> i \<longrightarrow> get_run_row d' j = get_run_row d j \<and> transitions_of d' j = transitions_of d j)))"
proof (cases "get_run_row d i")
  case (Some r)
  show ?thesis
  proof (cases "status_parse (r_status r)")
    case (Some st)
    then have "r_status r = status_as_str st"
      by (simp add: status_codec.parse_Some_iff)
    with Some \<open>get_run_row d i = Some r\<close> show ?thesis
      by (simp add: transition_def Let_def row_simps)
  qed (simp add: transition_def Some)
qed (simp add: transition_def)

theorem transition_spec_witness:
  "transition sample_clock 1 Ready ''skip'' (sample_db [sample_run 1 Draft] []) = Inl (IllegalTransition Draft Ready)"
  using transition_spec [where d = "sample_db [sample_run 1 Draft] []" and i = 1 and s = Ready
      and c = sample_clock and reason = "''skip''"]
  by (simp add: sample_defs status_parse_def can_transition_to_def)

text \<open>
  The wall clock is write-once: a transition into \<open>running\<close> starts it when it was not started, and
  no transition and no token observation changes it once it is.
\<close>

theorem wall_clock_write_once:
  assumes "get_run_row d i = Some r"
    and "transition c j s reason d = Inr d' \<or> observe_tokens c j tot at d = Inr d'"
  shows "\<exists>r'. get_run_row d' i = Some r' \<and>
    (\<forall>t. r_wall_started_at r = Some t \<longrightarrow> r_wall_started_at r' = Some t)"
  using assms(2)
proof
  assume "transition c j s reason d = Inr d'"
  then show ?thesis
    by (rule transition_InrE) (use assms(1) in \<open>auto simp: row_simps enter_status_wall\<close>)
next
  assume "observe_tokens c j tot at d = Inr d'"
  then show ?thesis
    by (rule observe_tokens_InrE) (use assms(1) in \<open>auto simp: row_simps\<close>)
qed

theorem wall_clock_write_once_witness:
  "\<exists>r'. get_run_row (projr (transition sample_clock 1 Running ''resume''
       (sample_db [(sample_run 1 Paused)\<lparr>r_wall_started_at := Some 3\<rparr>] []))) 1 = Some r' \<and>
     r_wall_started_at r' = Some 3"
proof -
  let ?d = "sample_db [(sample_run 1 Paused)\<lparr>r_wall_started_at := Some 3\<rparr>] []"
  have "get_run_row ?d 1 = Some ((sample_run 1 Paused)\<lparr>r_wall_started_at := Some 3\<rparr>)"
    by (simp add: sample_defs)
  moreover have "transition sample_clock 1 Running ''resume'' ?d =
      Inr (projr (transition sample_clock 1 Running ''resume'' ?d))"
    by (simp add: transition_def Let_def sample_defs status_parse_def can_transition_to_def transitions_of_def)
  ultimately show ?thesis
    using wall_clock_write_once by fastforce
qed

text \<open>
  Token observations never lower the total and never touch status, wall clock or log; but an
  observation below the recorded total still overwrites the time of the observation.
\<close>

theorem observe_tokens_monotone:
  assumes "get_run_row d i = Some r"
  shows "\<exists>d' r'. observe_tokens c i tot at d = Inr d' \<and> get_run_row d' i = Some r' \<and>
    r_tokens_observed r' = max (r_tokens_observed r) tot \<and> r_tokens_observed_at r' = Some at \<and>
    r_status r' = r_status r \<and> r_wall_started_at r' = r_wall_started_at r \<and>
    run_transitions d' = run_transitions d"
  using assms by (auto simp: observe_tokens_def row_simps)

theorem observe_tokens_monotone_witness:
  "\<exists>d' r'. observe_tokens sample_clock 1 5 99 (sample_db [(sample_run 1 Running)\<lparr>r_tokens_observed := 40\<rparr>] []) = Inr d' \<and>
     get_run_row d' 1 = Some r' \<and> r_tokens_observed r' = 40 \<and> r_tokens_observed_at r' = Some 99"
proof -
  have "get_run_row (sample_db [(sample_run 1 Running)\<lparr>r_tokens_observed := 40\<rparr>] []) 1 =
      Some ((sample_run 1 Running)\<lparr>r_tokens_observed := 40\<rparr>)"
    by (simp add: sample_defs)
  from observe_tokens_monotone [OF this, of sample_clock 5 99] show ?thesis
    by (auto simp: sample_run_def)
qed

text \<open>
  The list of a workspace's runs has at most 200 entries, only runs of that workspace, and leaves
  out a run only if no listed run was updated less recently.
\<close>

theorem list_for_workspace_recent:
  "length (list_for_workspace d w) \<le> 200 \<and>
   (\<forall>x \<in> set (list_for_workspace d w). \<exists>r \<in> set (runs d). r_workspace_id r = w \<and> x = run_summary r) \<and>
   (\<forall>r \<in> set (runs d). r_workspace_id r = w \<longrightarrow> run_summary r \<notin> set (list_for_workspace d w) \<longrightarrow>
      (\<forall>x \<in> set (list_for_workspace d w). r_updated_at r \<le> rs_updated_at x))"
proof -
  let ?xs = "sort_key (\<lambda>r. - r_updated_at r) (filter (\<lambda>r. r_workspace_id r = w) (runs d))"
  have listed: "list_for_workspace d w = map run_summary (take 200 ?xs)"
    by (simp add: list_for_workspace_def)
  have "r_updated_at r \<le> rs_updated_at x" if r: "r \<in> set (runs d)" "r_workspace_id r = w"
    and out: "run_summary r \<notin> set (list_for_workspace d w)" and x: "x \<in> set (list_for_workspace d w)" for r x
  proof -
    have "r \<in> set (take 200 ?xs @ drop 200 ?xs)"
      using r by simp
    then have "r \<in> set (drop 200 ?xs)"
      using out unfolding listed set_append by auto
    moreover obtain y where "y \<in> set (take 200 ?xs)" "x = run_summary y"
      using x unfolding listed by auto
    ultimately show ?thesis
      using take_sorted_rest [of "\<lambda>r. - r_updated_at r" ?xs y 200 r] by (simp add: run_summary_def)
  qed
  moreover have "\<exists>r \<in> set (runs d). r_workspace_id r = w \<and> x = run_summary r"
    if "x \<in> set (list_for_workspace d w)" for x
    using that unfolding listed by (auto dest!: in_set_takeD)
  ultimately show ?thesis
    by (auto simp: listed)
qed

theorem list_for_workspace_recent_witness:
  "length (list_for_workspace (sample_db [sample_run 1 Draft] []) 7) \<le> 200 \<and>
   list_for_workspace (sample_db [sample_run 1 Draft] []) 7 = [run_summary (sample_run 1 Draft)]"
  using list_for_workspace_recent [of "sample_db [sample_run 1 Draft] []" 7]
  by (simp add: list_for_workspace_def sample_defs)

text \<open>
  The commit id shown for a worktree is the one the executor recorded: from the text of a commit
  entry, an id without blanks, a space and any message, the read model extracts that id. And the
  line counts of a diff are the numbers of its \<open>+\<close> and \<open>-\<close> lines that are not file headers.
\<close>

theorem worktree_read_model:
  assumes "sha \<noteq> []" and "list_all plain_char sha"
  shows "commit_sha_from_content (sha @ '' '' @ msg) = Some sha \<and>
    count_diff_lines diff =
      (int (length (filter is_added (str_lines diff))), int (length (filter is_removed (str_lines diff))))"
  using commit_sha_roundtrip [OF assms] by (simp add: count_diff_lines_def count_line_foldl)

theorem worktree_read_model_witness:
  "commit_sha_from_content ''a1b2 Fix the bug'' = Some ''a1b2'' \<and>
   count_diff_lines (''--- a'' @ [CHR 0x0A] @ ''+new'' @ [CHR 0x0A]) = (1, 0)"
proof -
  have "list_all plain_char ''a1b2''"
    by (simp add: plain_char_def)
  with worktree_read_model [of "''a1b2''" "''Fix the bug''" "''--- a'' @ [CHR 0x0A] @ ''+new'' @ [CHR 0x0A]"]
  show ?thesis
    by (simp add: str_lines_def is_added_def is_removed_def)
qed

end
