(* ===== verification/Coord_Binding.thy ===== *)
theory Coord_Binding
  imports Coord_Run Coord_Sample
begin

text \<open>
  \<open>vingilot/coordinator/coordinator/src/binding.rs\<close>: worktree bindings, grants, leases, and the
  per-operation fencing check.
\<close>

section \<open>Definitions\<close>

text \<open>
  \<open>LeasePanic\<close> is not a value of the source's error type: it is the panic of
  \<open>Utc::now() + Duration::seconds(ttl)\<close> on a \<open>ttl\<close> the library cannot represent.
\<close>

datatype binding_error =
    BindingNotFound uuid
  | StaleEpoch uuid i64 i64
  | WritableLimitExceeded
  | BindingDb db_error
  | LeasePanic

datatype op_denied =
    OpNotFound uuid
  | WrongRun uuid uuid
  | NotReady uuid
  | OpStaleEpoch uuid i64 i64
  | LeaseExpired uuid
  | OpDb db_error

record lease =
  l_binding_id :: uuid
  l_epoch :: i64
  l_expires_at :: timestamp

definition create_binding ::
  "clock \<Rightarrow> uuid \<Rightarrow> uuid \<Rightarrow> string \<Rightarrow> string \<Rightarrow> string \<Rightarrow> string \<Rightarrow> string option \<Rightarrow> string \<Rightarrow> db
    \<Rightarrow> binding_error + uuid \<times> db" where
  "create_binding c i run_id repo_id target_id role base_commit branch key d =
    (if role \<noteq> ''primary'' \<and> role \<noteq> ''task''
     then Inl (BindingDb (CheckViolation ''worktree_bindings_role_check''))
     else case row_get b_idempotency_key key (worktree_bindings d) of
         Some existing \<Rightarrow> Inr (b_id existing, d)
       | None \<Rightarrow>
           if get_binding_row d i \<noteq> None
           then Inl (BindingDb (UniqueViolation ''worktree_bindings_pkey''))
           else if get_run_row d run_id = None
           then Inl (BindingDb (ForeignKeyViolation ''worktree_bindings_owner_run_id_fkey''))
           else Inr (i, d\<lparr>worktree_bindings := worktree_bindings d @
             [\<lparr>b_id = i, b_repo_id = repo_id, b_target_id = target_id, b_role = role,
               b_base_commit = base_commit, b_branch = branch, b_lifecycle = ''ready'',
               b_owner_run_id = Some run_id, b_epoch = 0, b_lease_expires_at = None,
               b_idempotency_key = key, b_created_at = db_now c, b_updated_at = db_now c\<rparr>]\<rparr>))"

text \<open>
  \<open>grant\<close>: an upsert on \<open>(run_id, binding_id)\<close>, against the partial unique index
  \<open>one_writable_per_run\<close>, then the foreign keys of a new row.
\<close>

definition grant :: "uuid \<Rightarrow> uuid \<Rightarrow> access \<Rightarrow> db \<Rightarrow> binding_error + db" where
  "grant run_id binding_id access d =
    (let gs = run_worktree_grants d; key = (\<lambda>g. (g_run_id g, g_binding_id g))
     in if access = Write \<and>
           (\<exists>g \<in> set gs. g_run_id g = run_id \<and> g_binding_id g \<noteq> binding_id \<and> g_access g = ''write'')
        then Inl WritableLimitExceeded
        else if row_get key (run_id, binding_id) gs \<noteq> None
        then Inr (d\<lparr>run_worktree_grants :=
                row_upd key (run_id, binding_id) (\<lambda>g. g\<lparr>g_access := access_as_str access\<rparr>) gs\<rparr>)
        else if get_run_row d run_id = None
        then Inl (BindingDb (ForeignKeyViolation ''run_worktree_grants_run_id_fkey''))
        else if get_binding_row d binding_id = None
        then Inl (BindingDb (ForeignKeyViolation ''run_worktree_grants_binding_id_fkey''))
        else Inr (d\<lparr>run_worktree_grants := gs @
                [\<lparr>g_run_id = run_id, g_binding_id = binding_id, g_access = access_as_str access\<rparr>]\<rparr>))"

definition acquire_lease :: "clock \<Rightarrow> uuid \<Rightarrow> i64 \<Rightarrow> db \<Rightarrow> binding_error + lease \<times> db" where
  "acquire_lease c binding_id ttl_secs d =
    (case utc_plus c ttl_secs of
       None \<Rightarrow> Inl LeasePanic
     | Some expires_at \<Rightarrow>
         (case get_binding_row d binding_id of
            None \<Rightarrow> Inl (BindingNotFound binding_id)
          | Some b \<Rightarrow>
              if b_epoch b = i64_max then Inl (BindingDb NumericOutOfRange)
              else Inr (\<lparr>l_binding_id = binding_id, l_epoch = b_epoch b + 1,
                         l_expires_at = expires_at\<rparr>,
                d\<lparr>worktree_bindings := row_upd b_id binding_id
                   (\<lambda>b. b\<lparr>b_epoch := b_epoch b + 1, b_lease_expires_at := Some expires_at,
                          b_updated_at := db_now c\<rparr>) (worktree_bindings d)\<rparr>)))"

definition renew_lease :: "clock \<Rightarrow> uuid \<Rightarrow> i64 \<Rightarrow> i64 \<Rightarrow> db \<Rightarrow> binding_error + lease \<times> db" where
  "renew_lease c binding_id epoch ttl_secs d =
    (case get_binding_row d binding_id of
       None \<Rightarrow> Inl (BindingNotFound binding_id)
     | Some b \<Rightarrow>
         if b_epoch b \<noteq> epoch then Inl (StaleEpoch binding_id (b_epoch b) epoch)
         else (case utc_plus c ttl_secs of
            None \<Rightarrow> Inl LeasePanic
          | Some expires_at \<Rightarrow>
              Inr (\<lparr>l_binding_id = binding_id, l_epoch = epoch, l_expires_at = expires_at\<rparr>,
                d\<lparr>worktree_bindings := row_upd b_id binding_id
                   (\<lambda>b. b\<lparr>b_lease_expires_at := Some expires_at, b_updated_at := db_now c\<rparr>)
                   (worktree_bindings d)\<rparr>)))"

definition validate_op :: "clock \<Rightarrow> uuid \<Rightarrow> uuid \<Rightarrow> i64 \<Rightarrow> db \<Rightarrow> op_denied + unit" where
  "validate_op c run_id binding_id epoch d =
    (case get_binding_row d binding_id of
       None \<Rightarrow> Inl (OpNotFound binding_id)
     | Some b \<Rightarrow>
         if b_owner_run_id b \<noteq> Some run_id then Inl (WrongRun run_id binding_id)
         else if b_lifecycle b \<noteq> ''ready'' then Inl (NotReady binding_id)
         else if b_epoch b \<noteq> epoch then Inl (OpStaleEpoch binding_id (b_epoch b) epoch)
         else (case b_lease_expires_at b of
            Some expires_at \<Rightarrow> if expires_at > utc_now c then Inr () else Inl (LeaseExpired binding_id)
          | None \<Rightarrow> Inl (LeaseExpired binding_id)))"

section \<open>The invariant of bindings and grants\<close>

definition binding_ok :: "db \<Rightarrow> binding_row \<Rightarrow> bool" where
  "binding_ok d b \<longleftrightarrow>
    b_role b \<in> {''primary'', ''task''} \<and>
    b_lifecycle b \<in> {''provisioning'', ''ready'', ''quarantined'', ''removed''} \<and>
    0 \<le> b_epoch b \<and> b_epoch b \<le> i64_max \<and>
    (\<forall>r. b_owner_run_id b = Some r \<longrightarrow> r \<in> r_id ` set (runs d))"

definition one_writable_per_run :: "db \<Rightarrow> bool" where
  "one_writable_per_run d \<longleftrightarrow>
    (\<forall>g \<in> set (run_worktree_grants d). \<forall>h \<in> set (run_worktree_grants d).
       g_run_id g = g_run_id h \<longrightarrow> g_access g = ''write'' \<longrightarrow> g_access h = ''write'' \<longrightarrow>
       g_binding_id g = g_binding_id h)"

definition grants_inv :: "db \<Rightarrow> bool" where
  "grants_inv d \<longleftrightarrow>
    distinct (map (\<lambda>g. (g_run_id g, g_binding_id g)) (run_worktree_grants d)) \<and>
    (\<forall>g \<in> set (run_worktree_grants d).
       g_run_id g \<in> r_id ` set (runs d) \<and> g_binding_id g \<in> b_id ` set (worktree_bindings d) \<and>
       access_parse (g_access g) \<noteq> None) \<and>
    one_writable_per_run d"

definition bindings_inv :: "db \<Rightarrow> bool" where
  "bindings_inv d \<longleftrightarrow>
    distinct (map b_id (worktree_bindings d)) \<and>
    distinct (map b_idempotency_key (worktree_bindings d)) \<and>
    (\<forall>b \<in> set (worktree_bindings d). binding_ok d b)"

section \<open>What a successful operation did\<close>

lemma create_binding_InrE:
  assumes "create_binding c i run_id repo target role base branch key d = Inr (j, d')"
  obtains
    (existing) b where "row_get b_idempotency_key key (worktree_bindings d) = Some b"
      and "j = b_id b" and "d' = d"
  | (fresh) "row_get b_idempotency_key key (worktree_bindings d) = None"
      and "get_binding_row d i = None" and "get_run_row d run_id \<noteq> None" and "j = i"
      and "role = ''primary'' \<or> role = ''task''"
      and "d' = d\<lparr>worktree_bindings := worktree_bindings d @
             [\<lparr>b_id = i, b_repo_id = repo, b_target_id = target, b_role = role,
               b_base_commit = base, b_branch = branch, b_lifecycle = ''ready'',
               b_owner_run_id = Some run_id, b_epoch = 0, b_lease_expires_at = None,
               b_idempotency_key = key, b_created_at = db_now c, b_updated_at = db_now c\<rparr>]\<rparr>"
  using assms by (auto simp: create_binding_def split: if_splits option.splits)

lemma acquire_lease_InrE:
  assumes "acquire_lease c i ttl d = Inr (l, d')"
  obtains b t where "get_binding_row d i = Some b" and "utc_plus c ttl = Some t"
    and "b_epoch b \<noteq> i64_max" and "l = \<lparr>l_binding_id = i, l_epoch = b_epoch b + 1, l_expires_at = t\<rparr>"
    and "d' = d\<lparr>worktree_bindings := row_upd b_id i
                   (\<lambda>b. b\<lparr>b_epoch := b_epoch b + 1, b_lease_expires_at := Some t,
                          b_updated_at := db_now c\<rparr>) (worktree_bindings d)\<rparr>"
  using assms by (auto simp: acquire_lease_def split: if_splits option.splits)

lemma renew_lease_InrE:
  assumes "renew_lease c i ep ttl d = Inr (l, d')"
  obtains b t where "get_binding_row d i = Some b" and "b_epoch b = ep" and "utc_plus c ttl = Some t"
    and "l = \<lparr>l_binding_id = i, l_epoch = ep, l_expires_at = t\<rparr>"
    and "d' = d\<lparr>worktree_bindings := row_upd b_id i
                   (\<lambda>b. b\<lparr>b_lease_expires_at := Some t, b_updated_at := db_now c\<rparr>)
                   (worktree_bindings d)\<rparr>"
  using assms by (auto simp: renew_lease_def split: if_splits option.splits)

text \<open>The fencing check, as the conjunction of its conditions.\<close>

lemma validate_op_Inr_iff:
  "validate_op c run_id i ep d = Inr () \<longleftrightarrow>
    (\<exists>b t. get_binding_row d i = Some b \<and> b_owner_run_id b = Some run_id \<and>
       b_lifecycle b = ''ready'' \<and> b_epoch b = ep \<and> b_lease_expires_at b = Some t \<and> utc_now c < t)"
  by (auto simp: validate_op_def split: option.split if_splits)

section \<open>Preservation\<close>

lemma binding_ok_frame:
  "r_id ` set (runs d) \<subseteq> r_id ` set (runs d') \<Longrightarrow> binding_ok d b \<Longrightarrow> binding_ok d' b"
  by (auto simp: binding_ok_def)

lemma bindings_inv_row_upd:
  assumes inv: "bindings_inv d"
    and f: "\<And>b. b_id (f b) = b_id b" "\<And>b. b_idempotency_key (f b) = b_idempotency_key b"
    and ok: "\<And>b. b \<in> set (worktree_bindings d) \<Longrightarrow> b_id b = i \<Longrightarrow> binding_ok d b \<Longrightarrow> binding_ok d (f b)"
  shows "bindings_inv (d\<lparr>worktree_bindings := row_upd b_id i f (worktree_bindings d)\<rparr>)"
    (is "bindings_inv ?d'")
proof -
  have "binding_ok ?d' b" if "b \<in> set (worktree_bindings ?d')" for b
    using that inv ok binding_ok_frame [of d ?d'] by (auto simp: set_row_upd bindings_inv_def)
  then show ?thesis
    using inv f by (simp add: bindings_inv_def row_simps)
qed

lemma create_binding_bindings_inv [inv_intros]:
  assumes inv: "bindings_inv d"
    and cr: "create_binding c i run_id repo target role base branch key d = Inr (j, d')"
  shows "bindings_inv d'"
  using cr
proof (cases rule: create_binding_InrE)
  case (existing b)
  with inv show ?thesis by simp
next
  case fresh
  with inv show ?thesis
    by (auto simp: bindings_inv_def binding_ok_def row_get_None_iff dest!: row_get_SomeD)
qed

lemma acquire_lease_bindings_inv [inv_intros]:
  assumes inv: "bindings_inv d" and acq: "acquire_lease c i ttl d = Inr (l, d')"
  shows "bindings_inv d'"
  using acq
proof (rule acquire_lease_InrE)
  fix b t
  assume b: "get_binding_row d i = Some b" "b_epoch b \<noteq> i64_max"
    and d': "d' = d\<lparr>worktree_bindings := row_upd b_id i
                   (\<lambda>b. b\<lparr>b_epoch := b_epoch b + 1, b_lease_expires_at := Some t,
                          b_updated_at := db_now c\<rparr>) (worktree_bindings d)\<rparr>"
  have "x = b" if "x \<in> set (worktree_bindings d)" "b_id x = i" for x
    using that b(1) inv row_get_mem [of b_id "worktree_bindings d" x] by (auto simp: bindings_inv_def)
  then show ?thesis
    unfolding d' using inv b(2) by (intro bindings_inv_row_upd) (auto simp: binding_ok_def)
qed

lemma renew_lease_bindings_inv [inv_intros]:
  assumes inv: "bindings_inv d" and "renew_lease c i ep ttl d = Inr (l, d')"
  shows "bindings_inv d'"
  using assms(2)
proof (rule renew_lease_InrE)
  fix t
  assume d': "d' = d\<lparr>worktree_bindings := row_upd b_id i
                   (\<lambda>b. b\<lparr>b_lease_expires_at := Some t, b_updated_at := db_now c\<rparr>)
                   (worktree_bindings d)\<rparr>"
  show ?thesis
    unfolding d' using inv by (intro bindings_inv_row_upd) (auto simp: binding_ok_def)
qed

lemma bindings_inv_frame:
  assumes "bindings_inv d" and "worktree_bindings d' = worktree_bindings d"
    and "r_id ` set (runs d) \<subseteq> r_id ` set (runs d')"
  shows "bindings_inv d'"
  using assms(1) binding_ok_frame [OF assms(3)] unfolding bindings_inv_def assms(2) by simp

lemma grants_inv_frame:
  assumes "grants_inv d" and "run_worktree_grants d' = run_worktree_grants d"
    and "r_id ` set (runs d) \<subseteq> r_id ` set (runs d')"
    and "b_id ` set (worktree_bindings d) \<subseteq> b_id ` set (worktree_bindings d')"
  shows "grants_inv d'"
  using assms(1,3,4) unfolding grants_inv_def one_writable_per_run_def assms(2) by blast

lemma access_as_str_write_iff [simp]: "access_as_str a = ''write'' \<longleftrightarrow> a = Write"
  by (cases a) simp_all

lemma one_writable_extend:
  assumes old: "one_writable_per_run d"
    and sub: "\<And>x. x \<in> set (run_worktree_grants d') \<Longrightarrow> x \<in> set (run_worktree_grants d) \<or>
        g_run_id x = r \<and> g_binding_id x = i \<and> g_access x = access_as_str acc"
    and solo: "\<And>g. acc = Write \<Longrightarrow> g \<in> set (run_worktree_grants d) \<Longrightarrow> g_run_id g = r \<Longrightarrow>
        g_access g = ''write'' \<Longrightarrow> g_binding_id g = i"
  shows "one_writable_per_run d'"
  unfolding one_writable_per_run_def
proof (intro ballI impI)
  fix g h
  assume g: "g \<in> set (run_worktree_grants d')" "g_access g = ''write''"
    and h: "h \<in> set (run_worktree_grants d')" "g_access h = ''write''"
    and eq: "g_run_id g = g_run_id h"
  show "g_binding_id g = g_binding_id h"
  proof (cases "g \<in> set (run_worktree_grants d) \<and> h \<in> set (run_worktree_grants d)")
    case True
    with old g(2) h(2) eq show ?thesis
      unfolding one_writable_per_run_def by blast
  next
    case False
    with sub [OF g(1)] sub [OF h(1)] g(2) h(2) eq have "acc = Write" "g_run_id g = r" "g_run_id h = r"
      by (metis access_as_str_write_iff)+
    then have "x \<in> set (run_worktree_grants d') \<Longrightarrow> g_run_id x = r \<Longrightarrow> g_access x = ''write'' \<Longrightarrow>
        g_binding_id x = i" for x
      using sub [of x] solo [of x] by blast
    from this [of g] this [of h] g h \<open>g_run_id g = r\<close> \<open>g_run_id h = r\<close> show ?thesis
      by simp
  qed
qed

lemma grant_grants_inv [inv_intros]:
  assumes inv: "grants_inv d" and gr: "grant run_id i acc d = Inr d'"
  shows "grants_inv d'"
proof -
  let ?key = "\<lambda>g. (g_run_id g, g_binding_id g)"
  let ?gs = "run_worktree_grants d"
  have solo: "acc = Write \<Longrightarrow> g \<in> set ?gs \<Longrightarrow> g_run_id g = run_id \<Longrightarrow> g_access g = ''write'' \<Longrightarrow>
      g_binding_id g = i" for g
    using gr by (auto simp: grant_def Let_def split: if_splits)
  show ?thesis
  proof (cases "row_get ?key (run_id, i) ?gs = None")
    case True
    with gr have d': "d' = d\<lparr>run_worktree_grants := ?gs @
          [\<lparr>g_run_id = run_id, g_binding_id = i, g_access = access_as_str acc\<rparr>]\<rparr>"
      and fk: "run_id \<in> r_id ` set (runs d)" "i \<in> b_id ` set (worktree_bindings d)"
      by (auto simp: grant_def Let_def row_get_None_iff split: if_splits)
    have "distinct (map ?key (run_worktree_grants d'))"
      using inv True by (auto simp: d' grants_inv_def row_get_None_iff)
    moreover have "\<forall>g \<in> set (run_worktree_grants d').
       g_run_id g \<in> r_id ` set (runs d') \<and> g_binding_id g \<in> b_id ` set (worktree_bindings d') \<and>
       access_parse (g_access g) \<noteq> None"
      using inv fk by (simp add: d' grants_inv_def access_codec.parse_as_str)
    moreover have "one_writable_per_run d'"
      using inv solo by (intro one_writable_extend [of d d' run_id i acc]) (auto simp: d' grants_inv_def)
    ultimately show ?thesis
      by (simp add: grants_inv_def)
  next
    case False
    with gr have d': "d' = d\<lparr>run_worktree_grants :=
        row_upd ?key (run_id, i) (\<lambda>g. g\<lparr>g_access := access_as_str acc\<rparr>) ?gs\<rparr>"
      by (auto simp: grant_def Let_def split: if_splits)
    have "distinct (map ?key (run_worktree_grants d'))"
      using inv by (simp add: d' grants_inv_def row_simps)
    moreover have "\<forall>g \<in> set (run_worktree_grants d').
       g_run_id g \<in> r_id ` set (runs d') \<and> g_binding_id g \<in> b_id ` set (worktree_bindings d') \<and>
       access_parse (g_access g) \<noteq> None"
      using inv by (auto simp: d' grants_inv_def set_row_upd access_codec.parse_as_str)
    moreover have "one_writable_per_run d'"
      using inv solo
      by (intro one_writable_extend [of d d' run_id i acc])
        (auto simp: d' grants_inv_def set_row_upd split: if_splits)
    ultimately show ?thesis
      by (simp add: grants_inv_def)
  qed
qed

section \<open>Epochs\<close>

definition epoch_of :: "uuid \<Rightarrow> db \<Rightarrow> i64 option" where
  "epoch_of i d = map_option b_epoch (get_binding_row d i)"

lemma validate_op_epoch:
  "validate_op c run_id i ep d = Inr () \<Longrightarrow> epoch_of i d = Some ep"
  by (auto simp: validate_op_Inr_iff epoch_of_def)

lemma epoch_of_frame:
  "worktree_bindings d' = worktree_bindings d \<Longrightarrow> epoch_of i d' = epoch_of i d"
  by (simp add: epoch_of_def)

lemma acquire_lease_epoch:
  assumes "acquire_lease c i ttl d = Inr (l, d')"
  shows "epoch_of i d' = Some (l_epoch l)" and "epoch_of i d = Some (l_epoch l - 1)"
    and "j \<noteq> i \<Longrightarrow> epoch_of j d' = epoch_of j d"
  using assms by (auto elim!: acquire_lease_InrE simp: epoch_of_def row_simps)

lemma renew_lease_epoch:
  assumes "renew_lease c i ep ttl d = Inr (l, d')"
  shows "epoch_of j d' = epoch_of j d"
  using assms
  by (auto elim!: renew_lease_InrE simp: epoch_of_def row_simps option.map_comp comp_def)

lemma create_binding_epoch:
  assumes "create_binding c i run_id repo target role base branch key d = Inr (j, d')"
    and "epoch_of k d = Some e"
  shows "epoch_of k d' = Some e"
  using assms(1)
  by (cases rule: create_binding_InrE)
    (use assms(2) in \<open>auto simp: epoch_of_def row_simps split: option.splits\<close>)

section \<open>Properties\<close>

text \<open>
  The fencing check lets an operation through exactly when the binding exists, is owned by that
  run, is \<open>ready\<close>, carries the epoch presented and its lease has not expired. In particular it does
  not read the grants.
\<close>

theorem validate_op_spec:
  "validate_op c run_id i ep d = Inr () \<longleftrightarrow>
    (\<exists>b t. get_binding_row d i = Some b \<and> b_owner_run_id b = Some run_id \<and>
       b_lifecycle b = ''ready'' \<and> b_epoch b = ep \<and> b_lease_expires_at b = Some t \<and> utc_now c < t)"
  by (rule validate_op_Inr_iff)

text \<open>
  Creating a binding is idempotent in its key: once it succeeded, a second call with the same key
  and a known role returns the same id, whatever id it drew and whatever the other arguments, and
  writes nothing.
\<close>

theorem create_binding_idempotent:
  assumes "create_binding c i run_id repo target role base branch key d = Inr (j, d')"
    and "role' = ''primary'' \<or> role' = ''task''"
  shows "create_binding c' i' run_id' repo' target' role' base' branch' key d' = Inr (j, d')"
  using assms(1)
  by (cases rule: create_binding_InrE)
    (use assms(2) in \<open>auto simp: create_binding_def row_simps split: option.split\<close>)

theorem create_binding_idempotent_witness:
  "create_binding sample_clock 9 2 ''r'' ''t'' ''task'' ''c'' None ''k1''
     (snd (projr (create_binding sample_clock 5 1 ''r'' ''t'' ''primary'' ''c'' None ''k1''
        (sample_db [sample_run 1 Draft] [])))) =
   Inr (5, snd (projr (create_binding sample_clock 5 1 ''r'' ''t'' ''primary'' ''c'' None ''k1''
        (sample_db [sample_run 1 Draft] []))))"
  by (rule create_binding_idempotent [where c = sample_clock and i = 5 and run_id = 1 and repo = "''r''"
        and target = "''t''" and role = "''primary''" and base = "''c''" and branch = None
        and d = "sample_db [sample_run 1 Draft] []"])
    (simp_all add: create_binding_def sample_defs)

text \<open>
  A grant that would give a run a second writable worktree is refused and leaves the store as it
  is; every other grant to an existing run and binding is recorded.
\<close>

theorem grant_writable_limit:
  assumes "get_run_row d run_id \<noteq> None" and "get_binding_row d i \<noteq> None"
  shows "if acc = Write \<and> (\<exists>g \<in> set (run_worktree_grants d).
             g_run_id g = run_id \<and> g_binding_id g \<noteq> i \<and> g_access g = ''write'')
    then grant run_id i acc d = Inl WritableLimitExceeded
    else \<exists>d'. grant run_id i acc d = Inr d' \<and>
      map_option g_access (row_get (\<lambda>g. (g_run_id g, g_binding_id g)) (run_id, i) (run_worktree_grants d'))
        = Some (access_as_str acc)"
proof (cases "acc = Write \<and> (\<exists>g \<in> set (run_worktree_grants d).
    g_run_id g = run_id \<and> g_binding_id g \<noteq> i \<and> g_access g = ''write'')")
  case True
  then show ?thesis
    unfolding grant_def Let_def by simp
next
  case False
  then show ?thesis
    unfolding if_not_P [OF False] using assms
    by (cases "row_get (\<lambda>g. (g_run_id g, g_binding_id g)) (run_id, i) (run_worktree_grants d)")
      (auto simp: grant_def Let_def row_simps)
qed

theorem grant_writable_limit_witness:
  "grant 1 5 Write ((sample_db [sample_run 1 Draft] [sample_binding 5 1 ''k1'', sample_binding 6 1 ''k2''])
     \<lparr>run_worktree_grants := [\<lparr>g_run_id = 1, g_binding_id = 6, g_access = ''write''\<rparr>]\<rparr>) =
   Inl WritableLimitExceeded"
  using grant_writable_limit [where run_id = 1 and i = 5 and acc = Write and d = "(sample_db [sample_run 1 Draft] [sample_binding 5 1 ''k1'', sample_binding 6 1 ''k2''])
     \<lparr>run_worktree_grants := [\<lparr>g_run_id = 1, g_binding_id = 6, g_access = ''write''\<rparr>]\<rparr>"]
  by (simp add: sample_defs)

end
