(* ===== verification/Coord_Saga.thy ===== *)
theory Coord_Saga
  imports Coord_Binding
begin

text \<open>
  \<open>vingilot/coordinator/coordinator/src/saga.rs\<close>: the provisioning saga. Its steps are separate
  statements, so an error leaves what was already written: every operation returns its result
  and the database it leaves behind.
\<close>

section \<open>Definitions\<close>

record worktree_spec =
  sp_repo_id :: string
  sp_target_id :: string
  sp_role :: string
  sp_base_commit :: string
  sp_branch :: "string option"
  sp_access :: access
  sp_idempotency_key :: string

record provision_spec =
  ps_run_id :: uuid
  ps_worktrees :: "worktree_spec list"

datatype saga_error =
    SagaRunNotFound uuid
  | SagaCorruptStatus uuid
  | UnexpectedStatus uuid run_status
  | WorktreeOwnedByAnotherRun uuid string
  | SagaRun run_error
  | SagaBinding binding_error
  | SagaDb db_error

definition provision_lease_ttl_secs :: i64 where
  "provision_lease_ttl_secs = 3600"

definition current_run_status :: "db \<Rightarrow> uuid \<Rightarrow> saga_error + run_status" where
  "current_run_status d run_id =
    (case get_run_row d run_id of
       None \<Rightarrow> Inl (SagaRunNotFound run_id)
     | Some r \<Rightarrow> (case status_parse (r_status r) of
           None \<Rightarrow> Inl (SagaCorruptStatus run_id)
         | Some s \<Rightarrow> Inr s))"

definition binding_owner :: "db \<Rightarrow> uuid \<Rightarrow> saga_error + uuid option" where
  "binding_owner d binding_id =
    (case get_binding_row d binding_id of
       None \<Rightarrow> Inl (SagaDb RowNotFound)
     | Some b \<Rightarrow> Inr (b_owner_run_id b))"

definition has_active_lease :: "clock \<Rightarrow> binding_row \<Rightarrow> bool" where
  "has_active_lease c b \<longleftrightarrow> (case b_lease_expires_at b of Some t \<Rightarrow> t > db_now c | None \<Rightarrow> False)"

definition ensure_lease :: "clock \<Rightarrow> uuid \<Rightarrow> db \<Rightarrow> saga_error + db" where
  "ensure_lease c binding_id d =
    (case get_binding_row d binding_id of
       None \<Rightarrow> Inl (SagaDb RowNotFound)
     | Some b \<Rightarrow>
         if has_active_lease c b then Inr d
         else (case acquire_lease c binding_id provision_lease_ttl_secs d of
             Inl e \<Rightarrow> Inl (SagaBinding e)
           | Inr (_, d') \<Rightarrow> Inr d'))"

text \<open>
  One iteration of the loop in \<open>provision_worktrees\<close>, and the loop. The ids \<open>Uuid::new_v4()\<close> gives
  the iterations are \<open>gen 0\<close>, \<open>gen 1\<close>, and so on.
\<close>

definition provision_one ::
  "clock \<Rightarrow> uuid \<Rightarrow> uuid \<Rightarrow> worktree_spec \<Rightarrow> db \<Rightarrow> (saga_error + unit) \<times> db" where
  "provision_one c i run_id wt d =
    (case create_binding c i run_id (sp_repo_id wt) (sp_target_id wt) (sp_role wt)
            (sp_base_commit wt) (sp_branch wt) (sp_idempotency_key wt) d of
       Inl e \<Rightarrow> (Inl (SagaBinding e), d)
     | Inr (binding_id, d1) \<Rightarrow>
         (case binding_owner d1 binding_id of
            Inl e \<Rightarrow> (Inl e, d1)
          | Inr owner \<Rightarrow>
              if owner \<noteq> Some run_id
              then (Inl (WorktreeOwnedByAnotherRun run_id (sp_idempotency_key wt)), d1)
              else (case grant run_id binding_id (sp_access wt) d1 of
                  Inl e \<Rightarrow> (Inl (SagaBinding e), d1)
                | Inr d2 \<Rightarrow> (case ensure_lease c binding_id d2 of
                      Inl e \<Rightarrow> (Inl e, d2)
                    | Inr d3 \<Rightarrow> (Inr (), d3)))))"

fun provision_worktrees ::
  "clock \<Rightarrow> (nat \<Rightarrow> uuid) \<Rightarrow> uuid \<Rightarrow> worktree_spec list \<Rightarrow> db \<Rightarrow> (saga_error + unit) \<times> db" where
  "provision_worktrees c gen run_id [] d = (Inr (), d)"
| "provision_worktrees c gen run_id (wt # wts) d =
    (case provision_one c (gen 0) run_id wt d of
       (Inl e, d') \<Rightarrow> (Inl e, d')
     | (Inr _, d') \<Rightarrow> provision_worktrees c (\<lambda>n. gen (Suc n)) run_id wts d')"

definition walk_back :: "string \<Rightarrow> string" where
  "walk_back lifecycle =
    (if lifecycle = ''provisioning'' then ''removed''
     else if lifecycle = ''ready'' then ''quarantined''
     else lifecycle)"

definition revoke_grants :: "uuid \<Rightarrow> db \<Rightarrow> db" where
  "revoke_grants run_id d =
    d\<lparr>run_worktree_grants := filter (\<lambda>g. g_run_id g \<noteq> run_id) (run_worktree_grants d)\<rparr>"

definition set_lifecycle :: "clock \<Rightarrow> uuid \<Rightarrow> string \<Rightarrow> db \<Rightarrow> db" where
  "set_lifecycle c binding_id lifecycle d =
    d\<lparr>worktree_bindings := row_upd b_id binding_id
        (\<lambda>b. b\<lparr>b_lifecycle := lifecycle, b_updated_at := db_now c\<rparr>) (worktree_bindings d)\<rparr>"

definition owned_bindings :: "uuid \<Rightarrow> db \<Rightarrow> binding_row list" where
  "owned_bindings run_id d = filter (\<lambda>b. b_owner_run_id b = Some run_id) (worktree_bindings d)"

definition compensate :: "clock \<Rightarrow> uuid \<Rightarrow> db \<Rightarrow> (saga_error + unit) \<times> db" where
  "compensate c run_id d =
    (let d1 = revoke_grants run_id d;
         d2 = foldl (\<lambda>acc b. set_lifecycle c (b_id b) (walk_back (b_lifecycle b)) acc) d1
                (owned_bindings run_id d1)
     in case current_run_status d2 run_id of
         Inl e \<Rightarrow> (Inl e, d2)
       | Inr status \<Rightarrow>
           if status \<noteq> Failed
           then (case transition c run_id Failed ''provisioning saga compensated'' d2 of
               Inl e \<Rightarrow> (Inl (SagaRun e), d2)
             | Inr d3 \<Rightarrow> (Inr (), d3))
           else (Inr (), d2))"

text \<open>
  After the entry status is settled: provision the worktrees, compensate on an error. A panic in
  the lease arithmetic unwinds past the compensation.
\<close>

definition provision_body ::
  "clock \<Rightarrow> (nat \<Rightarrow> uuid) \<Rightarrow> provision_spec \<Rightarrow> db \<Rightarrow> (saga_error + unit) \<times> db" where
  "provision_body c gen spec d =
    (case provision_worktrees c gen (ps_run_id spec) (ps_worktrees spec) d of
       (Inl (SagaBinding LeasePanic), d') \<Rightarrow> (Inl (SagaBinding LeasePanic), d')
     | (Inl err, d') \<Rightarrow>
         (case compensate c (ps_run_id spec) d' of
            (Inl e, d'') \<Rightarrow> (Inl e, d'')
          | (Inr _, d'') \<Rightarrow> (Inl err, d''))
     | (Inr _, d') \<Rightarrow>
         (case transition c (ps_run_id spec) Ready ''provisioning complete'' d' of
            Inl e \<Rightarrow> (Inl (SagaRun e), d')
          | Inr d'' \<Rightarrow> (Inr (), d'')))"

definition provision ::
  "clock \<Rightarrow> (nat \<Rightarrow> uuid) \<Rightarrow> provision_spec \<Rightarrow> db \<Rightarrow> (saga_error + unit) \<times> db" where
  "provision c gen spec d =
    (case current_run_status d (ps_run_id spec) of
       Inl e \<Rightarrow> (Inl e, d)
     | Inr Ready \<Rightarrow> (Inr (), d)
     | Inr Draft \<Rightarrow>
         (case transition c (ps_run_id spec) Provisioning ''provisioning started'' d of
            Inl e \<Rightarrow> (Inl (SagaRun e), d)
          | Inr d1 \<Rightarrow> provision_body c gen spec d1)
     | Inr Provisioning \<Rightarrow> provision_body c gen spec d
     | Inr other \<Rightarrow> (Inl (UnexpectedStatus (ps_run_id spec) other), d))"

section \<open>The saga as a sequence of statements\<close>

text \<open>
  Whatever relation the single statements respect, and is reflexive and transitive, the compound
  operations respect. Frame conditions, invariants and reachability are instances.
\<close>

lemma provision_one_rel:
  assumes "reflp R" and "transp R"
    and cb: "\<And>c i run_id repo target role base branch key d j d'.
        create_binding c i run_id repo target role base branch key d = Inr (j, d') \<Longrightarrow> R d d'"
    and gr: "\<And>run_id i acc d d'. grant run_id i acc d = Inr d' \<Longrightarrow> R d d'"
    and al: "\<And>c i ttl d l d'. acquire_lease c i ttl d = Inr (l, d') \<Longrightarrow> R d d'"
    and one: "provision_one c i run_id wt d = (res, d')"
  shows "R d d'"
proof -
  note refl = reflpD [OF assms(1)] and trans = transpD [OF assms(2)]
  have el: "R x y" if "ensure_lease c j x = Inr y" for j x y
    using that al refl by (auto simp: ensure_lease_def split: option.splits if_splits sum.splits)
  show ?thesis
    using one refl unfolding provision_one_def
    by (auto split: sum.splits if_splits dest!: cb gr el) (meson trans)+
qed

lemma provision_worktrees_rel:
  assumes "reflp R" and "transp R"
    and "\<And>c i run_id repo target role base branch key d j d'.
        create_binding c i run_id repo target role base branch key d = Inr (j, d') \<Longrightarrow> R d d'"
    and "\<And>run_id i acc d d'. grant run_id i acc d = Inr d' \<Longrightarrow> R d d'"
    and "\<And>c i ttl d l d'. acquire_lease c i ttl d = Inr (l, d') \<Longrightarrow> R d d'"
  shows "provision_worktrees c gen run_id wts d = (res, d') \<Longrightarrow> R d d'"
proof (induction wts arbitrary: gen d)
  case Nil
  with assms(1) show ?case by (auto dest: reflpD)
next
  case (Cons wt wts)
  obtain r1 d1 where one: "provision_one c (gen 0) run_id wt d = (r1, d1)"
    by fastforce
  have "R d d1"
    using assms one by (rule provision_one_rel)
  with Cons one show ?case
    by (auto split: sum.splits intro: transpD [OF assms(2)])
qed

section \<open>What the operations leave alone\<close>

text \<open>\<open>same_runs\<close>: the tables of runs and their log are as before.\<close>

definition same_runs :: "db \<Rightarrow> db \<Rightarrow> bool" where
  "same_runs d d' \<longleftrightarrow> runs d' = runs d \<and> run_transitions d' = run_transitions d"

lemma same_runs_refl [simp]: "same_runs d d"
  by (simp add: same_runs_def)

lemma same_runs_trans [trans]: "same_runs d d' \<Longrightarrow> same_runs d' d'' \<Longrightarrow> same_runs d d''"
  by (simp add: same_runs_def)

lemma same_runs_transitions_of: "same_runs d d' \<Longrightarrow> transitions_of d' r = transitions_of d r"
  by (simp add: same_runs_def transitions_of_def)

lemma same_runs_inv: "same_runs d d' \<Longrightarrow> runs_inv d \<Longrightarrow> runs_inv d'"
  by (simp add: same_runs_def runs_inv_def transitions_of_def parent_links_def)

lemma same_runs_status: "same_runs d d' \<Longrightarrow> current_run_status d' r = current_run_status d r"
  by (simp add: same_runs_def current_run_status_def)

lemma create_binding_same_runs:
  "create_binding c i run_id repo target role base branch key d = Inr (j, d') \<Longrightarrow> same_runs d d'"
  by (auto simp: same_runs_def elim!: create_binding_InrE)

lemma grant_same_runs: "grant run_id i acc d = Inr d' \<Longrightarrow> same_runs d d'"
  by (auto simp: grant_def Let_def same_runs_def split: if_splits)

lemma acquire_lease_same_runs: "acquire_lease c i ttl d = Inr (l, d') \<Longrightarrow> same_runs d d'"
  by (auto simp: same_runs_def elim!: acquire_lease_InrE)

lemma set_lifecycle_frame [simp]:
  "runs (set_lifecycle c i l d) = runs d"
  "run_transitions (set_lifecycle c i l d) = run_transitions d"
  "run_worktree_grants (set_lifecycle c i l d) = run_worktree_grants d"
  "worktree_bindings (set_lifecycle c i l d) =
    row_upd b_id i (\<lambda>b. b\<lparr>b_lifecycle := l, b_updated_at := db_now c\<rparr>) (worktree_bindings d)"
  by (simp_all add: set_lifecycle_def)

lemma provision_worktrees_same_runs:
  "provision_worktrees c gen run_id wts d = (res, d') \<Longrightarrow> same_runs d d'"
  by (rule provision_worktrees_rel [where R = same_runs])
    (auto intro: reflpI transpI same_runs_trans create_binding_same_runs grant_same_runs
      acquire_lease_same_runs)

section \<open>Compensation\<close>

text \<open>The loop over the owned bindings is one pass over the table.\<close>

definition walked_back :: "clock \<Rightarrow> uuid \<Rightarrow> db \<Rightarrow> db" where
  "walked_back c run_id d = (revoke_grants run_id d)
    \<lparr>worktree_bindings := map (\<lambda>b. if b_owner_run_id b = Some run_id
        then b\<lparr>b_lifecycle := walk_back (b_lifecycle b), b_updated_at := db_now c\<rparr> else b)
      (worktree_bindings d)\<rparr>"

lemma foldl_set_lifecycle:
  "foldl (\<lambda>acc b. set_lifecycle c (b_id b) (walk_back (b_lifecycle b)) acc) d bs =
    d\<lparr>worktree_bindings := foldl (\<lambda>acc x. row_upd b_id (b_id x)
        ((\<lambda>x b. b\<lparr>b_lifecycle := walk_back (b_lifecycle x), b_updated_at := db_now c\<rparr>) x) acc)
      (worktree_bindings d) bs\<rparr>"
  by (induction bs arbitrary: d) (simp_all add: set_lifecycle_def)

lemma compensate_loop:
  assumes "bindings_inv d"
  shows "foldl (\<lambda>acc b. set_lifecycle c (b_id b) (walk_back (b_lifecycle b)) acc)
      (revoke_grants r d) (owned_bindings r (revoke_grants r d)) = walked_back c r d"
proof -
  have "distinct (map b_id (worktree_bindings d))"
    using assms by (simp add: bindings_inv_def)
  then show ?thesis
    unfolding foldl_set_lifecycle owned_bindings_def walked_back_def
    by (subst foldl_row_upd_filter) (simp_all add: revoke_grants_def)
qed

lemma compensate_eq:
  assumes "bindings_inv d"
  shows "compensate c r d =
    (case current_run_status (walked_back c r d) r of
       Inl e \<Rightarrow> (Inl e, walked_back c r d)
     | Inr status \<Rightarrow>
         if status \<noteq> Failed
         then (case transition c r Failed ''provisioning saga compensated'' (walked_back c r d) of
             Inl e \<Rightarrow> (Inl (SagaRun e), walked_back c r d)
           | Inr d3 \<Rightarrow> (Inr (), d3))
         else (Inr (), walked_back c r d))"
  unfolding compensate_def Let_def compensate_loop [OF assms] by (rule refl)

lemma walked_back_frame [simp]:
  "runs (walked_back c r d) = runs d"
  "run_transitions (walked_back c r d) = run_transitions d"
  "run_worktree_grants (walked_back c r d) = filter (\<lambda>g. g_run_id g \<noteq> r) (run_worktree_grants d)"
  by (simp_all add: walked_back_def revoke_grants_def)

lemma walked_back_same_runs: "same_runs d (walked_back c r d)"
  by (simp add: same_runs_def)

definition not_editable :: "uuid \<Rightarrow> db \<Rightarrow> bool" where
  "not_editable r d \<longleftrightarrow>
    (\<forall>b \<in> set (worktree_bindings d). b_owner_run_id b = Some r \<longrightarrow> b_lifecycle b \<noteq> ''ready'') \<and>
    (\<forall>g \<in> set (run_worktree_grants d). g_run_id g \<noteq> r)"

lemma walked_back_not_editable: "not_editable r (walked_back c r d)"
  by (auto simp: not_editable_def walked_back_def revoke_grants_def walk_back_def split: if_splits)

lemma transition_bindings:
  "transition c r s reason d = Inr d' \<Longrightarrow>
    worktree_bindings d' = worktree_bindings d \<and> run_worktree_grants d' = run_worktree_grants d"
  by (auto elim!: transition_InrE)

lemma transition_status:
  "transition c r s reason d = Inr d' \<Longrightarrow> current_run_status d' r = Inr s"
  by (auto elim!: transition_InrE simp: current_run_status_def row_simps status_codec.parse_as_str)

lemma transition_enabled:
  assumes "current_run_status d r = Inr s" and "can_transition_to s s'"
    and "max_seq (map t_seq (transitions_of d r)) \<noteq> i64_max"
  shows "\<exists>d'. transition c r s' reason d = Inr d'"
  using assms by (auto simp: current_run_status_def transition_def Let_def split: option.splits)

lemma compensate_not_editable:
  assumes "bindings_inv d"
  shows "not_editable r (snd (compensate c r d))"
  using walked_back_not_editable [of r c d] transition_bindings
  by (fastforce simp: compensate_eq [OF assms] not_editable_def split: sum.splits)

lemma compensate_failed:
  assumes "bindings_inv d" and st: "current_run_status d r = Inr s"
    and "s = Failed \<or> can_transition_to s Failed"
    and "max_seq (map t_seq (transitions_of d r)) \<noteq> i64_max"
  shows "\<exists>d'. compensate c r d = (Inr (), d') \<and> current_run_status d' r = Inr Failed"
proof -
  have st': "current_run_status (walked_back c r d) r = Inr s"
    using st same_runs_status [OF walked_back_same_runs] by simp
  show ?thesis
  proof (cases "s = Failed")
    case True
    with st' show ?thesis by (simp add: compensate_eq [OF assms(1)])
  next
    case False
    with assms have "can_transition_to s Failed"
      by simp
    then obtain d' where
      "transition c r Failed ''provisioning saga compensated'' (walked_back c r d) = Inr d'"
      using transition_enabled [OF st', of Failed c "''provisioning saga compensated''"] assms(4)
      by (auto simp: same_runs_transitions_of [OF walked_back_same_runs])
    with st' False show ?thesis
      by (auto simp: compensate_eq [OF assms(1)] dest: transition_status)
  qed
qed

end
