(* ===== verification/Coord_Reconcile.thy ===== *)
theory Coord_Reconcile
  imports Coord_Saga Coord_Sample
begin

text \<open>
  \<open>vingilot/coordinator/coordinator/src/reconcile.rs\<close>: one sweep of the reconciler, its two passes
  and the pause they share. The interval loop \<open>run_reconciler\<close> only repeats \<open>sweep_once\<close>.
\<close>

section \<open>Definitions\<close>

datatype reconcile_error =
    ReconcileRun run_error
  | ReconcileDb db_error

record sweep_report =
  leases_expired :: nat
  runs_paused :: nat
  bindings_quarantined :: nat
  runs_wall_exceeded :: nat

definition default_report :: sweep_report where
  "default_report = \<lparr>leases_expired = 0, runs_paused = 0, bindings_quarantined = 0,
     runs_wall_exceeded = 0\<rparr>"

definition pause_once ::
  "clock \<Rightarrow> uuid \<Rightarrow> string \<Rightarrow> uuid set \<Rightarrow> db \<Rightarrow> (reconcile_error + bool) \<times> uuid set \<times> db" where
  "pause_once c run_id reason already_paused d =
    (if run_id \<in> already_paused then (Inr False, already_paused, d)
     else if map_option r_status (get_run_row d run_id) \<noteq> Some ''running''
     then (Inr False, insert run_id already_paused, d)
     else (case transition c run_id Paused reason d of
         Inr d' \<Rightarrow> (Inr True, insert run_id already_paused, d')
       | Inl (IllegalTransition Paused _) \<Rightarrow> (Inr False, insert run_id already_paused, d)
       | Inl e \<Rightarrow> (Inl (ReconcileRun e), insert run_id already_paused, d)))"

definition lease_expired :: "clock \<Rightarrow> db \<Rightarrow> binding_row \<Rightarrow> bool" where
  "lease_expired c d b \<longleftrightarrow>
    b_lifecycle b = ''ready'' \<and>
    (case b_lease_expires_at b of None \<Rightarrow> False | Some t \<Rightarrow> t < db_now c) \<and>
    (case b_owner_run_id b of
       None \<Rightarrow> False
     | Some r \<Rightarrow> map_option r_status (get_run_row d r) = Some ''running'')"

definition expired_leases :: "clock \<Rightarrow> db \<Rightarrow> (uuid \<times> uuid) list" where
  "expired_leases c d =
    map (\<lambda>b. (b_id b, the (b_owner_run_id b))) (filter (lease_expired c d) (worktree_bindings d))"

fun lease_loop ::
  "clock \<Rightarrow> (uuid \<times> uuid) list \<Rightarrow> uuid set \<Rightarrow> sweep_report \<Rightarrow> db
    \<Rightarrow> (reconcile_error + unit) \<times> sweep_report \<times> db" where
  "lease_loop c [] paused report d = (Inr (), report, d)"
| "lease_loop c ((binding_id, run_id) # rest) paused report d =
    (let report1 = report\<lparr>leases_expired := leases_expired report + 1\<rparr>;
         affected = (map_option b_lifecycle (get_binding_row d binding_id) = Some ''ready'');
         d1 = (if affected then set_lifecycle c binding_id ''quarantined'' d else d);
         report2 = (if affected
           then report1\<lparr>bindings_quarantined := bindings_quarantined report1 + 1\<rparr> else report1)
     in case pause_once c run_id ''lease lost'' paused d1 of
         (Inl e, _, d2) \<Rightarrow> (Inl e, report2, d2)
       | (Inr p, paused', d2) \<Rightarrow>
           lease_loop c rest paused'
             (if p then report2\<lparr>runs_paused := runs_paused report2 + 1\<rparr> else report2) d2)"

definition sweep_expired_leases ::
  "clock \<Rightarrow> sweep_report \<Rightarrow> db \<Rightarrow> (reconcile_error + unit) \<times> sweep_report \<times> db" where
  "sweep_expired_leases c report d = lease_loop c (expired_leases c d) {} report d"

definition wall_exhausted :: "clock \<Rightarrow> run_row \<Rightarrow> bool" where
  "wall_exhausted c r \<longleftrightarrow>
    r_status r = ''running'' \<and>
    (case (r_wall_limit_secs r, r_wall_started_at r) of
       (Some limit, Some started) \<Rightarrow> started + limit * 1000000 < db_now c
     | _ \<Rightarrow> False)"

definition exhausted_runs :: "clock \<Rightarrow> db \<Rightarrow> uuid list" where
  "exhausted_runs c d = map r_id (filter (wall_exhausted c) (runs d))"

fun wall_loop ::
  "clock \<Rightarrow> uuid list \<Rightarrow> uuid set \<Rightarrow> sweep_report \<Rightarrow> db
    \<Rightarrow> (reconcile_error + unit) \<times> sweep_report \<times> db" where
  "wall_loop c [] paused report d = (Inr (), report, d)"
| "wall_loop c (run_id # rest) paused report d =
    (let report1 = report\<lparr>runs_wall_exceeded := runs_wall_exceeded report + 1\<rparr>
     in case pause_once c run_id ''wall clock budget exhausted'' paused d of
         (Inl e, _, d2) \<Rightarrow> (Inl e, report1, d2)
       | (Inr p, paused', d2) \<Rightarrow>
           wall_loop c rest paused'
             (if p then report1\<lparr>runs_paused := runs_paused report1 + 1\<rparr> else report1) d2)"

definition sweep_wall_clock ::
  "clock \<Rightarrow> sweep_report \<Rightarrow> db \<Rightarrow> (reconcile_error + unit) \<times> sweep_report \<times> db" where
  "sweep_wall_clock c report d = wall_loop c (exhausted_runs c d) {} report d"

definition sweep_once :: "clock \<Rightarrow> db \<Rightarrow> (reconcile_error + sweep_report) \<times> db" where
  "sweep_once c d =
    (case sweep_expired_leases c default_report d of
       (Inl e, _, d1) \<Rightarrow> (Inl e, d1)
     | (Inr _, report, d1) \<Rightarrow>
         (case sweep_wall_clock c report d1 of
            (Inl e, _, d2) \<Rightarrow> (Inl e, d2)
          | (Inr _, report', d2) \<Rightarrow> (Inr report', d2)))"

section \<open>A sweep only calms\<close>

text \<open>
  \<open>calmer d d'\<close>: the rows are those of \<open>d\<close>; a binding is \<open>ready\<close> and a run \<open>running\<close> afterwards only
  if it was before, with the same lease, owner, budget and log.
\<close>

definition running :: "db \<Rightarrow> uuid \<Rightarrow> bool" where
  "running d r \<longleftrightarrow> map_option r_status (get_run_row d r) = Some ''running''"

definition calmer :: "db \<Rightarrow> db \<Rightarrow> bool" where
  "calmer d d' \<longleftrightarrow>
    (\<forall>b' \<in> set (worktree_bindings d'). \<exists>b \<in> set (worktree_bindings d).
       b_id b' = b_id b \<and> b_owner_run_id b' = b_owner_run_id b \<and>
       b_lease_expires_at b' = b_lease_expires_at b \<and>
       (b_lifecycle b' = ''ready'' \<longrightarrow> b_lifecycle b = ''ready'')) \<and>
    (\<forall>r' \<in> set (runs d'). \<exists>r \<in> set (runs d).
       r_id r' = r_id r \<and> r_wall_limit_secs r' = r_wall_limit_secs r \<and>
       r_wall_started_at r' = r_wall_started_at r \<and>
       (r_status r' = ''running'' \<longrightarrow> r_status r = ''running'')) \<and>
    (\<forall>r. running d' r \<longrightarrow> running d r \<and> transitions_of d' r = transitions_of d r)"

lemma calmer_refl [simp]: "calmer d d"
  unfolding calmer_def by blast

lemma calmer_trans: "calmer d d' \<Longrightarrow> calmer d' d'' \<Longrightarrow> calmer d d''"
  unfolding calmer_def by (intro conjI) (fastforce, fastforce, simp)

lemma quarantine_calmer: "calmer d (set_lifecycle c i ''quarantined'' d)"
proof -
  have "running (set_lifecycle c i ''quarantined'' d) r = running d r"
    and "transitions_of (set_lifecycle c i ''quarantined'' d) r = transitions_of d r" for r
    by (simp_all add: running_def transitions_of_def)
  then show ?thesis
    unfolding calmer_def by (auto simp: set_row_upd)
qed

lemma transition_get_run:
  assumes "transition c i s reason d = Inr d'"
  shows "get_run_row d' j = (if j = i then map_option (enter_status c s) (get_run_row d j) else get_run_row d j)"
  using assms by (auto elim!: transition_InrE simp: row_simps)

lemma transition_other_log:
  "transition c i s reason d = Inr d' \<Longrightarrow> j \<noteq> i \<Longrightarrow> transitions_of d' j = transitions_of d j"
  by (auto elim!: transition_InrE simp: transitions_of_def)

lemma pause_not_running: "transition c i Paused reason d = Inr d' \<Longrightarrow> \<not> running d' i"
  by (auto simp: running_def transition_get_run option.map_comp comp_def)

lemma pause_calmer:
  assumes tr: "transition c i Paused reason d = Inr d'"
  shows "calmer d d'"
proof -
  have rows: "runs d' = row_upd r_id i (enter_status c Paused) (runs d)"
    and bs: "worktree_bindings d' = worktree_bindings d"
    using tr by (auto elim!: transition_InrE)
  have wall: "r_wall_started_at (enter_status c Paused r) = r_wall_started_at r" for r
    by (simp add: enter_status_wall split: option.split)
  have "running d r \<and> transitions_of d' r = transitions_of d r" if run: "running d' r" for r
  proof -
    have "r \<noteq> i"
      using run pause_not_running [OF tr] by blast
    then show ?thesis
      using run transition_other_log [OF tr] transition_get_run [OF tr] by (simp add: running_def)
  qed
  then show ?thesis
    unfolding calmer_def rows bs by (auto simp: set_row_upd wall)
qed

section \<open>A sweep does not fail\<close>

text \<open>No log of a running run is full: there is a next sequence number.\<close>

definition room :: "db \<Rightarrow> bool" where
  "room d \<longleftrightarrow> (\<forall>r. running d r \<longrightarrow> max_seq (map t_seq (transitions_of d r)) \<noteq> i64_max)"

lemma room_calmer: "room d \<Longrightarrow> calmer d d' \<Longrightarrow> room d'"
  by (auto simp: room_def calmer_def)

lemma pause_once_ok:
  assumes "room d" and "pause_once c r reason paused d = (res, paused', d')"
    and "\<forall>p \<in> paused. \<not> running d p"
  shows "(\<exists>b. res = Inr b \<and>
      length (run_transitions d') = length (run_transitions d) + (if b then 1 else 0)) \<and>
    calmer d d' \<and> \<not> running d' r \<and> (\<forall>p \<in> paused'. \<not> running d' p) \<and>
    worktree_bindings d' = worktree_bindings d"
proof (cases "r \<notin> paused \<and> running d r")
  case True
  then have "\<exists>x. transition c r Paused reason d = Inr x"
    using assms(1)
    by (intro transition_enabled [where s = Running])
      (auto simp: running_def room_def current_run_status_def status_parse_def can_transition_to_def)
  then obtain x where x: "transition c r Paused reason d = Inr x" ..
  then have eq: "res = Inr True" "paused' = insert r paused" "d' = x"
    using True assms(2) by (auto simp: pause_once_def running_def)
  have "\<not> running x p" if "p \<in> paused'" for p
  proof (cases "p = r")
    case False
    with that eq assms(3) have "\<not> running d p" by simp
    with pause_calmer [OF x] show ?thesis by (auto simp: calmer_def)
  qed (use pause_not_running [OF x] in simp)
  moreover have "length (run_transitions x) = Suc (length (run_transitions d))"
    and "worktree_bindings x = worktree_bindings d"
    using x by (auto elim!: transition_InrE)
  ultimately show ?thesis
    using eq pause_calmer [OF x] pause_not_running [OF x] by (auto intro!: exI [of _ True])
next
  case False
  then have "res = Inr False" "d' = d" "\<forall>p \<in> paused'. \<not> running d p" "\<not> running d r"
    using assms by (auto simp: pause_once_def running_def split: if_splits)
  then show ?thesis
    by (auto intro!: exI [of _ False])
qed

lemma lease_loop_ok:
  assumes "room d" and "\<forall>p \<in> paused. \<not> running d p"
    and "lease_loop c xs paused rep d = (res, rep', d')"
  shows "res = Inr () \<and> calmer d d' \<and> (\<forall>x \<in> set xs. \<not> running d' (snd x)) \<and>
    leases_expired rep' = leases_expired rep + length xs \<and>
    runs_wall_exceeded rep' = runs_wall_exceeded rep \<and>
    length (run_transitions d') + runs_paused rep = length (run_transitions d) + runs_paused rep'"
  using assms
proof (induction xs arbitrary: paused rep d)
  case Nil
  then show ?case by simp
next
  case (Cons x xs)
  obtain i r where x: "x = (i, r)" by (cases x)
  define affected where "affected = (map_option b_lifecycle (get_binding_row d i) = Some ''ready'')"
  define d1 where "d1 = (if affected then set_lifecycle c i ''quarantined'' d else d)"
  define rep2 where "rep2 = (if affected
      then rep\<lparr>leases_expired := leases_expired rep + 1,
               bindings_quarantined := bindings_quarantined rep + 1\<rparr>
      else rep\<lparr>leases_expired := leases_expired rep + 1\<rparr>)"
  have calm1: "calmer d d1"
    by (simp add: d1_def quarantine_calmer)
  have paused1: "\<forall>p \<in> paused. \<not> running d1 p"
    using Cons.prems(2) by (simp add: d1_def running_def)
  obtain res2 paused2 d2 where po: "pause_once c r ''lease lost'' paused d1 = (res2, paused2, d2)"
    by (metis prod_cases3)
  note ok = pause_once_ok [OF room_calmer [OF Cons.prems(1) calm1] po paused1]
  from conjunct1 [OF ok] obtain b where
    b: "res2 = Inr b" "length (run_transitions d2) = length (run_transitions d1) + (if b then 1 else 0)"
    by (elim exE conjE)
  from ok have calm2: "calmer d1 d2" and notr: "\<not> running d2 r"
    and paused2: "\<forall>p \<in> paused2. \<not> running d2 p"
    by simp_all
  define rep3 where "rep3 = (if b then rep2\<lparr>runs_paused := runs_paused rep2 + 1\<rparr> else rep2)"
  have loop: "lease_loop c xs paused2 rep3 d2 = (res, rep', d')"
    using Cons.prems(3) po b(1) unfolding x lease_loop.simps Let_def affected_def [symmetric]
    by (cases affected; cases b) (simp_all add: rep3_def rep2_def d1_def)
  have calm: "calmer d d2"
    using calm1 calm2 by (rule calmer_trans)
  note IH = Cons.IH [OF room_calmer [OF Cons.prems(1) calm] paused2 loop]
  have "\<not> running d' r"
    using IH notr by (auto simp: calmer_def)
  moreover have "length (run_transitions d1) = length (run_transitions d)"
    by (simp add: d1_def)
  ultimately show ?case
    using IH calm b(2) by (auto simp: x rep3_def rep2_def intro: calmer_trans split: if_splits)
qed

lemma wall_loop_ok:
  assumes "room d" and "\<forall>p \<in> paused. \<not> running d p"
    and "wall_loop c xs paused rep d = (res, rep', d')"
  shows "res = Inr () \<and> calmer d d' \<and> (\<forall>x \<in> set xs. \<not> running d' x) \<and>
    leases_expired rep' = leases_expired rep \<and>
    runs_wall_exceeded rep' = runs_wall_exceeded rep + length xs \<and>
    length (run_transitions d') + runs_paused rep = length (run_transitions d) + runs_paused rep'"
  using assms
proof (induction xs arbitrary: paused rep d)
  case Nil
  then show ?case by simp
next
  case (Cons r xs)
  let ?rep1 = "rep\<lparr>runs_wall_exceeded := runs_wall_exceeded rep + 1\<rparr>"
  obtain res2 paused2 d2 where
    po: "pause_once c r ''wall clock budget exhausted'' paused d = (res2, paused2, d2)"
    by (metis prod_cases3)
  note ok = pause_once_ok [OF Cons.prems(1) po Cons.prems(2)]
  from conjunct1 [OF ok] obtain b where
    b: "res2 = Inr b" "length (run_transitions d2) = length (run_transitions d) + (if b then 1 else 0)"
    by (elim exE conjE)
  from ok have calm: "calmer d d2" and notr: "\<not> running d2 r"
    and paused2: "\<forall>p \<in> paused2. \<not> running d2 p"
    by simp_all
  define rep3 where "rep3 = (if b then ?rep1\<lparr>runs_paused := runs_paused ?rep1 + 1\<rparr> else ?rep1)"
  have loop: "wall_loop c xs paused2 rep3 d2 = (res, rep', d')"
    using Cons.prems(3) po b(1) by (cases b) (simp_all add: rep3_def)
  note IH = Cons.IH [OF room_calmer [OF Cons.prems(1) calm] paused2 loop]
  have "\<not> running d' r"
    using IH notr by (auto simp: calmer_def)
  then show ?case
    using IH calm b(2) by (auto simp: rep3_def intro: calmer_trans split: if_splits)
qed

section \<open>A sweep leaves nothing to sweep\<close>

lemma calmer_expired:
  assumes "calmer d d'" and "x \<in> set (expired_leases c d')"
  shows "x \<in> set (expired_leases c d)"
proof -
  from assms(2) obtain b' where b': "b' \<in> set (worktree_bindings d')" "lease_expired c d' b'"
    and x: "x = (b_id b', the (b_owner_run_id b'))"
    by (auto simp: expired_leases_def)
  from assms(1) b'(1) obtain b where b: "b \<in> set (worktree_bindings d)" "b_id b' = b_id b"
      "b_owner_run_id b' = b_owner_run_id b" "b_lease_expires_at b' = b_lease_expires_at b"
      "b_lifecycle b' = ''ready'' \<longrightarrow> b_lifecycle b = ''ready''"
    unfolding calmer_def by blast
  have "running d' r \<Longrightarrow> running d r" for r
    using assms(1) by (simp add: calmer_def)
  then have "lease_expired c d b"
    using b b'(2) by (auto simp: lease_expired_def running_def split: option.splits)
  with b x show ?thesis
    by (auto simp: expired_leases_def)
qed

lemma expired_running: "x \<in> set (expired_leases c d) \<Longrightarrow> running d (snd x)"
  by (auto simp: expired_leases_def lease_expired_def running_def split: option.splits)

lemma calmer_exhausted:
  assumes "calmer d d'" and "x \<in> set (exhausted_runs c d')"
  shows "x \<in> set (exhausted_runs c d)"
proof -
  from assms(2) obtain r' where r': "r' \<in> set (runs d')" "wall_exhausted c r'" "x = r_id r'"
    by (auto simp: exhausted_runs_def)
  from assms(1) r'(1) obtain r where "r \<in> set (runs d)" "r_id r' = r_id r"
      "r_wall_limit_secs r' = r_wall_limit_secs r" "r_wall_started_at r' = r_wall_started_at r"
      "r_status r' = ''running'' \<longrightarrow> r_status r = ''running''"
    unfolding calmer_def by blast
  with r' show ?thesis
    by (auto simp: exhausted_runs_def wall_exhausted_def)
qed

lemma exhausted_running:
  assumes "distinct (map r_id (runs d))" and "x \<in> set (exhausted_runs c d)"
  shows "running d x"
proof -
  from assms(2) obtain r where "r \<in> set (runs d)" "wall_exhausted c r" "x = r_id r"
    by (auto simp: exhausted_runs_def)
  with row_get_mem [OF assms(1)] show ?thesis
    by (simp add: running_def wall_exhausted_def)
qed

section \<open>What a sweep does to the tables\<close>

text \<open>The two passes as one pass over each table.\<close>

definition pause_rows :: "clock \<Rightarrow> uuid set \<Rightarrow> run_row list \<Rightarrow> run_row list" where
  "pause_rows c S = map (\<lambda>x. if r_id x \<in> S \<and> r_status x = ''running'' then enter_status c Paused x else x)"

definition quarantine_rows :: "clock \<Rightarrow> uuid set \<Rightarrow> binding_row list \<Rightarrow> binding_row list" where
  "quarantine_rows c S = map (\<lambda>b. if b_id b \<in> S
     then b\<lparr>b_lifecycle := ''quarantined'', b_updated_at := db_now c\<rparr> else b)"

lemma pause_rows_compose: "pause_rows c S (pause_rows c T rows) = pause_rows c (S \<union> T) rows"
  by (auto simp: pause_rows_def)

lemma pause_rows_empty [simp]: "pause_rows c {} rows = rows"
  by (simp add: pause_rows_def)

lemma quarantine_rows_compose: "quarantine_rows c S (quarantine_rows c T rows) = quarantine_rows c (S \<union> T) rows"
  by (auto simp: quarantine_rows_def)

lemma quarantine_rows_empty [simp]: "quarantine_rows c {} rows = rows"
  by (simp add: quarantine_rows_def)

lemma row_get_quarantine: "i \<notin> S \<Longrightarrow> row_get b_id i (quarantine_rows c S rows) = row_get b_id i rows"
  by (induction rows) (auto simp: quarantine_rows_def)

lemma ids_pause_rows [simp]: "map r_id (pause_rows c S rows) = map r_id rows"
  by (simp add: pause_rows_def)

lemma pause_rows_idle:
  assumes "distinct (map r_id (runs d))" and "\<And>r. r \<in> S \<Longrightarrow> \<not> running d r"
  shows "pause_rows c S (runs d) = runs d"
proof -
  have "\<not> (r_id x \<in> S \<and> r_status x = ''running'')" if "x \<in> set (runs d)" for x
    using row_get_mem [OF assms(1) that] assms(2) [of "r_id x"] by (auto simp: running_def)
  then show ?thesis
    unfolding pause_rows_def by (intro map_idI) (simp only: if_False)
qed

lemma pause_once_rows:
  assumes room: "room d" and dist: "distinct (map r_id (runs d))"
    and po: "pause_once c r reason paused d = (res, paused', d')"
    and idle: "\<forall>p \<in> paused. \<not> running d p"
  shows "runs d' = pause_rows c {r} (runs d)"
proof (cases "running d r")
  case True
  with idle have "r \<notin> paused" by blast
  obtain x where x: "transition c r Paused reason d = Inr x"
    using True room transition_enabled [of d r Running Paused c reason]
    by (auto simp: running_def room_def current_run_status_def status_parse_def can_transition_to_def)
  with True \<open>r \<notin> paused\<close> po have "d' = x"
    by (auto simp: pause_once_def running_def)
  then have rows: "runs d' = row_upd r_id r (enter_status c Paused) (runs d)"
    using x by (auto elim!: transition_InrE)
  have "r_status y = ''running''" if "y \<in> set (runs d)" "r_id y = r" for y
    using True row_get_mem [OF dist that(1)] that(2) by (simp add: running_def)
  then show ?thesis
    unfolding rows by (auto simp: pause_rows_def row_upd_def)
next
  case False
  then have "d' = d"
    using po by (auto simp: pause_once_def running_def split: if_splits)
  with False pause_rows_idle [OF dist, of "{r}" c] show ?thesis
    by simp
qed

lemma wall_loop_rows:
  assumes "room d" and "distinct (map r_id (runs d))" and "\<forall>p \<in> paused. \<not> running d p"
    and "wall_loop c xs paused rep d = (res, rep', d')"
  shows "runs d' = pause_rows c (set xs) (runs d) \<and> worktree_bindings d' = worktree_bindings d"
  using assms
proof (induction xs arbitrary: paused rep d)
  case Nil
  then show ?case by simp
next
  case (Cons r xs)
  obtain res2 paused2 d2 where
    po: "pause_once c r ''wall clock budget exhausted'' paused d = (res2, paused2, d2)"
    by (metis prod_cases3)
  note ok = pause_once_ok [OF Cons.prems(1) po Cons.prems(3)]
  note rows = pause_once_rows [OF Cons.prems(1,2) po Cons.prems(3)]
  from ok obtain b rep3 where loop: "wall_loop c xs paused2 rep3 d2 = (res, rep', d')"
    using Cons.prems(4) po by (auto simp: Let_def)
  have "room d2" and "\<forall>p \<in> paused2. \<not> running d2 p" and "worktree_bindings d2 = worktree_bindings d"
    using ok room_calmer [OF Cons.prems(1)] by auto
  then show ?case
    using Cons.IH [OF _ _ _ loop] Cons.prems(2) rows by (simp add: pause_rows_compose)
qed

lemma wall_loop_quarantined:
  "wall_loop c xs paused rep d = (res, rep', d') \<Longrightarrow> bindings_quarantined rep' = bindings_quarantined rep"
  by (induction c xs paused rep d rule: wall_loop.induct)
    (auto simp: Let_def split: prod.splits sum.splits if_splits)

lemma lease_loop_rows:
  assumes "room d" and "distinct (map r_id (runs d))" and "\<forall>p \<in> paused. \<not> running d p"
    and "\<forall>x \<in> set xs. map_option b_lifecycle (get_binding_row d (fst x)) = Some ''ready''"
    and "distinct (map fst xs)"
    and "lease_loop c xs paused rep d = (res, rep', d')"
  shows "runs d' = pause_rows c (snd ` set xs) (runs d) \<and>
    worktree_bindings d' = quarantine_rows c (fst ` set xs) (worktree_bindings d) \<and>
    bindings_quarantined rep' = bindings_quarantined rep + length xs"
  using assms
proof (induction xs arbitrary: paused rep d)
  case Nil
  then show ?case by simp
next
  case (Cons x xs)
  obtain i r where x: "x = (i, r)" by (cases x)
  define d1 where "d1 = set_lifecycle c i ''quarantined'' d"
  have ready: "map_option b_lifecycle (get_binding_row d i) = Some ''ready''"
    using Cons.prems(4) x by simp
  have bs1: "worktree_bindings d1 = quarantine_rows c {i} (worktree_bindings d)"
    by (simp add: d1_def quarantine_rows_def row_upd_def)
  have runs1: "runs d1 = runs d" and run1: "running d1 = running d"
    by (simp_all add: d1_def running_def fun_eq_iff)
  have room1: "room d1"
    using Cons.prems(1) quarantine_calmer unfolding d1_def by (rule room_calmer)
  obtain res2 paused2 d2 where po: "pause_once c r ''lease lost'' paused d1 = (res2, paused2, d2)"
    by (metis prod_cases3)
  have idle1: "\<forall>p \<in> paused. \<not> running d1 p"
    using Cons.prems(3) run1 by simp
  note ok = pause_once_ok [OF room1 po idle1]
  have rows: "runs d2 = pause_rows c {r} (runs d)"
    using pause_once_rows [OF room1 _ po idle1] Cons.prems(2) runs1 by simp
  have bs2: "worktree_bindings d2 = quarantine_rows c {i} (worktree_bindings d)"
    using ok bs1 by simp
  from ok obtain rep3 where loop: "lease_loop c xs paused2 rep3 d2 = (res, rep', d')"
    and rep3: "bindings_quarantined rep3 = bindings_quarantined rep + 1"
    using Cons.prems(6) po ready unfolding x lease_loop.simps Let_def d1_def
    by (auto split: if_splits)
  have "room d2" and "\<forall>p \<in> paused2. \<not> running d2 p"
    using ok room_calmer [OF room1] by auto
  moreover have "map_option b_lifecycle (get_binding_row d2 (fst y)) = Some ''ready''" if "y \<in> set xs" for y
  proof -
    have "fst y \<noteq> i"
      using that Cons.prems(5) x by auto
    then have "get_binding_row d2 (fst y) = get_binding_row d (fst y)"
      by (simp add: bs2 row_get_quarantine)
    with that Cons.prems(4) show ?thesis by simp
  qed
  ultimately show ?case
    using Cons.IH [OF _ _ _ _ _ loop] Cons.prems(2,5) rows bs2 rep3
    by (simp add: pause_rows_compose quarantine_rows_compose x)
qed

lemma exhausted_after_pause:
  assumes "runs d' = pause_rows c S (runs d)"
  shows "exhausted_runs c d' = filter (\<lambda>r. r \<notin> S) (exhausted_runs c d)"
proof -
  have "map r_id (filter (wall_exhausted c) (pause_rows c S rows)) =
      filter (\<lambda>r. r \<notin> S) (map r_id (filter (wall_exhausted c) rows))" for rows
    by (induction rows) (auto simp: pause_rows_def wall_exhausted_def)
  then show ?thesis
    by (simp add: exhausted_runs_def assms)
qed

lemma expired_leases_ready:
  assumes "distinct (map b_id (worktree_bindings d))"
  shows "\<forall>x \<in> set (expired_leases c d). map_option b_lifecycle (get_binding_row d (fst x)) = Some ''ready''"
    and "distinct (map fst (expired_leases c d))"
  using assms
  by (auto simp: expired_leases_def lease_expired_def row_get_mem comp_def distinct_map_filter)

lemma sweep_once_rows:
  assumes room: "room d" and runs: "distinct (map r_id (runs d))"
    and bs: "distinct (map b_id (worktree_bindings d))"
  shows "\<exists>report d'. sweep_once c d = (Inr report, d') \<and>
    worktree_bindings d' = quarantine_rows c (fst ` set (expired_leases c d)) (worktree_bindings d) \<and>
    runs d' = pause_rows c (snd ` set (expired_leases c d) \<union> set (exhausted_runs c d)) (runs d) \<and>
    leases_expired report = length (expired_leases c d) \<and>
    bindings_quarantined report = length (expired_leases c d) \<and>
    runs_wall_exceeded report =
      length (filter (\<lambda>r. r \<notin> snd ` set (expired_leases c d)) (exhausted_runs c d)) \<and>
    length (run_transitions d') = length (run_transitions d) + runs_paused report"
proof -
  let ?E = "expired_leases c d"
  let ?S = "snd ` set ?E"
  obtain res1 rep1 d1 where l: "lease_loop c ?E {} default_report d = (res1, rep1, d1)"
    by (metis prod_cases3)
  obtain res2 rep2 d2 where w: "wall_loop c (exhausted_runs c d1) {} rep1 d1 = (res2, rep2, d2)"
    by (metis prod_cases3)
  have lo: "res1 = Inr ()" "calmer d d1" "leases_expired rep1 = length ?E" "runs_wall_exceeded rep1 = 0"
      "length (run_transitions d1) = length (run_transitions d) + runs_paused rep1"
    using lease_loop_ok [OF room _ l] by (simp_all add: default_report_def)
  have lr: "runs d1 = pause_rows c ?S (runs d)"
      "worktree_bindings d1 = quarantine_rows c (fst ` set ?E) (worktree_bindings d)"
      "bindings_quarantined rep1 = length ?E"
    using lease_loop_rows [OF room runs _ expired_leases_ready [OF bs] l] by (simp_all add: default_report_def)
  have room1: "room d1"
    using room lo(2) by (rule room_calmer)
  note wo = wall_loop_ok [OF room1 _ w] and wr = wall_loop_rows [OF room1 _ _ w]
    and wq = wall_loop_quarantined [OF w]
  have ex: "exhausted_runs c d1 = filter (\<lambda>r. r \<notin> ?S) (exhausted_runs c d)"
    using lr(1) by (rule exhausted_after_pause)
  have un: "set (exhausted_runs c d1) \<union> ?S = ?S \<union> set (exhausted_runs c d)"
    unfolding ex by auto
  have "sweep_once c d = (Inr rep2, d2)"
    using lo(1) wo w l by (simp add: sweep_once_def sweep_expired_leases_def sweep_wall_clock_def)
  moreover have "runs d2 = pause_rows c (?S \<union> set (exhausted_runs c d)) (runs d)"
      "worktree_bindings d2 = quarantine_rows c (fst ` set ?E) (worktree_bindings d)"
    using wr runs lr un by (simp_all add: pause_rows_compose)
  ultimately show ?thesis
    using wo lo lr wq ex by simp
qed

lemma running_pause:
  assumes "runs d' = pause_rows c S (runs d)"
  shows "running d' r \<longleftrightarrow> running d r \<and> r \<notin> S"
proof -
  have "row_get r_id r (pause_rows c S rows) =
      map_option (\<lambda>x. if r_id x \<in> S \<and> r_status x = ''running'' then enter_status c Paused x else x)
        (row_get r_id r rows)" for rows
    by (induction rows) (auto simp: pause_rows_def)
  moreover have "x \<in> set (runs d) \<and> r_id x = r" if "get_run_row d r = Some x" for x
    using that by (rule row_get_SomeD)
  moreover have "r_status (enter_status c Paused x) = ''paused''" for x
    by simp
  ultimately show ?thesis
    unfolding running_def assms by (cases "get_run_row d r") auto
qed

lemma swept_expired:
  assumes bs: "worktree_bindings d' = quarantine_rows c (fst ` set (expired_leases c d)) (worktree_bindings d)"
    and rs: "\<And>r. running d' r \<Longrightarrow> running d r"
  shows "expired_leases c d' = []"
proof -
  have "\<not> lease_expired c d' b" if "b \<in> set (worktree_bindings d')" for b
  proof
    assume ex: "lease_expired c d' b"
    from that obtain b0 where b0: "b0 \<in> set (worktree_bindings d)"
      and b: "b = (if b_id b0 \<in> fst ` set (expired_leases c d)
        then b0\<lparr>b_lifecycle := ''quarantined'', b_updated_at := db_now c\<rparr> else b0)"
      unfolding bs quarantine_rows_def set_map by (elim imageE)
    from ex b have keep: "b_id b0 \<notin> fst ` set (expired_leases c d)" "b = b0"
      by (auto simp: lease_expired_def split: if_splits)
    with ex rs have "lease_expired c d b0"
      by (auto simp: lease_expired_def running_def split: option.splits)
    with b0 keep(1) show False
      by (force simp: expired_leases_def)
  qed
  then show ?thesis
    by (simp add: expired_leases_def filter_empty_conv)
qed

lemma sweep_nothing: "expired_leases c d = [] \<Longrightarrow> exhausted_runs c d = [] \<Longrightarrow> sweep_once c d = (Inr default_report, d)"
  by (simp add: sweep_once_def sweep_expired_leases_def sweep_wall_clock_def)

section \<open>Properties\<close>

text \<open>
  One sweep, on a store where no log of a running run is full, returns a report and does
  exactly this: the \<open>ready\<close> bindings of running runs whose lease has expired become \<open>quarantined\<close>,
  the running runs that own one or have used up their wall clock are paused, every other binding
  and run is as it was, and the report counts them.
\<close>

theorem sweep_once_spec:
  assumes room: "room d" and runs: "distinct (map r_id (runs d))"
    and bs: "distinct (map b_id (worktree_bindings d))"
  shows "\<exists>report d'. sweep_once c d = (Inr report, d') \<and>
    worktree_bindings d' = quarantine_rows c (fst ` set (expired_leases c d)) (worktree_bindings d) \<and>
    runs d' = pause_rows c (snd ` set (expired_leases c d) \<union> set (exhausted_runs c d)) (runs d) \<and>
    leases_expired report = length (expired_leases c d) \<and>
    bindings_quarantined report = length (expired_leases c d) \<and>
    runs_wall_exceeded report =
      length (filter (\<lambda>r. r \<notin> snd ` set (expired_leases c d)) (exhausted_runs c d)) \<and>
    length (run_transitions d') = length (run_transitions d) + runs_paused report"
  using assms by (rule sweep_once_rows)

definition sample_sweep_db :: db where
  "sample_sweep_db = sample_db
     [sample_run 1 Running, (sample_run 2 Running)\<lparr>r_wall_started_at := Some (- 90000000)\<rparr>, sample_run 3 Paused]
     [(sample_binding 5 1 ''k1'')\<lparr>b_lease_expires_at := Some 10\<rparr>, sample_binding 6 1 ''k2'',
      (sample_binding 7 3 ''k3'')\<lparr>b_lease_expires_at := Some 10\<rparr>]"

lemma sample_sweep_hyps:
  "room sample_sweep_db" "distinct (map r_id (runs sample_sweep_db))"
  "distinct (map b_id (worktree_bindings sample_sweep_db))"
  by (simp_all add: sample_sweep_db_def sample_defs room_def transitions_of_def)

theorem sweep_once_spec_witness:
  "expired_leases sample_clock sample_sweep_db = [(5, 1)] \<and> exhausted_runs sample_clock sample_sweep_db = [2] \<and>
   (\<exists>report d'. sweep_once sample_clock sample_sweep_db = (Inr report, d') \<and>
      map b_lifecycle (worktree_bindings d') = [''quarantined'', ''ready'', ''ready''] \<and>
      map r_status (runs d') = [''paused'', ''paused'', ''paused''] \<and>
      leases_expired report = 1 \<and> runs_wall_exceeded report = 1)"
proof -
  have E: "expired_leases sample_clock sample_sweep_db = [(5, 1)]"
    and W: "exhausted_runs sample_clock sample_sweep_db = [2]"
    by (simp_all add: sample_sweep_db_def sample_defs expired_leases_def lease_expired_def
        exhausted_runs_def wall_exhausted_def)
  with sweep_once_spec [OF sample_sweep_hyps, of sample_clock] show ?thesis
    by (auto simp: quarantine_rows_def pause_rows_def sample_sweep_db_def sample_defs)
qed

text \<open>
  A sweep leaves nothing to sweep: a second sweep at the same time finds no expired lease and
  no exhausted run, changes nothing and reports zeros.
\<close>

theorem sweep_once_converges:
  assumes "room d" and "distinct (map r_id (runs d))" and "distinct (map b_id (worktree_bindings d))"
    and "sweep_once c d = (res, d')"
  shows "expired_leases c d' = [] \<and> exhausted_runs c d' = [] \<and> sweep_once c d' = (Inr default_report, d')"
proof -
  from sweep_once_rows [OF assms(1-3), of c] assms(4)
  have bs: "worktree_bindings d' = quarantine_rows c (fst ` set (expired_leases c d)) (worktree_bindings d)"
    and rs: "runs d' = pause_rows c (snd ` set (expired_leases c d) \<union> set (exhausted_runs c d)) (runs d)"
    by auto
  have "expired_leases c d' = []"
    using bs running_pause [OF rs] by (intro swept_expired) auto
  moreover have "exhausted_runs c d' = []"
    using exhausted_after_pause [OF rs] by (auto simp: filter_empty_conv)
  ultimately show ?thesis
    by (simp add: sweep_nothing)
qed

theorem sweep_once_converges_witness:
  "sweep_once sample_clock (snd (sweep_once sample_clock sample_sweep_db)) =
    (Inr default_report, snd (sweep_once sample_clock sample_sweep_db))"
  using sweep_once_converges [OF sample_sweep_hyps prod.collapse [symmetric], of sample_clock] by blast

end
