(* ===== verification/Coord_Provision.thy ===== *)
theory Coord_Provision
  imports Coord_Saga Coord_Sample
begin

text \<open>
  What \<open>saga::provision\<close> has done when it returns \<open>Ok\<close>: every worktree of the specification is
  bound, owned by the run, granted and leased. Nothing a later iteration of the loop does to
  another worktree undoes it.
\<close>

section \<open>One iteration\<close>

text \<open>
  The two clocks of the code are the process's (\<open>Utc::now()\<close>, for the new expiry) and the database's
  (\<open>now()\<close>, for the test of an existing lease): a fresh lease counts as active only if they differ
  by less than its time to live.
\<close>

definition clocks_agree :: "clock \<Rightarrow> bool" where
  "clocks_agree c \<longleftrightarrow> (\<exists>t. utc_plus c provision_lease_ttl_secs = Some t \<and> db_now c < t)"

definition granted :: "uuid \<Rightarrow> uuid \<Rightarrow> access \<Rightarrow> db \<Rightarrow> bool" where
  "granted r i acc d \<longleftrightarrow>
    map_option g_access (row_get (\<lambda>g. (g_run_id g, g_binding_id g)) (r, i) (run_worktree_grants d))
      = Some (access_as_str acc)"

text \<open>The binding a specification's key names.\<close>

definition bound :: "string \<Rightarrow> db \<Rightarrow> binding_row option" where
  "bound key d = row_get b_idempotency_key key (worktree_bindings d)"

definition provisioned :: "clock \<Rightarrow> uuid \<Rightarrow> worktree_spec \<Rightarrow> db \<Rightarrow> bool" where
  "provisioned c r wt d \<longleftrightarrow>
    (case bound (sp_idempotency_key wt) d of
       None \<Rightarrow> False
     | Some b \<Rightarrow> b_owner_run_id b = Some r \<and> has_active_lease c b \<and> granted r (b_id b) (sp_access wt) d)"

lemma create_binding_bound:
  assumes "create_binding c i run_id repo target role base branch key d = Inr (j, d')"
  shows "\<exists>b. bound key d' = Some b \<and> b_id b = j \<and>
      (bound key d = None \<longrightarrow> b_lifecycle b = ''ready'') \<and>
      (\<forall>b0. bound key d = Some b0 \<longrightarrow> b = b0)"
    and "bound key' d = Some b' \<Longrightarrow> bound key' d' = Some b'"
    and "key' \<noteq> key \<Longrightarrow> bound key' d' = bound key' d"
    and "granted r k acc d' = granted r k acc d"
  using assms
  by - (erule create_binding_InrE; fastforce simp: bound_def granted_def row_simps split: option.splits)+

lemma grant_granted:
  assumes "grant run_id i acc d = Inr d'"
  shows "granted run_id i acc d'" and "j \<noteq> i \<Longrightarrow> granted r j a d' = granted r j a d"
    and "bound key d' = bound key d"
  using assms
  by (auto simp: grant_def Let_def granted_def bound_def row_simps split: if_splits option.splits)

lemma row_get_upd_other_key:
  assumes "\<And>r. key (f r) = key r"
  shows "row_get key k (row_upd other i f rows) =
    map_option (\<lambda>r. if other r = i then f r else r) (row_get key k rows)"
  by (induction rows) (auto simp: assms)

lemma acquire_lease_bound:
  assumes acq: "acquire_lease c i ttl d = Inr (l, d')" and "bound key d = Some b"
  shows "\<exists>b'. bound key d' = Some b' \<and> b_id b' = b_id b \<and> b_owner_run_id b' = b_owner_run_id b \<and>
      b_lifecycle b' = b_lifecycle b \<and> (b_id b \<noteq> i \<longrightarrow> b' = b) \<and>
      (b_id b = i \<longrightarrow> b_lease_expires_at b' = utc_plus c ttl \<and> b_epoch b' = b_epoch b + 1)"
    and "granted r j a d' = granted r j a d"
  using assms
  by - (erule acquire_lease_InrE; simp add: bound_def granted_def row_get_upd_other_key)+

lemma ensure_lease_bound:
  assumes "ensure_lease c i d = Inr d'" and "bound key d = Some b"
  shows "\<exists>b'. bound key d' = Some b' \<and> b_id b' = b_id b \<and> b_owner_run_id b' = b_owner_run_id b \<and>
      b_lifecycle b' = b_lifecycle b \<and> (b_id b \<noteq> i \<longrightarrow> b' = b)"
    and "granted r j a d' = granted r j a d"
  using assms acquire_lease_bound
  by (fastforce simp: ensure_lease_def split: option.splits if_splits sum.splits)+

lemma ensure_lease_unbound:
  assumes "ensure_lease c i d = Inr d'" and "bound key d = None"
  shows "bound key d' = None"
  using assms
  by (auto simp: ensure_lease_def bound_def row_get_upd_other_key elim!: acquire_lease_InrE
      split: option.splits if_splits sum.splits)

lemma grant_bindings_inv: "bindings_inv d \<Longrightarrow> grant r i acc d = Inr d' \<Longrightarrow> bindings_inv d'"
  by (auto simp: grant_def Let_def bindings_inv_def binding_ok_def split: if_splits)

lemma ensure_lease_active:
  assumes el: "ensure_lease c i d = Inr d'" and agree: "clocks_agree c"
    and ids: "distinct (map b_id (worktree_bindings d))"
    and b: "bound key d = Some b" "b_id b = i" and b': "bound key d' = Some b'"
  shows "has_active_lease c b'"
proof -
  have "get_binding_row d i = Some b"
    using b ids row_get_mem [of b_id "worktree_bindings d" b]
    by (auto simp: bound_def dest: row_get_SomeD)
  then consider "has_active_lease c b" "d' = d"
    | l where "acquire_lease c i provision_lease_ttl_secs d = Inr (l, d')"
    using el by (auto simp: ensure_lease_def split: if_splits sum.splits)
  then show ?thesis
  proof cases
    case 1
    with b b' show ?thesis by simp
  next
    case 2
    from acquire_lease_bound(1) [OF 2 b(1)] b(2) b' have
      "b_lease_expires_at b' = utc_plus c provision_lease_ttl_secs"
      by auto
    with agree show ?thesis
      by (auto simp: has_active_lease_def clocks_agree_def)
  qed
qed

lemma provision_one_InrE:
  assumes "provision_one c i r wt d = (Inr (), d')"
  obtains j d1 d2 where
    "create_binding c i r (sp_repo_id wt) (sp_target_id wt) (sp_role wt) (sp_base_commit wt)
       (sp_branch wt) (sp_idempotency_key wt) d = Inr (j, d1)"
    and "binding_owner d1 j = Inr (Some r)" and "grant r j (sp_access wt) d1 = Inr d2"
    and "ensure_lease c j d2 = Inr d'"
  using assms by (auto simp: provision_one_def split: sum.splits if_splits)

lemma provision_one_inv:
  assumes "bindings_inv d" and "provision_one c i r wt d = (Inr (), d')"
  shows "bindings_inv d'"
  using assms(2)
proof (rule provision_one_InrE)
  fix j d1 d2
  assume "create_binding c i r (sp_repo_id wt) (sp_target_id wt) (sp_role wt) (sp_base_commit wt)
       (sp_branch wt) (sp_idempotency_key wt) d = Inr (j, d1)"
    and "grant r j (sp_access wt) d1 = Inr d2" and el: "ensure_lease c j d2 = Inr d'"
  with assms(1) have "bindings_inv d2"
    using create_binding_bindings_inv grant_bindings_inv by blast
  with el show ?thesis
    by (auto simp: ensure_lease_def intro: acquire_lease_bindings_inv
        split: option.splits if_splits sum.splits)
qed

lemma bound_id_inject:
  assumes "bindings_inv d" and "bound k d = Some b" and "bound k' d = Some b'" and "k' \<noteq> k"
  shows "b_id b' \<noteq> b_id b"
proof
  assume eq: "b_id b' = b_id b"
  have dist: "distinct (map b_id (worktree_bindings d))"
    using assms(1) by (simp add: bindings_inv_def)
  have mem: "b \<in> set (worktree_bindings d)" "b' \<in> set (worktree_bindings d)"
    and keys: "b_idempotency_key b = k" "b_idempotency_key b' = k'"
    using assms(2,3) by (auto simp: bound_def dest: row_get_SomeD)
  have "b' = b"
    using row_get_mem [OF dist mem(1)] row_get_mem [OF dist mem(2)] eq by simp
  with keys assms(4) show False by simp
qed

lemma provision_one_provisioned:
  assumes inv: "bindings_inv d" and agree: "clocks_agree c"
    and one: "provision_one c i r wt d = (Inr (), d')"
  shows "provisioned c r wt d'"
    and "bound (sp_idempotency_key wt) d = None \<Longrightarrow>
      \<exists>b. bound (sp_idempotency_key wt) d' = Some b \<and> b_lifecycle b = ''ready''"
proof -
  from one obtain j d1 d2 where
    cb: "create_binding c i r (sp_repo_id wt) (sp_target_id wt) (sp_role wt) (sp_base_commit wt)
       (sp_branch wt) (sp_idempotency_key wt) d = Inr (j, d1)"
    and own: "binding_owner d1 j = Inr (Some r)" and gr: "grant r j (sp_access wt) d1 = Inr d2"
    and el: "ensure_lease c j d2 = Inr d'"
    by (rule provision_one_InrE)
  let ?key = "sp_idempotency_key wt"
  from create_binding_bound(1) [OF cb] obtain b where b: "bound ?key d1 = Some b" "b_id b = j"
    and fresh: "bound ?key d = None \<longrightarrow> b_lifecycle b = ''ready''"
    by (elim exE conjE)
  have inv1: "bindings_inv d1"
    using inv cb by (rule create_binding_bindings_inv)
  then have "get_binding_row d1 j = Some b"
    using b row_get_mem [of b_id "worktree_bindings d1" b]
    by (auto simp: bound_def bindings_inv_def dest: row_get_SomeD)
  with own have owner: "b_owner_run_id b = Some r"
    by (simp add: binding_owner_def)
  have b2: "bound ?key d2 = Some b" and gr2: "granted r j (sp_access wt) d2"
    using b(1) grant_granted [OF gr] by simp_all
  have ids: "distinct (map b_id (worktree_bindings d2))"
    using grant_bindings_inv [OF inv1 gr] by (simp add: bindings_inv_def)
  from ensure_lease_bound(1) [OF el b2] obtain b' where
    b': "bound ?key d' = Some b'" "b_id b' = j" "b_owner_run_id b' = Some r" "b_lifecycle b' = b_lifecycle b"
    using b owner by auto
  have "has_active_lease c b'"
    using el agree ids b2 b(2) b'(1) by (rule ensure_lease_active)
  with b' gr2 show "provisioned c r wt d'"
    by (simp add: provisioned_def ensure_lease_bound(2) [OF el b2])
  show "\<exists>b. bound ?key d' = Some b \<and> b_lifecycle b = ''ready''" if "bound ?key d = None"
    using fresh that b' by simp
qed

text \<open>An iteration on another key leaves a binding and its grant as they were.\<close>

lemma provision_one_other:
  assumes inv: "bindings_inv d" and one: "provision_one c i r wt d = (Inr (), d')"
    and key: "key \<noteq> sp_idempotency_key wt"
  shows "bound key d' = bound key d"
    and "bound key d = Some b \<Longrightarrow> granted r' (b_id b) a d' = granted r' (b_id b) a d"
proof -
  from one obtain j d1 d2 where
    cb: "create_binding c i r (sp_repo_id wt) (sp_target_id wt) (sp_role wt) (sp_base_commit wt)
       (sp_branch wt) (sp_idempotency_key wt) d = Inr (j, d1)"
    and gr: "grant r j (sp_access wt) d1 = Inr d2" and el: "ensure_lease c j d2 = Inr d'"
    by (rule provision_one_InrE)
  have inv1: "bindings_inv d1"
    using inv cb by (rule create_binding_bindings_inv)
  have same: "bound key d2 = bound key d"
    using create_binding_bound(3) [OF cb key] grant_granted(3) [OF gr] by simp
  from create_binding_bound(1) [OF cb] obtain b0 where
    b0: "bound (sp_idempotency_key wt) d1 = Some b0" "b_id b0 = j" by blast
  have neq: "b_id b \<noteq> j" if "bound key d = Some b" for b
    using bound_id_inject [OF inv1 b0(1) _ key] that b0(2) create_binding_bound(3) [OF cb key] by simp
  show "bound key d' = bound key d"
  proof (cases "bound key d")
    case (Some b)
    with ensure_lease_bound(1) [OF el, of key b] neq [OF Some] same show ?thesis by auto
  next
    case None
    with same ensure_lease_unbound [OF el, of key] show ?thesis by simp
  qed
  assume b: "bound key d = Some b"
  then show "granted r' (b_id b) a d' = granted r' (b_id b) a d"
    using ensure_lease_bound(2) [OF el, of key b] same grant_granted(2) [OF gr neq [OF b]]
      create_binding_bound(4) [OF cb] by simp
qed

lemma provision_worktrees_provisioned:
  assumes "bindings_inv d" and "clocks_agree c"
    and "provision_worktrees c gen r wts d = (Inr (), d')"
    and "distinct (map sp_idempotency_key wts)"
  shows "(\<forall>wt \<in> set wts. provisioned c r wt d' \<and>
      (bound (sp_idempotency_key wt) d = None \<longrightarrow>
        map_option b_lifecycle (bound (sp_idempotency_key wt) d') = Some ''ready'')) \<and>
    (\<forall>key. key \<notin> sp_idempotency_key ` set wts \<longrightarrow> bound key d' = bound key d \<and>
      (\<forall>b r' a. bound key d = Some b \<longrightarrow> granted r' (b_id b) a d' = granted r' (b_id b) a d))"
  using assms
proof (induction wts arbitrary: gen d)
  case Nil
  then show ?case by simp
next
  case (Cons wt wts)
  from Cons.prems(3) obtain d1 where one: "provision_one c (gen 0) r wt d = (Inr (), d1)"
    and rest: "provision_worktrees c (\<lambda>n. gen (Suc n)) r wts d1 = (Inr (), d')"
    by (auto split: prod.splits sum.splits)
  have inv1: "bindings_inv d1"
    using Cons.prems(1) one by (rule provision_one_inv)
  note IH = Cons.IH [OF inv1 Cons.prems(2) rest]
  note here = provision_one_provisioned [OF Cons.prems(1,2) one]
  note other = provision_one_other [OF Cons.prems(1) one]
  let ?key = sp_idempotency_key
  have kept: "bound (?key wt) d' = bound (?key wt) d1"
    and kept_grant: "\<And>b r' a. bound (?key wt) d1 = Some b \<Longrightarrow> granted r' (b_id b) a d' = granted r' (b_id b) a d1"
    using IH Cons.prems(4) by auto
  have "provisioned c r wt d'"
    using here(1) kept kept_grant by (auto simp: provisioned_def split: option.splits)
  moreover have "map_option b_lifecycle (bound (?key wt) d') = Some ''ready''" if "bound (?key wt) d = None"
    using here(2) that kept by auto
  moreover have "provisioned c r x d' \<and> (bound (?key x) d = None \<longrightarrow>
      map_option b_lifecycle (bound (?key x) d') = Some ''ready'')" if "x \<in> set wts" for x
    using IH Cons.prems(4) that other(1) [of "?key x"] by (auto simp: image_iff)
  moreover have "bound key d' = bound key d \<and>
      (\<forall>b r' a. bound key d = Some b \<longrightarrow> granted r' (b_id b) a d' = granted r' (b_id b) a d)"
    if "key \<notin> ?key ` set (wt # wts)" for key
    using IH Cons.prems(4) that other [of key] by auto
  ultimately show ?case
    by simp
qed

section \<open>The saga returns\<close>

lemma transition_max_seq:
  assumes "transition c r s reason d = Inr d'" and "max_seq (map t_seq (transitions_of d r)) + 1 < i64_max"
  shows "max_seq (map t_seq (transitions_of d' r)) \<noteq> i64_max"
proof -
  let ?m = "max_seq (map t_seq (transitions_of d r))"
  have eq: "map t_seq (transitions_of d' r) = map t_seq (transitions_of d r) @ [?m + 1]"
    using assms(1) by (auto elim!: transition_InrE simp: transitions_of_def)
  show ?thesis
    using assms(2) unfolding eq max_seq_snoc by simp
qed

lemma acquire_lease_no_panic:
  "utc_plus c ttl \<noteq> None \<Longrightarrow> acquire_lease c i ttl d \<noteq> Inl LeasePanic"
  by (auto simp: acquire_lease_def split: option.splits if_splits)

lemma provision_one_no_panic:
  assumes "utc_plus c provision_lease_ttl_secs \<noteq> None"
  shows "fst (provision_one c i r wt d) \<noteq> Inl (SagaBinding LeasePanic)"
proof -
  have cb: "create_binding c i r repo target role base branch key d \<noteq> Inl LeasePanic"
    for repo target role base branch key
    by (simp add: create_binding_def split: option.splits)
  have gr: "grant r j acc x \<noteq> Inl LeasePanic" for j acc x
    by (simp add: grant_def Let_def)
  have bo: "binding_owner x j \<noteq> Inl (SagaBinding LeasePanic)" for x j
    by (simp add: binding_owner_def split: option.splits)
  have el: "ensure_lease c j x \<noteq> Inl (SagaBinding LeasePanic)" for j x
    using acquire_lease_no_panic [OF assms, of j x]
    by (auto simp: ensure_lease_def split: option.splits sum.splits)
  show ?thesis
    unfolding provision_one_def using cb gr bo el by (auto split: sum.splits prod.splits)
qed

lemma provision_worktrees_no_panic:
  assumes "utc_plus c provision_lease_ttl_secs \<noteq> None"
  shows "fst (provision_worktrees c gen r wts d) \<noteq> Inl (SagaBinding LeasePanic)"
proof (induction wts arbitrary: gen d)
  case (Cons wt wts)
  with provision_one_no_panic [OF assms, of "gen 0" r wt d] show ?case
    by (auto split: prod.splits sum.splits)
qed simp

lemma provision_worktrees_inv:
  assumes "provision_worktrees c gen r wts d = (res, d')" and "bindings_inv d"
  shows "bindings_inv d'"
proof -
  let ?R = "\<lambda>d d'. bindings_inv d \<longrightarrow> bindings_inv d'"
  have "?R d d'"
    by (rule provision_worktrees_rel [where R = ?R, OF _ _ _ _ _ assms(1)])
      (auto intro: reflpI transpI create_binding_bindings_inv grant_bindings_inv
        acquire_lease_bindings_inv)
  with assms(2) show ?thesis by simp
qed

text \<open>From the status it settles on, the saga ends in \<open>ready\<close> or compensated.\<close>

lemma provision_body_outcome:
  assumes inv: "bindings_inv d" and st: "current_run_status d (ps_run_id spec) = Inr Provisioning"
    and room: "max_seq (map t_seq (transitions_of d (ps_run_id spec))) \<noteq> i64_max"
    and time: "utc_plus c provision_lease_ttl_secs \<noteq> None"
    and body: "provision_body c gen spec d = (res, d')"
  shows "case res of
      Inr _ \<Rightarrow> current_run_status d' (ps_run_id spec) = Inr Ready \<and>
        (\<exists>d1. provision_worktrees c gen (ps_run_id spec) (ps_worktrees spec) d = (Inr (), d1) \<and>
           worktree_bindings d' = worktree_bindings d1 \<and> run_worktree_grants d' = run_worktree_grants d1)
    | Inl err \<Rightarrow> current_run_status d' (ps_run_id spec) = Inr Failed \<and> not_editable (ps_run_id spec) d' \<and>
        fst (provision_worktrees c gen (ps_run_id spec) (ps_worktrees spec) d) = Inl err"
proof -
  let ?r = "ps_run_id spec"
  obtain r1 d1 where pw: "provision_worktrees c gen ?r (ps_worktrees spec) d = (r1, d1)"
    by fastforce
  have same: "same_runs d d1"
    using pw by (rule provision_worktrees_same_runs)
  have st1: "current_run_status d1 ?r = Inr Provisioning"
    and room1: "max_seq (map t_seq (transitions_of d1 ?r)) \<noteq> i64_max"
    using st room same_runs_status [OF same] same_runs_transitions_of [OF same] by simp_all
  have inv1: "bindings_inv d1"
    using pw inv by (rule provision_worktrees_inv)
  show ?thesis
  proof (cases r1)
    case (Inr u)
    obtain d2 where tr: "transition c ?r Ready ''provisioning complete'' d1 = Inr d2"
      using transition_enabled [OF st1 _ room1, of Ready c "''provisioning complete''"]
      by (auto simp: can_transition_to_def)
    then have "res = Inr ()" "d' = d2"
      using body pw Inr by (auto simp: provision_body_def)
    then show ?thesis
      using transition_status [OF tr] transition_bindings [OF tr] pw Inr by auto
  next
    case (Inl err)
    have np: "err \<noteq> SagaBinding LeasePanic"
      using provision_worktrees_no_panic [OF time, of gen ?r "ps_worktrees spec" d] pw Inl by auto
    obtain d2 where comp: "compensate c ?r d1 = (Inr (), d2)" "current_run_status d2 ?r = Inr Failed"
      using compensate_failed [OF inv1 st1 _ room1, of c] by (auto simp: can_transition_to_def)
    then have "res = Inl err" "d' = d2"
      using body pw Inl np
      by (auto simp: provision_body_def split: saga_error.splits binding_error.splits)
    then show ?thesis
      using comp compensate_not_editable [OF inv1, of ?r c] pw Inl by auto
  qed
qed

lemma transition_bindings_inv:
  assumes "bindings_inv d" and tr: "transition c r s reason d = Inr d'"
  shows "bindings_inv d'"
proof -
  have "r_id ` set (runs d') = r_id ` set (runs d)"
    using tr by - (erule transition_InrE, simp add: ids_row_upd)
  with assms(1) transition_bindings [OF tr] show ?thesis
    by (intro bindings_inv_frame [of d d']) simp_all
qed

lemma provision_outcome:
  assumes inv: "bindings_inv d"
    and st: "current_run_status d (ps_run_id spec) \<in> {Inr Draft, Inr Provisioning}"
    and room: "max_seq (map t_seq (transitions_of d (ps_run_id spec))) + 1 < i64_max"
    and time: "utc_plus c provision_lease_ttl_secs \<noteq> None"
  obtains d1 where "bindings_inv d1" and "worktree_bindings d1 = worktree_bindings d"
    and "run_worktree_grants d1 = run_worktree_grants d"
    and "r_id ` set (runs d1) = r_id ` set (runs d)"
    and "current_run_status d1 (ps_run_id spec) = Inr Provisioning"
    and "max_seq (map t_seq (transitions_of d1 (ps_run_id spec))) \<noteq> i64_max"
    and "provision c gen spec d = provision_body c gen spec d1"
proof (cases "current_run_status d (ps_run_id spec) = Inr Draft")
  case True
  then obtain d1 where
    tr: "transition c (ps_run_id spec) Provisioning ''provisioning started'' d = Inr d1"
    using transition_enabled [OF True, of Provisioning c "''provisioning started''"] room
    by (auto simp: can_transition_to_def)
  show ?thesis
  proof (rule that)
    show "bindings_inv d1"
      using inv tr by (rule transition_bindings_inv)
    show "provision c gen spec d = provision_body c gen spec d1"
      using True tr by (simp add: provision_def)
    show "r_id ` set (runs d1) = r_id ` set (runs d)"
      using tr by - (erule transition_InrE, simp add: ids_row_upd)
  qed (use transition_bindings [OF tr] transition_status [OF tr] transition_max_seq [OF tr room] in simp_all)
next
  case False
  with st have "current_run_status d (ps_run_id spec) = Inr Provisioning"
    by simp
  with inv room show ?thesis
    by (intro that [of d]) (simp_all add: provision_def)
qed

lemma bound_frame: "worktree_bindings d' = worktree_bindings d \<Longrightarrow> bound key d' = bound key d"
  by (simp add: bound_def)


section \<open>Properties\<close>


definition sample_spec :: provision_spec where
  "sample_spec = \<lparr>ps_run_id = 1, ps_worktrees =
     [\<lparr>sp_repo_id = ''repo'', sp_target_id = ''target'', sp_role = ''primary'', sp_base_commit = ''c0'',
       sp_branch = None, sp_access = Write, sp_idempotency_key = ''k1''\<rparr>]\<rparr>"

lemma sample_spec_hyps:
  "bindings_inv (sample_db [sample_run 1 Draft] [])"
  "current_run_status (sample_db [sample_run 1 Draft] []) (ps_run_id sample_spec) \<in> {Inr Draft, Inr Provisioning}"
  "max_seq (map t_seq (transitions_of (sample_db [sample_run 1 Draft] []) (ps_run_id sample_spec))) + 1 < i64_max"
  "clocks_agree sample_clock"
  "distinct (map sp_idempotency_key (ps_worktrees sample_spec))"
  by (simp_all add: sample_defs bindings_inv_def current_run_status_def transitions_of_def
      clocks_agree_def sample_spec_def provision_lease_ttl_secs_def status_codec.parse_as_str
      flip: status_as_str.simps)


text \<open>
  A freshly provisioned worktree can be worked on at once: after a successful saga, for every
  requested key that named no binding before, the fencing check \<open>validate_op\<close> accepts the run with
  the binding's current epoch (the process clock not being ahead of the database's).
\<close>

theorem provision_fresh_editable:
  assumes inv: "bindings_inv d"
    and st: "current_run_status d (ps_run_id spec) \<in> {Inr Draft, Inr Provisioning}"
    and room: "max_seq (map t_seq (transitions_of d (ps_run_id spec))) + 1 < i64_max"
    and agree: "clocks_agree c" and skew: "utc_now c \<le> db_now c"
    and keys: "distinct (map sp_idempotency_key (ps_worktrees spec))"
    and ok: "provision c gen spec d = (Inr (), d')"
    and wt: "wt \<in> set (ps_worktrees spec)" and fresh: "bound (sp_idempotency_key wt) d = None"
  shows "\<exists>b. bound (sp_idempotency_key wt) d' = Some b \<and>
    validate_op c (ps_run_id spec) (b_id b) (b_epoch b) d' = Inr ()"
proof -
  have time: "utc_plus c provision_lease_ttl_secs \<noteq> None"
    using agree by (auto simp: clocks_agree_def)
  obtain d1 where d1: "bindings_inv d1" "current_run_status d1 (ps_run_id spec) = Inr Provisioning"
      "max_seq (map t_seq (transitions_of d1 (ps_run_id spec))) \<noteq> i64_max"
    and rows: "worktree_bindings d1 = worktree_bindings d"
    and eq: "provision c gen spec d = provision_body c gen spec d1"
    using provision_outcome [OF inv st room time] by metis
  from provision_body_outcome [OF d1 time] ok eq obtain d2 where
    pw: "provision_worktrees c gen (ps_run_id spec) (ps_worktrees spec) d1 = (Inr (), d2)"
    and same: "worktree_bindings d' = worktree_bindings d2" "run_worktree_grants d' = run_worktree_grants d2"
    by fastforce
  have "provisioned c (ps_run_id spec) wt d2"
    and "map_option b_lifecycle (bound (sp_idempotency_key wt) d2) = Some ''ready''"
    using provision_worktrees_provisioned [OF d1(1) agree pw keys] wt fresh bound_frame [OF rows] by simp_all
  then obtain b where b: "bound (sp_idempotency_key wt) d2 = Some b" "b_lifecycle b = ''ready''"
    and own: "b_owner_run_id b = Some (ps_run_id spec)" and act: "has_active_lease c b"
    by (auto simp: provisioned_def)
  have "bindings_inv d2"
    using pw d1(1) by (rule provision_worktrees_inv)
  then have "get_binding_row d' (b_id b) = Some b"
    using b(1) row_get_mem [of b_id "worktree_bindings d2" b] same(1)
    by (auto simp: bound_def bindings_inv_def dest: row_get_SomeD)
  with b own act skew bound_frame [OF same(1)] show ?thesis
    by (auto simp: validate_op_Inr_iff has_active_lease_def split: option.splits)
qed

lemma sample_provision:
  "fst (provision sample_clock of_nat sample_spec (sample_db [sample_run 1 Draft] [])) = Inr ()"
  by code_simp

theorem provision_fresh_editable_witness:
  "\<exists>b. bound ''k1'' (snd (provision sample_clock of_nat sample_spec (sample_db [sample_run 1 Draft] []))) = Some b \<and>
    validate_op sample_clock 1 (b_id b) (b_epoch b)
      (snd (provision sample_clock of_nat sample_spec (sample_db [sample_run 1 Draft] []))) = Inr ()"
proof -
  let ?wt = "hd (ps_worktrees sample_spec)"
  have "provision sample_clock of_nat sample_spec (sample_db [sample_run 1 Draft] []) =
      (Inr (), snd (provision sample_clock of_nat sample_spec (sample_db [sample_run 1 Draft] [])))"
    using sample_provision by (simp add: prod_eq_iff)
  moreover have "utc_now sample_clock \<le> db_now sample_clock" and "?wt \<in> set (ps_worktrees sample_spec)"
    and "bound (sp_idempotency_key ?wt) (sample_db [sample_run 1 Draft] []) = None"
    by (simp_all add: sample_defs sample_spec_def bound_def)
  ultimately show ?thesis
    using provision_fresh_editable [OF sample_spec_hyps(1-4) _ sample_spec_hyps(5), where wt = ?wt]
    by (fastforce simp: sample_spec_def)
qed

text \<open>
  The saga is idempotent: calling it again once the run is \<open>ready\<close>, with any specification for
  it, returns \<open>Ok\<close> and changes nothing. So does calling it a second time after it succeeded.
\<close>

theorem provision_idempotent:
  assumes "provision c gen spec d = (Inr (), d')" and "ps_run_id spec' = ps_run_id spec"
  shows "provision c' gen' spec' d' = (Inr (), d')"
proof -
  have "current_run_status d' (ps_run_id spec) = Inr Ready"
    using assms(1)
    by (auto simp: provision_def provision_body_def dest!: transition_status
        split: sum.splits run_status.splits saga_error.splits binding_error.splits prod.splits)
  with assms(2) show ?thesis
    by (simp add: provision_def)
qed

theorem provision_idempotent_witness:
  "provision sample_clock (\<lambda>n. of_nat (n + 10)) sample_spec
     (snd (provision sample_clock of_nat sample_spec (sample_db [sample_run 1 Draft] []))) =
   (Inr (), snd (provision sample_clock of_nat sample_spec (sample_db [sample_run 1 Draft] [])))"
  using sample_provision
  by (intro provision_idempotent [where c = sample_clock and spec = sample_spec]) (simp_all add: prod_eq_iff)

section \<open>The saga succeeds when nothing is in its way\<close>

text \<open>
  Nothing in the way of the rest of the loop: the run exists, the keys and the ids drawn are new,
  the roles are known, and at most one worktree wants to write, with no write grant held yet.
\<close>

definition clear_path :: "(nat \<Rightarrow> uuid) \<Rightarrow> uuid \<Rightarrow> worktree_spec list \<Rightarrow> db \<Rightarrow> bool" where
  "clear_path gen r wts d \<longleftrightarrow>
    get_run_row d r \<noteq> None \<and>
    (\<forall>wt \<in> set wts. bound (sp_idempotency_key wt) d = None \<and>
       (sp_role wt = ''primary'' \<or> sp_role wt = ''task'')) \<and>
    distinct (map sp_idempotency_key wts) \<and>
    (\<forall>n < length wts. get_binding_row d (gen n) = None) \<and> inj_on gen {..<length wts} \<and>
    length (filter (\<lambda>wt. sp_access wt = Write) wts) \<le> 1 \<and>
    ((\<exists>wt \<in> set wts. sp_access wt = Write) \<longrightarrow>
       (\<forall>g \<in> set (run_worktree_grants d). g_run_id g = r \<longrightarrow> g_access g \<noteq> ''write''))"

lemma clear_path_step:
  assumes clear: "clear_path gen r (wt # wts) d" and time: "utc_plus c provision_lease_ttl_secs \<noteq> None"
    and fk: "grants_inv d"
  shows "\<exists>d'. provision_one c (gen 0) r wt d = (Inr (), d') \<and> clear_path (\<lambda>n. gen (Suc n)) r wts d' \<and>
    grants_inv d'"
proof -
  let ?i = "gen 0"
  obtain t where t: "utc_plus c provision_lease_ttl_secs = Some t"
    using time by auto
  define b where "b = \<lparr>b_id = ?i, b_repo_id = sp_repo_id wt, b_target_id = sp_target_id wt,
      b_role = sp_role wt, b_base_commit = sp_base_commit wt, b_branch = sp_branch wt,
      b_lifecycle = ''ready'', b_owner_run_id = Some r, b_epoch = 0, b_lease_expires_at = None,
      b_idempotency_key = sp_idempotency_key wt, b_created_at = db_now c, b_updated_at = db_now c\<rparr>"
  define d1 where "d1 = d\<lparr>worktree_bindings := worktree_bindings d @ [b]\<rparr>"
  have cb: "create_binding c ?i r (sp_repo_id wt) (sp_target_id wt) (sp_role wt) (sp_base_commit wt)
      (sp_branch wt) (sp_idempotency_key wt) d = Inr (?i, d1)"
    using clear by (auto simp: clear_path_def create_binding_def bound_def d1_def b_def)
  have bid: "b_id b = ?i" and row: "get_binding_row d1 ?i = Some b"
    using clear by (auto simp: clear_path_def d1_def b_def row_simps)
  have nogrant: "row_get (\<lambda>g. (g_run_id g, g_binding_id g)) (r, ?i) (run_worktree_grants d) = None"
    using fk clear by (auto simp: grants_inv_def clear_path_def row_get_None_iff)
  define d2 where "d2 = d1\<lparr>run_worktree_grants := run_worktree_grants d @
      [\<lparr>g_run_id = r, g_binding_id = ?i, g_access = access_as_str (sp_access wt)\<rparr>]\<rparr>"
  have gr: "grant r ?i (sp_access wt) d1 = Inr d2"
    using clear nogrant row by (auto simp: grant_def Let_def d1_def d2_def clear_path_def)
  define d3 where "d3 = d2\<lparr>worktree_bindings := row_upd b_id ?i
      (\<lambda>b. b\<lparr>b_epoch := b_epoch b + 1, b_lease_expires_at := Some t, b_updated_at := db_now c\<rparr>)
      (worktree_bindings d2)\<rparr>"
  have el: "ensure_lease c ?i d2 = Inr d3"
    using row t by (simp add: ensure_lease_def d2_def d3_def b_def has_active_lease_def acquire_lease_def)
  have one: "provision_one c ?i r wt d = (Inr (), d3)"
    using row by (simp add: provision_one_def cb binding_owner_def gr el b_def)
  have gi: "grants_inv d3"
  proof -
    have "grants_inv d1"
      using fk by (rule grants_inv_frame) (auto simp: d1_def)
    then have "grants_inv d2"
      using gr by (rule grant_grants_inv)
    then show ?thesis
      by (rule grants_inv_frame) (simp_all add: d3_def ids_row_upd)
  qed
  have "clear_path (\<lambda>n. gen (Suc n)) r wts d3"
    unfolding clear_path_def
  proof (intro conjI)
    show "get_run_row d3 r \<noteq> None" "distinct (map sp_idempotency_key wts)"
      "length (filter (\<lambda>wt. sp_access wt = Write) wts) \<le> 1"
      using clear by (auto simp: clear_path_def d3_def d2_def d1_def split: if_splits)
    show "\<forall>wt\<in>set wts. bound (sp_idempotency_key wt) d3 = None \<and> (sp_role wt = ''primary'' \<or> sp_role wt = ''task'')"
      using clear
      by (auto simp: clear_path_def bound_def d3_def d2_def d1_def b_def row_get_upd_other_key row_simps image_iff)
    show "\<forall>n<length wts. get_binding_row d3 (gen (Suc n)) = None"
      using clear by (auto simp: clear_path_def d3_def d2_def d1_def b_def row_simps inj_on_def)
    show "inj_on (\<lambda>n. gen (Suc n)) {..<length wts}"
      using clear by (auto simp: clear_path_def inj_on_def)
    show "(\<exists>wt\<in>set wts. sp_access wt = Write) \<longrightarrow>
      (\<forall>g\<in>set (run_worktree_grants d3). g_run_id g = r \<longrightarrow> g_access g \<noteq> ''write'')"
      using clear by (auto simp: clear_path_def d3_def d2_def d1_def filter_empty_conv split: if_splits)
  qed
  with one gi show ?thesis by blast
qed

lemma provision_worktrees_succeeds:
  assumes "clear_path gen r wts d" and "utc_plus c provision_lease_ttl_secs \<noteq> None" and "grants_inv d"
  shows "fst (provision_worktrees c gen r wts d) = Inr ()"
  using assms
proof (induction wts arbitrary: gen d)
  case (Cons wt wts)
  from clear_path_step [OF Cons.prems] obtain d' where
    "provision_one c (gen 0) r wt d = (Inr (), d')" "clear_path (\<lambda>n. gen (Suc n)) r wts d'" "grants_inv d'"
    by blast
  with Cons show ?case by simp
qed simp

text \<open>
  The saga makes progress: from \<open>draft\<close> or \<open>provisioning\<close>, with new keys and ids, known roles, at
  most one worktree to write and no write grant held, \<open>provision\<close> returns \<open>Ok\<close>.
\<close>

theorem provision_succeeds:
  assumes inv: "bindings_inv d" and fk: "grants_inv d"
    and st: "current_run_status d (ps_run_id spec) \<in> {Inr Draft, Inr Provisioning}"
    and room: "max_seq (map t_seq (transitions_of d (ps_run_id spec))) + 1 < i64_max"
    and time: "utc_plus c provision_lease_ttl_secs \<noteq> None"
    and clear: "clear_path gen (ps_run_id spec) (ps_worktrees spec) d"
  shows "fst (provision c gen spec d) = Inr ()"
proof -
  obtain d1 where d1: "bindings_inv d1" "current_run_status d1 (ps_run_id spec) = Inr Provisioning"
      "max_seq (map t_seq (transitions_of d1 (ps_run_id spec))) \<noteq> i64_max"
    and rows: "worktree_bindings d1 = worktree_bindings d" "run_worktree_grants d1 = run_worktree_grants d"
      "r_id ` set (runs d1) = r_id ` set (runs d)"
    and eq: "provision c gen spec d = provision_body c gen spec d1"
    by (rule provision_outcome [OF inv st room time])
  have "get_run_row d1 r = None \<longleftrightarrow> get_run_row d r = None" for r
    by (simp add: row_get_None_iff rows)
  then have "clear_path gen (ps_run_id spec) (ps_worktrees spec) d1"
    using clear by (simp add: clear_path_def rows bound_frame [OF rows(1)])
  moreover have "grants_inv d1"
    using fk by (rule grants_inv_frame) (simp_all add: rows)
  ultimately have pw: "fst (provision_worktrees c gen (ps_run_id spec) (ps_worktrees spec) d1) = Inr ()"
    using time by (intro provision_worktrees_succeeds)
  obtain res d' where body: "provision_body c gen spec d1 = (res, d')"
    by fastforce
  from provision_body_outcome [OF d1 time body] pw show ?thesis
    by (cases res) (simp_all add: eq body)
qed

theorem provision_succeeds_witness:
  "fst (provision sample_clock of_nat sample_spec (sample_db [sample_run 1 Draft] [])) = Inr ()"
proof (rule provision_succeeds)
  show "grants_inv (sample_db [sample_run 1 Draft] [])"
    by (simp add: sample_defs grants_inv_def one_writable_per_run_def)
  show "utc_plus sample_clock provision_lease_ttl_secs \<noteq> None"
    by (simp add: sample_clock_def)
  show "clear_path of_nat (ps_run_id sample_spec) (ps_worktrees sample_spec) (sample_db [sample_run 1 Draft] [])"
    by (simp add: sample_defs sample_spec_def clear_path_def bound_def lessThan_Suc)
qed (rule sample_spec_hyps)+

text \<open>
  A crash inside a compensation is not resumed as one. If the process stops after the
  compensation of a run at \<open>provisioning\<close> walked its bindings back and before it set the run to
  \<open>failed\<close>, a later \<open>provision\<close> of the same specification returns \<open>Ok\<close> and leaves the run \<open>ready\<close>
  with its worktree still \<open>quarantined\<close>: the fencing check refuses every operation on it.
\<close>

theorem provision_after_crashed_compensation:
  "let crashed = walked_back sample_clock 1
         (sample_db [sample_run 1 Provisioning] [sample_binding 5 1 ''k1'']);
       (res, d') = provision sample_clock of_nat sample_spec crashed
   in res = Inr () \<and> current_run_status d' 1 = Inr Ready \<and>
      (\<forall>ep. validate_op sample_clock 1 5 ep d' = Inl (NotReady 5))"
proof -
  have "case provision sample_clock of_nat sample_spec (walked_back sample_clock 1
      (sample_db [sample_run 1 Provisioning] [sample_binding 5 1 ''k1''])) of (res, d') \<Rightarrow>
      res = Inr () \<and> current_run_status d' 1 = Inr Ready \<and>
      map_option (\<lambda>b. (b_owner_run_id b, b_lifecycle b)) (get_binding_row d' 5) = Some (Some 1, ''quarantined'')"
    by code_simp
  then show ?thesis
    by (auto simp: Let_def validate_op_def split: prod.splits)
qed

end
