(* ===== verification/Coord_Workspace.thy ===== *)
theory Coord_Workspace
  imports Coord_Sample "HOL-Library.List_Lexorder" "HOL-Library.Char_ord"
begin

text \<open>
  \<open>vingilot/coordinator/coordinator/src/workspace.rs\<close>: compare-and-swap mutations of a workspace.
  \<open>state_hash\<close> (SHA-256 of the canonical JSON, third-party code) is the parameter \<open>hash\<close>; no
  theorem needs a property of it.
\<close>

section \<open>Definitions\<close>

datatype workspace_error =
    WorkspaceNotFound uuid
  | WorkspaceDb db_error

record mutation_outcome =
  mo_accepted :: bool
  mo_revision :: i64
  mo_state_hash :: string

definition ensure_workspace :: "(json \<Rightarrow> string) \<Rightarrow> clock \<Rightarrow> uuid \<Rightarrow> db \<Rightarrow> db" where
  "ensure_workspace hash c w d =
    (if get_workspace_row d w \<noteq> None then d
     else d\<lparr>workspaces := workspaces d @
       [\<lparr>ws_id = w, ws_revision = 0, ws_state = JObject [], ws_state_hash = hash (JObject []),
         ws_updated_at = db_now c\<rparr>]\<rparr>)"

text \<open>\<open>BTreeMap::insert\<close> on the sorted association list of an object.\<close>

fun obj_insert :: "string \<Rightarrow> json \<Rightarrow> (string \<times> json) list \<Rightarrow> (string \<times> json) list" where
  "obj_insert k v [] = [(k, v)]"
| "obj_insert k v ((k', v') # m) =
    (if k < k' then (k, v) # (k', v') # m
     else if k = k' then (k, v) # m
     else (k', v') # obj_insert k v m)"

definition merge_patch :: "json \<Rightarrow> json \<Rightarrow> json" where
  "merge_patch base patch =
    (case (base, patch) of
       (JObject base_map, JObject patch_map) \<Rightarrow>
         JObject (foldl (\<lambda>m (key, value). obj_insert key value m) base_map patch_map)
     | (_, other) \<Rightarrow> other)"

text \<open>The revision is an \<open>i64\<close> incremented in Rust: it wraps in a release build.\<close>

definition apply_mutations ::
  "(json \<Rightarrow> string) \<Rightarrow> clock \<Rightarrow> uuid \<Rightarrow> i64 \<Rightarrow> json list \<Rightarrow> db \<Rightarrow> workspace_error + mutation_outcome \<times> db"
  where
  "apply_mutations hash c w expected mutations d =
    (case get_workspace_row d w of
       None \<Rightarrow> Inl (WorkspaceNotFound w)
     | Some row \<Rightarrow>
         if ws_revision row \<noteq> expected
         then Inr (\<lparr>mo_accepted = False, mo_revision = ws_revision row,
                    mo_state_hash = ws_state_hash row\<rparr>, d)
         else
           let new_state = foldl merge_patch (ws_state row) mutations;
               new_revision = wrap_i64 (ws_revision row + 1);
               new_hash = hash new_state
           in if (w, new_revision) \<in> (\<lambda>e. (we_workspace_id e, we_revision e)) ` set (workspace_events d)
              then Inl (WorkspaceDb (UniqueViolation ''workspace_events_pkey''))
              else Inr (\<lparr>mo_accepted = True, mo_revision = new_revision, mo_state_hash = new_hash\<rparr>,
                d\<lparr>workspaces := row_upd ws_id w
                    (\<lambda>r. r\<lparr>ws_revision := new_revision, ws_state := new_state,
                           ws_state_hash := new_hash, ws_updated_at := db_now c\<rparr>) (workspaces d),
                  workspace_events := workspace_events d @
                    [\<lparr>we_workspace_id = w, we_revision = new_revision,
                      we_prev_revision = ws_revision row, we_mutations = JArray mutations,
                      we_state_hash = new_hash, we_created_at = db_now c\<rparr>]\<rparr>))"

section \<open>Merging\<close>

lemma obj_insert_lookup:
  "map_of (obj_insert k v m) k' = (if k' = k then Some v else map_of m k')"
  by (induction m) auto

lemma obj_insert_keys: "fst ` set (obj_insert k v m) = insert k (fst ` set m)"
  by (induction k v m rule: obj_insert.induct) (simp_all add: insert_commute)

lemma obj_insert_sorted:
  "sorted_wrt (<) (map fst m) \<Longrightarrow> sorted_wrt (<) (map fst (obj_insert k v m))"
proof (induction m)
  case (Cons e m)
  obtain k' v' where e: "e = (k', v')" by (cases e)
  have rest: "\<forall>x \<in> fst ` set m. k' < x" and m: "sorted_wrt (<) (map fst m)"
    using Cons.prems by (auto simp: e)
  have keys: "\<forall>x \<in> fst ` set (obj_insert k v m). k' < x" if "k' < k"
    using rest that by (simp add: obj_insert_keys)
  from rest keys m Cons.IH show ?case
    by (auto simp: e)
qed simp

lemma merge_fold_lookup:
  "map_of (foldl (\<lambda>m (key, value). obj_insert key value m) b p) k =
    (case map_of (rev p) k of Some v \<Rightarrow> Some v | None \<Rightarrow> map_of b k)"
  by (induction p arbitrary: b)
    (auto simp: obj_insert_lookup map_add_def split: option.splits)

lemma merge_fold_sorted:
  "sorted_wrt (<) (map fst b) \<Longrightarrow>
   sorted_wrt (<) (map fst (foldl (\<lambda>m (key, value). obj_insert key value m) b p))"
  by (induction p arbitrary: b) (auto simp: obj_insert_sorted)

section \<open>The invariant: the event log replays to the state\<close>

definition events_of :: "db \<Rightarrow> uuid \<Rightarrow> workspace_event_row list" where
  "events_of d w = filter (\<lambda>e. we_workspace_id e = w) (workspace_events d)"

fun event_patches :: "json \<Rightarrow> json list" where
  "event_patches (JArray ps) = ps"
| "event_patches _ = []"

definition replay :: "workspace_event_row list \<Rightarrow> json" where
  "replay es = foldl (\<lambda>st e. foldl merge_patch st (event_patches (we_mutations e))) (JObject []) es"

definition ws_ok :: "(json \<Rightarrow> string) \<Rightarrow> workspace_event_row list \<Rightarrow> workspace_row \<Rightarrow> bool" where
  "ws_ok hash es row \<longleftrightarrow>
    ws_state row = replay es \<and> ws_state_hash row = hash (ws_state row) \<and>
    (int (length es) \<le> i64_max \<longrightarrow>
      ws_revision row = int (length es) \<and> contiguous (map we_revision es) \<and>
      (\<forall>e \<in> set es. we_prev_revision e = we_revision e - 1))"

definition workspaces_inv :: "(json \<Rightarrow> string) \<Rightarrow> db \<Rightarrow> bool" where
  "workspaces_inv hash d \<longleftrightarrow>
    distinct (map ws_id (workspaces d)) \<and>
    (\<forall>row \<in> set (workspaces d). ws_ok hash (events_of d (ws_id row)) row) \<and>
    (\<forall>e \<in> set (workspace_events d). we_workspace_id e \<in> ws_id ` set (workspaces d))"

lemma replay_snoc:
  "replay (es @ [e]) = foldl merge_patch (replay es) (event_patches (we_mutations e))"
  by (simp add: replay_def)

lemma apply_mutations_accepted:
  assumes "apply_mutations hash c w ex ms d = Inr (out, d')" and "mo_accepted out"
  obtains row where "get_workspace_row d w = Some row" and "ws_revision row = ex"
    and "out = \<lparr>mo_accepted = True, mo_revision = wrap_i64 (ex + 1),
                mo_state_hash = hash (foldl merge_patch (ws_state row) ms)\<rparr>"
    and "d' = d\<lparr>workspaces := row_upd ws_id w
                    (\<lambda>r. r\<lparr>ws_revision := wrap_i64 (ex + 1),
                           ws_state := foldl merge_patch (ws_state row) ms,
                           ws_state_hash := hash (foldl merge_patch (ws_state row) ms),
                           ws_updated_at := db_now c\<rparr>) (workspaces d),
                  workspace_events := workspace_events d @
                    [\<lparr>we_workspace_id = w, we_revision = wrap_i64 (ex + 1),
                      we_prev_revision = ex, we_mutations = JArray ms,
                      we_state_hash = hash (foldl merge_patch (ws_state row) ms),
                      we_created_at = db_now c\<rparr>]\<rparr>"
  using assms by (auto simp: apply_mutations_def Let_def split: option.splits if_splits)

lemma apply_mutations_rejected:
  "apply_mutations hash c w ex ms d = Inr (out, d') \<Longrightarrow> \<not> mo_accepted out \<Longrightarrow> d' = d"
  by (auto simp: apply_mutations_def Let_def split: option.splits if_splits)

lemma ws_ok_step:
  assumes ok: "ws_ok hash es row" and ex: "ws_revision row = ex"
    and e: "we_mutations e = JArray ms" "we_revision e = wrap_i64 (ex + 1)" "we_prev_revision e = ex"
    and st: "ws_state row' = foldl merge_patch (ws_state row) ms"
      "ws_state_hash row' = hash (ws_state row')" "ws_revision row' = wrap_i64 (ex + 1)"
  shows "ws_ok hash (es @ [e]) row'"
proof -
  have "ws_state row' = replay (es @ [e])"
    using ok e(1) st(1) by (simp add: ws_ok_def replay_snoc)
  moreover have "ws_revision row' = int (length (es @ [e])) \<and> contiguous (map we_revision (es @ [e])) \<and>
      (\<forall>x \<in> set (es @ [e]). we_prev_revision x = we_revision x - 1)"
    if len: "int (length (es @ [e])) \<le> i64_max"
  proof -
    from len ok ex have rev: "ex = int (length es)" "contiguous (map we_revision es)"
      and prev: "\<forall>x \<in> set es. we_prev_revision x = we_revision x - 1"
      by (auto simp: ws_ok_def)
    have wrap: "wrap_i64 (ex + 1) = ex + 1"
      using len rev(1) by (intro wrap_i64_id) auto
    have "contiguous (map we_revision es @ [ex + 1])"
      using contiguous_snoc [OF rev(2)] contiguous_max [OF rev(2)] rev(1) by simp
    then show ?thesis
      using e st(3) prev rev(1) by (simp add: wrap [unfolded rev(1)])
  qed
  ultimately show ?thesis
    using st(2) by (simp add: ws_ok_def)
qed

lemma ensure_workspace_inv [inv_intros]:
  assumes inv: "workspaces_inv hash d"
  shows "workspaces_inv hash (ensure_workspace hash c w d)"
proof (cases "get_workspace_row d w = None")
  case True
  then have new: "w \<notin> ws_id ` set (workspaces d)"
    by (simp add: row_get_None_iff)
  with inv have "events_of d w = []"
    by (auto simp: workspaces_inv_def events_of_def filter_empty_conv)
  with inv new True show ?thesis
    by (auto simp: ensure_workspace_def workspaces_inv_def ws_ok_def replay_def events_of_def)
next
  case False
  with inv show ?thesis by (simp add: ensure_workspace_def)
qed

lemma events_of_snoc [simp]:
  "events_of (d\<lparr>workspaces := x, workspace_events := workspace_events d @ [e]\<rparr>) w =
    events_of d w @ (if we_workspace_id e = w then [e] else [])"
  by (simp add: events_of_def)

lemma apply_mutations_inv [inv_intros]:
  assumes inv: "workspaces_inv hash d"
    and ap: "apply_mutations hash c w ex ms d = Inr (out, d')"
  shows "workspaces_inv hash d'"
proof (cases "mo_accepted out")
  case True
  from ap True show ?thesis
  proof (rule apply_mutations_accepted)
    fix row
    assume row: "get_workspace_row d w = Some row" "ws_revision row = ex"
      and d': "d' = d\<lparr>workspaces := row_upd ws_id w
                    (\<lambda>r. r\<lparr>ws_revision := wrap_i64 (ex + 1),
                           ws_state := foldl merge_patch (ws_state row) ms,
                           ws_state_hash := hash (foldl merge_patch (ws_state row) ms),
                           ws_updated_at := db_now c\<rparr>) (workspaces d),
                  workspace_events := workspace_events d @
                    [\<lparr>we_workspace_id = w, we_revision = wrap_i64 (ex + 1),
                      we_prev_revision = ex, we_mutations = JArray ms,
                      we_state_hash = hash (foldl merge_patch (ws_state row) ms),
                      we_created_at = db_now c\<rparr>]\<rparr>"
    have ids: "map ws_id (workspaces d') = map ws_id (workspaces d)"
      by (simp add: d' row_simps)
    then have id_set: "ws_id ` set (workspaces d') = ws_id ` set (workspaces d)"
      by (metis list.set_map)
    have "ws_ok hash (events_of d' (ws_id x)) x" if x: "x \<in> set (workspaces d')" for x
    proof -
      from x obtain y where y: "y \<in> set (workspaces d)"
        and xy: "x = (if ws_id y = w then y\<lparr>ws_revision := wrap_i64 (ex + 1),
                           ws_state := foldl merge_patch (ws_state row) ms,
                           ws_state_hash := hash (foldl merge_patch (ws_state row) ms),
                           ws_updated_at := db_now c\<rparr> else y)"
        by (auto simp: d' set_row_upd)
      have old: "ws_ok hash (events_of d (ws_id y)) y"
        using inv y by (simp add: workspaces_inv_def)
      show ?thesis
      proof (cases "ws_id y = w")
        case True
        with inv y row(1) have "y = row"
          using row_get_mem [of ws_id "workspaces d" y] by (auto simp: workspaces_inv_def)
        with True xy old row(2) show ?thesis
          by (auto simp: d' intro!: ws_ok_step)
      next
        case False
        with xy old show ?thesis by (auto simp: d')
      qed
    qed
    moreover have "\<forall>e \<in> set (workspace_events d'). we_workspace_id e \<in> ws_id ` set (workspaces d')"
      using inv row(1) unfolding id_set by (auto simp: d' workspaces_inv_def dest!: row_get_SomeD)
    ultimately show ?thesis
      using inv ids by (simp add: workspaces_inv_def)
  qed
next
  case False
  with apply_mutations_rejected [OF ap] inv show ?thesis by simp
qed

section \<open>Properties\<close>

text \<open>
  Compare and swap: of two writers that read the same revision, at most one is accepted. When the
  first is, the second is rejected with the new revision and hash and changes nothing, so no update
  is lost (\<open>ex\<close> is an \<open>i64\<close>).
\<close>

theorem racing_writers:
  assumes "apply_mutations hash c w ex ms d = Inr (out, d1)" and "mo_accepted out"
    and "i64_min \<le> ex" and "ex \<le> i64_max"
  shows "apply_mutations hash c' w ex ms' d1 =
    Inr (\<lparr>mo_accepted = False, mo_revision = mo_revision out, mo_state_hash = mo_state_hash out\<rparr>, d1)"
  using assms(1,2)
proof (rule apply_mutations_accepted)
  fix row
  assume "get_workspace_row d w = Some row"
    and "out = \<lparr>mo_accepted = True, mo_revision = wrap_i64 (ex + 1),
                mo_state_hash = hash (foldl merge_patch (ws_state row) ms)\<rparr>"
    and "d1 = d\<lparr>workspaces := row_upd ws_id w
                    (\<lambda>r. r\<lparr>ws_revision := wrap_i64 (ex + 1),
                           ws_state := foldl merge_patch (ws_state row) ms,
                           ws_state_hash := hash (foldl merge_patch (ws_state row) ms),
                           ws_updated_at := db_now c\<rparr>) (workspaces d),
                  workspace_events := workspace_events d @
                    [\<lparr>we_workspace_id = w, we_revision = wrap_i64 (ex + 1),
                      we_prev_revision = ex, we_mutations = JArray ms,
                      we_state_hash = hash (foldl merge_patch (ws_state row) ms),
                      we_created_at = db_now c\<rparr>]\<rparr>"
  then show ?thesis
    using wrap_i64_Suc_neq [OF assms(3,4)] by (simp add: apply_mutations_def row_simps)
qed

theorem racing_writers_witness:
  "apply_mutations (\<lambda>_. ''h'') sample_clock 7 0 [JObject [(''b'', JNull)]]
     (snd (projr (apply_mutations (\<lambda>_. ''h'') sample_clock 7 0 [JObject [(''a'', JNull)]] (sample_db [] [])))) =
   Inr (\<lparr>mo_accepted = False, mo_revision = 1, mo_state_hash = ''h''\<rparr>,
     snd (projr (apply_mutations (\<lambda>_. ''h'') sample_clock 7 0 [JObject [(''a'', JNull)]] (sample_db [] []))))"
proof -
  let ?ap = "apply_mutations (\<lambda>_. ''h'') sample_clock 7 0 [JObject [(''a'', JNull)]] (sample_db [] [])"
  have "?ap = Inr (\<lparr>mo_accepted = True, mo_revision = 1, mo_state_hash = ''h''\<rparr>, snd (projr ?ap))"
    by (simp add: apply_mutations_def Let_def sample_defs wrap_i64_def)
  from racing_writers [OF this] show ?thesis
    by simp
qed

text \<open>
  A mutation is accepted exactly when it names the workspace's current revision (and the log has
  no event with the next number); a rejected one changes nothing and reports the current revision.
\<close>

theorem apply_mutations_cas:
  assumes "get_workspace_row d w = Some row"
    and "(w, wrap_i64 (ws_revision row + 1)) \<notin> (\<lambda>e. (we_workspace_id e, we_revision e)) ` set (workspace_events d)"
  shows "\<exists>out d'. apply_mutations hash c w ex ms d = Inr (out, d') \<and>
    (mo_accepted out \<longleftrightarrow> ws_revision row = ex) \<and>
    (if ws_revision row = ex
     then map_option ws_state (get_workspace_row d' w) = Some (foldl merge_patch (ws_state row) ms) \<and>
       mo_revision out = wrap_i64 (ex + 1)
     else d' = d \<and> mo_revision out = ws_revision row \<and> mo_state_hash out = ws_state_hash row)"
  using assms by (cases "ws_revision row = ex") (auto simp: apply_mutations_def Let_def row_simps)

theorem apply_mutations_cas_witness:
  "\<exists>out d'. apply_mutations (\<lambda>_. ''h'') sample_clock 7 4 [JNull] (sample_db [] []) = Inr (out, d') \<and>
     \<not> mo_accepted out \<and> mo_revision out = 0"
  using apply_mutations_cas [where d = "sample_db [] []" and w = 7 and row = sample_workspace
      and hash = "\<lambda>_. ''h''" and c = sample_clock and ex = 4 and ms = "[JNull]"]
  by (auto simp: sample_defs)

text \<open>
  Merging is shallow and right-biased: the merge of two objects is an object that has a key of the
  patch with the patch's value and every other key with the old value; any other patch replaces the
  state.
\<close>

lemma merge_patch_lookup:
  "merge_patch (JObject b) (JObject p) =
     JObject (foldl (\<lambda>m (key, value). obj_insert key value m) b p) \<and>
   (\<forall>k. map_of (foldl (\<lambda>m (key, value). obj_insert key value m) b p) k =
      (case map_of (rev p) k of Some v \<Rightarrow> Some v | None \<Rightarrow> map_of b k)) \<and>
   ((\<nexists>m. base = JObject m) \<or> (\<nexists>m. patch = JObject m) \<longrightarrow> merge_patch base patch = patch)"
  by (cases base; cases patch) (auto simp: merge_patch_def merge_fold_lookup)

end
