(* ===== verification/Coord_Evidence.thy ===== *)
theory Coord_Evidence
  imports Coord_Sample
begin

text \<open>
  \<open>vingilot/coordinator/coordinator/src/evidence.rs\<close>: the append-only evidence log of a run. The
  source reads the next sequence number and inserts in two statements with no row lock, so the
  insert is a definition of its own: it takes a number that may be stale and fails on the primary
  key when another append took it first.
\<close>

section \<open>Definitions\<close>

definition max_content_bytes :: nat where
  "max_content_bytes = 64 * 1024"

datatype evidence_kind = ECommand | EOutput | EError | ENote | EDiff | ECommit

fun kind_as_str :: "evidence_kind \<Rightarrow> string" where
  "kind_as_str ECommand = ''command''"
| "kind_as_str EOutput = ''output''"
| "kind_as_str EError = ''error''"
| "kind_as_str ENote = ''note''"
| "kind_as_str EDiff = ''diff''"
| "kind_as_str ECommit = ''commit''"

definition kind_parse :: "string \<Rightarrow> evidence_kind option" where
  "kind_parse s =
    (if s = ''command'' then Some ECommand
     else if s = ''output'' then Some EOutput
     else if s = ''error'' then Some EError
     else if s = ''note'' then Some ENote
     else if s = ''diff'' then Some EDiff
     else if s = ''commit'' then Some ECommit
     else None)"

datatype evidence_error =
    EvidenceRunNotFound uuid
  | ContentTooLarge nat nat
  | EvidenceDb db_error

record evidence_row =
  er_seq :: i64
  er_kind :: evidence_kind
  er_content :: string
  er_created_at :: timestamp

definition insert_evidence ::
  "clock \<Rightarrow> uuid \<Rightarrow> i64 \<Rightarrow> evidence_kind \<Rightarrow> string \<Rightarrow> db \<Rightarrow> evidence_error + db" where
  "insert_evidence c run_id seq kind content d =
    (if (run_id, seq) \<in> (\<lambda>e. (e_run_id e, e_seq e)) ` set (run_evidence d)
     then Inl (EvidenceDb (UniqueViolation ''run_evidence_pkey''))
     else if get_run_row d run_id = None
     then Inl (EvidenceDb (ForeignKeyViolation ''run_evidence_run_id_fkey''))
     else Inr (d\<lparr>run_evidence := run_evidence d @
       [\<lparr>e_run_id = run_id, e_seq = seq, e_kind = kind_as_str kind, e_content = content,
         e_created_at = db_now c\<rparr>]\<rparr>))"

definition evidence_append ::
  "clock \<Rightarrow> uuid \<Rightarrow> evidence_kind \<Rightarrow> string \<Rightarrow> db \<Rightarrow> evidence_error + i64 \<times> db" where
  "evidence_append c run_id kind content d =
    (if length content > max_content_bytes
     then Inl (ContentTooLarge (length content) max_content_bytes)
     else if get_run_row d run_id = None then Inl (EvidenceRunNotFound run_id)
     else
       let m = max_seq (map e_seq (evidence_of d run_id)) in
       if m = i64_max then Inl (EvidenceDb NumericOutOfRange)
       else (case insert_evidence c run_id (m + 1) kind content d of
           Inl e \<Rightarrow> Inl e
         | Inr d' \<Rightarrow> Inr (m + 1, d')))"

definition read_row :: "evidence_tab_row \<Rightarrow> evidence_error + evidence_row" where
  "read_row e =
    (case kind_parse (e_kind e) of
       None \<Rightarrow> Inl (EvidenceDb (DecodeError (e_kind e)))
     | Some k \<Rightarrow> Inr \<lparr>er_seq = e_seq e, er_kind = k, er_content = e_content e,
                     er_created_at = e_created_at e\<rparr>)"

fun read_rows :: "evidence_tab_row list \<Rightarrow> evidence_error + evidence_row list" where
  "read_rows [] = Inr []"
| "read_rows (e # es) =
    (case read_row e of
       Inl err \<Rightarrow> Inl err
     | Inr r \<Rightarrow> (case read_rows es of Inl err \<Rightarrow> Inl err | Inr rs \<Rightarrow> Inr (r # rs)))"

definition list_after :: "db \<Rightarrow> uuid \<Rightarrow> i64 \<Rightarrow> evidence_error + evidence_row list" where
  "list_after d run_id after =
    read_rows (sort_key e_seq (filter (\<lambda>e. e_run_id e = run_id \<and> e_seq e > after) (run_evidence d)))"

section \<open>The kind codec\<close>

interpretation kind_codec: string_codec kind_as_str kind_parse
proof unfold_locales
  show "kind_parse (kind_as_str e) = Some e" for e
    by (cases e) (simp_all add: kind_parse_def)
  show "kind_parse s = Some e \<Longrightarrow> s = kind_as_str e" for s e
    by (auto simp: kind_parse_def split: if_splits)
qed

section \<open>The invariant of the log\<close>

definition evidence_inv :: "db \<Rightarrow> bool" where
  "evidence_inv d \<longleftrightarrow>
    (\<forall>r. contiguous (map e_seq (evidence_of d r))) \<and>
    (\<forall>e \<in> set (run_evidence d). e_run_id e \<in> r_id ` set (runs d) \<and> kind_parse (e_kind e) \<noteq> None)"

lemma evidence_of_snoc [simp]:
  "evidence_of (d\<lparr>run_evidence := run_evidence d @ [e]\<rparr>) r =
    evidence_of d r @ (if e_run_id e = r then [e] else [])"
  by (simp add: evidence_of_def)

lemma evidence_of_pkey:
  "(r, s) \<in> (\<lambda>e. (e_run_id e, e_seq e)) ` set (run_evidence d) \<longleftrightarrow>
    s \<in> set (map e_seq (evidence_of d r))"
  by (auto simp: evidence_of_def)

lemma insert_evidence_InrE:
  assumes "insert_evidence c r s k content d = Inr d'"
  obtains "s \<notin> set (map e_seq (evidence_of d r))" and "get_run_row d r \<noteq> None"
    and "d' = d\<lparr>run_evidence := run_evidence d @
       [\<lparr>e_run_id = r, e_seq = s, e_kind = kind_as_str k, e_content = content,
         e_created_at = db_now c\<rparr>]\<rparr>"
  using assms unfolding insert_evidence_def evidence_of_pkey by (auto split: if_splits)

lemma evidence_append_insert:
  "evidence_append c r k content d = Inr (s, d') \<Longrightarrow>
    s = max_seq (map e_seq (evidence_of d r)) + 1 \<and> insert_evidence c r s k content d = Inr d'"
  by (auto simp: evidence_append_def Let_def split: if_splits sum.splits)

interpretation evidence_log: seq_log
  "\<lambda>d r. map e_seq (evidence_of d r)"
  "\<lambda>r d d'. \<exists>c k content s. evidence_append c r k content d = Inr (s, d')"
proof unfold_locales
  show "map e_seq (evidence_of d' r) =
      map e_seq (evidence_of d r) @ [max_seq (map e_seq (evidence_of d r)) + 1]"
    if "\<exists>c k content s. evidence_append c r k content d = Inr (s, d')" for r d d'
    using that by (auto dest!: evidence_append_insert elim!: insert_evidence_InrE)
  show "map e_seq (evidence_of d' r') = map e_seq (evidence_of d r')"
    if "\<exists>c k content s. evidence_append c r k content d = Inr (s, d')" "r' \<noteq> r" for r d d' r'
    using that by (auto dest!: evidence_append_insert elim!: insert_evidence_InrE)
qed

text \<open>
  An insert whose number was read from an earlier state of the log (a prefix of the current one)
  either extends the numbering or fails on the primary key.
\<close>

lemma stale_insert:
  assumes contig: "contiguous (map e_seq (ys @ zs))"
    and s: "s = max_seq (map e_seq ys) + 1" and fresh: "s \<notin> set (map e_seq (ys @ zs))"
  shows "zs = []"
proof (rule ccontr)
  assume "zs \<noteq> []"
  have ys: "contiguous (map e_seq ys)"
  proof -
    have "map e_seq ys = take (length ys) (map int [1..<Suc (length (ys @ zs))])"
      using contig unfolding contiguous_def
      by (metis append_eq_conv_conj length_map map_append)
    also have "\<dots> = map int [1..<Suc (length ys)]"
      by (simp add: take_map del: upt_Suc)
    finally show ?thesis
      unfolding contiguous_def by (metis length_map)
  qed
  have "s = int (length ys) + 1"
    using s contiguous_max [OF ys] by simp
  moreover have "set (map e_seq (ys @ zs)) = int ` {1..<Suc (length (ys @ zs))}"
    using contig unfolding contiguous_def by (metis length_map list.set_map set_upt)
  moreover have "int (length ys) + 1 \<in> int ` {1..<Suc (length (ys @ zs))}"
    using \<open>zs \<noteq> []\<close> by (intro image_eqI [of _ _ "Suc (length ys)"]) (auto simp: Suc_leI)
  ultimately show False
    using fresh by simp
qed

lemma insert_evidence_inv [inv_intros]:
  assumes inv: "evidence_inv d" and ins: "insert_evidence c r s k content d = Inr d'"
    and snap: "evidence_of d r = ys @ zs" "s = max_seq (map e_seq ys) + 1"
  shows "evidence_inv d'"
  using ins
proof (rule insert_evidence_InrE)
  assume fresh: "s \<notin> set (map e_seq (evidence_of d r))" and run: "get_run_row d r \<noteq> None"
    and d': "d' = d\<lparr>run_evidence := run_evidence d @
       [\<lparr>e_run_id = r, e_seq = s, e_kind = kind_as_str k, e_content = content,
         e_created_at = db_now c\<rparr>]\<rparr>"
  have contig: "contiguous (map e_seq (evidence_of d r))"
    using inv by (simp add: evidence_inv_def)
  then have "zs = []"
    using stale_insert [of ys zs s] fresh snap by simp
  with contig snap have "contiguous (map e_seq (evidence_of d r) @ [s])"
    using contiguous_snoc by simp
  with inv run show ?thesis
    by (auto simp: d' evidence_inv_def kind_codec.parse_as_str row_get_None_iff)
qed

section \<open>Paging\<close>

definition row_of :: "evidence_tab_row \<Rightarrow> evidence_row" where
  "row_of e = \<lparr>er_seq = e_seq e, er_kind = the (kind_parse (e_kind e)), er_content = e_content e,
     er_created_at = e_created_at e\<rparr>"

lemma read_rows_known:
  "(\<forall>e \<in> set es. kind_parse (e_kind e) \<noteq> None) \<Longrightarrow> read_rows es = Inr (map row_of es)"
  by (induction es) (auto simp: read_row_def row_of_def)

lemma contiguous_nth:
  "contiguous (map e_seq es) \<Longrightarrow> i < length es \<Longrightarrow> e_seq (es ! i) = int i + 1"
proof -
  assume contig: "contiguous (map e_seq es)" and i: "i < length es"
  have "map e_seq es ! i = map int [1..<Suc (length es)] ! i"
    using contig unfolding contiguous_def by (metis length_map)
  with i show ?thesis
    by (simp del: upt_Suc)
qed

lemma filter_after_contiguous:
  assumes "contiguous (map e_seq es)"
  shows "filter (\<lambda>e. e_seq e > int k) es = drop k es"
proof -
  have lo: "e_seq e \<le> int k" if "e \<in> set (take k es)" for e
    using that contiguous_nth [OF assms] by (auto simp: in_set_conv_nth)
  have hi: "e_seq e > int k" if "e \<in> set (drop k es)" for e
  proof -
    from that obtain j where "j < length es - k" "e = es ! (k + j)"
      by (auto simp: in_set_conv_nth)
    then show ?thesis
      using contiguous_nth [OF assms, of "k + j"] by simp
  qed
  have "filter (\<lambda>e. e_seq e > int k) (take k es @ drop k es) = drop k es"
    unfolding filter_append using lo hi by (force simp: filter_empty_conv filter_id_conv)
  then show ?thesis
    by simp
qed

lemma list_after_drop:
  assumes "evidence_inv d"
  shows "list_after d r (int k) = Inr (map row_of (drop k (evidence_of d r)))"
proof -
  have contig: "contiguous (map e_seq (evidence_of d r))"
    and known: "\<forall>e \<in> set (evidence_of d r). kind_parse (e_kind e) \<noteq> None"
    using assms by (auto simp: evidence_inv_def evidence_of_def)
  have "filter (\<lambda>e. e_run_id e = r \<and> e_seq e > int k) (run_evidence d) =
      filter (\<lambda>e. e_seq e > int k) (evidence_of d r)"
    by (simp add: evidence_of_def conj_commute)
  also have "\<dots> = drop k (evidence_of d r)"
    using contig by (rule filter_after_contiguous)
  finally have rows: "filter (\<lambda>e. e_run_id e = r \<and> e_seq e > int k) (run_evidence d) =
      drop k (evidence_of d r)" .
  have "sorted (map e_seq (drop k (evidence_of d r)))"
    using sorted_wrt_drop [OF contiguous_sorted [OF contig], of k] by (simp add: drop_map)
  then have "sort_key e_seq (drop k (evidence_of d r)) = drop k (evidence_of d r)"
    by (rule sort_key_id_if_sorted)
  moreover have "\<forall>e \<in> set (drop k (evidence_of d r)). kind_parse (e_kind e) \<noteq> None"
    using known by (meson in_set_dropD)
  ultimately show ?thesis
    unfolding list_after_def rows by (simp add: read_rows_known)
qed

section \<open>Properties\<close>

text \<open>
  Two appends that read the same highest sequence number do not overwrite each other: if the log
  (numbered without gaps) has grown since an append read its number, that append fails on the
  primary key and writes nothing.
\<close>

theorem stale_append_fails:
  assumes "evidence_inv d" and "evidence_of d r = ys @ zs" and "zs \<noteq> []"
  shows "insert_evidence c r (max_seq (map e_seq ys) + 1) k content d =
    Inl (EvidenceDb (UniqueViolation ''run_evidence_pkey''))"
proof -
  have "contiguous (map e_seq (ys @ zs))"
    using assms(1,2) by (metis evidence_inv_def)
  then have "max_seq (map e_seq ys) + 1 \<in> set (map e_seq (ys @ zs))"
    using stale_insert [of ys zs] assms(3) by blast
  then show ?thesis
    unfolding insert_evidence_def evidence_of_pkey assms(2) by simp
qed

definition sample_evidence_db :: db where
  "sample_evidence_db = (sample_db [sample_run 1 Running] [])
     \<lparr>run_evidence := [\<lparr>e_run_id = 1, e_seq = 1, e_kind = ''note'', e_content = ''first'', e_created_at = 5\<rparr>]\<rparr>"

lemma sample_evidence_inv: "evidence_inv sample_evidence_db"
  by (auto simp: sample_evidence_db_def sample_defs evidence_inv_def evidence_of_def contiguous_def kind_parse_def)

theorem stale_append_fails_witness:
  "insert_evidence sample_clock 1 (max_seq (map e_seq []) + 1) EOutput ''other'' sample_evidence_db =
    Inl (EvidenceDb (UniqueViolation ''run_evidence_pkey''))"
  using stale_append_fails [OF sample_evidence_inv, of 1 "[]"]
  by (simp add: evidence_of_def sample_evidence_db_def)

text \<open>
  Appending evidence, on every branch: content over the cap is refused with both sizes, an unknown
  run is refused, and otherwise the row is recorded under the next sequence number, at the end of
  the run's log, with every other log unchanged.
\<close>

theorem evidence_append_spec:
  assumes "evidence_inv d" and "max_seq (map e_seq (evidence_of d r)) \<noteq> i64_max"
  shows "if length content > max_content_bytes
    then evidence_append c r k content d = Inl (ContentTooLarge (length content) max_content_bytes)
    else if get_run_row d r = None then evidence_append c r k content d = Inl (EvidenceRunNotFound r)
    else \<exists>d'. evidence_append c r k content d = Inr (int (length (evidence_of d r)) + 1, d') \<and>
      map row_of (evidence_of d' r) = map row_of (evidence_of d r) @
        [\<lparr>er_seq = int (length (evidence_of d r)) + 1, er_kind = k, er_content = content, er_created_at = db_now c\<rparr>] \<and>
      (\<forall>r'. r' \<noteq> r \<longrightarrow> evidence_of d' r' = evidence_of d r')"
proof -
  have contig: "contiguous (map e_seq (evidence_of d r))"
    using assms(1) by (simp add: evidence_inv_def)
  then have m: "max_seq (map e_seq (evidence_of d r)) = int (length (evidence_of d r))"
    using contiguous_max by fastforce
  have "int (length (evidence_of d r)) + 1 \<notin> set (map e_seq (evidence_of d r))"
    using max_seq_ge [of "int (length (evidence_of d r)) + 1" "map e_seq (evidence_of d r)"] m by fastforce
  with assms(2) show ?thesis
    unfolding m evidence_append_def insert_evidence_def evidence_of_pkey Let_def
    by (auto simp: row_of_def kind_codec.parse_as_str)
qed

theorem evidence_append_spec_witness:
  "\<exists>d'. evidence_append sample_clock 1 EOutput ''second'' sample_evidence_db = Inr (2, d') \<and>
     map er_content (map row_of (evidence_of d' 1)) = [''first'', ''second'']"
proof -
  have log: "evidence_of sample_evidence_db 1 =
      [\<lparr>e_run_id = 1, e_seq = 1, e_kind = ''note'', e_content = ''first'', e_created_at = 5\<rparr>]"
    and run: "get_run_row sample_evidence_db 1 \<noteq> None"
    by (simp_all add: sample_evidence_db_def evidence_of_def sample_defs)
  then have "max_seq (map e_seq (evidence_of sample_evidence_db 1)) \<noteq> i64_max"
    by (simp add: max_seq_def)
  from evidence_append_spec [OF sample_evidence_inv this, of "''second''" sample_clock EOutput] run show ?thesis
    by (auto simp: log max_content_bytes_def row_of_def)
qed

end
