(* ===== verification/Coord_System.thy ===== *)
theory Coord_System
  imports Coord_Reconcile Coord_Provision Coord_Workspace Coord_Evidence
begin

text \<open>
  The coordinator as a system of atomic steps: one rule per transaction or single SQL statement of
  the source. Requests, the saga, its compensation and the reconciler run concurrently, so any
  interleaving of these steps can happen, and a crash stops a compound operation between two of
  them. The invariant holds in every state any interleaving reaches, and the compound operations
  are shown to be sequences of these steps.
\<close>

section \<open>Steps\<close>

text \<open>
  \<open>step_create_run\<close> assumes that a fresh random id is not the parent the request names.
  \<open>step_evidence\<close> takes a sequence number read from an earlier state of the log, a prefix of it.
\<close>

inductive coord_step :: "(json \<Rightarrow> string) \<Rightarrow> db \<Rightarrow> db \<Rightarrow> bool" for hash where
  step_ensure_workspace: "coord_step hash d (ensure_workspace hash c w d)"
| step_mutate: "apply_mutations hash c w ex ms d = Inr (out, d') \<Longrightarrow> coord_step hash d d'"
| step_create_run: "create c i new d = Inr (j, d') \<Longrightarrow> nr_parent_run_id new \<noteq> Some i \<Longrightarrow>
    coord_step hash d d'"
| step_transition: "transition c i s reason d = Inr d' \<Longrightarrow> coord_step hash d d'"
| step_tokens: "observe_tokens c i tot at d = Inr d' \<Longrightarrow> coord_step hash d d'"
| step_create_binding: "create_binding c i run_id repo target role base branch key d = Inr (j, d') \<Longrightarrow>
    coord_step hash d d'"
| step_grant: "grant run_id i acc d = Inr d' \<Longrightarrow> coord_step hash d d'"
| step_acquire: "acquire_lease c i ttl d = Inr (l, d') \<Longrightarrow> coord_step hash d d'"
| step_renew: "renew_lease c i ep ttl d = Inr (l, d') \<Longrightarrow> coord_step hash d d'"
| step_evidence: "insert_evidence c r s k content d = Inr d' \<Longrightarrow> evidence_of d r = ys @ zs \<Longrightarrow>
    s = max_seq (map e_seq ys) + 1 \<Longrightarrow> coord_step hash d d'"
| step_revoke: "coord_step hash d (revoke_grants r d)"
| step_lifecycle: "l = ''quarantined'' \<or> l = ''removed'' \<Longrightarrow> coord_step hash d (set_lifecycle c i l d)"

inductive_cases coord_stepE: "coord_step hash d d'"

definition coord_init :: "db \<Rightarrow> bool" where
  "coord_init d \<longleftrightarrow> d = empty_db"

abbreviation coord_reachable :: "(json \<Rightarrow> string) \<Rightarrow> db \<Rightarrow> bool" where
  "coord_reachable hash d \<equiv> (coord_step hash)\<^sup>*\<^sup>* empty_db d"

section \<open>The invariant\<close>

definition workspace_fk :: "db \<Rightarrow> bool" where
  "workspace_fk d \<longleftrightarrow> r_workspace_id ` set (runs d) \<subseteq> ws_id ` set (workspaces d)"

definition coord_inv :: "(json \<Rightarrow> string) \<Rightarrow> db \<Rightarrow> bool" where
  "coord_inv hash d \<longleftrightarrow>
    workspaces_inv hash d \<and> runs_inv d \<and> bindings_inv d \<and> grants_inv d \<and> evidence_inv d \<and>
    workspace_fk d"

text \<open>Each part of the invariant reads only some tables; of \<open>runs\<close> mostly the ids.\<close>

lemma workspaces_inv_frame:
  "workspaces_inv hash d \<Longrightarrow> workspaces d' = workspaces d \<Longrightarrow> workspace_events d' = workspace_events d \<Longrightarrow>
   workspaces_inv hash d'"
  by (simp add: workspaces_inv_def events_of_def)

lemma evidence_inv_frame:
  assumes "evidence_inv d" and "run_evidence d' = run_evidence d"
    and "r_id ` set (runs d) \<subseteq> r_id ` set (runs d')"
  shows "evidence_inv d'"
  using assms(1,3) unfolding evidence_inv_def evidence_of_def assms(2) by blast

text \<open>What each operation leaves alone.\<close>

definition run_ids :: "db \<Rightarrow> uuid set" where
  "run_ids d = r_id ` set (runs d)"

definition same_workspaces :: "db \<Rightarrow> db \<Rightarrow> bool" where
  "same_workspaces d d' \<longleftrightarrow> workspaces d' = workspaces d \<and> workspace_events d' = workspace_events d"

definition same_grants :: "db \<Rightarrow> db \<Rightarrow> bool" where
  "same_grants d d' \<longleftrightarrow> worktree_bindings d' = worktree_bindings d \<and>
     run_worktree_grants d' = run_worktree_grants d"

lemmas frame_defs = same_workspaces_def same_grants_def same_runs_def run_ids_def

lemma ensure_workspace_frame:
  "same_runs d (ensure_workspace hash c w d)" "same_grants d (ensure_workspace hash c w d)"
  "run_evidence (ensure_workspace hash c w d) = run_evidence d"
  "ws_id ` set (workspaces d) \<subseteq> ws_id ` set (workspaces (ensure_workspace hash c w d))"
  by (auto simp: ensure_workspace_def frame_defs)

lemma apply_mutations_frame:
  assumes "apply_mutations hash c w ex ms d = Inr (out, d')"
  shows "same_runs d d'" "same_grants d d'" "run_evidence d' = run_evidence d"
    "ws_id ` set (workspaces d') = ws_id ` set (workspaces d)"
proof (atomize (full), cases "mo_accepted out")
  case True
  with assms show "(same_runs d d' \<and> same_grants d d') \<and> run_evidence d' = run_evidence d \<and>
      ws_id ` set (workspaces d') = ws_id ` set (workspaces d)"
    by - (erule (1) apply_mutations_accepted, simp add: frame_defs ids_row_upd)
next
  case False
  with apply_mutations_rejected [OF assms]
  show "(same_runs d d' \<and> same_grants d d') \<and> run_evidence d' = run_evidence d \<and>
      ws_id ` set (workspaces d') = ws_id ` set (workspaces d)"
    by (simp add: frame_defs)
qed

lemma create_frame:
  assumes "create c i new d = Inr (j, d')"
  shows "same_workspaces d d'" "same_grants d d'" "run_evidence d' = run_evidence d"
    "run_ids d \<subseteq> run_ids d'"
    "r_workspace_id ` set (runs d') = insert (nr_workspace_id new) (r_workspace_id ` set (runs d))"
    "nr_workspace_id new \<in> ws_id ` set (workspaces d)"
  using assms
  by - (erule create_InrE, auto simp: frame_defs row_get_None_iff simp del: not_None_eq)+

lemma transition_frame:
  assumes "transition c i s reason d = Inr d'"
  shows "same_workspaces d d'" "same_grants d d'" "run_evidence d' = run_evidence d"
    "run_ids d' = run_ids d" "r_workspace_id ` set (runs d') = r_workspace_id ` set (runs d)"
proof -
  have "runs d' = row_upd r_id i (enter_status c s) (runs d)"
    and "same_workspaces d d' \<and> same_grants d d' \<and> run_evidence d' = run_evidence d"
    using assms by (auto elim!: transition_InrE simp: frame_defs)
  then show "same_workspaces d d'" "same_grants d d'" "run_evidence d' = run_evidence d"
    "run_ids d' = run_ids d" "r_workspace_id ` set (runs d') = r_workspace_id ` set (runs d)"
    by (simp_all add: run_ids_def ids_row_upd)
qed

lemma observe_tokens_frame:
  assumes "observe_tokens c i tot at d = Inr d'"
  shows "same_workspaces d d'" "same_grants d d'" "run_evidence d' = run_evidence d"
    "run_ids d' = run_ids d" "r_workspace_id ` set (runs d') = r_workspace_id ` set (runs d)"
    "run_transitions d' = run_transitions d"
  using assms by - (erule observe_tokens_InrE, simp add: frame_defs ids_row_upd)+

lemma create_binding_frame:
  assumes "create_binding c i run_id repo target role base branch key d = Inr (j, d')"
  shows "same_workspaces d d'" "same_runs d d'" "run_evidence d' = run_evidence d"
    "run_worktree_grants d' = run_worktree_grants d"
    "b_id ` set (worktree_bindings d) \<subseteq> b_id ` set (worktree_bindings d')"
  using assms by (auto elim!: create_binding_InrE simp: frame_defs)

lemma grant_frame:
  assumes "grant run_id i acc d = Inr d'"
  shows "same_workspaces d d'" "same_runs d d'" "run_evidence d' = run_evidence d"
    "worktree_bindings d' = worktree_bindings d"
  using assms by (auto simp: grant_def Let_def frame_defs split: if_splits)

lemma acquire_lease_frame:
  assumes "acquire_lease c i ttl d = Inr (l, d')"
  shows "same_workspaces d d'" "same_runs d d'" "run_evidence d' = run_evidence d"
    "run_worktree_grants d' = run_worktree_grants d"
    "b_id ` set (worktree_bindings d') = b_id ` set (worktree_bindings d)"
  using assms by - (erule acquire_lease_InrE, simp add: frame_defs ids_row_upd)+

lemma renew_lease_frame:
  assumes "renew_lease c i ep ttl d = Inr (l, d')"
  shows "same_workspaces d d'" "same_runs d d'" "run_evidence d' = run_evidence d"
    "run_worktree_grants d' = run_worktree_grants d"
    "b_id ` set (worktree_bindings d') = b_id ` set (worktree_bindings d)"
  using assms by - (erule renew_lease_InrE, simp add: frame_defs ids_row_upd)+

lemma insert_evidence_frame:
  assumes "insert_evidence c r s k content d = Inr d'"
  shows "same_workspaces d d'" "same_runs d d'" "same_grants d d'"
  using assms by (auto elim!: insert_evidence_InrE simp: frame_defs)

lemma revoke_grants_frame:
  "same_workspaces d (revoke_grants r d)" "same_runs d (revoke_grants r d)"
  "worktree_bindings (revoke_grants r d) = worktree_bindings d"
  "run_evidence (revoke_grants r d) = run_evidence d"
  by (simp_all add: revoke_grants_def frame_defs)

lemma set_lifecycle_frames:
  "same_workspaces d (set_lifecycle c i l d)" "same_runs d (set_lifecycle c i l d)"
  "run_evidence (set_lifecycle c i l d) = run_evidence d"
  "b_id ` set (worktree_bindings (set_lifecycle c i l d)) = b_id ` set (worktree_bindings d)"
  by (simp_all add: set_lifecycle_def frame_defs ids_row_upd)

text \<open>The invariant from its parts and the frames.\<close>

lemma coord_inv_runs:
  assumes inv: "coord_inv hash d" and "same_workspaces d d'" and "same_grants d d'"
    and "run_evidence d' = run_evidence d" and ids: "run_ids d \<subseteq> run_ids d'"
    and "runs_inv d'" and "workspace_fk d'"
  shows "coord_inv hash d'"
proof -
  have "workspaces_inv hash d'" and "bindings_inv d'" and "grants_inv d'" and "evidence_inv d'"
    using assms workspaces_inv_frame [of hash d d'] bindings_inv_frame [of d d']
      grants_inv_frame [of d d'] evidence_inv_frame [of d d']
    by (simp_all add: coord_inv_def frame_defs)
  with assms(6,7) show ?thesis
    by (simp add: coord_inv_def)
qed

lemma coord_inv_bindings:
  assumes inv: "coord_inv hash d" and ws: "same_workspaces d d'" and rs: "same_runs d d'"
    and ev: "run_evidence d' = run_evidence d" and "bindings_inv d'" and "grants_inv d'"
  shows "coord_inv hash d'"
proof -
  have "workspaces_inv hash d'" and "runs_inv d'" and "evidence_inv d'"
    using inv ws rs ev workspaces_inv_frame [of hash d d'] same_runs_inv [of d d']
      evidence_inv_frame [of d d']
    by (simp_all add: coord_inv_def frame_defs)
  moreover have "workspace_fk d'"
    using inv ws rs by (simp add: coord_inv_def workspace_fk_def frame_defs)
  ultimately show ?thesis
    using assms(5,6) by (simp add: coord_inv_def)
qed

lemma coord_inv_leases:
  assumes inv: "coord_inv hash d" and ws: "same_workspaces d d'" and rs: "same_runs d d'"
    and ev: "run_evidence d' = run_evidence d" and bs: "bindings_inv d'"
    and gs: "run_worktree_grants d' = run_worktree_grants d"
    and ids: "b_id ` set (worktree_bindings d) \<subseteq> b_id ` set (worktree_bindings d')"
  shows "coord_inv hash d'"
proof (rule coord_inv_bindings [OF inv ws rs ev bs])
  show "grants_inv d'"
    using inv rs gs ids by (intro grants_inv_frame [of d d']) (simp_all add: coord_inv_def same_runs_def)
qed

lemma coord_inv_workspaces:
  assumes inv: "coord_inv hash d" and rs: "same_runs d d'" and gs: "same_grants d d'"
    and ev: "run_evidence d' = run_evidence d" and "workspaces_inv hash d'"
    and ids: "ws_id ` set (workspaces d) \<subseteq> ws_id ` set (workspaces d')"
  shows "coord_inv hash d'"
proof -
  have "runs_inv d'" and "bindings_inv d'" and "grants_inv d'" and "evidence_inv d'"
    using inv rs gs ev same_runs_inv [of d d'] bindings_inv_frame [of d d']
      grants_inv_frame [of d d'] evidence_inv_frame [of d d']
    by (simp_all add: coord_inv_def frame_defs)
  moreover have "workspace_fk d'"
    using order_trans [OF _ ids] inv rs unfolding coord_inv_def workspace_fk_def same_runs_def
    by metis
  ultimately show ?thesis
    using assms(5) by (simp add: coord_inv_def)
qed

lemma coord_inv_empty: "coord_inv hash empty_db"
  by (simp add: coord_inv_def empty_db_def workspaces_inv_def runs_inv_def bindings_inv_def
      grants_inv_def one_writable_per_run_def evidence_inv_def evidence_of_def workspace_fk_def
      parents_ok_def parent_links_def)

lemma revoke_grants_inv: "grants_inv d \<Longrightarrow> grants_inv (revoke_grants r d)"
  by (auto simp: grants_inv_def one_writable_per_run_def revoke_grants_def distinct_map_filter)

lemma set_lifecycle_inv:
  "bindings_inv d \<Longrightarrow> l = ''quarantined'' \<or> l = ''removed'' \<Longrightarrow> bindings_inv (set_lifecycle c i l d)"
  unfolding set_lifecycle_def by (intro bindings_inv_row_upd) (auto simp: binding_ok_def)

lemma coord_step_inv:
  assumes inv: "coord_inv hash d" and step: "coord_step hash d d'"
  shows "coord_inv hash d'"
  using step
proof cases
  case (step_ensure_workspace c w)
  then show ?thesis
    using inv ensure_workspace_frame [where d = d and hash = hash and c = c and w = w]
      ensure_workspace_inv [of hash d c w]
    by (intro coord_inv_workspaces [OF inv]) (simp_all add: coord_inv_def)
next
  case (step_mutate c w ex ms out)
  then show ?thesis
    using inv apply_mutations_frame [OF step_mutate] apply_mutations_inv [OF _ step_mutate]
    by (intro coord_inv_workspaces [OF inv]) (simp_all add: coord_inv_def)
next
  case (step_create_run c i new j)
  show ?thesis
    using inv create_frame [OF step_create_run(1)] create_runs_inv [OF _ step_create_run]
    by (intro coord_inv_runs [OF inv]) (auto simp: coord_inv_def workspace_fk_def same_workspaces_def)
next
  case (step_transition c i s reason)
  show ?thesis
    using inv transition_frame [OF step_transition] transition_runs_inv [OF _ step_transition]
    by (intro coord_inv_runs [OF inv]) (auto simp: coord_inv_def workspace_fk_def same_workspaces_def)
next
  case (step_tokens c i tot at)
  show ?thesis
    using inv observe_tokens_frame [OF step_tokens] observe_tokens_runs_inv [OF _ step_tokens]
    by (intro coord_inv_runs [OF inv]) (auto simp: coord_inv_def workspace_fk_def same_workspaces_def)
next
  case (step_create_binding c i run_id repo target role base branch key j)
  have "bindings_inv d'"
    using inv create_binding_bindings_inv [OF _ step_create_binding] by (simp add: coord_inv_def)
  then show ?thesis
    by (intro coord_inv_leases [OF inv] create_binding_frame [OF step_create_binding])
next
  case (step_grant run_id i acc)
  note frame = grant_frame [OF step_grant]
  have "bindings_inv d'" and "grants_inv d'"
    using inv frame grant_grants_inv [OF _ step_grant] bindings_inv_frame [of d d']
    by (simp_all add: coord_inv_def same_runs_def)
  then show ?thesis
    by (intro coord_inv_bindings [OF inv] frame)
next
  case (step_acquire c i ttl l)
  have "bindings_inv d'"
    using inv acquire_lease_bindings_inv [OF _ step_acquire] by (simp add: coord_inv_def)
  then show ?thesis
    by (intro coord_inv_leases [OF inv] acquire_lease_frame [OF step_acquire]
        equalityD2 [OF acquire_lease_frame(5) [OF step_acquire]])
next
  case (step_renew c i ep ttl l)
  have "bindings_inv d'"
    using inv renew_lease_bindings_inv [OF _ step_renew] by (simp add: coord_inv_def)
  then show ?thesis
    by (intro coord_inv_leases [OF inv] renew_lease_frame [OF step_renew]
        equalityD2 [OF renew_lease_frame(5) [OF step_renew]])
next
  case (step_evidence c r s k content ys zs)
  note frame = insert_evidence_frame [OF step_evidence(1)]
  have "evidence_inv d"
    using inv by (simp add: coord_inv_def)
  then have ev: "evidence_inv d'"
    by (rule insert_evidence_inv [OF _ step_evidence(1,2,3)])
  have parts: "workspaces_inv hash d'" "runs_inv d'" "bindings_inv d'" "grants_inv d'"
    using inv frame workspaces_inv_frame [of hash d d'] same_runs_inv [of d d']
      bindings_inv_frame [of d d'] grants_inv_frame [of d d']
    by (simp_all add: coord_inv_def frame_defs)
  have "workspace_fk d'"
    using inv frame by (simp add: coord_inv_def workspace_fk_def frame_defs)
  with ev parts show ?thesis
    by (simp add: coord_inv_def)
next
  case (step_revoke r)
  show ?thesis
    unfolding step_revoke
    using inv revoke_grants_frame [where d = d and r = r] revoke_grants_inv [of d r]
      bindings_inv_frame [of d "revoke_grants r d"]
    by (intro coord_inv_bindings [OF inv]) (simp_all add: coord_inv_def same_runs_def)
next
  case (step_lifecycle l c i)
  show ?thesis
    unfolding step_lifecycle(1)
    using inv set_lifecycle_frames [where d = d and c = c and i = i and l = l] set_lifecycle_inv [OF _ step_lifecycle(2)]
      grants_inv_frame [of d "set_lifecycle c i l d"]
    by (intro coord_inv_bindings [OF inv]) (simp_all add: coord_inv_def)
qed

interpretation coord: invariant_system coord_init "coord_step hash" "coord_inv hash" for hash
  by unfold_locales (auto simp: coord_init_def coord_inv_empty intro: coord_step_inv)

lemma coord_reachable_inv: "coord_reachable hash d \<Longrightarrow> coord_inv hash d"
  using coord.reachable_inv [of empty_db] by (simp add: coord_init_def)

section \<open>Epochs only grow\<close>

lemma set_lifecycle_epoch: "epoch_of j (set_lifecycle c i l d) = epoch_of j d"
  by (auto simp: epoch_of_def row_simps option.map_comp comp_def)

lemma coord_step_epoch:
  assumes "coord_step hash d d'" and "epoch_of i d = Some e"
  shows "\<exists>e'. epoch_of i d' = Some e' \<and> e \<le> e'"
  using assms(1)
proof cases
  case (step_create_binding c k run_id repo target role base branch key j)
  then show ?thesis
    using create_binding_epoch assms(2) by blast
next
  case (step_acquire c j ttl l)
  then show ?thesis
    using acquire_lease_epoch [OF step_acquire] assms(2) by (cases "i = j") auto
next
  case (step_renew c j ep ttl l)
  then show ?thesis
    using renew_lease_epoch [OF step_renew] assms(2) by simp
next
  case (step_lifecycle l c j)
  then show ?thesis
    using assms(2) by (simp add: set_lifecycle_epoch)
next
  case (step_ensure_workspace c w)
  then show ?thesis
    using assms(2) ensure_workspace_frame(2) [of d hash c w]
    by (auto simp: epoch_of_def same_grants_def)
next
  case (step_revoke r)
  then show ?thesis
    using assms(2) by (auto simp: epoch_of_def revoke_grants_frame)
qed (use assms(2) in \<open>auto simp: epoch_of_def frame_defs dest!: apply_mutations_frame(2)
      create_frame(2) transition_frame(2) observe_tokens_frame(2) grant_frame(4)
      insert_evidence_frame(3)\<close>)

interpretation binding_fence: monotone_fence "coord_step hash" "epoch_of i" for hash i
  by unfold_locales (rule coord_step_epoch)

section \<open>The compound operations are sequences of steps\<close>

lemma provision_worktrees_steps:
  "provision_worktrees c gen run_id wts d = (res, d') \<Longrightarrow> (coord_step hash)\<^sup>*\<^sup>* d d'"
  by (rule provision_worktrees_rel [where R = "(coord_step hash)\<^sup>*\<^sup>*"])
    (auto intro: reflpI transpI coord_step.intros)

lemma lifecycle_steps:
  assumes "\<forall>b \<in> set bs. f b = ''quarantined'' \<or> f b = ''removed''"
  shows "(coord_step hash)\<^sup>*\<^sup>* d (foldl (\<lambda>acc b. set_lifecycle c (b_id b) (f b) acc) d bs)"
  using assms
proof (induction bs arbitrary: d)
  case (Cons b bs)
  then have "coord_step hash d (set_lifecycle c (b_id b) (f b) d)"
    by (intro step_lifecycle) simp
  with Cons show ?case
    by (auto intro: converse_rtranclp_into_rtranclp)
qed simp

lemma walk_back_lifecycle:
  "binding_ok d b \<Longrightarrow> walk_back (b_lifecycle b) = ''quarantined'' \<or> walk_back (b_lifecycle b) = ''removed''"
  by (auto simp: binding_ok_def walk_back_def)

lemma walked_back_steps:
  assumes "bindings_inv d"
  shows "(coord_step hash)\<^sup>*\<^sup>* d (walked_back c r d)"
proof -
  have "\<forall>b \<in> set (owned_bindings r (revoke_grants r d)).
      walk_back (b_lifecycle b) = ''quarantined'' \<or> walk_back (b_lifecycle b) = ''removed''"
    using assms walk_back_lifecycle
    by (auto simp: owned_bindings_def revoke_grants_def bindings_inv_def)
  from lifecycle_steps [OF this] show ?thesis
    unfolding compensate_loop [OF assms, symmetric]
    using step_revoke [of hash d r] by (auto intro: converse_rtranclp_into_rtranclp)
qed

lemma compensate_steps:
  assumes "bindings_inv d" and "compensate c r d = (res, d')"
  shows "(coord_step hash)\<^sup>*\<^sup>* d d'"
  using assms(2) walked_back_steps [OF assms(1), of hash c r]
  unfolding compensate_eq [OF assms(1)]
  by (auto split: sum.splits if_splits intro: step_transition rtranclp.rtrancl_into_rtrancl)

lemma provision_body_steps:
  assumes inv: "coord_inv hash d" and body: "provision_body c gen spec d = (res, d')"
  shows "(coord_step hash)\<^sup>*\<^sup>* d d'"
proof -
  obtain r1 d1 where
    one: "provision_worktrees c gen (ps_run_id spec) (ps_worktrees spec) d = (r1, d1)"
    by fastforce
  note steps = provision_worktrees_steps [OF one, of hash]
  have bs: "bindings_inv d1"
    using coord.steps_inv [OF steps inv] by (simp add: coord_inv_def)
  obtain r2 d2 where comp: "compensate c (ps_run_id spec) d1 = (r2, d2)"
    by fastforce
  have "d' = d1 \<or> d' = d2 \<or> (\<exists>s reason. transition c (ps_run_id spec) s reason d1 = Inr d')"
    using body one comp unfolding provision_body_def
    by (auto split: sum.splits saga_error.splits binding_error.splits)
  then show ?thesis
    using steps compensate_steps [OF bs comp, of hash]
    by (auto intro: step_transition rtranclp.rtrancl_into_rtrancl)
qed

lemma provision_steps:
  assumes inv: "coord_inv hash d" and pr: "provision c gen spec d = (res, d')"
  shows "(coord_step hash)\<^sup>*\<^sup>* d d'"
proof -
  consider "d' = d" | "provision_body c gen spec d = (res, d')"
    | d1 where "transition c (ps_run_id spec) Provisioning ''provisioning started'' d = Inr d1"
        "provision_body c gen spec d1 = (res, d')"
    using pr unfolding provision_def by (auto split: sum.splits run_status.splits)
  then show ?thesis
  proof cases
    case 1
    then show ?thesis by simp
  next
    case 2
    with inv show ?thesis by (rule provision_body_steps)
  next
    case 3
    have step: "coord_step hash d d1"
      using 3(1) by (rule step_transition)
    have "(coord_step hash)\<^sup>*\<^sup>* d1 d'"
      using coord_step_inv [OF inv step] 3(2) by (rule provision_body_steps)
    with step show ?thesis by (rule converse_rtranclp_into_rtranclp)
  qed
qed

lemma pause_once_steps:
  "pause_once c r reason paused d = (res, paused', d') \<Longrightarrow> (coord_step hash)\<^sup>*\<^sup>* d d'"
  by (auto simp: pause_once_def intro: step_transition
      split: if_splits sum.splits run_error.splits run_status.splits)

lemma lease_loop_steps:
  "lease_loop c xs paused rep d = (res, rep', d') \<Longrightarrow> (coord_step hash)\<^sup>*\<^sup>* d d'"
proof (induction xs arbitrary: paused rep d)
  case Nil
  then show ?case by simp
next
  case (Cons x xs)
  obtain i r where x: "x = (i, r)" by (cases x)
  define d1 where "d1 = (if map_option b_lifecycle (get_binding_row d i) = Some ''ready''
    then set_lifecycle c i ''quarantined'' d else d)"
  have first: "(coord_step hash)\<^sup>*\<^sup>* d d1"
    by (auto simp: d1_def intro: step_lifecycle)
  obtain res2 paused2 d2 where po: "pause_once c r ''lease lost'' paused d1 = (res2, paused2, d2)"
    by (metis prod_cases3)
  have second: "(coord_step hash)\<^sup>*\<^sup>* d d2"
    using first pause_once_steps [OF po] by (rule rtranclp_trans)
  have "d' = d2 \<or> (\<exists>rep3. lease_loop c xs paused2 rep3 d2 = (res, rep', d'))"
    using Cons.prems po unfolding x lease_loop.simps Let_def d1_def [symmetric]
    by (cases res2) auto
  with Cons.IH second show ?case
    by (auto intro: rtranclp_trans)
qed

lemma wall_loop_steps:
  "wall_loop c xs paused rep d = (res, rep', d') \<Longrightarrow> (coord_step hash)\<^sup>*\<^sup>* d d'"
proof (induction xs arbitrary: paused rep d)
  case Nil
  then show ?case by simp
next
  case (Cons r xs)
  obtain res2 paused2 d2 where
    po: "pause_once c r ''wall clock budget exhausted'' paused d = (res2, paused2, d2)"
    by (metis prod_cases3)
  have "d' = d2 \<or> (\<exists>rep3. wall_loop c xs paused2 rep3 d2 = (res, rep', d'))"
    using Cons.prems po unfolding wall_loop.simps Let_def by (cases res2) auto
  with Cons.IH pause_once_steps [OF po, of hash] show ?case
    by (auto intro: rtranclp_trans)
qed

lemma sweep_once_steps: "sweep_once c d = (res, d') \<Longrightarrow> (coord_step hash)\<^sup>*\<^sup>* d d'"
  by (auto simp: sweep_once_def sweep_expired_leases_def sweep_wall_clock_def
      split: prod.splits sum.splits dest!: lease_loop_steps wall_loop_steps intro: rtranclp_trans)

section \<open>Ended runs\<close>

definition status_of :: "uuid \<Rightarrow> db \<Rightarrow> string option" where
  "status_of i d = map_option r_status (get_run_row d i)"

lemma status_of_runs: "runs d' = runs d \<Longrightarrow> status_of i d' = status_of i d"
  by (simp add: status_of_def)

lemma coord_step_status:
  assumes step: "coord_step hash d d'" and st: "status_of i d = Some (status_as_str s)"
  shows "status_of i d' = Some (status_as_str s) \<or>
    (\<exists>s'. can_transition_to s s' \<and> status_of i d' = Some (status_as_str s'))"
  using step
proof cases
  case (step_create_run c k new j)
  then show ?thesis
    using st by (auto elim!: create_InrE simp: status_of_def row_simps split: option.splits)
next
  case (step_transition c k s' reason)
  then show ?thesis
    using st
    by - (erule transition_InrE, cases "i = k", auto simp: status_of_def row_simps status_codec.as_str_inject)
next
  case (step_tokens c k tot at)
  then show ?thesis
    using st by (auto elim!: observe_tokens_InrE simp: status_of_def row_simps)
next
  case (step_ensure_workspace c w)
  then show ?thesis
    using st status_of_runs [of "ensure_workspace hash c w d" d i] ensure_workspace_frame(1) [of d hash c w]
    by (simp add: same_runs_def)
next
  case (step_revoke r)
  then show ?thesis
    using st by (simp add: status_of_def revoke_grants_def)
next
  case (step_lifecycle l c k)
  then show ?thesis
    using st by (simp add: status_of_def)
qed (use st status_of_runs [of d' d i] in \<open>auto simp: same_runs_def dest!: apply_mutations_frame(1)
      create_binding_frame(2) grant_frame(2) acquire_lease_frame(2) renew_lease_frame(2)
      insert_evidence_frame(2)\<close>)

lemma coord_steps_terminal:
  assumes "(coord_step hash)\<^sup>*\<^sup>* d d'" and "status_of i d = Some (status_as_str s)" and "is_terminal s"
  shows "status_of i d' = Some (status_as_str s)"
  using assms(1,2)
proof (induction rule: rtranclp_induct)
  case (step d1 d2)
  with coord_step_status [of hash d1 d2 i s] terminal_no_transition [OF assms(3)] show ?case
    by auto
qed simp

section \<open>A reachable sample state\<close>

definition sample_hash :: "json \<Rightarrow> string" where
  "sample_hash j = (case j of JObject [] \<Rightarrow> ''empty'' | _ \<Rightarrow> ''other'')"

definition sample_new :: new_run where
  "sample_new = \<lparr>nr_workspace_id = 7, nr_parent_run_id = None, nr_objective = ''ship'',
     nr_mode = Interactive, nr_wall_limit_secs = Some 60\<rparr>"

definition sample_patch :: json where
  "sample_patch = JObject [(''a'', JNull)]"

definition sample_s1 :: db where
  "sample_s1 = ensure_workspace sample_hash sample_clock 7 empty_db"

definition sample_s2 :: db where
  "sample_s2 = snd (projr (apply_mutations sample_hash sample_clock 7 0 [sample_patch] sample_s1))"

definition sample_s3 :: db where
  "sample_s3 = snd (projr (create sample_clock 1 sample_new sample_s2))"

definition sample_s4 :: db where
  "sample_s4 = snd (projr (create sample_clock 2 (sample_new\<lparr>nr_parent_run_id := Some 1\<rparr>) sample_s3))"

definition sample_s5 :: db where
  "sample_s5 = snd (provision sample_clock (\<lambda>n. of_nat (n + 5)) sample_spec sample_s4)"

definition sample_s6 :: db where
  "sample_s6 = projr (transition sample_clock 1 Running ''start'' sample_s5)"

definition sample_s7 :: db where
  "sample_s7 = projr (insert_evidence sample_clock 1 1 ENote ''first'' sample_s6)"

definition sample_s8 :: db where
  "sample_s8 = projr (insert_evidence sample_clock 1 2 EOutput ''second'' sample_s7)"

definition sample_s9 :: db where
  "sample_s9 = projr (transition sample_clock 2 Cancelled ''not needed'' sample_s8)"

lemmas sample_states = sample_s1_def sample_s2_def sample_s3_def sample_s4_def sample_s5_def sample_s6_def
  sample_s7_def sample_s8_def sample_s9_def

lemma sample_step_mutate:
  "apply_mutations sample_hash sample_clock 7 0 [sample_patch] sample_s1 =
     Inr (\<lparr>mo_accepted = True, mo_revision = 1, mo_state_hash = ''other''\<rparr>, sample_s2)"
  by code_simp

lemma sample_step_create: "create sample_clock 1 sample_new sample_s2 = Inr (1, sample_s3)"
  by code_simp

lemma sample_step_child:
  "create sample_clock 2 (sample_new\<lparr>nr_parent_run_id := Some 1\<rparr>) sample_s3 = Inr (2, sample_s4)"
  by code_simp

lemma sample_step_provision:
  "provision sample_clock (\<lambda>n. of_nat (n + 5)) sample_spec sample_s4 = (Inr (), sample_s5)"
  by code_simp

lemma sample_step_start: "transition sample_clock 1 Running ''start'' sample_s5 = Inr sample_s6"
  by code_simp

lemma sample_step_note: "insert_evidence sample_clock 1 1 ENote ''first'' sample_s6 = Inr sample_s7"
  by code_simp

lemma sample_step_output: "insert_evidence sample_clock 1 2 EOutput ''second'' sample_s7 = Inr sample_s8"
  by code_simp

lemma sample_step_cancel: "transition sample_clock 2 Cancelled ''not needed'' sample_s8 = Inr sample_s9"
  by code_simp

lemma sample_reachable:
  "coord_reachable sample_hash sample_s4" "coord_reachable sample_hash sample_s5"
  "coord_reachable sample_hash sample_s9"
proof -
  have s1: "coord_reachable sample_hash sample_s1"
    unfolding sample_s1_def by (rule r_into_rtranclp, rule step_ensure_workspace)
  have s2: "coord_step sample_hash sample_s1 sample_s2"
    using sample_step_mutate by (rule step_mutate)
  have s3: "coord_step sample_hash sample_s2 sample_s3"
    using sample_step_create by (rule step_create_run) (simp add: sample_new_def)
  have s4: "coord_step sample_hash sample_s3 sample_s4"
    using sample_step_child by (rule step_create_run) simp
  show r4: "coord_reachable sample_hash sample_s4"
    using s1 s2 s3 s4 by (meson rtranclp.rtrancl_into_rtrancl)
  show r5: "coord_reachable sample_hash sample_s5"
    using r4 provision_steps [OF coord_reachable_inv [OF r4] sample_step_provision] by (rule rtranclp_trans)
  have s6: "coord_step sample_hash sample_s5 sample_s6"
    using sample_step_start by (rule step_transition)
  have s7: "coord_step sample_hash sample_s6 sample_s7"
    by (rule step_evidence [OF sample_step_note append_Nil2 [symmetric]]) code_simp
  have s8: "coord_step sample_hash sample_s7 sample_s8"
    by (rule step_evidence [OF sample_step_output append_Nil2 [symmetric]]) code_simp
  have s9: "coord_step sample_hash sample_s8 sample_s9"
    using sample_step_cancel by (rule step_transition)
  show "coord_reachable sample_hash sample_s9"
    using r5 s6 s7 s8 s9 by (meson rtranclp.rtrancl_into_rtrancl)
qed

lemma evidence_append_step:
  assumes "evidence_append c r k content d = Inr (s, d')"
  shows "coord_step hash d d'"
  using evidence_append_insert [OF assms] step_evidence [of c r s k content d d' "evidence_of d r" "[]" hash]
  by auto

lemmas coord_parts = coord_reachable_inv [unfolded coord_inv_def]

section \<open>Properties\<close>

text \<open>
  C3. In every state that any interleaving of the coordinator's transactions reaches, the transition
  log of a run explains it: its rows are numbered \<open>1, 2, \<dots>\<close> without gaps, start at \<open>draft\<close>, chain
  through legal edges and end at the run's status, and the wall clock started with the first row
  that enters \<open>running\<close>.
\<close>

theorem audit_log_explains_status:
  assumes "coord_reachable hash d" and "get_run_row d i = Some r"
  shows "contiguous (map t_seq (transitions_of d i)) \<and>
    status_chain ''draft'' (transitions_of d i) (r_status r) \<and>
    r_wall_started_at r = first_running (transitions_of d i)"
proof -
  have "run_ok (transitions_of d i) r"
    using coord_parts [OF assms(1)] assms(2) by (auto intro: runs_inv_get)
  then show ?thesis
    by (simp add: run_ok_def)
qed

theorem audit_log_explains_status_witness:
  "\<exists>r. get_run_row sample_s9 1 = Some r \<and> r_status r = ''running'' \<and>
     status_chain ''draft'' (transitions_of sample_s9 1) (r_status r) \<and>
     r_wall_started_at r = first_running (transitions_of sample_s9 1)"
proof -
  have "map_option r_status (get_run_row sample_s9 1) = Some ''running''"
    by code_simp
  with audit_log_explains_status [OF sample_reachable(3), of 1] show ?thesis
    by auto
qed

text \<open>
  C4. In every reachable state a run holds write access to at most one worktree: two write grants of
  one run name the same binding.
\<close>

theorem single_writable_worktree:
  assumes "coord_reachable hash d"
    and "g \<in> set (run_worktree_grants d)" and "h \<in> set (run_worktree_grants d)"
    and "g_run_id g = g_run_id h" and "g_access g = ''write''" and "g_access h = ''write''"
  shows "g = h"
proof -
  have inv: "grants_inv d"
    using coord_parts [OF assms(1)] by blast
  then have "g_binding_id g = g_binding_id h"
    using assms(2-6) unfolding grants_inv_def one_writable_per_run_def by blast
  with inv assms(2-4) show ?thesis
    by (auto simp: grants_inv_def distinct_map inj_on_def)
qed

theorem single_writable_worktree_witness:
  "\<exists>g. g \<in> set (run_worktree_grants sample_s9) \<and> g_run_id g = 1 \<and> g_access g = ''write'' \<and>
     (\<forall>h \<in> set (run_worktree_grants sample_s9). g_run_id h = 1 \<longrightarrow> g_access h = ''write'' \<longrightarrow> g = h)"
proof -
  have "run_worktree_grants sample_s9 = [\<lparr>g_run_id = 1, g_binding_id = 5, g_access = ''write''\<rparr>]"
    by code_simp
  then have "\<exists>g. g \<in> set (run_worktree_grants sample_s9) \<and> g_run_id g = 1 \<and> g_access g = ''write''"
    by simp
  with single_writable_worktree [OF sample_reachable(3)] show ?thesis
    by metis
qed

text \<open>
  C1. Fencing is for good. Once a lease is acquired, every older epoch of that binding stays dead
  whatever any process does afterwards: the fencing check refuses it, for every run, and so does a
  renewal, which reports the stale epoch.
\<close>

theorem stale_holder_fenced:
  assumes "acquire_lease c i ttl d = Inr (l, d1)" and "(coord_step hash)\<^sup>*\<^sup>* d1 d2" and "ep < l_epoch l"
  shows "validate_op c' run_id i ep d2 \<noteq> Inr () \<and>
    (\<exists>current. l_epoch l \<le> current \<and> renew_lease c' i ep ttl' d2 = Inl (StaleEpoch i current ep))"
proof -
  have now: "epoch_of i d1 = Some (l_epoch l)"
    using assms(1) by (rule acquire_lease_epoch)
  obtain b where b: "get_binding_row d2 i = Some b" "l_epoch l \<le> b_epoch b"
    using binding_fence.steps_mono [OF assms(2) now] by (auto simp: epoch_of_def)
  have "epoch_of i d2 \<noteq> Some ep"
    using assms(2) now assms(3) by (rule binding_fence.stale_forever)
  with b assms(3) show ?thesis
    by (auto simp: renew_lease_def dest: validate_op_epoch)
qed

lemma sample_acquire:
  "acquire_lease sample_clock 5 60 sample_s5 =
     Inr (\<lparr>l_binding_id = 5, l_epoch = 2, l_expires_at = 60001000\<rparr>,
          snd (projr (acquire_lease sample_clock 5 60 sample_s5)))"
  by code_simp

theorem stale_holder_fenced_witness:
  "validate_op sample_clock 1 5 1 sample_s5 = Inr () \<and>
   validate_op sample_clock 1 5 1 (snd (projr (acquire_lease sample_clock 5 60 sample_s5))) \<noteq> Inr ()"
proof
  show "validate_op sample_clock 1 5 1 sample_s5 = Inr ()"
    by code_simp
  show "validate_op sample_clock 1 5 1 (snd (projr (acquire_lease sample_clock 5 60 sample_s5))) \<noteq> Inr ()"
    using stale_holder_fenced [OF sample_acquire rtranclp.rtrancl_refl, of 1] by simp
qed

text \<open>
  A run that has ended stays as it ended: from a state where its status is terminal, no sequence
  of the coordinator's steps gives it another status.
\<close>

theorem terminal_status_absorbing:
  assumes "(coord_step hash)\<^sup>*\<^sup>* d d'" and "status_of i d = Some (status_as_str s)" and "is_terminal s"
  shows "status_of i d' = Some (status_as_str s)"
  using assms by (rule coord_steps_terminal)

theorem terminal_status_absorbing_witness:
  "status_of 2 (revoke_grants 2 sample_s9) = Some ''cancelled''"
proof -
  have "status_of 2 sample_s9 = Some (status_as_str Cancelled)" and "is_terminal Cancelled"
    by code_simp+
  moreover have "(coord_step sample_hash)\<^sup>*\<^sup>* sample_s9 (revoke_grants 2 sample_s9)"
    by (rule r_into_rtranclp, rule step_revoke)
  ultimately show ?thesis
    using terminal_status_absorbing [of sample_hash sample_s9 _ 2 Cancelled] by simp
qed

text \<open>
  C38. In every reachable state the depth of a run is computed: the walk over the parents ends, after
  fewer steps than there are runs, with the number of hops to the root.
\<close>

theorem depth_terminates:
  assumes "coord_reachable hash d" and "get_run_row d i = Some r"
  shows "\<exists>n. n < length (runs d) \<and> depth d i = Some (Inr (int n)) \<and> root_at d i n"
  using coord_parts [OF assms(1)] assms(2) by (auto intro: depth_returns)

theorem depth_terminates_witness:
  "get_run_row sample_s4 2 \<noteq> None \<and> (\<exists>n. n < length (runs sample_s4) \<and> depth sample_s4 2 = Some (Inr (int n)))"
proof -
  have "get_run_row sample_s4 2 \<noteq> None"
    by code_simp
  with depth_terminates [OF sample_reachable(1), of 2] show ?thesis
    by blast
qed

text \<open>
  In every reachable state the event log of a workspace is the whole truth about it: replaying
  the logged patches from the empty object gives the stored state, the stored hash is that of the
  state, and (below the largest \<open>i64\<close>) the revision is the number of events, which are numbered
  without gaps.
\<close>

theorem workspace_log_replays:
  assumes "coord_reachable hash d" and "get_workspace_row d w = Some row"
  shows "ws_state row = replay (events_of d w) \<and> ws_state_hash row = hash (ws_state row) \<and>
    (int (length (events_of d w)) \<le> i64_max \<longrightarrow>
      ws_revision row = int (length (events_of d w)) \<and> contiguous (map we_revision (events_of d w)))"
proof -
  have "ws_ok hash (events_of d w) row"
    using coord_parts [OF assms(1)] assms(2) by (auto simp: workspaces_inv_def dest!: row_get_SomeD)
  then show ?thesis
    by (simp add: ws_ok_def)
qed

theorem workspace_log_replays_witness:
  "\<exists>row. get_workspace_row sample_s9 7 = Some row \<and> ws_state row = sample_patch \<and>
     ws_state row = replay (events_of sample_s9 7)"
proof -
  have "map_option ws_state (get_workspace_row sample_s9 7) = Some sample_patch"
    by code_simp
  with workspace_log_replays [OF sample_reachable(3), of 7] show ?thesis
    by auto
qed

text \<open>
  In every reachable state a reader who has seen the first \<open>k\<close> evidence rows of a run and asks for
  what comes after \<open>k\<close> gets exactly the rest, in order, with nothing lost or repeated.
\<close>

theorem evidence_resume:
  assumes "coord_reachable hash d"
  shows "list_after d r (int k) = Inr (map row_of (drop k (evidence_of d r)))"
  using coord_parts [OF assms] by (auto intro: list_after_drop)

theorem evidence_resume_witness:
  "list_after sample_s9 1 (int 1) = Inr (map row_of (drop 1 (evidence_of sample_s9 1))) \<and>
   map e_content (evidence_of sample_s9 1) = [''first'', ''second'']"
proof
  show "list_after sample_s9 1 (int 1) = Inr (map row_of (drop 1 (evidence_of sample_s9 1)))"
    using sample_reachable(3) by (rule evidence_resume)
  show "map e_content (evidence_of sample_s9 1) = [''first'', ''second'']"
    by code_simp
qed

text \<open>
  The compound operations are interleavings of atomic steps: the saga and the sweep, whatever
  they return, take a state that satisfies the invariant of the store to one that satisfies it,
  through a sequence of the single transactions.
\<close>

theorem compound_operations_refine:
  assumes "coord_inv hash d"
  shows "(coord_step hash)\<^sup>*\<^sup>* d (snd (provision c gen spec d)) \<and> coord_inv hash (snd (provision c gen spec d)) \<and>
    (coord_step hash)\<^sup>*\<^sup>* d (snd (sweep_once c d)) \<and> coord_inv hash (snd (sweep_once c d))"
proof -
  have "(coord_step hash)\<^sup>*\<^sup>* d (snd (provision c gen spec d))" and "(coord_step hash)\<^sup>*\<^sup>* d (snd (sweep_once c d))"
    using provision_steps [OF assms prod.collapse [symmetric]] sweep_once_steps [OF prod.collapse [symmetric]]
    by simp_all
  then show ?thesis
    using coord.steps_inv assms by blast
qed

theorem compound_operations_refine_witness:
  "coord_inv sample_hash (snd (provision sample_clock of_nat sample_spec empty_db)) \<and>
   coord_inv sample_hash (snd (sweep_once sample_clock empty_db))"
  using compound_operations_refine [OF coord_inv_empty] by blast

end
