(* ===== verification/Coord_Http.thy ===== *)
theory Coord_Http
  imports Coord_System
begin

unbundle bit_operations_syntax

text \<open>
  \<open>vingilot/coordinator/coordinator/src/http.rs\<close>: the boot gate, the bearer and CORS layers, the
  mapping of errors to statuses and the handlers.

  A request is taken after the framework has matched its route and decoded its path, query and
  body (\<open>rq_call\<close>); what the framework answers by itself, such as 404 for an unknown route or 422
  for a malformed body, is the call \<open>Rejected\<close> with its status. The human-readable \<open>detail\<close> of an
  error is kept as the error value it is rendered from. Of the headers of a response only those
  the source sets are kept. A panic of a handler is an outcome of its own.
\<close>

section \<open>The boot gate\<close>

datatype http_boot_error = MissingAuthToken

definition require_auth_token :: "string option \<Rightarrow> http_boot_error + string" where
  "require_auth_token raw =
    (case raw of
       Some token \<Rightarrow> if token \<noteq> [] then Inr token else Inl MissingAuthToken
     | None \<Rightarrow> Inl MissingAuthToken)"

section \<open>Errors\<close>

datatype api_detail =
    DetailText string
  | DetailWorkspace workspace_error
  | DetailRun run_error
  | DetailOp op_denied
  | DetailBinding binding_error
  | DetailEvidence evidence_error
  | DetailSaga saga_error

record api_error =
  ae_status :: nat
  ae_error :: string
  ae_detail :: api_detail

definition api_error_new :: "nat \<Rightarrow> string \<Rightarrow> api_detail \<Rightarrow> api_error" where
  "api_error_new status error detail = \<lparr>ae_status = status, ae_error = error, ae_detail = detail\<rparr>"

definition bad_request :: "api_detail \<Rightarrow> api_error" where
  "bad_request detail = api_error_new 400 ''bad_request'' detail"

fun from_workspace_error :: "workspace_error \<Rightarrow> api_error" where
  "from_workspace_error (WorkspaceNotFound w) =
    api_error_new 404 ''workspace_not_found'' (DetailWorkspace (WorkspaceNotFound w))"
| "from_workspace_error (WorkspaceDb e) =
    api_error_new 500 ''internal_error'' (DetailWorkspace (WorkspaceDb e))"

fun from_run_error :: "run_error \<Rightarrow> api_error" where
  "from_run_error (RunNotFound i) = api_error_new 404 ''run_not_found'' (DetailRun (RunNotFound i))"
| "from_run_error (IllegalTransition a b) =
    api_error_new 409 ''illegal_transition'' (DetailRun (IllegalTransition a b))"
| "from_run_error (CorruptStatus i) = api_error_new 500 ''corrupt_status'' (DetailRun (CorruptStatus i))"
| "from_run_error (RunDb e) = api_error_new 500 ''internal_error'' (DetailRun (RunDb e))"

definition from_op_denied :: "op_denied \<Rightarrow> api_error" where
  "from_op_denied err =
    (let (status, code) =
       (case err of
          OpNotFound _ \<Rightarrow> (403, ''binding_not_found'')
        | WrongRun _ _ \<Rightarrow> (403, ''wrong_run'')
        | NotReady _ \<Rightarrow> (403, ''not_ready'')
        | OpStaleEpoch _ _ _ \<Rightarrow> (403, ''stale_epoch'')
        | LeaseExpired _ \<Rightarrow> (403, ''lease_expired'')
        | OpDb _ \<Rightarrow> (500, ''internal_error''))
     in api_error_new status code (DetailOp err))"

text \<open>\<open>LeasePanic\<close> is not an error value of the source; the handlers turn it into \<open>Panicked\<close>.\<close>

definition from_binding_error :: "binding_error \<Rightarrow> api_error" where
  "from_binding_error err =
    (case err of
       BindingNotFound _ \<Rightarrow> api_error_new 404 ''binding_not_found'' (DetailBinding err)
     | StaleEpoch _ _ _ \<Rightarrow> api_error_new 409 ''stale_epoch'' (DetailBinding err)
     | WritableLimitExceeded \<Rightarrow> api_error_new 409 ''writable_limit_exceeded'' (DetailBinding err)
     | BindingDb _ \<Rightarrow> api_error_new 500 ''internal_error'' (DetailBinding err)
     | LeasePanic \<Rightarrow> api_error_new 500 ''internal_error'' (DetailBinding err))"

fun from_evidence_error :: "evidence_error \<Rightarrow> api_error" where
  "from_evidence_error (EvidenceRunNotFound i) =
    api_error_new 404 ''run_not_found'' (DetailEvidence (EvidenceRunNotFound i))"
| "from_evidence_error (ContentTooLarge a m) = bad_request (DetailEvidence (ContentTooLarge a m))"
| "from_evidence_error (EvidenceDb e) = api_error_new 500 ''internal_error'' (DetailEvidence (EvidenceDb e))"

fun from_saga_error :: "saga_error \<Rightarrow> api_error" where
  "from_saga_error (SagaRunNotFound i) =
    api_error_new 404 ''run_not_found'' (DetailSaga (SagaRunNotFound i))"
| "from_saga_error (SagaCorruptStatus i) =
    api_error_new 500 ''corrupt_status'' (DetailSaga (SagaCorruptStatus i))"
| "from_saga_error (UnexpectedStatus i s) =
    api_error_new 409 ''unexpected_status'' (DetailSaga (UnexpectedStatus i s))"
| "from_saga_error (WorktreeOwnedByAnotherRun i k) =
    api_error_new 409 ''worktree_owned_by_another_run'' (DetailSaga (WorktreeOwnedByAnotherRun i k))"
| "from_saga_error (SagaRun e) = from_run_error e"
| "from_saga_error (SagaBinding e) = from_binding_error e"
| "from_saga_error (SagaDb e) = api_error_new 500 ''internal_error'' (DetailSaga (SagaDb e))"

section \<open>Requests and responses\<close>

record mutations_request =
  mq_expected_revision :: i64
  mq_mutations :: "json list"

record create_run_request =
  cq_workspace_id :: uuid
  cq_parent_run_id :: "uuid option"
  cq_objective :: string
  cq_mode :: string
  cq_wall_limit_secs :: "i64 option"

record transition_request =
  tq_to :: string
  tq_reason :: string

record tokens_request =
  oq_total :: i64
  oq_observed_at :: timestamp

record validate_op_request =
  vq_run_id :: uuid
  vq_epoch :: i64

record worktree_spec_dto =
  wd_repo_id :: string
  wd_target_id :: string
  wd_role :: string
  wd_base_commit :: string
  wd_branch :: "string option"
  wd_access :: string
  wd_idempotency_key :: string

record append_evidence_request =
  aq_kind :: string
  aq_content :: string

record workspace_snapshot =
  sn_revision :: i64
  sn_state_hash :: string
  sn_state :: json

record grant_dto =
  gd_binding_id :: uuid
  gd_access :: string
  gd_repo_id :: string

record transition_dto =
  td_seq :: i64
  td_from_status :: string
  td_to_status :: string
  td_reason :: string
  td_created_at :: timestamp

record run_detail =
  rd_id :: uuid
  rd_workspace_id :: uuid
  rd_parent_run_id :: "uuid option"
  rd_objective :: string
  rd_mode :: string
  rd_status :: string
  rd_wall_limit_secs :: "i64 option"
  rd_wall_started_at :: "timestamp option"
  rd_tokens_observed :: i64
  rd_tokens_observed_at :: "timestamp option"
  rd_created_at :: timestamp
  rd_updated_at :: timestamp
  rd_grants :: "grant_dto list"
  rd_transitions :: "transition_dto list"

record lease_dto =
  ld_epoch :: i64
  ld_expires_at :: timestamp

record evidence_row_dto =
  ed_seq :: i64
  ed_kind :: string
  ed_content :: string
  ed_created_at :: timestamp

definition lease_dto_from :: "lease \<Rightarrow> lease_dto" where
  "lease_dto_from l = \<lparr>ld_epoch = l_epoch l, ld_expires_at = l_expires_at l\<rparr>"

definition evidence_row_dto_from :: "evidence_row \<Rightarrow> evidence_row_dto" where
  "evidence_row_dto_from r =
    \<lparr>ed_seq = er_seq r, ed_kind = kind_as_str (er_kind r), ed_content = er_content r,
     ed_created_at = er_created_at r\<rparr>"

datatype response_body =
    NoBody
  | BError string api_detail
  | BMutations mutation_outcome
  | BSnapshot workspace_snapshot
  | BRuns "run_summary_row list"
  | BWorktrees "worktree_summary_row list"
  | BRunId uuid
  | BRunDetail run_detail
  | BLease lease_dto
  | BSeq i64
  | BEvidence "evidence_row_dto list"

record response =
  res_status :: nat
  res_headers :: "(string \<times> string) list"
  res_body :: response_body

definition response_of :: "nat \<Rightarrow> response_body \<Rightarrow> response" where
  "response_of status body = \<lparr>res_status = status, res_headers = [], res_body = body\<rparr>"

definition api_error_into_response :: "api_error \<Rightarrow> response" where
  "api_error_into_response e = response_of (ae_status e) (BError (ae_error e) (ae_detail e))"

datatype handler_result =
    Replied response
  | Refused api_error
  | Panicked

datatype call =
    PostMutations uuid mutations_request
  | GetWorkspace uuid
  | GetWorkspaceRuns uuid
  | GetWorkspaceWorktrees uuid
  | PostCreateRun create_run_request
  | GetRun uuid
  | PostTransition uuid transition_request
  | PostTokens uuid tokens_request
  | PostProvision uuid "worktree_spec_dto list"
  | PostValidateOp uuid validate_op_request
  | PostAcquireLease uuid i64
  | PostRenewLease uuid i64 i64
  | PostAppendEvidence uuid append_evidence_request
  | GetListEvidence uuid i64
  | Rejected nat

record request =
  rq_options :: bool
  rq_origin :: "string option"
  rq_authorization :: "string option"
  rq_call :: call

section \<open>CORS\<close>

definition rsplit_once :: "char \<Rightarrow> string \<Rightarrow> (string \<times> string) option" where
  "rsplit_once ch s =
    (let after = rev (takeWhile (\<lambda>x. x \<noteq> ch) (rev s))
     in if ch \<in> set s then Some (take (length s - length after - 1) s, after) else None)"

definition is_ascii_digit :: "char \<Rightarrow> bool" where
  "is_ascii_digit ch \<longleftrightarrow> 48 \<le> (of_char ch :: nat) \<and> (of_char ch :: nat) \<le> 57"

definition allowed_origins :: "string list" where
  "allowed_origins = [''tauri://localhost'']"

definition is_loopback_dev_origin :: "string \<Rightarrow> bool" where
  "is_loopback_dev_origin origin =
    (case strip_prefix ''http://'' origin of
       None \<Rightarrow> False
     | Some rest \<Rightarrow>
         (case (case rsplit_once CHR '':'' rest of Some hp \<Rightarrow> hp | None \<Rightarrow> (rest, [])) of
            (host, port) \<Rightarrow>
              if host \<noteq> ''localhost'' \<and> host \<noteq> ''127.0.0.1'' then False
              else port = [] \<or> list_all is_ascii_digit port))"

text \<open>\<open>HeaderValue::from_str\<close> and \<open>HeaderValue::to_str\<close>: which bytes a header value may carry.\<close>

definition header_from_str :: "string \<Rightarrow> string option" where
  "header_from_str s =
    (if list_all (\<lambda>ch. let n = (of_char ch :: nat) in (32 \<le> n \<and> n \<noteq> 127) \<or> n = 9) s then Some s else None)"

definition header_to_str :: "string \<Rightarrow> string option" where
  "header_to_str s =
    (if list_all (\<lambda>ch. let n = (of_char ch :: nat) in (32 \<le> n \<and> n < 127) \<or> n = 9) s then Some s else None)"

definition allow_origin :: string where
  "allow_origin = ''access-control-allow-origin''"

definition cors_headers_for :: "string \<Rightarrow> (string \<times> string) list option" where
  "cors_headers_for origin =
    (if origin \<notin> set allowed_origins \<and> \<not> is_loopback_dev_origin origin then None
     else case header_from_str origin of
         None \<Rightarrow> None
       | Some v \<Rightarrow> Some
           [(allow_origin, v),
            (''access-control-allow-headers'', ''authorization, content-type''),
            (''access-control-allow-methods'', ''GET, POST, OPTIONS'')])"

definition request_origin :: "request \<Rightarrow> string option" where
  "request_origin req = Option.bind (rq_origin req) header_to_str"

definition header_insert :: "string \<times> string \<Rightarrow> response \<Rightarrow> response" where
  "header_insert h res = res\<lparr>res_headers := filter (\<lambda>x. fst x \<noteq> fst h) (res_headers res) @ [h]\<rparr>"

definition stamp_cors :: "string option \<Rightarrow> response \<Rightarrow> response" where
  "stamp_cors origin res =
    (case Option.bind origin cors_headers_for of
       None \<Rightarrow> res
     | Some headers \<Rightarrow> foldl (\<lambda>r h. header_insert h r) res headers)"

text \<open>The outermost layer. A response of \<open>None\<close> is a handler that panicked: nothing is sent.\<close>

definition cors :: "(request \<Rightarrow> db \<Rightarrow> response option \<times> db) \<Rightarrow> request \<Rightarrow> db \<Rightarrow> response option \<times> db" where
  "cors next req d =
    (let origin = request_origin req
     in if rq_options req then (Some (stamp_cors origin (response_of 204 NoBody)), d)
        else case next req d of
            (Some res, d') \<Rightarrow> (Some (stamp_cors origin res), d')
          | (None, d') \<Rightarrow> (None, d'))"

section \<open>The bearer token\<close>

definition constant_time_eq :: "8 word list \<Rightarrow> 8 word list \<Rightarrow> bool" where
  "constant_time_eq a b =
    (if length a \<noteq> length b then False
     else foldl (\<lambda>diff (x, y). diff OR (x XOR y)) 0 (zip a b) = 0)"

definition as_bytes :: "string \<Rightarrow> 8 word list" where
  "as_bytes s = map (\<lambda>ch. of_nat (of_char ch)) s"

definition presented_token :: "request \<Rightarrow> string option" where
  "presented_token req =
    Option.bind (Option.bind (rq_authorization req) header_to_str) (strip_prefix ''Bearer '')"

definition unauthorized :: api_error where
  "unauthorized = api_error_new 401 ''unauthorized'' (DetailText ''missing or invalid bearer token'')"

definition require_bearer ::
  "string \<Rightarrow> (request \<Rightarrow> db \<Rightarrow> response option \<times> db) \<Rightarrow> request \<Rightarrow> db \<Rightarrow> response option \<times> db" where
  "require_bearer auth_token next req d =
    (case presented_token req of
       Some token \<Rightarrow>
         if constant_time_eq (as_bytes token) (as_bytes auth_token) then next req d
         else (Some (api_error_into_response unauthorized), d)
     | None \<Rightarrow> (Some (api_error_into_response unauthorized), d))"

section \<open>Read models\<close>

definition fetch_workspace_snapshot :: "db \<Rightarrow> uuid \<Rightarrow> workspace_error + workspace_snapshot" where
  "fetch_workspace_snapshot d workspace_id =
    (case get_workspace_row d workspace_id of
       None \<Rightarrow> Inl (WorkspaceNotFound workspace_id)
     | Some row \<Rightarrow> Inr \<lparr>sn_revision = ws_revision row, sn_state_hash = ws_state_hash row,
                       sn_state = ws_state row\<rparr>)"

text \<open>The grants joined with the bindings they name, and the log in order.\<close>

definition run_grants :: "db \<Rightarrow> uuid \<Rightarrow> grant_dto list" where
  "run_grants d run_id =
    concat (map (\<lambda>g. map (\<lambda>b. \<lparr>gd_binding_id = g_binding_id g, gd_access = g_access g,
                               gd_repo_id = b_repo_id b\<rparr>)
                     (filter (\<lambda>b. b_id b = g_binding_id g) (worktree_bindings d)))
      (filter (\<lambda>g. g_run_id g = run_id) (run_worktree_grants d)))"

definition run_log :: "db \<Rightarrow> uuid \<Rightarrow> transition_dto list" where
  "run_log d run_id =
    map (\<lambda>t. \<lparr>td_seq = t_seq t, td_from_status = t_from_status t, td_to_status = t_to_status t,
             td_reason = t_reason t, td_created_at = t_created_at t\<rparr>)
      (sort_key t_seq (transitions_of d run_id))"

definition fetch_run_detail :: "db \<Rightarrow> uuid \<Rightarrow> run_error + run_detail" where
  "fetch_run_detail d run_id =
    (case get_run_row d run_id of
       None \<Rightarrow> Inl (RunNotFound run_id)
     | Some r \<Rightarrow> Inr
         \<lparr>rd_id = r_id r, rd_workspace_id = r_workspace_id r, rd_parent_run_id = r_parent_run_id r,
          rd_objective = r_objective r, rd_mode = r_mode r, rd_status = r_status r,
          rd_wall_limit_secs = r_wall_limit_secs r, rd_wall_started_at = r_wall_started_at r,
          rd_tokens_observed = r_tokens_observed r, rd_tokens_observed_at = r_tokens_observed_at r,
          rd_created_at = r_created_at r, rd_updated_at = r_updated_at r,
          rd_grants = run_grants d run_id, rd_transitions = run_log d run_id\<rparr>)"

section \<open>Handlers\<close>

text \<open>
  Each handler returns its result and the database it leaves behind. \<open>i\<close> and \<open>gen\<close> are the random
  ids drawn, \<open>hash\<close> is \<open>state_hash\<close>.
\<close>

definition post_mutations ::
  "(json \<Rightarrow> string) \<Rightarrow> clock \<Rightarrow> uuid \<Rightarrow> mutations_request \<Rightarrow> db \<Rightarrow> handler_result \<times> db" where
  "post_mutations hash c workspace_id body d =
    (let d1 = ensure_workspace hash c workspace_id d
     in case apply_mutations hash c workspace_id (mq_expected_revision body) (mq_mutations body) d1 of
         Inl e \<Rightarrow> (Refused (from_workspace_error e), d1)
       | Inr (outcome, d2) \<Rightarrow>
           (Replied (response_of (if mo_accepted outcome then 200 else 409) (BMutations outcome)), d2))"

definition get_workspace :: "uuid \<Rightarrow> db \<Rightarrow> handler_result \<times> db" where
  "get_workspace workspace_id d =
    (case fetch_workspace_snapshot d workspace_id of
       Inl e \<Rightarrow> (Refused (from_workspace_error e), d)
     | Inr snap \<Rightarrow> (Replied (response_of 200 (BSnapshot snap)), d))"

definition get_workspace_runs :: "uuid \<Rightarrow> db \<Rightarrow> handler_result \<times> db" where
  "get_workspace_runs workspace_id d =
    (Replied (response_of 200 (BRuns (list_for_workspace d workspace_id))), d)"

definition get_workspace_worktrees :: "uuid \<Rightarrow> db \<Rightarrow> handler_result \<times> db" where
  "get_workspace_worktrees workspace_id d =
    (Replied (response_of 200 (BWorktrees (list_worktrees_for_workspace d workspace_id))), d)"

definition post_create_run :: "clock \<Rightarrow> uuid \<Rightarrow> create_run_request \<Rightarrow> db \<Rightarrow> handler_result \<times> db" where
  "post_create_run c i body d =
    (case mode_parse (cq_mode body) of
       None \<Rightarrow> (Refused (bad_request (DetailText (''unknown run mode: '' @ cq_mode body))), d)
     | Some mode \<Rightarrow>
         (case create c i \<lparr>nr_workspace_id = cq_workspace_id body,
                          nr_parent_run_id = cq_parent_run_id body, nr_objective = cq_objective body,
                          nr_mode = mode, nr_wall_limit_secs = cq_wall_limit_secs body\<rparr> d of
            Inl e \<Rightarrow> (Refused (from_run_error e), d)
          | Inr (run_id, d') \<Rightarrow> (Replied (response_of 201 (BRunId run_id)), d')))"

definition get_run :: "uuid \<Rightarrow> db \<Rightarrow> handler_result \<times> db" where
  "get_run run_id d =
    (case fetch_run_detail d run_id of
       Inl e \<Rightarrow> (Refused (from_run_error e), d)
     | Inr detail \<Rightarrow> (Replied (response_of 200 (BRunDetail detail)), d))"

definition post_transition :: "clock \<Rightarrow> uuid \<Rightarrow> transition_request \<Rightarrow> db \<Rightarrow> handler_result \<times> db" where
  "post_transition c run_id body d =
    (case status_parse (tq_to body) of
       None \<Rightarrow> (Refused (bad_request (DetailText (''unknown run status: '' @ tq_to body))), d)
     | Some to_st \<Rightarrow>
         (case transition c run_id to_st (tq_reason body) d of
            Inl e \<Rightarrow> (Refused (from_run_error e), d)
          | Inr d' \<Rightarrow> (Replied (response_of 200 NoBody), d')))"

definition post_tokens :: "clock \<Rightarrow> uuid \<Rightarrow> tokens_request \<Rightarrow> db \<Rightarrow> handler_result \<times> db" where
  "post_tokens c run_id body d =
    (case observe_tokens c run_id (oq_total body) (oq_observed_at body) d of
       Inl e \<Rightarrow> (Refused (from_run_error e), d)
     | Inr d' \<Rightarrow> (Replied (response_of 204 NoBody), d'))"

definition post_validate_op :: "clock \<Rightarrow> uuid \<Rightarrow> validate_op_request \<Rightarrow> db \<Rightarrow> handler_result \<times> db" where
  "post_validate_op c binding_id body d =
    (case validate_op c (vq_run_id body) binding_id (vq_epoch body) d of
       Inl e \<Rightarrow> (Refused (from_op_denied e), d)
     | Inr _ \<Rightarrow> (Replied (response_of 204 NoBody), d))"

fun decode_worktrees :: "worktree_spec_dto list \<Rightarrow> api_error + worktree_spec list" where
  "decode_worktrees [] = Inr []"
| "decode_worktrees (w # ws) =
    (case access_parse (wd_access w) of
       None \<Rightarrow> Inl (bad_request (DetailText (''unknown access level: '' @ wd_access w)))
     | Some access \<Rightarrow>
         (case decode_worktrees ws of
            Inl e \<Rightarrow> Inl e
          | Inr specs \<Rightarrow> Inr (\<lparr>sp_repo_id = wd_repo_id w, sp_target_id = wd_target_id w,
                sp_role = wd_role w, sp_base_commit = wd_base_commit w, sp_branch = wd_branch w,
                sp_access = access, sp_idempotency_key = wd_idempotency_key w\<rparr> # specs)))"

definition post_provision ::
  "clock \<Rightarrow> (nat \<Rightarrow> uuid) \<Rightarrow> uuid \<Rightarrow> worktree_spec_dto list \<Rightarrow> db \<Rightarrow> handler_result \<times> db" where
  "post_provision c gen run_id worktrees d =
    (case decode_worktrees worktrees of
       Inl e \<Rightarrow> (Refused e, d)
     | Inr specs \<Rightarrow>
         (case provision c gen \<lparr>ps_run_id = run_id, ps_worktrees = specs\<rparr> d of
            (Inl (SagaBinding LeasePanic), d') \<Rightarrow> (Panicked, d')
          | (Inl e, d') \<Rightarrow> (Refused (from_saga_error e), d')
          | (Inr _, d') \<Rightarrow> (Replied (response_of 200 NoBody), d')))"

definition post_acquire_lease :: "clock \<Rightarrow> uuid \<Rightarrow> i64 \<Rightarrow> db \<Rightarrow> handler_result \<times> db" where
  "post_acquire_lease c binding_id ttl_secs d =
    (case acquire_lease c binding_id ttl_secs d of
       Inl LeasePanic \<Rightarrow> (Panicked, d)
     | Inl e \<Rightarrow> (Refused (from_binding_error e), d)
     | Inr (l, d') \<Rightarrow> (Replied (response_of 200 (BLease (lease_dto_from l))), d'))"

definition post_renew_lease :: "clock \<Rightarrow> uuid \<Rightarrow> i64 \<Rightarrow> i64 \<Rightarrow> db \<Rightarrow> handler_result \<times> db" where
  "post_renew_lease c binding_id epoch ttl_secs d =
    (case renew_lease c binding_id epoch ttl_secs d of
       Inl LeasePanic \<Rightarrow> (Panicked, d)
     | Inl e \<Rightarrow> (Refused (from_binding_error e), d)
     | Inr (l, d') \<Rightarrow> (Replied (response_of 200 (BLease (lease_dto_from l))), d'))"

definition post_append_evidence :: "clock \<Rightarrow> uuid \<Rightarrow> append_evidence_request \<Rightarrow> db \<Rightarrow> handler_result \<times> db" where
  "post_append_evidence c run_id body d =
    (case kind_parse (aq_kind body) of
       None \<Rightarrow> (Refused (bad_request (DetailText (''unknown evidence kind: '' @ aq_kind body))), d)
     | Some kind \<Rightarrow>
         (case evidence_append c run_id kind (aq_content body) d of
            Inl e \<Rightarrow> (Refused (from_evidence_error e), d)
          | Inr (seq, d') \<Rightarrow> (Replied (response_of 201 (BSeq seq)), d')))"

definition get_list_evidence :: "uuid \<Rightarrow> i64 \<Rightarrow> db \<Rightarrow> handler_result \<times> db" where
  "get_list_evidence run_id after d =
    (case list_after d run_id after of
       Inl e \<Rightarrow> (Refused (from_evidence_error e), d)
     | Inr rows \<Rightarrow> (Replied (response_of 200 (BEvidence (map evidence_row_dto_from rows))), d))"

definition dispatch ::
  "(json \<Rightarrow> string) \<Rightarrow> clock \<Rightarrow> (nat \<Rightarrow> uuid) \<Rightarrow> request \<Rightarrow> db \<Rightarrow> handler_result \<times> db" where
  "dispatch hash c gen req d =
    (case rq_call req of
       PostMutations w body \<Rightarrow> post_mutations hash c w body d
     | GetWorkspace w \<Rightarrow> get_workspace w d
     | GetWorkspaceRuns w \<Rightarrow> get_workspace_runs w d
     | GetWorkspaceWorktrees w \<Rightarrow> get_workspace_worktrees w d
     | PostCreateRun body \<Rightarrow> post_create_run c (gen 0) body d
     | GetRun r \<Rightarrow> get_run r d
     | PostTransition r body \<Rightarrow> post_transition c r body d
     | PostTokens r body \<Rightarrow> post_tokens c r body d
     | PostProvision r wts \<Rightarrow> post_provision c gen r wts d
     | PostValidateOp b body \<Rightarrow> post_validate_op c b body d
     | PostAcquireLease b ttl \<Rightarrow> post_acquire_lease c b ttl d
     | PostRenewLease b epoch ttl \<Rightarrow> post_renew_lease c b epoch ttl d
     | PostAppendEvidence r body \<Rightarrow> post_append_evidence c r body d
     | GetListEvidence r after \<Rightarrow> get_list_evidence r after d
     | Rejected status \<Rightarrow> (Replied (response_of status NoBody), d))"

definition into_response :: "handler_result \<times> db \<Rightarrow> response option \<times> db" where
  "into_response out =
    (case out of
       (Replied res, d) \<Rightarrow> (Some res, d)
     | (Refused e, d) \<Rightarrow> (Some (api_error_into_response e), d)
     | (Panicked, d) \<Rightarrow> (None, d))"

definition router ::
  "(json \<Rightarrow> string) \<Rightarrow> string \<Rightarrow> clock \<Rightarrow> (nat \<Rightarrow> uuid) \<Rightarrow> request \<Rightarrow> db \<Rightarrow> response option \<times> db" where
  "router hash auth_token c gen =
    cors (require_bearer auth_token (\<lambda>req d. into_response (dispatch hash c gen req d)))"

section \<open>Lemmas\<close>

lemma xor_eq_0_word: "(x :: 8 word) XOR y = 0 \<longleftrightarrow> x = y"
  by (auto simp: bit_eq_iff bit_xor_iff)

lemma foldl_diff:
  "foldl (\<lambda>diff (x, y). diff OR (x XOR y)) z xs = (0 :: 8 word) \<longleftrightarrow> z = 0 \<and> (\<forall>(x, y) \<in> set xs. x = y)"
  by (induction xs arbitrary: z) (auto simp: or_eq_0_iff xor_eq_0_word)

lemma constant_time_eq_iff: "constant_time_eq a b \<longleftrightarrow> a = b"
proof -
  have "length a = length b \<Longrightarrow> (\<forall>(x, y) \<in> set (zip a b). x = y) \<longleftrightarrow> a = b"
    by (induction rule: list_induct2) auto
  then show ?thesis
    by (auto simp: constant_time_eq_def foldl_diff)
qed

lemma as_bytes_inject: "as_bytes s = as_bytes t \<longleftrightarrow> s = t"
proof -
  have "unat (of_nat (of_char ch) :: 8 word) = of_char ch" for ch
    by (simp add: unat_of_nat)
  then have "inj (\<lambda>ch. of_nat (of_char ch) :: 8 word)"
    by (metis (mono_tags, lifting) injI of_char_eq_iff)
  then show ?thesis
    by (simp add: as_bytes_def inj_map_eq_map)
qed

lemma require_bearer_eq:
  "require_bearer tok next req d =
    (if presented_token req = Some tok then next req d else (Some (api_error_into_response unauthorized), d))"
  by (auto simp: require_bearer_def constant_time_eq_iff as_bytes_inject split: option.split)

lemma rsplit_once_None: "ch \<notin> set s \<Longrightarrow> rsplit_once ch s = None"
  by (simp add: rsplit_once_def)

lemma rsplit_once_append:
  assumes "ch \<notin> set p"
  shows "rsplit_once ch (h @ ch # p) = Some (h, p)"
proof -
  have "takeWhile (\<lambda>x. x \<noteq> ch) (rev (h @ ch # p)) = rev p"
    using assms by (simp add: takeWhile_append)
  then show ?thesis
    by (simp add: rsplit_once_def Let_def)
qed

lemma split_last_occurrence: "ch \<in> set s \<Longrightarrow> \<exists>h p. s = h @ ch # p \<and> ch \<notin> set p"
  using split_list_last by metis

lemma is_ascii_digit_colon: "list_all is_ascii_digit p \<Longrightarrow> CHR '':'' \<notin> set p"
  by (auto simp: list_all_iff is_ascii_digit_def)

lemma rsplit_cases:
  "(case rsplit_once CHR '':'' rest of Some hp \<Rightarrow> hp | None \<Rightarrow> (rest, [])) = (h, p) \<longleftrightarrow>
    CHR '':'' \<notin> set p \<and> (rest = h @ '':'' @ p \<or> CHR '':'' \<notin> set rest \<and> rest = h \<and> p = [])"
proof (cases "CHR '':'' \<in> set rest")
  case True
  then obtain h0 p0 where "rest = h0 @ CHR '':'' # p0" "CHR '':'' \<notin> set p0"
    using split_last_occurrence by metis
  then show ?thesis
    by (auto simp: rsplit_once_append append_eq_append_conv2 append_eq_Cons_conv Cons_eq_append_conv)
next
  case False
  then show ?thesis
    by (auto simp: rsplit_once_None)
qed

lemma loopback_iff:
  "is_loopback_dev_origin origin \<longleftrightarrow>
    (\<exists>host port. (host = ''localhost'' \<or> host = ''127.0.0.1'') \<and> list_all is_ascii_digit port \<and>
       (origin = ''http://'' @ host \<or> origin = ''http://'' @ host @ '':'' @ port))"
  (is "?l \<longleftrightarrow> ?r")
proof -
  have shape: "?l \<longleftrightarrow> (\<exists>rest h p. origin = ''http://'' @ rest \<and>
      (case rsplit_once CHR '':'' rest of Some hp \<Rightarrow> hp | None \<Rightarrow> (rest, [])) = (h, p) \<and>
      (h = ''localhost'' \<or> h = ''127.0.0.1'') \<and> list_all is_ascii_digit p)"
  proof (cases "prefix ''http://'' origin")
    case True
    then obtain rest where o: "origin = ''http://'' @ rest"
      by (auto simp: prefix_def)
    obtain h p where hp: "(case rsplit_once CHR '':'' rest of Some hp \<Rightarrow> hp | None \<Rightarrow> (rest, [])) = (h, p)"
      by (cases "case rsplit_once CHR '':'' rest of Some hp \<Rightarrow> hp | None \<Rightarrow> (rest, [])")
    have "?l \<longleftrightarrow> (h = ''localhost'' \<or> h = ''127.0.0.1'') \<and> list_all is_ascii_digit p"
      unfolding is_loopback_dev_origin_def o strip_prefix_def by (auto simp: hp)
    then show ?thesis
      unfolding o using hp by simp
  next
    case False
    then show ?thesis
      unfolding is_loopback_dev_origin_def strip_prefix_def prefix_def by simp
  qed
  show ?thesis
    unfolding shape rsplit_cases
  proof
    assume "\<exists>rest h p. origin = ''http://'' @ rest \<and>
      (CHR '':'' \<notin> set p \<and> (rest = h @ '':'' @ p \<or> CHR '':'' \<notin> set rest \<and> rest = h \<and> p = [])) \<and>
      (h = ''localhost'' \<or> h = ''127.0.0.1'') \<and> list_all is_ascii_digit p"
    then show ?r by blast
  next
    assume ?r
    then obtain h p where h: "h = ''localhost'' \<or> h = ''127.0.0.1''" and p: "list_all is_ascii_digit p"
      and o: "origin = ''http://'' @ h \<or> origin = ''http://'' @ h @ '':'' @ p"
      by blast
    have "CHR '':'' \<notin> set h" "CHR '':'' \<notin> set p"
      using h is_ascii_digit_colon [OF p] by auto
    with h p o show "\<exists>rest h p. origin = ''http://'' @ rest \<and>
      (CHR '':'' \<notin> set p \<and> (rest = h @ '':'' @ p \<or> CHR '':'' \<notin> set rest \<and> rest = h \<and> p = [])) \<and>
      (h = ''localhost'' \<or> h = ''127.0.0.1'') \<and> list_all is_ascii_digit p"
      by (metis empty_iff list.pred_inject(1) list.set(1))
  qed
qed

lemma header_fold:
  "res_status (foldl (\<lambda>r h. header_insert h r) res hs) = res_status res"
  "res_body (foldl (\<lambda>r h. header_insert h r) res hs) = res_body res"
  by (induction hs arbitrary: res) (simp_all add: header_insert_def)

lemma stamp_cors_simps [simp]:
  "res_status (stamp_cors origin res) = res_status res" "res_body (stamp_cors origin res) = res_body res"
  by (simp_all add: stamp_cors_def header_fold split: option.split)

lemma stamp_cors_headers:
  assumes "res_headers res = []"
  shows "res_headers (stamp_cors origin res) =
    (case Option.bind origin cors_headers_for of None \<Rightarrow> [] | Some hs \<Rightarrow> hs)"
proof (cases "Option.bind origin cors_headers_for")
  case (Some hs)
  then obtain v where "hs = [(allow_origin, v), (''access-control-allow-headers'', ''authorization, content-type''),
      (''access-control-allow-methods'', ''GET, POST, OPTIONS'')]"
    by (auto simp: bind_eq_Some_conv cors_headers_for_def split: if_splits option.splits)
  with Some assms show ?thesis
    by (simp add: stamp_cors_def header_insert_def allow_origin_def)
qed (use assms in \<open>simp add: stamp_cors_def\<close>)

text \<open>What a handler leaves behind, it left through the coordinator's steps.\<close>

lemma post_mutations_steps: "(coord_step hash)\<^sup>*\<^sup>* d (snd (post_mutations hash c w body d))"
proof -
  have first: "coord_step hash d (ensure_workspace hash c w d)"
    by (rule step_ensure_workspace)
  show ?thesis
    using first
    by (auto simp: post_mutations_def Let_def split: sum.splits
        intro: step_mutate converse_rtranclp_into_rtranclp)
qed

lemma post_provision_steps:
  "coord_inv hash d \<Longrightarrow> (coord_step hash)\<^sup>*\<^sup>* d (snd (post_provision c gen r wts d))"
  by (auto simp: post_provision_def split: sum.splits prod.splits saga_error.splits binding_error.splits
      dest: provision_steps)

definition fresh_run_id :: "(nat \<Rightarrow> uuid) \<Rightarrow> request \<Rightarrow> bool" where
  "fresh_run_id gen req \<longleftrightarrow>
    (case rq_call req of PostCreateRun body \<Rightarrow> cq_parent_run_id body \<noteq> Some (gen 0) | _ \<Rightarrow> True)"

lemma dispatch_steps:
  assumes inv: "coord_inv hash d" and fresh: "fresh_run_id gen req"
  shows "(coord_step hash)\<^sup>*\<^sup>* d (snd (dispatch hash c gen req d))"
proof (cases "rq_call req")
  case (PostCreateRun body)
  with fresh have "cq_parent_run_id body \<noteq> Some (gen 0)"
    by (simp add: fresh_run_id_def)
  then have step: "coord_step hash d d'" if "create c (gen 0) (\<lparr>nr_workspace_id = cq_workspace_id body,
      nr_parent_run_id = cq_parent_run_id body, nr_objective = cq_objective body, nr_mode = m,
      nr_wall_limit_secs = cq_wall_limit_secs body\<rparr> :: new_run) d = Inr (j, d')" for m j d'
    using step_create_run [OF that, of hash] by simp
  then show ?thesis
    using PostCreateRun
    by (auto simp: dispatch_def post_create_run_def split: option.splits sum.splits dest: step)
next
  case (PostAcquireLease b ttl)
  then show ?thesis
    by (auto simp: dispatch_def post_acquire_lease_def split: sum.splits binding_error.splits
        intro: step_acquire)
next
  case (PostRenewLease b ep ttl)
  then show ?thesis
    by (auto simp: dispatch_def post_renew_lease_def split: sum.splits binding_error.splits
        intro: step_renew)
next
  case (PostAppendEvidence r body)
  then show ?thesis
    by (auto simp: dispatch_def post_append_evidence_def split: option.splits sum.splits
        intro: evidence_append_step)
next
  case (PostTransition r body)
  then show ?thesis
    by (auto simp: dispatch_def post_transition_def split: option.splits sum.splits intro: step_transition)
next
  case (PostTokens r body)
  then show ?thesis
    by (auto simp: dispatch_def post_tokens_def split: sum.splits intro: step_tokens)
qed (use inv in \<open>auto simp: dispatch_def post_mutations_steps post_provision_steps get_workspace_def
      get_workspace_runs_def get_workspace_worktrees_def get_run_def post_validate_op_def
      get_list_evidence_def split: sum.splits\<close>)

lemma router_db:
  "snd (router hash tok c gen req d) =
    (if rq_options req \<or> presented_token req \<noteq> Some tok then d else snd (dispatch hash c gen req d))"
  by (auto simp: router_def cors_def Let_def require_bearer_eq into_response_def
      split: prod.splits option.splits handler_result.splits)

section \<open>Properties\<close>

text \<open>
  The token comparison is equality: two byte strings compare equal in constant time exactly when
  they are equal, so the bearer check lets a request through exactly when it presents the token.
\<close>

theorem constant_time_eq_correct:
  "(constant_time_eq a b \<longleftrightarrow> a = b) \<and> (constant_time_eq (as_bytes s) (as_bytes t) \<longleftrightarrow> s = t)"
  by (simp add: constant_time_eq_iff as_bytes_inject)

text \<open>
  Nothing happens without the token: a request that is not a preflight and does not present the
  configured bearer token is answered 401 \<open>unauthorized\<close> and leaves the database as it was, whatever
  it asks for. A preflight is answered 204 and never reaches a handler.
\<close>

theorem unauthorized_no_effect:
  assumes "rq_options req \<or> presented_token req \<noteq> Some auth_token"
  shows "\<exists>res. router hash auth_token c gen req d = (Some res, d) \<and>
    (if rq_options req then res_status res = 204 \<and> res_body res = NoBody
     else res_status res = 401 \<and>
       res_body res = BError ''unauthorized'' (DetailText ''missing or invalid bearer token''))"
  using assms
  by (auto simp: router_def cors_def Let_def require_bearer_eq unauthorized_def api_error_new_def
      api_error_into_response_def response_of_def)

definition sample_request :: "string option \<Rightarrow> call \<Rightarrow> request" where
  "sample_request auth cl = \<lparr>rq_options = False, rq_origin = Some ''http://localhost:1420'',
     rq_authorization = auth, rq_call = cl\<rparr>"

theorem unauthorized_no_effect_witness:
  "\<exists>res. router sample_hash ''secret'' sample_clock of_nat
       (sample_request (Some ''Bearer guess'') (PostTransition 1 \<lparr>tq_to = ''cancelled'', tq_reason = []\<rparr>)) sample_s9
     = (Some res, sample_s9) \<and> res_status res = 401"
proof -
  let ?req = "sample_request (Some ''Bearer guess'') (PostTransition 1 \<lparr>tq_to = ''cancelled'', tq_reason = []\<rparr>)"
  have "presented_token ?req \<noteq> Some ''secret''"
    by (simp add: presented_token_def sample_request_def header_to_str_def strip_prefix_def)
  from unauthorized_no_effect [OF disjI2 [OF this], of sample_hash sample_clock of_nat sample_s9] show ?thesis
    by (auto simp: sample_request_def)
qed

text \<open>
  Every request keeps the invariant of the store: whatever is asked, the database a request leaves
  behind is reached by the coordinator's atomic steps (the id drawn for a new run not being the
  parent the request names).
\<close>

theorem router_keeps_invariant:
  assumes "coord_inv hash d" and "fresh_run_id gen req"
  shows "(coord_step hash)\<^sup>*\<^sup>* d (snd (router hash auth_token c gen req d)) \<and>
    coord_inv hash (snd (router hash auth_token c gen req d))"
proof -
  have "(coord_step hash)\<^sup>*\<^sup>* d (snd (router hash auth_token c gen req d))"
    using dispatch_steps [OF assms] by (simp add: router_db)
  then show ?thesis
    using coord.steps_inv assms(1) by blast
qed

theorem router_keeps_invariant_witness:
  "coord_inv sample_hash (snd (router sample_hash ''secret'' sample_clock of_nat
     (sample_request (Some ''Bearer secret'') (PostTransition 1 \<lparr>tq_to = ''cancelled'', tq_reason = []\<rparr>)) sample_s9))"
  using router_keeps_invariant [OF coord_reachable_inv [OF sample_reachable(3)], of of_nat
      "sample_request (Some ''Bearer secret'') (PostTransition 1 \<lparr>tq_to = ''cancelled'', tq_reason = []\<rparr>)"]
  by (simp add: fresh_run_id_def sample_request_def)

text \<open>
  Only the desktop app's origin and loopback origins get CORS headers: the origin predicate accepts
  exactly \<open>http://localhost\<close> and \<open>http://127.0.0.1\<close> with no port, an empty one or a decimal one, and a
  response carries CORS headers only for an accepted origin, which it echoes.
\<close>

theorem cors_only_local_origins:
  "(is_loopback_dev_origin origin \<longleftrightarrow>
     (\<exists>host port. (host = ''localhost'' \<or> host = ''127.0.0.1'') \<and> list_all is_ascii_digit port \<and>
        (origin = ''http://'' @ host \<or> origin = ''http://'' @ host @ '':'' @ port))) \<and>
   (\<forall>res d'. router hash auth_token c gen req d = (Some res, d') \<longrightarrow>
      res_headers res = [] \<or>
      (\<exists>o'. request_origin req = Some o' \<and> map_of (res_headers res) allow_origin = Some o' \<and>
         (o' = ''tauri://localhost'' \<or> is_loopback_dev_origin o')))"
proof -
  have stamped: "res_headers (stamp_cors og r) = [] \<or>
      (\<exists>o'. og = Some o' \<and> map_of (res_headers (stamp_cors og r)) allow_origin = Some o' \<and>
         (o' = ''tauri://localhost'' \<or> is_loopback_dev_origin o'))" if "res_headers r = []" for og r
    unfolding stamp_cors_headers [OF that]
    by (auto simp: cors_headers_for_def header_from_str_def allowed_origins_def allow_origin_def bind_eq_Some_conv
        split: option.splits if_splits)
  have plain: "res_headers r = []" if "into_response (dispatch hash c gen req d) = (Some r, d')" for r d'
    using that
    by (auto simp: into_response_def dispatch_def response_of_def api_error_into_response_def
        post_mutations_def Let_def get_workspace_def get_workspace_runs_def get_workspace_worktrees_def
        post_create_run_def get_run_def post_transition_def post_tokens_def post_provision_def
        post_validate_op_def post_acquire_lease_def post_renew_lease_def post_append_evidence_def
        get_list_evidence_def
        split: call.splits sum.splits option.splits prod.splits handler_result.splits
          saga_error.splits binding_error.splits)
  show ?thesis
    unfolding loopback_iff [symmetric]
  proof (intro conjI allI impI)
    fix res d'
    assume "router hash auth_token c gen req d = (Some res, d')"
    then obtain r where "res = stamp_cors (request_origin req) r" "res_headers r = []"
      using plain
      by (auto simp: router_def cors_def Let_def require_bearer_eq response_of_def
          api_error_into_response_def split: if_splits prod.splits option.splits)
    with stamped [of r "request_origin req"] show "res_headers res = [] \<or>
      (\<exists>o'. request_origin req = Some o' \<and> map_of (res_headers res) allow_origin = Some o' \<and>
         (o' = ''tauri://localhost'' \<or> is_loopback_dev_origin o'))"
      by simp
  qed simp
qed

lemma sample_origin_loopback: "is_loopback_dev_origin ''http://localhost:1420''"
  by code_simp

theorem cors_only_local_origins_witness:
  "\<exists>res. router sample_hash ''secret'' sample_clock of_nat (sample_request None (GetRun 1)) empty_db = (Some res, empty_db) \<and>
     map_of (res_headers res) allow_origin = Some ''http://localhost:1420''"
proof -
  let ?req = "sample_request None (GetRun 1)"
  let ?out = "router sample_hash ''secret'' sample_clock of_nat ?req empty_db"
  have out: "?out = (Some (stamp_cors (request_origin ?req) (api_error_into_response unauthorized)), empty_db)"
    by (simp add: router_def cors_def Let_def require_bearer_eq presented_token_def sample_request_def)
  have og: "request_origin ?req = Some ''http://localhost:1420''"
    by code_simp
  have "res_headers (stamp_cors (request_origin ?req) (api_error_into_response unauthorized)) \<noteq> []"
    by code_simp
  with cors_only_local_origins [of _ sample_hash "''secret''" sample_clock of_nat ?req empty_db] out og
  show ?thesis
    by auto
qed

end
