(* ===== verification/Nostr_Filter.thy ===== *)
theory Nostr_Filter
  imports Prelude "HOL-Library.Sublist"
begin

text \<open>
  \<open>crates/buzz-core/src/filter.rs\<close> with the data it reads: the relay's stored events
  (\<open>crates/buzz-core/src/event.rs\<close>) and what the matcher uses of the Nostr library's events, tags and
  filters. A tag is its list of strings; its kind is the first and its content the second. The
  text form of a channel id (\<open>Uuid::to_string\<close>, library code) is the parameter \<open>uuid_str\<close>.
\<close>

section \<open>Definitions\<close>

type_synonym kind = "16 word"
type_synonym event_id = "8 word list"
type_synonym tag = "string list"

record nostr_event =
  ev_id :: event_id
  ev_pubkey :: string
  ev_created_at :: nat
  ev_kind :: kind
  ev_tags :: "tag list"

record stored_event =
  se_event :: nostr_event
  se_received_at :: timestamp
  se_channel_id :: "uuid option"
  se_verified :: bool

definition stored_event_new :: "timestamp \<Rightarrow> nostr_event \<Rightarrow> uuid option \<Rightarrow> stored_event" where
  "stored_event_new now event channel_id =
    \<lparr>se_event = event, se_received_at = now, se_channel_id = channel_id, se_verified = False\<rparr>"

definition with_received_at :: "nostr_event \<Rightarrow> timestamp \<Rightarrow> uuid option \<Rightarrow> bool \<Rightarrow> stored_event" where
  "with_received_at event received_at channel_id verified =
    \<lparr>se_event = event, se_received_at = received_at, se_channel_id = channel_id, se_verified = verified\<rparr>"

record nostr_filter =
  f_ids :: "event_id list option"
  f_authors :: "string list option"
  f_kinds :: "kind list option"
  f_since :: "nat option"
  f_until :: "nat option"
  f_generic_tags :: "(string \<times> string list) list"

definition tag_kind :: "tag \<Rightarrow> string" where
  "tag_kind t = (case t of [] \<Rightarrow> [] | k # _ \<Rightarrow> k)"

definition tag_content :: "tag \<Rightarrow> string option" where
  "tag_content t = (case t of _ # v # _ \<Rightarrow> Some v | _ \<Rightarrow> None)"

definition hex_digit :: "nat \<Rightarrow> char" where
  "hex_digit n = (''0123456789abcdef'') ! n"

definition to_hex :: "event_id \<Rightarrow> string" where
  "to_hex bs = concat (map (\<lambda>b. [hex_digit (unat b div 16), hex_digit (unat b mod 16)]) bs)"

definition tag_values_of :: "string \<Rightarrow> nostr_event \<Rightarrow> string list" where
  "tag_values_of key ev = List.map_filter tag_content (filter (\<lambda>t. tag_kind t = key) (ev_tags ev))"

text \<open>The body of the loop over the generic tags: \<open>True\<close> where the source goes on.\<close>

definition generic_tag_ok :: "(uuid \<Rightarrow> string) \<Rightarrow> stored_event \<Rightarrow> string \<times> string list \<Rightarrow> bool" where
  "generic_tag_ok uuid_str ev kv =
    (case kv of (tag_key, tag_values) \<Rightarrow>
       let has_match = list_ex (\<lambda>filter_val. list_ex (\<lambda>event_val. event_val = filter_val)
             (tag_values_of tag_key (se_event ev))) tag_values
       in if \<not> has_match \<and> tag_key = ''h'' then
            let event_has_h_tags = list_ex (\<lambda>t. tag_kind t = ''h'') (ev_tags (se_event ev))
            in if \<not> event_has_h_tags then
                 (case se_channel_id ev of
                    Some ch_id \<Rightarrow> list_ex (\<lambda>v. v = uuid_str ch_id) tag_values
                  | None \<Rightarrow> False)
               else False
          else if \<not> has_match then False
          else True)"

definition filter_match_one :: "(uuid \<Rightarrow> string) \<Rightarrow> nostr_filter \<Rightarrow> stored_event \<Rightarrow> bool" where
  "filter_match_one uuid_str f ev =
    (if (case f_kinds f of Some kinds \<Rightarrow> ev_kind (se_event ev) \<notin> set kinds | None \<Rightarrow> False) then False
     else if (case f_authors f of Some authors \<Rightarrow> ev_pubkey (se_event ev) \<notin> set authors | None \<Rightarrow> False) then False
     else if (case f_since f of Some since \<Rightarrow> ev_created_at (se_event ev) < since | None \<Rightarrow> False) then False
     else if (case f_until f of Some until \<Rightarrow> ev_created_at (se_event ev) > until | None \<Rightarrow> False) then False
     else if (case f_ids f of
         Some ids \<Rightarrow> \<not> list_ex (\<lambda>i. prefix (to_hex i) (to_hex (ev_id (se_event ev)))) ids
       | None \<Rightarrow> False) then False
     else list_all (generic_tag_ok uuid_str ev) (f_generic_tags f))"

definition filters_match :: "(uuid \<Rightarrow> string) \<Rightarrow> nostr_filter list \<Rightarrow> stored_event \<Rightarrow> bool" where
  "filters_match uuid_str filters event = list_ex (\<lambda>f. filter_match_one uuid_str f event) filters"

definition kind_dm_visibility :: nat where
  "kind_dm_visibility = 30622"

definition kind_agent_turn_metric :: nat where
  "kind_agent_turn_metric = 44200"

definition event_kind_u32 :: "nostr_event \<Rightarrow> nat" where
  "event_kind_u32 event = unat (ev_kind event)"

definition reader_authorized_for_event :: "nostr_event \<Rightarrow> string \<Rightarrow> bool" where
  "reader_authorized_for_event event reader_pubkey_hex =
    (let kind = event_kind_u32 event
     in if kind \<noteq> kind_dm_visibility \<and> kind \<noteq> kind_agent_turn_metric then True
        else list_ex (\<lambda>t. tag_content t = Some reader_pubkey_hex)
               (filter (\<lambda>t. tag_kind t = ''p'') (ev_tags event)))"

section \<open>Lemmas\<close>

lemma hex_digit_inject:
  assumes "m < 16" and "n < 16" and "hex_digit m = hex_digit n"
  shows "m = n"
proof -
  have "distinct ''0123456789abcdef''" and "length ''0123456789abcdef'' = 16"
    by simp_all
  with assms show ?thesis
    unfolding hex_digit_def by (metis nth_eq_iff_index_eq)
qed

lemma to_hex_Cons [simp]:
  "to_hex (b # bs) = hex_digit (unat b div 16) # hex_digit (unat b mod 16) # to_hex bs"
  by (simp add: to_hex_def)

lemma to_hex_Nil [simp]: "to_hex [] = []"
  by (simp add: to_hex_def)

lemma to_hex_prefix_iff: "prefix (to_hex xs) (to_hex ys) \<longleftrightarrow> prefix xs ys"
proof (induction xs arbitrary: ys)
  case (Cons x xs)
  show ?case
  proof (cases ys)
    case (Cons y zs)
    have "hex_digit (unat x div 16) = hex_digit (unat y div 16) \<and>
        hex_digit (unat x mod 16) = hex_digit (unat y mod 16) \<longleftrightarrow> x = y"
    proof
      assume eq: "hex_digit (unat x div 16) = hex_digit (unat y div 16) \<and>
        hex_digit (unat x mod 16) = hex_digit (unat y mod 16)"
      have "unat x div 16 = unat y div 16"
        using eq unat_byte_less [of x] unat_byte_less [of y] by (intro hex_digit_inject) auto
      moreover have "unat x mod 16 = unat y mod 16"
        using eq by (intro hex_digit_inject) auto
      ultimately have "unat x = unat y"
        by (metis div_mult_mod_eq)
      then show "x = y"
        by (rule unsigned_word_eqI)
    qed simp
    with Cons.IH [of zs] Cons show ?thesis
      by auto
  qed simp
qed simp

lemma prefix_same_length: "length xs = length ys \<Longrightarrow> prefix xs ys \<longleftrightarrow> xs = ys"
  by (auto simp: prefix_def)

lemma tag_values_of_iff:
  "v \<in> set (tag_values_of key ev) \<longleftrightarrow> (\<exists>t \<in> set (ev_tags ev). tag_kind t = key \<and> tag_content t = Some v)"
  by (force simp: tag_values_of_def map_filter_def)

lemma filter_match_kind:
  "filter_match_one uuid_str f ev \<Longrightarrow> f_kinds f = Some ks \<Longrightarrow> ev_kind (se_event ev) \<in> set ks"
  by (auto simp: filter_match_one_def split: if_splits)

lemma filter_match_tag:
  assumes "filter_match_one uuid_str f ev" and "(key, vs) \<in> set (f_generic_tags f)" and "key \<noteq> ''h''"
  shows "\<exists>v \<in> set vs. v \<in> set (tag_values_of key (se_event ev))"
proof -
  have "generic_tag_ok uuid_str ev (key, vs)"
    using assms(1,2) by (auto simp: filter_match_one_def list_all_iff split: if_splits)
  with assms(3) show ?thesis
    by (auto simp: generic_tag_ok_def Let_def list_ex_iff split: if_splits)
qed

section \<open>Properties\<close>

text \<open>
  Filter matching is the conjunction of the filter's conditions: for events and filters with full
  32-byte ids, an event matches a filter exactly when its kind and author are listed, its time is in
  the range, its id is one of the ids (the prefix test on hex text is equality), and for every tag
  key one of the values occurs as the content of such a tag of the event, or, for \<open>h\<close> on an event
  without any \<open>h\<close> tag, the event's channel is one of the values.
\<close>

theorem filter_match_spec:
  assumes "length (ev_id (se_event ev)) = 32"
    and "\<And>ids i. f_ids f = Some ids \<Longrightarrow> i \<in> set ids \<Longrightarrow> length i = 32"
  shows "filter_match_one uuid_str f ev \<longleftrightarrow>
    (\<forall>ks. f_kinds f = Some ks \<longrightarrow> ev_kind (se_event ev) \<in> set ks) \<and>
    (\<forall>as. f_authors f = Some as \<longrightarrow> ev_pubkey (se_event ev) \<in> set as) \<and>
    (\<forall>t. f_since f = Some t \<longrightarrow> t \<le> ev_created_at (se_event ev)) \<and>
    (\<forall>t. f_until f = Some t \<longrightarrow> ev_created_at (se_event ev) \<le> t) \<and>
    (\<forall>ids. f_ids f = Some ids \<longrightarrow> ev_id (se_event ev) \<in> set ids) \<and>
    (\<forall>(key, vs) \<in> set (f_generic_tags f).
       (\<exists>v \<in> set vs. \<exists>t \<in> set (ev_tags (se_event ev)). tag_kind t = key \<and> tag_content t = Some v) \<or>
       key = ''h'' \<and> (\<forall>t \<in> set (ev_tags (se_event ev)). tag_kind t \<noteq> ''h'') \<and>
         (\<exists>ch. se_channel_id ev = Some ch \<and> uuid_str ch \<in> set vs))"
proof -
  have ids: "list_ex (\<lambda>i. prefix (to_hex i) (to_hex (ev_id (se_event ev)))) ids \<longleftrightarrow> ev_id (se_event ev) \<in> set ids"
    if "f_ids f = Some ids" for ids
    using assms that prefix_same_length by (fastforce simp: to_hex_prefix_iff list_ex_iff)
  have tags: "generic_tag_ok uuid_str ev (key, vs) \<longleftrightarrow>
      (\<exists>v \<in> set vs. v \<in> set (tag_values_of key (se_event ev))) \<or>
      key = ''h'' \<and> (\<forall>t \<in> set (ev_tags (se_event ev)). tag_kind t \<noteq> ''h'') \<and>
        (\<exists>ch. se_channel_id ev = Some ch \<and> uuid_str ch \<in> set vs)" for key vs
    by (auto simp: generic_tag_ok_def Let_def list_ex_iff split: option.splits)
  have "(case f_ids f of Some ids \<Rightarrow> \<not> list_ex (\<lambda>i. prefix (to_hex i) (to_hex (ev_id (se_event ev)))) ids | None \<Rightarrow> False)
      \<longleftrightarrow> \<not> (\<forall>ids. f_ids f = Some ids \<longrightarrow> ev_id (se_event ev) \<in> set ids)"
    using ids by (cases "f_ids f") simp_all
  moreover have "list_all (generic_tag_ok uuid_str ev) (f_generic_tags f) \<longleftrightarrow>
      (\<forall>(key, vs) \<in> set (f_generic_tags f).
       (\<exists>v \<in> set vs. \<exists>t \<in> set (ev_tags (se_event ev)). tag_kind t = key \<and> tag_content t = Some v) \<or>
       key = ''h'' \<and> (\<forall>t \<in> set (ev_tags (se_event ev)). tag_kind t \<noteq> ''h'') \<and>
         (\<exists>ch. se_channel_id ev = Some ch \<and> uuid_str ch \<in> set vs))"
    unfolding list_all_iff using tags [unfolded tag_values_of_iff] by (intro ball_cong) auto
  moreover have "(case f_kinds f of Some ks \<Rightarrow> ev_kind (se_event ev) \<notin> set ks | None \<Rightarrow> False) \<longleftrightarrow>
      \<not> (\<forall>ks. f_kinds f = Some ks \<longrightarrow> ev_kind (se_event ev) \<in> set ks)"
    by (cases "f_kinds f") simp_all
  moreover have "(case f_authors f of Some as \<Rightarrow> ev_pubkey (se_event ev) \<notin> set as | None \<Rightarrow> False) \<longleftrightarrow>
      \<not> (\<forall>as. f_authors f = Some as \<longrightarrow> ev_pubkey (se_event ev) \<in> set as)"
    by (cases "f_authors f") simp_all
  moreover have "(case f_since f of Some t \<Rightarrow> ev_created_at (se_event ev) < t | None \<Rightarrow> False) \<longleftrightarrow>
      \<not> (\<forall>t. f_since f = Some t \<longrightarrow> t \<le> ev_created_at (se_event ev))"
    by (cases "f_since f") (simp_all add: not_le)
  moreover have "(case f_until f of Some t \<Rightarrow> ev_created_at (se_event ev) > t | None \<Rightarrow> False) \<longleftrightarrow>
      \<not> (\<forall>t. f_until f = Some t \<longrightarrow> ev_created_at (se_event ev) \<le> t)"
    by (cases "f_until f") (simp_all add: not_le)
  ultimately show ?thesis
    unfolding filter_match_one_def by argo
qed

definition sample_event :: stored_event where
  "sample_event = \<lparr>se_event = \<lparr>ev_id = replicate 32 1, ev_pubkey = ''alice'', ev_created_at = 50, ev_kind = 7,
     ev_tags = [[''e'', ''target'']]\<rparr>, se_received_at = 0, se_channel_id = Some 4, se_verified = True\<rparr>"

definition sample_filter :: nostr_filter where
  "sample_filter = \<lparr>f_ids = None, f_authors = None, f_kinds = Some [7], f_since = None, f_until = None,
     f_generic_tags = [(''h'', [''channel-4''])]\<rparr>"

theorem filter_match_spec_witness:
  "filter_match_one (\<lambda>_. ''channel-4'') sample_filter sample_event"
  using filter_match_spec [of sample_event sample_filter "\<lambda>_. ''channel-4''"]
  by (simp add: sample_event_def sample_filter_def tag_kind_def)

end
