(* ===== verification/Subscription.thy ===== *)
theory Subscription
  imports Nostr_Filter
begin

text \<open>
  \<open>crates/buzz-relay/src/subscription.rs\<close>: the registry of live subscriptions and its five inverted
  indexes. A hash map is an association list with distinct keys, walked in list order; no theorem
  depends on that order. An operation is one step; the fan-out reads its candidate lists first and
  the entries later, so the matching of a candidate against the registry is a definition of its
  own that works for candidates from an older state. Metrics are left out.
\<close>

section \<open>Definitions\<close>

type_synonym conn_id = uuid
type_synonym sub_id = string
type_synonym community_id = uuid
type_synonym sub_entry = "nostr_filter list \<times> community_id \<times> uuid option"
type_synonym posting = "conn_id \<times> sub_id"
type_synonym 'k index = "('k \<times> posting list) list"

record index_key =
  ik_channel_id :: uuid
  ik_kind :: kind

record global_p_kind_index_key =
  gk_community_id :: community_id
  gk_kind :: kind
  gk_p :: string

record removed_subscription =
  rm_community_id :: community_id
  rm_channel_id :: "uuid option"

record subscription_registry =
  subs :: "(conn_id \<times> (sub_id \<times> sub_entry) list) list"
  channel_kind_index :: "(community_id \<times> index_key) index"
  channel_wildcard_index :: "(community_id \<times> uuid) index"
  global_kind_index :: "(community_id \<times> kind) index"
  global_p_kind_index :: "global_p_kind_index_key index"
  global_wildcard_index :: "community_id index"

definition registry_new :: subscription_registry where
  "registry_new = \<lparr>subs = [], channel_kind_index = [], channel_wildcard_index = [],
     global_kind_index = [], global_p_kind_index = [], global_wildcard_index = []\<rparr>"

text \<open>\<open>entry(key).or_default().push(x)\<close>, and the removal of one posting with its empty list.\<close>

definition postings :: "'k index \<Rightarrow> 'k \<Rightarrow> posting list" where
  "postings idx k = (case map_of idx k of Some es \<Rightarrow> es | None \<Rightarrow> [])"

definition index_push :: "'k \<Rightarrow> posting \<Rightarrow> 'k index \<Rightarrow> 'k index" where
  "index_push k x idx = AList.update k (postings idx k @ [x]) idx"

definition index_retain :: "'k \<Rightarrow> posting \<Rightarrow> 'k index \<Rightarrow> 'k index" where
  "index_retain k x idx =
    (case map_of idx k of
       None \<Rightarrow> idx
     | Some es \<Rightarrow>
         let es' = filter (\<lambda>y. y \<noteq> x) es
         in if es' = [] then AList.delete k idx else AList.update k es' idx)"

text \<open>The deduplicating loops: \<open>seen\<close> holds what was pushed already.\<close>

definition push_new :: "'a \<Rightarrow> 'a list \<Rightarrow> 'a list" where
  "push_new x xs = (if x \<in> set xs then xs else xs @ [x])"

fun extract_kinds_loop :: "nostr_filter list \<Rightarrow> kind list \<Rightarrow> kind list option" where
  "extract_kinds_loop [] kinds = Some kinds"
| "extract_kinds_loop (f # fs) kinds =
    (case f_kinds f of
       Some filter_kinds \<Rightarrow> extract_kinds_loop fs (foldl (\<lambda>acc k. push_new k acc) kinds filter_kinds)
     | None \<Rightarrow> None)"

definition extract_kinds_from_filters :: "nostr_filter list \<Rightarrow> kind list option" where
  "extract_kinds_from_filters filters = extract_kinds_loop filters []"

fun extract_p_loop ::
  "community_id \<Rightarrow> nostr_filter list \<Rightarrow> global_p_kind_index_key list \<Rightarrow> global_p_kind_index_key list option" where
  "extract_p_loop community [] keys = Some keys"
| "extract_p_loop community (f # fs) keys =
    (case f_kinds f of
       None \<Rightarrow> None
     | Some kinds \<Rightarrow>
         if kinds = [] then extract_p_loop community fs keys
         else (case map_of (f_generic_tags f) ''p'' of
             None \<Rightarrow> None
           | Some p_values \<Rightarrow>
               if p_values = [] then None
               else extract_p_loop community fs
                 (foldl (\<lambda>acc kind. foldl (\<lambda>acc p. push_new
                      \<lparr>gk_community_id = community, gk_kind = kind, gk_p = p\<rparr> acc) acc p_values)
                   keys kinds)))"

definition extract_global_p_kind_index_keys ::
  "community_id \<Rightarrow> nostr_filter list \<Rightarrow> global_p_kind_index_key list option" where
  "extract_global_p_kind_index_keys community filters = extract_p_loop community filters []"

definition event_p_tag_values :: "stored_event \<Rightarrow> string list" where
  "event_p_tag_values event = foldl (\<lambda>values t.
     if tag_kind t \<noteq> ''p'' then values
     else (case tag_content t of Some v \<Rightarrow> push_new v values | None \<Rightarrow> values)) [] (ev_tags (se_event event))"

definition add_to_index ::
  "conn_id \<Rightarrow> sub_id \<Rightarrow> nostr_filter list \<Rightarrow> community_id \<Rightarrow> uuid option \<Rightarrow> subscription_registry \<Rightarrow> subscription_registry" where
  "add_to_index conn sub filters community channel reg =
    (case channel of
       Some ch \<Rightarrow>
         (case extract_kinds_from_filters filters of
            None \<Rightarrow> reg\<lparr>channel_wildcard_index :=
              index_push (community, ch) (conn, sub) (channel_wildcard_index reg)\<rparr>
          | Some kinds \<Rightarrow>
              if kinds = [] then reg
              else reg\<lparr>channel_kind_index := foldl (\<lambda>idx kind. index_push
                (community, \<lparr>ik_channel_id = ch, ik_kind = kind\<rparr>) (conn, sub) idx) (channel_kind_index reg) kinds\<rparr>)
     | None \<Rightarrow>
         (case extract_global_p_kind_index_keys community filters of
            Some keys \<Rightarrow> reg\<lparr>global_p_kind_index :=
              foldl (\<lambda>idx key. index_push key (conn, sub) idx) (global_p_kind_index reg) keys\<rparr>
          | None \<Rightarrow>
              (case extract_kinds_from_filters filters of
                 None \<Rightarrow> reg\<lparr>global_wildcard_index :=
                   index_push community (conn, sub) (global_wildcard_index reg)\<rparr>
               | Some kinds \<Rightarrow>
                   if kinds = [] then reg
                   else reg\<lparr>global_kind_index := foldl (\<lambda>idx kind. index_push
                     (community, kind) (conn, sub) idx) (global_kind_index reg) kinds\<rparr>)))"

definition remove_from_index ::
  "conn_id \<Rightarrow> sub_id \<Rightarrow> nostr_filter list \<Rightarrow> community_id \<Rightarrow> uuid option \<Rightarrow> subscription_registry \<Rightarrow> subscription_registry" where
  "remove_from_index conn sub filters community channel reg =
    (case channel of
       Some ch \<Rightarrow>
         (case extract_kinds_from_filters filters of
            None \<Rightarrow> reg\<lparr>channel_wildcard_index :=
              index_retain (community, ch) (conn, sub) (channel_wildcard_index reg)\<rparr>
          | Some kinds \<Rightarrow>
              if kinds = [] then reg
              else reg\<lparr>channel_kind_index := foldl (\<lambda>idx kind. index_retain
                (community, \<lparr>ik_channel_id = ch, ik_kind = kind\<rparr>) (conn, sub) idx) (channel_kind_index reg) kinds\<rparr>)
     | None \<Rightarrow>
         (case extract_global_p_kind_index_keys community filters of
            Some keys \<Rightarrow> reg\<lparr>global_p_kind_index :=
              foldl (\<lambda>idx key. index_retain key (conn, sub) idx) (global_p_kind_index reg) keys\<rparr>
          | None \<Rightarrow>
              (case extract_kinds_from_filters filters of
                 None \<Rightarrow> reg\<lparr>global_wildcard_index :=
                   index_retain community (conn, sub) (global_wildcard_index reg)\<rparr>
               | Some kinds \<Rightarrow>
                   if kinds = [] then reg
                   else reg\<lparr>global_kind_index := foldl (\<lambda>idx kind. index_retain
                     (community, kind) (conn, sub) idx) (global_kind_index reg) kinds\<rparr>)))"

definition remove_subscription ::
  "conn_id \<Rightarrow> sub_id \<Rightarrow> subscription_registry \<Rightarrow> removed_subscription option \<times> subscription_registry" where
  "remove_subscription conn sub reg =
    (case map_of (subs reg) conn of
       None \<Rightarrow> (None, reg)
     | Some conn_subs \<Rightarrow>
         (case map_of conn_subs sub of
            None \<Rightarrow> (None, reg)
          | Some (filters, community, channel) \<Rightarrow>
              (Some \<lparr>rm_community_id = community, rm_channel_id = channel\<rparr>,
               remove_from_index conn sub filters community channel
                 (reg\<lparr>subs := AList.update conn (AList.delete sub conn_subs) (subs reg)\<rparr>))))"

definition register_scoped ::
  "community_id \<Rightarrow> conn_id \<Rightarrow> sub_id \<Rightarrow> nostr_filter list \<Rightarrow> uuid option \<Rightarrow> subscription_registry
    \<Rightarrow> removed_subscription option \<times> subscription_registry" where
  "register_scoped community conn sub filters channel reg =
    (case remove_subscription conn sub reg of
       (removed, reg1) \<Rightarrow>
         let conn_subs = (case map_of (subs reg1) conn of Some m \<Rightarrow> m | None \<Rightarrow> [])
         in (removed, add_to_index conn sub filters community channel
              (reg1\<lparr>subs := AList.update conn (AList.update sub (filters, community, channel) conn_subs) (subs reg1)\<rparr>)))"

definition remove_connection ::
  "conn_id \<Rightarrow> subscription_registry \<Rightarrow> removed_subscription list \<times> subscription_registry" where
  "remove_connection conn reg =
    (case map_of (subs reg) conn of
       None \<Rightarrow> ([], reg)
     | Some conn_subs \<Rightarrow>
         foldl (\<lambda>(removed, r) (sub, (filters, community, channel)).
             (removed @ [\<lparr>rm_community_id = community, rm_channel_id = channel\<rparr>],
              remove_from_index conn sub filters community channel r))
           ([], reg\<lparr>subs := AList.delete conn (subs reg)\<rparr>) conn_subs)"

fun remove_each ::
  "conn_id \<Rightarrow> sub_id list \<Rightarrow> subscription_registry \<Rightarrow> (sub_id \<times> removed_subscription) list \<times> subscription_registry" where
  "remove_each conn [] reg = ([], reg)"
| "remove_each conn (sub # rest) reg =
    (case remove_subscription conn sub reg of
       (None, reg1) \<Rightarrow> remove_each conn rest reg1
     | (Some removed, reg1) \<Rightarrow>
         (case remove_each conn rest reg1 of (out, reg2) \<Rightarrow> ((sub, removed) # out, reg2)))"

definition remove_channel_subscriptions_scoped ::
  "community_id \<Rightarrow> conn_id \<Rightarrow> uuid \<Rightarrow> subscription_registry
    \<Rightarrow> (sub_id \<times> removed_subscription) list \<times> subscription_registry" where
  "remove_channel_subscriptions_scoped community conn channel reg =
    (let conn_subs = (case map_of (subs reg) conn of Some m \<Rightarrow> m | None \<Rightarrow> []);
         sub_ids = map fst (filter (\<lambda>(_, (_, c, ch)). c = community \<and> ch = Some channel) conn_subs)
     in remove_each conn sub_ids reg)"

definition channel_subscriber_conns_scoped ::
  "community_id \<Rightarrow> uuid \<Rightarrow> subscription_registry \<Rightarrow> conn_id list" where
  "channel_subscriber_conns_scoped community channel reg =
    remdups
      (concat (map (\<lambda>((c, key), es). if c = community \<and> ik_channel_id key = channel then map fst es else [])
         (channel_kind_index reg)) @
       map fst (postings (channel_wildcard_index reg) (community, channel)))"

definition push_match ::
  "(uuid \<Rightarrow> string) \<Rightarrow> subscription_registry \<Rightarrow> community_id \<Rightarrow> stored_event
    \<Rightarrow> posting list \<times> posting set \<Rightarrow> posting \<Rightarrow> posting list \<times> posting set" where
  "push_match uuid_str reg community event acc x =
    (case Option.bind (map_of (subs reg) (fst x)) (\<lambda>m. map_of m (snd x)) of
       Some (filters, sub_community, sub_channel) \<Rightarrow>
         if sub_community = community \<and> sub_channel = se_channel_id event \<and> filters_match uuid_str filters event
         then (if x \<in> snd acc then acc else (fst acc @ [x], insert x (snd acc)))
         else acc
     | None \<Rightarrow> acc)"

text \<open>The candidate lists the fan-out reads, in the order it reads them.\<close>

definition candidates :: "community_id \<Rightarrow> stored_event \<Rightarrow> subscription_registry \<Rightarrow> posting list" where
  "candidates community event reg =
    (case se_channel_id event of
       Some channel \<Rightarrow>
         postings (channel_kind_index reg)
           (community, \<lparr>ik_channel_id = channel, ik_kind = ev_kind (se_event event)\<rparr>) @
         postings (channel_wildcard_index reg) (community, channel)
     | None \<Rightarrow>
         concat (map (\<lambda>p. postings (global_p_kind_index reg)
             \<lparr>gk_community_id = community, gk_kind = ev_kind (se_event event), gk_p = p\<rparr>)
           (event_p_tag_values event)) @
         postings (global_kind_index reg) (community, ev_kind (se_event event)) @
         postings (global_wildcard_index reg) community)"

definition match_candidates ::
  "(uuid \<Rightarrow> string) \<Rightarrow> subscription_registry \<Rightarrow> community_id \<Rightarrow> stored_event \<Rightarrow> posting list \<Rightarrow> posting list" where
  "match_candidates uuid_str reg community event xs =
    fst (foldl (push_match uuid_str reg community event) ([], {}) xs)"

definition fan_out_scoped ::
  "(uuid \<Rightarrow> string) \<Rightarrow> community_id \<Rightarrow> stored_event \<Rightarrow> subscription_registry \<Rightarrow> posting list" where
  "fan_out_scoped uuid_str community event reg =
    match_candidates uuid_str reg community event (candidates community event reg)"

definition get_filters :: "conn_id \<Rightarrow> sub_id \<Rightarrow> subscription_registry \<Rightarrow> nostr_filter list option" where
  "get_filters conn sub reg = Option.bind (map_of (subs reg) conn) (\<lambda>m. map_option fst (map_of m sub))"

definition total_subscriptions :: "subscription_registry \<Rightarrow> nat" where
  "total_subscriptions reg = sum_list (map (\<lambda>e. length (snd e)) (subs reg))"

definition total_connections :: "subscription_registry \<Rightarrow> nat" where
  "total_connections reg = length (subs reg)"

definition count_community :: "community_id \<Rightarrow> (community_id \<times> nat) list \<Rightarrow> (community_id \<times> nat) list" where
  "count_community c counts =
    AList.update c ((case map_of counts c of Some n \<Rightarrow> n | None \<Rightarrow> 0) + 1) counts"

definition per_community_subscriptions :: "subscription_registry \<Rightarrow> (community_id \<times> nat) list" where
  "per_community_subscriptions reg =
    foldl (\<lambda>counts conn_entry. foldl (\<lambda>counts (_, (_, community, _)). count_community community counts)
        counts (snd conn_entry)) [] (subs reg)"

section \<open>Indexes\<close>

text \<open>
  \<open>indexes get keys ent\<close>: the list under a key holds exactly the subscriptions one of whose keys it
  is, each once.
\<close>

definition indexes :: "('k \<Rightarrow> 'x list) \<Rightarrow> ('e \<Rightarrow> 'k list) \<Rightarrow> ('x \<Rightarrow> 'e option) \<Rightarrow> bool" where
  "indexes get keys ent \<longleftrightarrow>
    (\<forall>k x. x \<in> set (get k) \<longleftrightarrow> (\<exists>e. ent x = Some e \<and> k \<in> set (keys e))) \<and> (\<forall>k. distinct (get k))"

text \<open>
  What the registry relies on of an inverted index: posting and unposting change the list of one key
  only. The lemmas are about posting one subscription under all of its keys.
\<close>

locale posting_index =
  fixes post :: "'k \<Rightarrow> 'x \<Rightarrow> 'i \<Rightarrow> 'i"
    and unpost :: "'k \<Rightarrow> 'x \<Rightarrow> 'i \<Rightarrow> 'i"
    and under :: "'i \<Rightarrow> 'k \<Rightarrow> 'x list"
  assumes under_post: "under (post k x i) k' = under i k' @ (if k' = k then [x] else [])"
    and under_unpost: "under (unpost k x i) k' = (if k' = k then filter (\<lambda>y. y \<noteq> x) (under i k') else under i k')"
begin

lemma under_post_all:
  "distinct ks \<Longrightarrow> under (foldl (\<lambda>i k. post k x i) i ks) k' = under i k' @ (if k' \<in> set ks then [x] else [])"
  by (induction ks arbitrary: i) (auto simp: under_post)

lemma under_unpost_all:
  "under (foldl (\<lambda>i k. unpost k x i) i ks) k' =
    (if k' \<in> set ks then filter (\<lambda>y. y \<noteq> x) (under i k') else under i k')"
  by (induction ks arbitrary: i) (auto simp: under_unpost)

lemma indexes_add:
  assumes "indexes (under idx) keys ent" and "ent x = None" and "distinct (keys e)"
  shows "indexes (under (foldl (\<lambda>i k. post k x i) idx (keys e))) keys (ent(x \<mapsto> e))"
proof -
  have old: "y \<in> set (under idx k) \<longleftrightarrow> (\<exists>e. ent y = Some e \<and> k \<in> set (keys e))"
    and dist: "distinct (under idx k)" for y k
    using assms(1) by (simp_all add: indexes_def)
  have new: "x \<notin> set (under idx k)" for k
    using assms(2) by (simp add: old)
  show ?thesis
    unfolding indexes_def under_post_all [OF assms(3)]
  proof (intro conjI allI)
    show "y \<in> set (under idx k @ (if k \<in> set (keys e) then [x] else [])) \<longleftrightarrow>
        (\<exists>e'. (ent(x \<mapsto> e)) y = Some e' \<and> k \<in> set (keys e'))" for k y
    proof (cases "y = x")
      case True
      then have "(\<exists>e'. (ent(x \<mapsto> e)) y = Some e' \<and> k \<in> set (keys e')) \<longleftrightarrow> k \<in> set (keys e)"
        by (metis fun_upd_same option.inject)
      with True new [of k] show ?thesis
        by (cases "k \<in> set (keys e)") simp_all
    next
      case False
      then have "(\<exists>e'. (ent(x \<mapsto> e)) y = Some e' \<and> k \<in> set (keys e')) \<longleftrightarrow> y \<in> set (under idx k)"
        unfolding old by (metis fun_upd_other)
      with False show ?thesis
        by (cases "k \<in> set (keys e)") simp_all
    qed
    show "distinct (under idx k @ (if k \<in> set (keys e) then [x] else []))" for k
      using dist [of k] new [of k] by (cases "k \<in> set (keys e)") simp_all
  qed
qed

lemma indexes_remove:
  assumes "indexes (under idx) keys ent" and "ent x = Some e"
  shows "indexes (under (foldl (\<lambda>i k. unpost k x i) idx (keys e))) keys (ent(x := None))"
proof -
  have old: "y \<in> set (under idx k) \<longleftrightarrow> (\<exists>e. ent y = Some e \<and> k \<in> set (keys e))"
    and dist: "distinct (under idx k)" for y k
    using assms(1) by (simp_all add: indexes_def)
  show ?thesis
    unfolding indexes_def under_unpost_all
  proof (intro conjI allI)
    show "y \<in> set (if k \<in> set (keys e) then filter (\<lambda>y. y \<noteq> x) (under idx k) else under idx k) \<longleftrightarrow>
        (\<exists>e'. (ent(x := None)) y = Some e' \<and> k \<in> set (keys e'))" for k y
      using old [of y k] assms(2) by (cases "y = x") simp_all
  qed (simp add: dist)
qed

end

interpretation alist_index: posting_index index_push index_retain postings
proof unfold_locales
  fix k k' :: 'k and x and i :: "'k index"
  show "postings (index_push k x i) k' = postings i k' @ (if k' = k then [x] else [])"
    by (simp add: postings_def index_push_def update_conv')
  show "postings (index_retain k x i) k' = (if k' = k then filter (\<lambda>y. y \<noteq> x) (postings i k') else postings i k')"
    by (auto simp: postings_def index_retain_def Let_def update_conv' delete_conv' split: option.splits)
qed

section \<open>The keys of a subscription\<close>

fun channel_kind_keys :: "sub_entry \<Rightarrow> (community_id \<times> index_key) list" where
  "channel_kind_keys (filters, community, channel) =
    (case (channel, extract_kinds_from_filters filters) of
       (Some ch, Some kinds) \<Rightarrow> map (\<lambda>kind. (community, \<lparr>ik_channel_id = ch, ik_kind = kind\<rparr>)) kinds
     | _ \<Rightarrow> [])"

fun channel_wildcard_keys :: "sub_entry \<Rightarrow> (community_id \<times> uuid) list" where
  "channel_wildcard_keys (filters, community, channel) =
    (case (channel, extract_kinds_from_filters filters) of (Some ch, None) \<Rightarrow> [(community, ch)] | _ \<Rightarrow> [])"

fun global_p_kind_keys :: "sub_entry \<Rightarrow> global_p_kind_index_key list" where
  "global_p_kind_keys (filters, community, channel) =
    (case (channel, extract_global_p_kind_index_keys community filters) of (None, Some keys) \<Rightarrow> keys | _ \<Rightarrow> [])"

fun global_kind_keys :: "sub_entry \<Rightarrow> (community_id \<times> kind) list" where
  "global_kind_keys (filters, community, channel) =
    (case (channel, extract_global_p_kind_index_keys community filters, extract_kinds_from_filters filters) of
       (None, None, Some kinds) \<Rightarrow> map (\<lambda>kind. (community, kind)) kinds
     | _ \<Rightarrow> [])"

fun global_wildcard_keys :: "sub_entry \<Rightarrow> community_id list" where
  "global_wildcard_keys (filters, community, channel) =
    (case (channel, extract_global_p_kind_index_keys community filters, extract_kinds_from_filters filters) of
       (None, None, None) \<Rightarrow> [community]
     | _ \<Rightarrow> [])"

text \<open>The branches of the source are one update of every index, since all but one key list are empty.\<close>

lemma foldl_map_keys: "foldl (\<lambda>i k. f (g k) i) idx ks = foldl (\<lambda>i k. f k i) idx (map g ks)"
  by (induction ks arbitrary: idx) simp_all

lemma add_to_index_eq:
  "add_to_index conn sub filters community channel reg = reg
    \<lparr>channel_kind_index := foldl (\<lambda>i k. index_push k (conn, sub) i) (channel_kind_index reg)
        (channel_kind_keys (filters, community, channel)),
     channel_wildcard_index := foldl (\<lambda>i k. index_push k (conn, sub) i) (channel_wildcard_index reg)
        (channel_wildcard_keys (filters, community, channel)),
     global_kind_index := foldl (\<lambda>i k. index_push k (conn, sub) i) (global_kind_index reg)
        (global_kind_keys (filters, community, channel)),
     global_p_kind_index := foldl (\<lambda>i k. index_push k (conn, sub) i) (global_p_kind_index reg)
        (global_p_kind_keys (filters, community, channel)),
     global_wildcard_index := foldl (\<lambda>i k. index_push k (conn, sub) i) (global_wildcard_index reg)
        (global_wildcard_keys (filters, community, channel))\<rparr>"
  by (cases channel; cases "extract_kinds_from_filters filters";
      cases "extract_global_p_kind_index_keys community filters")
    (simp_all add: add_to_index_def foldl_map)

lemma remove_from_index_eq:
  "remove_from_index conn sub filters community channel reg = reg
    \<lparr>channel_kind_index := foldl (\<lambda>i k. index_retain k (conn, sub) i) (channel_kind_index reg)
        (channel_kind_keys (filters, community, channel)),
     channel_wildcard_index := foldl (\<lambda>i k. index_retain k (conn, sub) i) (channel_wildcard_index reg)
        (channel_wildcard_keys (filters, community, channel)),
     global_kind_index := foldl (\<lambda>i k. index_retain k (conn, sub) i) (global_kind_index reg)
        (global_kind_keys (filters, community, channel)),
     global_p_kind_index := foldl (\<lambda>i k. index_retain k (conn, sub) i) (global_p_kind_index reg)
        (global_p_kind_keys (filters, community, channel)),
     global_wildcard_index := foldl (\<lambda>i k. index_retain k (conn, sub) i) (global_wildcard_index reg)
        (global_wildcard_keys (filters, community, channel))\<rparr>"
  by (cases channel; cases "extract_kinds_from_filters filters";
      cases "extract_global_p_kind_index_keys community filters")
    (simp_all add: remove_from_index_def foldl_map)

subsection \<open>Key lists have no repetitions\<close>

lemma push_new_distinct: "distinct xs \<Longrightarrow> distinct (push_new x xs)"
  by (simp add: push_new_def)

lemma set_push_new: "set (push_new x xs) = insert x (set xs)"
  by (auto simp: push_new_def)

lemma foldl_push_new: "distinct acc \<Longrightarrow> distinct (foldl (\<lambda>acc k. push_new (f k) acc) acc ks) \<and>
    set (foldl (\<lambda>acc k. push_new (f k) acc) acc ks) = set acc \<union> f ` set ks"
  by (induction ks arbitrary: acc) (simp_all add: push_new_distinct set_push_new)

lemma foldl_push_new2: "distinct acc \<Longrightarrow>
    distinct (foldl (\<lambda>acc k. foldl (\<lambda>acc p. push_new (f k p) acc) acc ps) acc ks) \<and>
    set (foldl (\<lambda>acc k. foldl (\<lambda>acc p. push_new (f k p) acc) acc ps) acc ks) =
      set acc \<union> {f k p | k p. k \<in> set ks \<and> p \<in> set ps}"
  by (induction ks arbitrary: acc) (auto simp: foldl_push_new)

lemma extract_kinds_loop_Some:
  "extract_kinds_loop fs acc = Some ks \<Longrightarrow> distinct acc \<Longrightarrow>
    distinct ks \<and> set ks = set acc \<union> (\<Union>f \<in> set fs. set (the (f_kinds f))) \<and> (\<forall>f \<in> set fs. f_kinds f \<noteq> None)"
  by (induction fs arbitrary: acc) (auto simp: foldl_push_new [where f = id, simplified] split: option.splits)

lemma extract_p_loop_Some:
  "extract_p_loop c fs acc = Some keys \<Longrightarrow> distinct acc \<Longrightarrow> distinct keys \<and> set acc \<subseteq> set keys \<and>
    (\<forall>key \<in> set keys. key \<in> set acc \<or> gk_community_id key = c) \<and>
    (\<forall>f \<in> set fs. \<exists>ks. f_kinds f = Some ks \<and> (ks \<noteq> [] \<longrightarrow> (\<exists>ps. map_of (f_generic_tags f) ''p'' = Some ps \<and>
       (\<forall>k \<in> set ks. \<forall>p \<in> set ps. \<lparr>gk_community_id = c, gk_kind = k, gk_p = p\<rparr> \<in> set keys))))"
proof (induction fs arbitrary: acc)
  case (Cons f fs)
  obtain ks where ks: "f_kinds f = Some ks"
    using Cons.prems(1) by (auto split: option.splits)
  show ?case
  proof (cases "ks = []")
    case True
    with Cons ks show ?thesis by auto
  next
    case False
    then obtain ps where ps: "map_of (f_generic_tags f) ''p'' = Some ps" "ps \<noteq> []"
      using Cons.prems(1) ks by (auto split: option.splits if_splits)
    let ?acc = "foldl (\<lambda>acc k. foldl (\<lambda>acc p. push_new \<lparr>gk_community_id = c, gk_kind = k, gk_p = p\<rparr> acc) acc ps) acc ks"
    have acc: "distinct ?acc" "set ?acc = set acc \<union> {\<lparr>gk_community_id = c, gk_kind = k, gk_p = p\<rparr> | k p. k \<in> set ks \<and> p \<in> set ps}"
      using foldl_push_new2 [OF Cons.prems(2), of "\<lambda>k p. \<lparr>gk_community_id = c, gk_kind = k, gk_p = p\<rparr>"] by simp_all
    have "extract_p_loop c fs ?acc = Some keys"
      using Cons.prems(1) ks False ps by simp
    note IH = Cons.IH [OF this acc(1)]
    then show ?thesis
      using ks ps unfolding acc(2) by (auto simp: subset_iff)
  qed
qed auto

section \<open>The invariant of the registry\<close>

definition entry_at :: "subscription_registry \<Rightarrow> posting \<Rightarrow> sub_entry option" where
  "entry_at reg x = Option.bind (map_of (subs reg) (fst x)) (\<lambda>m. map_of m (snd x))"

definition indexes_ok :: "(posting \<Rightarrow> sub_entry option) \<Rightarrow> subscription_registry \<Rightarrow> bool" where
  "indexes_ok ent reg \<longleftrightarrow>
    indexes (postings (channel_kind_index reg)) channel_kind_keys ent \<and>
    indexes (postings (channel_wildcard_index reg)) channel_wildcard_keys ent \<and>
    indexes (postings (global_kind_index reg)) global_kind_keys ent \<and>
    indexes (postings (global_p_kind_index reg)) global_p_kind_keys ent \<and>
    indexes (postings (global_wildcard_index reg)) global_wildcard_keys ent"

definition registry_inv :: "subscription_registry \<Rightarrow> bool" where
  "registry_inv reg \<longleftrightarrow>
    distinct (map fst (subs reg)) \<and> (\<forall>e \<in> set (subs reg). distinct (map fst (snd e))) \<and>
    indexes_ok (entry_at reg) reg"

lemma keys_distinct:
  "distinct (channel_kind_keys e)" "distinct (channel_wildcard_keys e)" "distinct (global_kind_keys e)"
  "distinct (global_p_kind_keys e)" "distinct (global_wildcard_keys e)"
proof -
  obtain fs c ch where e: "e = (fs, c, ch)"
    by (cases e)
  have kinds: "distinct ks" if "extract_kinds_from_filters fs = Some ks" for ks
    using extract_kinds_loop_Some [of fs "[]" ks] that by (simp add: extract_kinds_from_filters_def)
  have keys: "distinct ks" if "extract_global_p_kind_index_keys c fs = Some ks" for ks
    using extract_p_loop_Some [of c fs "[]" ks] that by (simp add: extract_global_p_kind_index_keys_def)
  show "distinct (channel_kind_keys e)" "distinct (channel_wildcard_keys e)" "distinct (global_kind_keys e)"
    "distinct (global_p_kind_keys e)" "distinct (global_wildcard_keys e)"
    using kinds keys by (auto simp: e distinct_map inj_on_def split: option.splits)
qed

lemma indexes_ok_add:
  assumes "indexes_ok ent reg" and "ent (conn, sub) = None"
  shows "indexes_ok (ent((conn, sub) \<mapsto> (fs, c, ch))) (add_to_index conn sub fs c ch reg)"
  using assms unfolding indexes_ok_def add_to_index_eq
  by (simp add: alist_index.indexes_add keys_distinct
      del: channel_kind_keys.simps channel_wildcard_keys.simps global_kind_keys.simps
        global_p_kind_keys.simps global_wildcard_keys.simps)

lemma indexes_ok_remove:
  assumes "indexes_ok ent reg" and "ent (conn, sub) = Some (fs, c, ch)"
  shows "indexes_ok (ent((conn, sub) := None)) (remove_from_index conn sub fs c ch reg)"
  using assms unfolding indexes_ok_def remove_from_index_eq
  by (simp add: alist_index.indexes_remove
      del: channel_kind_keys.simps channel_wildcard_keys.simps global_kind_keys.simps
        global_p_kind_keys.simps global_wildcard_keys.simps)

lemma index_frame [simp]:
  "subs (add_to_index conn sub fs c ch reg) = subs reg"
  "subs (remove_from_index conn sub fs c ch reg) = subs reg"
  "indexes_ok ent (reg\<lparr>subs := m\<rparr>) = indexes_ok ent reg"
  by (simp_all add: add_to_index_eq remove_from_index_eq indexes_ok_def)

lemma entry_at_update:
  "entry_at (reg\<lparr>subs := AList.update conn m (subs reg)\<rparr>) x =
    (if fst x = conn then map_of m (snd x) else entry_at reg x)"
  by (simp add: entry_at_def update_conv')

lemma subs_update_inv:
  assumes "registry_inv reg" and "distinct (map fst m)"
  shows "distinct (map fst (AList.update conn m (subs reg)))"
    and "\<forall>e \<in> set (AList.update conn m (subs reg)). distinct (map fst (snd e))"
proof -
  show "distinct (map fst (AList.update conn m (subs reg)))"
    using assms(1) by (simp add: registry_inv_def distinct_update)
  show "\<forall>e \<in> set (AList.update conn m (subs reg)). distinct (map fst (snd e))"
    using assms alist_update_subset [of conn m "subs reg"] unfolding registry_inv_def by fastforce
qed

lemma conn_subs_distinct:
  "registry_inv reg \<Longrightarrow> map_of (subs reg) conn = Some m \<Longrightarrow> distinct (map fst m)"
  by (auto simp: registry_inv_def dest!: map_of_SomeD)

section \<open>What the operations do to the entries\<close>

lemma remove_subscription_entries:
  "entry_at (snd (remove_subscription conn sub reg)) = (entry_at reg)((conn, sub) := None)"
proof (cases "entry_at reg (conn, sub)")
  case None
  then have "snd (remove_subscription conn sub reg) = reg"
    by (auto simp: remove_subscription_def entry_at_def bind_eq_None_conv split: option.splits)
  with None show ?thesis
    by (simp add: fun_eq_iff)
next
  case (Some e)
  then obtain m where m: "map_of (subs reg) conn = Some m" "map_of m sub = Some e"
    by (auto simp: entry_at_def bind_eq_Some_conv)
  obtain fs c ch where e: "e = (fs, c, ch)"
    by (cases e)
  have "entry_at (snd (remove_subscription conn sub reg)) x = ((entry_at reg)((conn, sub) := None)) x" for x
    using m by (cases x) (auto simp: remove_subscription_def e entry_at_def update_conv' delete_conv')
  then show ?thesis ..
qed

lemma remove_subscription_inv:
  assumes inv: "registry_inv reg"
  shows "registry_inv (snd (remove_subscription conn sub reg))"
proof (cases "entry_at reg (conn, sub)")
  case None
  then have "snd (remove_subscription conn sub reg) = reg"
    by (auto simp: remove_subscription_def entry_at_def bind_eq_None_conv split: option.splits)
  with inv show ?thesis by simp
next
  case (Some e)
  then obtain m where m: "map_of (subs reg) conn = Some m" "map_of m sub = Some e"
    by (auto simp: entry_at_def bind_eq_Some_conv)
  obtain fs c ch where e: "e = (fs, c, ch)"
    by (cases e)
  let ?reg1 = "reg\<lparr>subs := AList.update conn (AList.delete sub m) (subs reg)\<rparr>"
  have eq: "snd (remove_subscription conn sub reg) = remove_from_index conn sub fs c ch ?reg1"
    using m by (simp add: remove_subscription_def e)
  have "indexes_ok (entry_at reg) ?reg1"
    using inv by (simp add: registry_inv_def)
  then have "indexes_ok ((entry_at reg)((conn, sub) := None)) (snd (remove_subscription conn sub reg))"
    unfolding eq using Some e by (intro indexes_ok_remove) simp_all
  moreover have "distinct (map fst (AList.delete sub m))"
    using conn_subs_distinct [OF inv m(1)] by (rule distinct_delete)
  ultimately show ?thesis
    using subs_update_inv [OF inv, of "AList.delete sub m" conn]
    unfolding registry_inv_def remove_subscription_entries by (simp add: eq)
qed

lemma register_scoped_entries:
  "entry_at (snd (register_scoped c conn sub fs ch reg)) = (entry_at reg)((conn, sub) \<mapsto> (fs, c, ch))"
proof -
  obtain removed reg1 where r1: "remove_subscription conn sub reg = (removed, reg1)"
    by fastforce
  have ent1: "entry_at reg1 = (entry_at reg)((conn, sub) := None)"
    using remove_subscription_entries [of conn sub reg] r1 by simp
  have "entry_at (snd (register_scoped c conn sub fs ch reg)) x = ((entry_at reg1)((conn, sub) \<mapsto> (fs, c, ch))) x" for x
    by (cases x) (auto simp: register_scoped_def r1 Let_def entry_at_def update_conv' split: option.splits)
  then show ?thesis
    by (simp add: fun_eq_iff ent1)
qed

lemma register_scoped_inv:
  assumes inv: "registry_inv reg"
  shows "registry_inv (snd (register_scoped c conn sub fs ch reg))"
proof -
  obtain removed reg1 where r1: "remove_subscription conn sub reg = (removed, reg1)"
    by fastforce
  have inv1: "registry_inv reg1" and ent1: "entry_at reg1 = (entry_at reg)((conn, sub) := None)"
    using remove_subscription_inv [OF inv, of conn sub] remove_subscription_entries [of conn sub reg] r1 by simp_all
  define m where "m = (case map_of (subs reg1) conn of Some m \<Rightarrow> m | None \<Rightarrow> [])"
  let ?reg2 = "reg1\<lparr>subs := AList.update conn (AList.update sub (fs, c, ch) m) (subs reg1)\<rparr>"
  have eq: "snd (register_scoped c conn sub fs ch reg) = add_to_index conn sub fs c ch ?reg2"
    by (simp add: register_scoped_def r1 m_def Let_def)
  have dm: "distinct (map fst (AList.update sub (fs, c, ch) m))"
    using conn_subs_distinct [OF inv1] by (auto simp: m_def distinct_update split: option.splits)
  have "indexes_ok ((entry_at reg1)((conn, sub) \<mapsto> (fs, c, ch))) (snd (register_scoped c conn sub fs ch reg))"
    unfolding eq using inv1 ent1 by (intro indexes_ok_add) (simp_all add: registry_inv_def)
  then show ?thesis
    using subs_update_inv [OF inv1 dm, of conn]
    unfolding registry_inv_def register_scoped_entries by (simp add: eq ent1)
qed

lemma foldl_pair_snd:
  "snd (foldl (\<lambda>(a, r) x. (f a x, g r x)) (a, r) xs) = foldl g r xs"
  by (induction xs arbitrary: a r) simp_all

lemma remove_all_from_index:
  assumes "indexes_ok ent reg" and "distinct (map fst m)" and "\<forall>(sub, e) \<in> set m. ent (conn, sub) = Some e"
  shows "indexes_ok (\<lambda>x. if fst x = conn \<and> snd x \<in> fst ` set m then None else ent x)
    (foldl (\<lambda>r (sub, (fs, c, ch)). remove_from_index conn sub fs c ch r) reg m)"
  using assms
proof (induction m arbitrary: ent reg)
  case (Cons y m)
  obtain sub fs c ch where y: "y = (sub, fs, c, ch)"
    by (cases y) auto
  have one: "indexes_ok (ent((conn, sub) := None)) (remove_from_index conn sub fs c ch reg)"
    using Cons.prems y by (intro indexes_ok_remove) auto
  have rest: "\<forall>(s, e) \<in> set m. (ent((conn, sub) := None)) (conn, s) = Some e"
    using Cons.prems(2,3) y by force
  have dist: "distinct (map fst m)"
    using Cons.prems(2) by simp
  from Cons.IH [OF one dist rest] have "indexes_ok (\<lambda>x. if fst x = conn \<and> snd x \<in> fst ` set m then None
      else (ent((conn, sub) := None)) x)
      (foldl (\<lambda>r (sub, (fs, c, ch)). remove_from_index conn sub fs c ch r) reg (y # m))"
    by (simp add: y del: fun_upd_apply)
  moreover have "(\<lambda>x. if fst x = conn \<and> snd x \<in> fst ` set m then None else (ent((conn, sub) := None)) x) =
      (\<lambda>x. if fst x = conn \<and> snd x \<in> fst ` set (y # m) then None else ent x)"
    by (auto simp: fun_eq_iff y)
  ultimately show ?case by simp
qed simp

lemma remove_connection_db:
  "snd (remove_connection conn reg) =
    (case map_of (subs reg) conn of
       None \<Rightarrow> reg
     | Some m \<Rightarrow> foldl (\<lambda>r (sub, (fs, c, ch)). remove_from_index conn sub fs c ch r)
         (reg\<lparr>subs := AList.delete conn (subs reg)\<rparr>) m)"
proof -
  have "(\<lambda>(removed, r) (sub, (fs, c, ch)). (removed @ [\<lparr>rm_community_id = c, rm_channel_id = ch\<rparr>],
        remove_from_index conn sub fs c ch r)) =
      (\<lambda>(a, r) x. (a @ [\<lparr>rm_community_id = fst (snd (snd x)), rm_channel_id = snd (snd (snd x))\<rparr>],
        (\<lambda>r (sub, (fs, c, ch)). remove_from_index conn sub fs c ch r) r x))"
    by (auto simp: fun_eq_iff)
  then show ?thesis
    by (simp add: remove_connection_def foldl_pair_snd [where g = "\<lambda>r (sub, (fs, c, ch)). remove_from_index conn sub fs c ch r"]
        split: option.split)
qed

lemma foldl_remove_subs [simp]:
  "subs (foldl (\<lambda>r (sub, (fs, c, ch)). remove_from_index conn sub fs c ch r) reg m) = subs reg"
  by (induction m arbitrary: reg) (auto split: prod.splits)

lemma remove_connection_entries:
  "entry_at (snd (remove_connection conn reg)) = (\<lambda>x. if fst x = conn then None else entry_at reg x)"
  by (auto simp: fun_eq_iff remove_connection_db entry_at_def delete_conv' split: option.splits)

lemma remove_connection_inv:
  assumes inv: "registry_inv reg"
  shows "registry_inv (snd (remove_connection conn reg))"
proof (cases "map_of (subs reg) conn")
  case None
  with inv show ?thesis by (simp add: remove_connection_db)
next
  case (Some m)
  have dm: "distinct (map fst m)"
    using inv Some by (rule conn_subs_distinct)
  have "\<forall>(sub, e) \<in> set m. entry_at reg (conn, sub) = Some e"
    using Some dm by (auto simp: entry_at_def)
  moreover have "indexes_ok (entry_at reg) (reg\<lparr>subs := AList.delete conn (subs reg)\<rparr>)"
    using inv by (simp add: registry_inv_def)
  ultimately have "indexes_ok (\<lambda>x. if fst x = conn \<and> snd x \<in> fst ` set m then None else entry_at reg x)
      (snd (remove_connection conn reg))"
    using remove_all_from_index [OF _ dm] by (simp add: remove_connection_db Some)
  moreover have "(\<lambda>x. if fst x = conn \<and> snd x \<in> fst ` set m then None else entry_at reg x) =
      entry_at (snd (remove_connection conn reg))"
    unfolding remove_connection_entries using Some
    by (auto simp: fun_eq_iff entry_at_def map_of_eq_None_iff)
  moreover have "distinct (map fst (subs (snd (remove_connection conn reg))))"
    and "\<forall>e \<in> set (subs (snd (remove_connection conn reg))). distinct (map fst (snd e))"
    using inv distinct_delete [of "subs reg" conn]
    by (auto simp: remove_connection_db Some registry_inv_def AList.delete_eq)
  ultimately show ?thesis
    by (simp add: registry_inv_def)
qed

lemma remove_each_spec:
  "registry_inv reg \<Longrightarrow> registry_inv (snd (remove_each conn ids reg)) \<and>
    entry_at (snd (remove_each conn ids reg)) = (\<lambda>x. if fst x = conn \<and> snd x \<in> set ids then None else entry_at reg x)"
proof (induction ids arbitrary: reg)
  case (Cons sub ids)
  have inv1: "registry_inv (snd (remove_subscription conn sub reg))"
    using Cons.prems by (rule remove_subscription_inv)
  have "snd (remove_each conn (sub # ids) reg) = snd (remove_each conn ids (snd (remove_subscription conn sub reg)))"
    by (auto split: prod.splits option.splits)
  with Cons.IH [OF inv1] show ?case
    by (auto simp: remove_subscription_entries fun_eq_iff)
qed auto

lemma remove_channel_spec:
  assumes inv: "registry_inv reg"
  shows "registry_inv (snd (remove_channel_subscriptions_scoped c conn ch reg)) \<and>
    entry_at (snd (remove_channel_subscriptions_scoped c conn ch reg)) =
      (\<lambda>x. case entry_at reg x of
         Some (fs, c', ch') \<Rightarrow> if fst x = conn \<and> c' = c \<and> ch' = Some ch then None else Some (fs, c', ch')
       | None \<Rightarrow> None)"
proof -
  define m where "m = (case map_of (subs reg) conn of Some m \<Rightarrow> m | None \<Rightarrow> [])"
  define ids where "ids = map fst (filter (\<lambda>(_, (_, c', ch')). c' = c \<and> ch' = Some ch) m)"
  have eq: "remove_channel_subscriptions_scoped c conn ch reg = remove_each conn ids reg"
    by (simp add: remove_channel_subscriptions_scoped_def m_def ids_def)
  have dm: "distinct (map fst m)"
    using conn_subs_distinct [OF inv] by (auto simp: m_def split: option.splits)
  have ent: "entry_at reg (conn, s) = map_of m s" for s
    by (simp add: entry_at_def m_def split: option.split)
  have ids: "s \<in> set ids \<longleftrightarrow> (\<exists>fs. map_of m s = Some (fs, c, Some ch))" for s
    using dm by (force simp: ids_def)
  have "(if fst x = conn \<and> snd x \<in> set ids then None else entry_at reg x) =
      (case entry_at reg x of
         Some (fs, c', ch') \<Rightarrow> if fst x = conn \<and> c' = c \<and> ch' = Some ch then None else Some (fs, c', ch')
       | None \<Rightarrow> None)" for x
    by (cases x; cases "fst x = conn") (auto simp: ids ent split: option.splits)
  then show ?thesis
    unfolding eq using remove_each_spec [OF inv, of conn ids] by auto
qed

section \<open>Fan-out\<close>

text \<open>The specification: who should receive an event.\<close>

definition subscribed :: "(uuid \<Rightarrow> string) \<Rightarrow> subscription_registry \<Rightarrow> community_id \<Rightarrow> stored_event \<Rightarrow> posting \<Rightarrow> bool" where
  "subscribed uuid_str reg community event x \<longleftrightarrow>
    (\<exists>filters. entry_at reg x = Some (filters, community, se_channel_id event) \<and>
       filters_match uuid_str filters event)"

lemma push_match_eq:
  "push_match uuid_str reg community event acc x =
    (if subscribed uuid_str reg community event x \<and> x \<notin> snd acc then (fst acc @ [x], insert x (snd acc)) else acc)"
  by (auto simp: push_match_def subscribed_def entry_at_def split: option.splits)

lemma match_candidates_spec:
  "distinct (match_candidates uuid_str reg community event xs) \<and>
   set (match_candidates uuid_str reg community event xs) = {x \<in> set xs. subscribed uuid_str reg community event x}"
proof -
  have "distinct rs \<Longrightarrow> set rs = seen \<Longrightarrow>
      (case foldl (push_match uuid_str reg community event) (rs, seen) xs of
         (rs', seen') \<Rightarrow> distinct rs' \<and> set rs' = seen' \<and>
           seen' = seen \<union> {x \<in> set xs. subscribed uuid_str reg community event x})" for rs seen
  proof (induction xs arbitrary: rs seen)
    case (Cons x xs)
    show ?case
    proof (cases "subscribed uuid_str reg community event x \<and> x \<notin> seen")
      case True
      then have eq: "push_match uuid_str reg community event (rs, seen) x = (rs @ [x], insert x seen)"
        by (simp add: push_match_eq)
      have "distinct (rs @ [x])" "set (rs @ [x]) = insert x seen"
        using Cons.prems True by auto
      from Cons.IH [OF this] True show ?thesis
        by (auto simp: eq split: prod.splits)
    next
      case False
      then have eq: "push_match uuid_str reg community event (rs, seen) x = (rs, seen)"
        by (simp add: push_match_eq)
      from Cons.IH [OF Cons.prems] False show ?thesis
        by (auto simp: eq split: prod.splits)
    qed
  qed simp
  from this [of "[]" "{}"] show ?thesis
    by (auto simp: match_candidates_def split: prod.splits)
qed

lemma event_p_tag_values_set: "set (event_p_tag_values event) = set (tag_values_of ''p'' (se_event event))"
proof -
  have "set (foldl (\<lambda>values t. if tag_kind t \<noteq> ''p'' then values
      else (case tag_content t of Some v \<Rightarrow> push_new v values | None \<Rightarrow> values)) acc ts) =
      set acc \<union> {v. \<exists>t \<in> set ts. tag_kind t = ''p'' \<and> tag_content t = Some v}" for acc ts
    by (induction ts arbitrary: acc) (auto simp: set_push_new split: option.splits)
  then show ?thesis
    by (auto simp: event_p_tag_values_def tag_values_of_iff)
qed

lemma matching_kind:
  assumes "filters_match uuid_str fs event" and "extract_kinds_from_filters fs = Some kinds"
  shows "ev_kind (se_event event) \<in> set kinds"
proof -
  obtain f where f: "f \<in> set fs" "filter_match_one uuid_str f event"
    using assms(1) by (auto simp: filters_match_def list_ex_iff)
  have "set kinds = (\<Union>f \<in> set fs. set (the (f_kinds f)))" and "f_kinds f \<noteq> None"
    using extract_kinds_loop_Some [of fs "[]" kinds] assms(2) f(1) by (auto simp: extract_kinds_from_filters_def)
  with f(1) filter_match_kind [OF f(2)] show ?thesis
    by force
qed

lemma matching_p_kind:
  assumes "filters_match uuid_str fs event" and "extract_global_p_kind_index_keys c fs = Some keys"
  shows "\<exists>p \<in> set (event_p_tag_values event).
    \<lparr>gk_community_id = c, gk_kind = ev_kind (se_event event), gk_p = p\<rparr> \<in> set keys"
proof -
  obtain f where f: "f \<in> set fs" "filter_match_one uuid_str f event"
    using assms(1) by (auto simp: filters_match_def list_ex_iff)
  obtain ks where ks: "f_kinds f = Some ks"
    and imp: "ks \<noteq> [] \<longrightarrow> (\<exists>ps. map_of (f_generic_tags f) ''p'' = Some ps \<and>
       (\<forall>k \<in> set ks. \<forall>p \<in> set ps. \<lparr>gk_community_id = c, gk_kind = k, gk_p = p\<rparr> \<in> set keys))"
    using extract_p_loop_Some [of c fs "[]" keys] assms(2) f(1) by (auto simp: extract_global_p_kind_index_keys_def)
  have kind: "ev_kind (se_event event) \<in> set ks"
    using f(2) ks by (rule filter_match_kind)
  then obtain ps where ps: "map_of (f_generic_tags f) ''p'' = Some ps"
    and keys: "\<forall>k \<in> set ks. \<forall>p \<in> set ps. \<lparr>gk_community_id = c, gk_kind = k, gk_p = p\<rparr> \<in> set keys"
    using imp by force
  have "\<exists>v \<in> set ps. v \<in> set (tag_values_of ''p'' (se_event event))"
    using f(2) map_of_SomeD [OF ps] by (rule filter_match_tag) simp
  with keys kind show ?thesis
    by (auto simp: event_p_tag_values_set)
qed

lemma subscribed_candidate:
  assumes inv: "registry_inv reg" and sub: "subscribed uuid_str reg c event x"
  shows "x \<in> set (candidates c event reg)"
proof -
  obtain fs where ent: "entry_at reg x = Some (fs, c, se_channel_id event)" and m: "filters_match uuid_str fs event"
    using sub by (auto simp: subscribed_def)
  let ?kind = "ev_kind (se_event event)"
  have idx: "x \<in> set (postings (channel_kind_index reg) k1)" if "k1 \<in> set (channel_kind_keys (fs, c, se_channel_id event))" for k1
    using inv ent that unfolding registry_inv_def indexes_ok_def indexes_def by metis
  have idx2: "x \<in> set (postings (channel_wildcard_index reg) k1)" if "k1 \<in> set (channel_wildcard_keys (fs, c, se_channel_id event))" for k1
    using inv ent that unfolding registry_inv_def indexes_ok_def indexes_def by metis
  have idx3: "x \<in> set (postings (global_kind_index reg) k1)" if "k1 \<in> set (global_kind_keys (fs, c, se_channel_id event))" for k1
    using inv ent that unfolding registry_inv_def indexes_ok_def indexes_def by metis
  have idx4: "x \<in> set (postings (global_p_kind_index reg) k1)" if "k1 \<in> set (global_p_kind_keys (fs, c, se_channel_id event))" for k1
    using inv ent that unfolding registry_inv_def indexes_ok_def indexes_def by metis
  have idx5: "x \<in> set (postings (global_wildcard_index reg) k1)" if "k1 \<in> set (global_wildcard_keys (fs, c, se_channel_id event))" for k1
    using inv ent that unfolding registry_inv_def indexes_ok_def indexes_def by metis
  show ?thesis
  proof (cases "se_channel_id event")
    case (Some ch)
    show ?thesis
    proof (cases "extract_kinds_from_filters fs")
      case None
      with Some idx2 [of "(c, ch)"] show ?thesis
        by (simp add: candidates_def)
    next
      case (Some kinds)
      with \<open>se_channel_id event = Some ch\<close> idx [of "(c, \<lparr>ik_channel_id = ch, ik_kind = ?kind\<rparr>)"] matching_kind [OF m Some]
      show ?thesis
        by (simp add: candidates_def)
    qed
  next
    case None
    show ?thesis
    proof (cases "extract_global_p_kind_index_keys c fs")
      case (Some keys)
      from matching_p_kind [OF m Some] obtain p where p: "p \<in> set (event_p_tag_values event)"
        "\<lparr>gk_community_id = c, gk_kind = ?kind, gk_p = p\<rparr> \<in> set keys" by blast
      with Some None idx4 [of "\<lparr>gk_community_id = c, gk_kind = ?kind, gk_p = p\<rparr>"] show ?thesis
        by (auto simp: candidates_def)
    next
      case nop: None
      show ?thesis
      proof (cases "extract_kinds_from_filters fs")
        case None
        with nop \<open>se_channel_id event = None\<close> idx5 [of c] show ?thesis
          by (simp add: candidates_def)
      next
        case (Some kinds)
        with nop None idx3 [of "(c, ?kind)"] matching_kind [OF m Some] show ?thesis
          by (simp add: candidates_def)
      qed
    qed
  qed
qed

section \<open>The registry as a system of steps\<close>

inductive registry_step :: "subscription_registry \<Rightarrow> subscription_registry \<Rightarrow> bool" where
  step_register: "registry_step reg (snd (register_scoped c conn sub fs ch reg))"
| step_remove: "registry_step reg (snd (remove_subscription conn sub reg))"
| step_disconnect: "registry_step reg (snd (remove_connection conn reg))"
| step_leave_channel: "registry_step reg (snd (remove_channel_subscriptions_scoped c conn ch reg))"

abbreviation registry_reachable :: "subscription_registry \<Rightarrow> bool" where
  "registry_reachable reg \<equiv> registry_step\<^sup>*\<^sup>* registry_new reg"

lemma registry_new_inv: "registry_inv registry_new"
  by (simp add: registry_inv_def registry_new_def indexes_ok_def indexes_def postings_def entry_at_def)

lemma registry_step_inv: "registry_inv reg \<Longrightarrow> registry_step reg reg' \<Longrightarrow> registry_inv reg'"
  by (erule registry_step.cases)
    (simp_all add: register_scoped_inv remove_subscription_inv remove_connection_inv remove_channel_spec)

interpretation registry: invariant_system "\<lambda>r. r = registry_new" registry_step registry_inv
  by unfold_locales (auto simp: registry_new_inv intro: registry_step_inv)

lemma registry_reachable_inv: "registry_reachable reg \<Longrightarrow> registry_inv reg"
  using registry.reachable_inv by blast

lemma fan_out_set:
  assumes "registry_inv reg"
  shows "distinct (fan_out_scoped uuid_str c event reg) \<and>
    set (fan_out_scoped uuid_str c event reg) = {x. subscribed uuid_str reg c event x}"
  using match_candidates_spec [of uuid_str reg c event "candidates c event reg"] subscribed_candidate [OF assms]
  by (auto simp: fan_out_scoped_def)

lemma leaving_sets:
  assumes "registry_reachable reg"
  shows "set (fan_out_scoped uuid_str community event (snd (remove_connection conn reg))) =
      {x \<in> set (fan_out_scoped uuid_str community event reg). fst x \<noteq> conn}"
    and "set (fan_out_scoped uuid_str community event (snd (remove_channel_subscriptions_scoped c conn ch reg))) =
      {x \<in> set (fan_out_scoped uuid_str community event reg).
         \<not> (fst x = conn \<and> community = c \<and> se_channel_id event = Some ch)}"
proof -
  note inv = registry_reachable_inv [OF assms]
  have "subscribed uuid_str (snd (remove_connection conn reg)) community event x \<longleftrightarrow>
      subscribed uuid_str reg community event x \<and> fst x \<noteq> conn" for x
    by (auto simp: subscribed_def remove_connection_entries)
  then show "set (fan_out_scoped uuid_str community event (snd (remove_connection conn reg))) =
      {x \<in> set (fan_out_scoped uuid_str community event reg). fst x \<noteq> conn}"
    using fan_out_set [OF inv] fan_out_set [OF remove_connection_inv [OF inv]] by auto
  note left = remove_channel_spec [OF inv, of c conn ch]
  have "subscribed uuid_str (snd (remove_channel_subscriptions_scoped c conn ch reg)) community event x \<longleftrightarrow>
      subscribed uuid_str reg community event x \<and> \<not> (fst x = conn \<and> community = c \<and> se_channel_id event = Some ch)" for x
    unfolding subscribed_def conjunct2 [OF left] by (auto split: option.splits if_splits)
  then show "set (fan_out_scoped uuid_str community event (snd (remove_channel_subscriptions_scoped c conn ch reg))) =
      {x \<in> set (fan_out_scoped uuid_str community event reg).
         \<not> (fst x = conn \<and> community = c \<and> se_channel_id event = Some ch)}"
    using fan_out_set [OF inv] fan_out_set [OF conjunct1 [OF left]] by auto
qed

section \<open>Properties\<close>


definition sample_registry :: subscription_registry where
  "sample_registry = snd (register_scoped 9 1 ''s'' [sample_filter] (Some 4) registry_new)"

lemma sample_registry_reachable: "registry_reachable sample_registry"
  unfolding sample_registry_def by (rule r_into_rtranclp, rule step_register)


text \<open>
  Candidates read from an old state of the indexes are harmless: matching any list of candidates
  against the registry delivers exactly those of them that are subscribed now, in the right community
  and scope and with a matching filter, each once.
\<close>

theorem stale_candidates_sound:
  "distinct (match_candidates uuid_str reg community event xs) \<and>
   set (match_candidates uuid_str reg community event xs) =
     {x. x \<in> set xs \<and> (\<exists>filters. entry_at reg x = Some (filters, community, se_channel_id event) \<and>
        filters_match uuid_str filters event)}"
  using match_candidates_spec [of uuid_str reg community event xs] by (simp add: subscribed_def)

text \<open>
  Leaving works: after a connection is removed, or leaves a channel, an event reaches exactly the
  subscriptions it reached before without those of that connection (of that connection in that
  channel and community).
\<close>

theorem leaving_stops_delivery:
  assumes "registry_reachable reg"
  shows "set (fan_out_scoped uuid_str community event (snd (remove_connection conn reg))) =
      {x \<in> set (fan_out_scoped uuid_str community event reg). fst x \<noteq> conn} \<and>
    set (fan_out_scoped uuid_str community event (snd (remove_channel_subscriptions_scoped c conn ch reg))) =
      {x \<in> set (fan_out_scoped uuid_str community event reg).
         \<not> (fst x = conn \<and> community = c \<and> se_channel_id event = Some ch)}"
  using leaving_sets [OF assms] by (intro conjI)

theorem leaving_stops_delivery_witness:
  "set (fan_out_scoped (\<lambda>_. ''channel-4'') 9 sample_event (snd (remove_connection 1 sample_registry))) =
     {x \<in> set (fan_out_scoped (\<lambda>_. ''channel-4'') 9 sample_event sample_registry). fst x \<noteq> 1}"
  by (rule conjunct1 [OF leaving_stops_delivery [OF sample_registry_reachable]])

text \<open>
  The connection count is not the number of connections with a live subscription: a connection
  whose only subscription was removed is still counted.
\<close>

theorem total_connections_counts_idle:
  "total_connections (snd (remove_subscription 1 ''s'' sample_registry)) = 1 \<and>
   total_subscriptions (snd (remove_subscription 1 ''s'' sample_registry)) = 0"
  by code_simp

end
