(* ===== verification/Git_Perms.thy ===== *)
theory Git_Perms
  imports Prelude "HOL-Library.Sublist"
begin

text \<open>
  \<open>crates/buzz-core/src/git_perms.rs\<close> and the member roles of \<open>crates/buzz-core/src/channel.rs\<close>: ref
  patterns, protection rules and the policy that decides a push. Text is a list of bytes. The
  \<open>unreachable!()\<close> arms of the matcher are the value \<open>None\<close>.
\<close>

section \<open>Member roles\<close>

datatype member_role = Owner | Admin | Member | Guest | Bot

fun role_as_str :: "member_role \<Rightarrow> string" where
  "role_as_str Owner = ''owner''"
| "role_as_str Admin = ''admin''"
| "role_as_str Member = ''member''"
| "role_as_str Guest = ''guest''"
| "role_as_str Bot = ''bot''"

definition role_from_str :: "string \<Rightarrow> member_role option" where
  "role_from_str s =
    (if s = ''owner'' then Some Owner
     else if s = ''admin'' then Some Admin
     else if s = ''member'' then Some Member
     else if s = ''guest'' then Some Guest
     else if s = ''bot'' then Some Bot
     else None)"

definition is_elevated :: "member_role \<Rightarrow> bool" where
  "is_elevated r \<longleftrightarrow> r = Owner \<or> r = Admin"

fun permission_level :: "member_role \<Rightarrow> nat" where
  "permission_level Owner = 4"
| "permission_level Admin = 3"
| "permission_level Member = 2"
| "permission_level Guest = 1"
| "permission_level Bot = 0"

definition has_at_least :: "member_role \<Rightarrow> member_role \<Rightarrow> bool" where
  "has_at_least r required \<longleftrightarrow> permission_level r \<ge> permission_level required"

interpretation role_codec: string_codec role_as_str role_from_str
proof unfold_locales
  show "role_from_str (role_as_str e) = Some e" for e
    by (cases e) (simp_all add: role_from_str_def)
  show "role_from_str s = Some e \<Longrightarrow> s = role_as_str e" for s e
    by (auto simp: role_from_str_def split: if_splits)
qed

section \<open>Ref patterns\<close>

definition max_protection_rules :: nat where
  "max_protection_rules = 50"

definition max_pattern_length :: nat where
  "max_pattern_length = 256"

definition max_wildcards_per_pattern :: nat where
  "max_wildcards_per_pattern = 3"

datatype pattern_segment = Literal string | Wildcard | RecursiveWildcard

record ref_pattern =
  rp_raw :: string
  rp_segments :: "pattern_segment list"

datatype pattern_error =
    PatternEmpty
  | PatternTooLong
  | MissingRefsPrefix
  | InvalidSegment string
  | TooManyWildcards

definition is_pattern_char :: "char \<Rightarrow> bool" where
  "is_pattern_char ch \<longleftrightarrow>
    (let n = (of_char ch :: nat)
     in (48 \<le> n \<and> n \<le> 57) \<or> (65 \<le> n \<and> n \<le> 90) \<or> (97 \<le> n \<and> n \<le> 122)) \<or>
    ch = CHR ''.'' \<or> ch = CHR ''_'' \<or> ch = CHR ''-''"

fun parse_segments :: "string list \<Rightarrow> nat \<Rightarrow> pattern_error + pattern_segment list" where
  "parse_segments [] wildcard_count = Inr []"
| "parse_segments (part # rest) wildcard_count =
    (if part = ''**'' then
       if rest \<noteq> [] then Inl (InvalidSegment ''** must be the last segment'')
       else if wildcard_count + 1 > max_wildcards_per_pattern then Inl TooManyWildcards
       else (case parse_segments rest (wildcard_count + 1) of Inl e \<Rightarrow> Inl e | Inr ss \<Rightarrow> Inr (RecursiveWildcard # ss))
     else if part = ''*'' then
       if wildcard_count + 1 > max_wildcards_per_pattern then Inl TooManyWildcards
       else (case parse_segments rest (wildcard_count + 1) of Inl e \<Rightarrow> Inl e | Inr ss \<Rightarrow> Inr (Wildcard # ss))
     else if part = [] then Inl (InvalidSegment [])
     else if CHR ''*'' \<in> set part \<or> CHR ''?'' \<in> set part \<or> CHR ''['' \<in> set part \<or> CHR '']'' \<in> set part
     then Inl (InvalidSegment part)
     else if \<not> list_all is_pattern_char part then Inl (InvalidSegment part)
     else (case parse_segments rest wildcard_count of Inl e \<Rightarrow> Inl e | Inr ss \<Rightarrow> Inr (Literal part # ss)))"

definition pattern_parse :: "string \<Rightarrow> pattern_error + ref_pattern" where
  "pattern_parse pattern =
    (if pattern = [] then Inl PatternEmpty
     else if length pattern > max_pattern_length then Inl PatternTooLong
     else if \<not> prefix ''refs/'' pattern then Inl MissingRefsPrefix
     else (case parse_segments (split_char CHR ''/'' pattern) 0 of
         Inl e \<Rightarrow> Inl e
       | Inr segments \<Rightarrow> Inr \<lparr>rp_raw = pattern, rp_segments = segments\<rparr>))"

text \<open>\<open>zip(\<dots>).all(\<dots>)\<close>: stops at the first mismatch, panics at a recursive wildcard it reaches.\<close>

fun segments_all :: "pattern_segment list \<Rightarrow> string list \<Rightarrow> bool option" where
  "segments_all (Wildcard # ps) (_ # ss) = segments_all ps ss"
| "segments_all (Literal lit # ps) (s # ss) = (if lit = s then segments_all ps ss else Some False)"
| "segments_all (RecursiveWildcard # ps) (s # ss) = None"
| "segments_all _ _ = Some True"

definition pattern_matches :: "ref_pattern \<Rightarrow> string \<Rightarrow> bool option" where
  "pattern_matches p ref_name =
    (let ref_segments = split_char CHR ''/'' ref_name; segs = rp_segments p
     in if segs \<noteq> [] \<and> last segs = RecursiveWildcard then
          let prefix_len = length segs - 1
          in if length ref_segments \<le> prefix_len then Some False
             else segments_all (take prefix_len segs) (take prefix_len ref_segments)
        else if length ref_segments \<noteq> length segs then Some False
        else segments_all segs ref_segments)"

section \<open>Updates and rules\<close>

datatype update_kind = Create | FastForward | NonFastForward | Delete

definition zero_oid :: string where
  "zero_oid = replicate 40 (CHR ''0'')"

definition classify :: "string \<Rightarrow> string \<Rightarrow> bool \<Rightarrow> update_kind" where
  "classify old_oid new_oid is_ancestor =
    (if old_oid = zero_oid then Create
     else if new_oid = zero_oid then Delete
     else if is_ancestor then FastForward
     else NonFastForward)"

record ref_update =
  ru_ref_name :: string
  ru_kind :: update_kind
  ru_old_oid :: string
  ru_new_oid :: string

record protection_rule =
  pr_pattern :: ref_pattern
  pr_push_role :: "member_role option"
  pr_no_force_push :: bool
  pr_no_delete :: bool
  pr_require_patch :: bool

datatype rule_parse_error =
    TooFewValues
  | TooManyRules
  | InvalidPattern pattern_error
  | UnknownRule string
  | InvalidRole string

text \<open>The stricter of two roles, keeping the first on a tie.\<close>

definition stricter :: "member_role option \<Rightarrow> member_role \<Rightarrow> member_role option" where
  "stricter push_role role =
    (case push_role of
       None \<Rightarrow> Some role
     | Some existing \<Rightarrow> Some (if permission_level role > permission_level existing then role else existing))"

fun parse_rules :: "string list \<Rightarrow> protection_rule \<Rightarrow> string list \<Rightarrow> rule_parse_error + protection_rule \<times> string list" where
  "parse_rules [] rule unknown = Inr (rule, unknown)"
| "parse_rules (rule_str # rest) rule unknown =
    (if prefix ''push:'' rule_str then
       let role_str = drop 5 rule_str
       in case role_from_str role_str of
            None \<Rightarrow> Inl (InvalidRole role_str)
          | Some role \<Rightarrow>
              if role = Bot \<or> role = Guest then Inl (InvalidRole role_str)
              else parse_rules rest (rule\<lparr>pr_push_role := stricter (pr_push_role rule) role\<rparr>) unknown
     else if rule_str = ''no-force-push'' then parse_rules rest (rule\<lparr>pr_no_force_push := True\<rparr>) unknown
     else if rule_str = ''no-delete'' then parse_rules rest (rule\<lparr>pr_no_delete := True\<rparr>) unknown
     else if rule_str = ''require-patch'' then parse_rules rest (rule\<lparr>pr_require_patch := True\<rparr>) unknown
     else parse_rules rest rule (unknown @ [rule_str]))"

definition parse_protection_tag_with_warnings ::
  "string list \<Rightarrow> rule_parse_error + protection_rule \<times> string list" where
  "parse_protection_tag_with_warnings values =
    (case values of
       pat # r # rs \<Rightarrow>
         (case pattern_parse pat of
            Inl e \<Rightarrow> Inl (InvalidPattern e)
          | Inr pattern \<Rightarrow> parse_rules (r # rs)
              \<lparr>pr_pattern = pattern, pr_push_role = None, pr_no_force_push = False,
               pr_no_delete = False, pr_require_patch = False\<rparr> [])
     | _ \<Rightarrow> Inl TooFewValues)"

definition parse_protection_tag :: "string list \<Rightarrow> rule_parse_error + protection_rule" where
  "parse_protection_tag values =
    (case parse_protection_tag_with_warnings values of Inl e \<Rightarrow> Inl e | Inr (rule, _) \<Rightarrow> Inr rule)"

record parsed_protection =
  pp_rules :: "protection_rule list"
  pp_unknown_rules :: "string list"

fun parse_tags_loop ::
  "string list list \<Rightarrow> protection_rule list \<Rightarrow> string list \<Rightarrow> rule_parse_error + parsed_protection" where
  "parse_tags_loop [] rules unknown = Inr \<lparr>pp_rules = rules, pp_unknown_rules = unknown\<rparr>"
| "parse_tags_loop (tag # tags) rules unknown =
    (case tag of
       [] \<Rightarrow> parse_tags_loop tags rules unknown
     | name # values \<Rightarrow>
         if name \<noteq> ''buzz-protect'' then parse_tags_loop tags rules unknown
         else if length rules \<ge> max_protection_rules then Inl TooManyRules
         else (case parse_protection_tag_with_warnings values of
             Inl e \<Rightarrow> Inl e
           | Inr (rule, unknowns) \<Rightarrow> parse_tags_loop tags (rules @ [rule]) (unknown @ unknowns)))"

definition parse_protection_tags :: "string list list \<Rightarrow> rule_parse_error + parsed_protection" where
  "parse_protection_tags tags = parse_tags_loop tags [] []"

section \<open>The policy\<close>

definition default_min_role :: "string \<Rightarrow> update_kind \<Rightarrow> member_role" where
  "default_min_role ref_name kind =
    (let is_branch = prefix ''refs/heads/'' ref_name; is_tag = prefix ''refs/tags/'' ref_name
     in case kind of
         Create \<Rightarrow> if is_branch \<or> is_tag then Member else Admin
       | FastForward \<Rightarrow> if is_branch then Member else if is_tag then Admin else Admin
       | NonFastForward \<Rightarrow> Admin
       | Delete \<Rightarrow> Admin)"

record effective_rules =
  ef_push_role :: "member_role option"
  ef_no_force_push :: bool
  ef_no_delete :: bool
  ef_require_patch :: bool
  ef_has_explicit_match :: bool

text \<open>\<open>None\<close> is a panic of the matcher.\<close>

fun for_ref_loop :: "string \<Rightarrow> protection_rule list \<Rightarrow> effective_rules \<Rightarrow> effective_rules option" where
  "for_ref_loop ref_name [] acc = Some acc"
| "for_ref_loop ref_name (rule # rules) acc =
    (case pattern_matches (pr_pattern rule) ref_name of
       None \<Rightarrow> None
     | Some False \<Rightarrow> for_ref_loop ref_name rules acc
     | Some True \<Rightarrow> for_ref_loop ref_name rules
         \<lparr>ef_push_role = (case pr_push_role rule of
              Some role \<Rightarrow> stricter (ef_push_role acc) role | None \<Rightarrow> ef_push_role acc),
          ef_no_force_push = ef_no_force_push acc \<or> pr_no_force_push rule,
          ef_no_delete = ef_no_delete acc \<or> pr_no_delete rule,
          ef_require_patch = ef_require_patch acc \<or> pr_require_patch rule,
          ef_has_explicit_match = True\<rparr>)"

definition no_rules :: effective_rules where
  "no_rules = \<lparr>ef_push_role = None, ef_no_force_push = False, ef_no_delete = False,
     ef_require_patch = False, ef_has_explicit_match = False\<rparr>"

definition for_ref :: "string \<Rightarrow> protection_rule list \<Rightarrow> effective_rules option" where
  "for_ref ref_name rules = for_ref_loop ref_name rules no_rules"

record denial =
  dn_ref_name :: string
  dn_reason :: string

definition required_role :: "ref_update \<Rightarrow> effective_rules \<Rightarrow> member_role" where
  "required_role update effective =
    (let default_role = default_min_role (ru_ref_name update) (ru_kind update)
     in case ef_push_role effective of
         Some explicit \<Rightarrow>
           if permission_level explicit \<ge> permission_level default_role then explicit else default_role
       | None \<Rightarrow> default_role)"

definition evaluate_ref_update :: "ref_update \<Rightarrow> member_role \<Rightarrow> protection_rule list \<Rightarrow> (denial + unit) option" where
  "evaluate_ref_update update role rules =
    (case for_ref (ru_ref_name update) rules of
       None \<Rightarrow> None
     | Some effective \<Rightarrow> Some
         (if \<not> ef_has_explicit_match effective then
            let min_role = default_min_role (ru_ref_name update) (ru_kind update)
            in if \<not> has_at_least role min_role
               then Inl \<lparr>dn_ref_name = ru_ref_name update,
                     dn_reason = ''requires '' @ role_as_str min_role @ '' role (you have '' @ role_as_str role @
                       ''), using built-in defaults''\<rparr>
               else Inr ()
          else if ef_require_patch effective
          then Inl \<lparr>dn_ref_name = ru_ref_name update,
                dn_reason = ''direct push denied: require-patch is set, submit a NIP-34 patch''\<rparr>
          else
            let min_role = required_role update effective
            in if \<not> has_at_least role min_role
               then Inl \<lparr>dn_ref_name = ru_ref_name update,
                     dn_reason = ''requires '' @ role_as_str min_role @ '' role (you have '' @ role_as_str role @ '')''\<rparr>
               else if ef_no_force_push effective \<and> ru_kind update = NonFastForward
               then Inl \<lparr>dn_ref_name = ru_ref_name update,
                     dn_reason = ''non-fast-forward update denied: no-force-push is set''\<rparr>
               else if ef_no_delete effective \<and> ru_kind update = Delete
               then Inl \<lparr>dn_ref_name = ru_ref_name update,
                     dn_reason = ''ref deletion denied: no-delete is set''\<rparr>
               else Inr ()))"

fun collect_denials :: "ref_update list \<Rightarrow> member_role \<Rightarrow> protection_rule list \<Rightarrow> denial list option" where
  "collect_denials [] role rules = Some []"
| "collect_denials (u # us) role rules =
    (case evaluate_ref_update u role rules of
       None \<Rightarrow> None
     | Some r \<Rightarrow> (case collect_denials us role rules of
           None \<Rightarrow> None
         | Some ds \<Rightarrow> Some (case r of Inl dn \<Rightarrow> dn # ds | Inr _ \<Rightarrow> ds)))"

definition evaluate_push :: "ref_update list \<Rightarrow> member_role \<Rightarrow> protection_rule list \<Rightarrow> (denial list + unit) option" where
  "evaluate_push updates role rules =
    map_option (\<lambda>denials. if denials = [] then Inr () else Inl denials) (collect_denials updates role rules)"

section \<open>Patterns\<close>

text \<open>The specification of matching, one segment at a time.\<close>

fun segments_match :: "pattern_segment list \<Rightarrow> string list \<Rightarrow> bool" where
  "segments_match [] ss \<longleftrightarrow> ss = []"
| "segments_match [RecursiveWildcard] ss \<longleftrightarrow> ss \<noteq> []"
| "segments_match (Wildcard # ps) (_ # ss) \<longleftrightarrow> segments_match ps ss"
| "segments_match (Literal lit # ps) (s # ss) \<longleftrightarrow> lit = s \<and> segments_match ps ss"
| "segments_match _ _ \<longleftrightarrow> False"

definition pattern_wf :: "ref_pattern \<Rightarrow> bool" where
  "pattern_wf p \<longleftrightarrow> RecursiveWildcard \<notin> set (butlast (rp_segments p))"

lemma parse_segments_shape:
  "parse_segments parts n = Inr segs \<Longrightarrow>
    length segs = length parts \<and> RecursiveWildcard \<notin> set (butlast segs) \<and>
    (n \<le> 3 \<longrightarrow> n + length (filter (\<lambda>s. s = Wildcard \<or> s = RecursiveWildcard) segs) \<le> 3)"
  by (induction parts n arbitrary: segs rule: parse_segments.induct)
    (auto simp: max_wildcards_per_pattern_def split: if_splits sum.splits)

lemma pattern_parse_wf:
  "pattern_parse s = Inr p \<Longrightarrow> pattern_wf p \<and> rp_raw p = s \<and> rp_segments p \<noteq> [] \<and>
    length (filter (\<lambda>s. s = Wildcard \<or> s = RecursiveWildcard) (rp_segments p)) \<le> max_wildcards_per_pattern"
  using parse_segments_shape [of "split_char CHR ''/'' s" 0 "rp_segments p"]
  by (auto simp: pattern_parse_def pattern_wf_def max_wildcards_per_pattern_def split: if_splits sum.splits)

lemma segments_all_match:
  "length ps = length ss \<Longrightarrow> RecursiveWildcard \<notin> set ps \<Longrightarrow> segments_all ps ss = Some (segments_match ps ss)"
proof (induction ps ss rule: list_induct2)
  case (Cons p ps s ss)
  then show ?case by (cases p; cases ps) auto
qed simp

lemma segments_match_length:
  "RecursiveWildcard \<notin> set ps \<Longrightarrow> segments_match ps ss \<Longrightarrow> length ss = length ps"
proof (induction ps arbitrary: ss)
  case (Cons p ps)
  then show ?case by (cases p; cases ss; cases ps) auto
qed simp

lemma segments_match_recursive:
  "RecursiveWildcard \<notin> set qs \<Longrightarrow>
    segments_match (qs @ [RecursiveWildcard]) ss \<longleftrightarrow>
      length qs < length ss \<and> segments_match qs (take (length qs) ss)"
proof (induction qs arbitrary: ss)
  case (Cons q qs)
  then show ?case by (cases q; cases ss; cases qs) auto
qed simp

lemma pattern_matches_spec:
  assumes "pattern_wf p" and "rp_segments p \<noteq> []"
  shows "pattern_matches p r = Some (segments_match (rp_segments p) (split_char CHR ''/'' r))"
proof (cases "last (rp_segments p) = RecursiveWildcard")
  case True
  let ?qs = "butlast (rp_segments p)" and ?ss = "split_char CHR ''/'' r"
  have segs: "rp_segments p = ?qs @ [RecursiveWildcard]"
    using True assms(2) by (metis append_butlast_last_id)
  have qs: "RecursiveWildcard \<notin> set ?qs"
    using assms(1) by (simp add: pattern_wf_def)
  have tk: "take (length (rp_segments p) - Suc 0) (rp_segments p) = ?qs"
    by (simp add: butlast_conv_take)
  have "segments_all ?qs (take (length ?qs) ?ss) = Some (segments_match ?qs (take (length ?qs) ?ss))"
    if "length ?qs < length ?ss"
    using that qs by (intro segments_all_match) simp_all
  then show ?thesis
    using segments_match_recursive [OF qs, of ?ss] True assms(2) segs
    by (simp add: pattern_matches_def Let_def tk)
next
  case False
  have "RecursiveWildcard \<notin> set (rp_segments p)"
    using assms False unfolding pattern_wf_def by (metis append_butlast_last_id in_set_conv_decomp set_ConsD Un_iff set_append empty_iff empty_set)
  then show ?thesis
    using False segments_all_match [of "rp_segments p" "split_char CHR ''/'' r"]
      segments_match_length [of "rp_segments p" "split_char CHR ''/'' r"]
    by (auto simp: pattern_matches_def Let_def)
qed

section \<open>Rules\<close>

definition rule_wf :: "protection_rule \<Rightarrow> bool" where
  "rule_wf rule \<longleftrightarrow> pattern_wf (pr_pattern rule) \<and> rp_segments (pr_pattern rule) \<noteq> []"

definition rule_applies :: "string \<Rightarrow> protection_rule \<Rightarrow> bool" where
  "rule_applies ref_name rule \<longleftrightarrow>
    segments_match (rp_segments (pr_pattern rule)) (split_char CHR ''/'' ref_name)"

lemma parse_rules_pattern:
  "parse_rules rs rule unknown = Inr (rule', unknown') \<Longrightarrow> pr_pattern rule' = pr_pattern rule"
  by (induction rs rule unknown rule: parse_rules.induct)
    (auto simp: Let_def split: if_splits option.splits)

lemma parse_protection_tag_wf:
  "parse_protection_tag_with_warnings values = Inr (rule, unknown) \<Longrightarrow> rule_wf rule"
  by (auto simp: parse_protection_tag_with_warnings_def rule_wf_def simp del: parse_rules.simps
      split: list.splits sum.splits dest!: parse_rules_pattern dest: pattern_parse_wf)

lemma parse_tags_loop_wf:
  "parse_tags_loop tags rules unknown = Inr pp \<Longrightarrow> \<forall>r \<in> set rules. rule_wf r \<Longrightarrow>
    length rules \<le> max_protection_rules \<Longrightarrow>
    (\<forall>r \<in> set (pp_rules pp). rule_wf r) \<and> length (pp_rules pp) \<le> max_protection_rules"
proof (induction tags rules unknown rule: parse_tags_loop.induct)
  case (2 tag tags rules unknown)
  then show ?case
    by (auto split: list.splits if_splits sum.splits dest: parse_protection_tag_wf)
qed auto

section \<open>The effective rules\<close>

definition role_level :: "member_role option \<Rightarrow> nat" where
  "role_level r = (case r of None \<Rightarrow> 0 | Some x \<Rightarrow> permission_level x)"

lemma role_level_stricter: "role_level (stricter a b) = max (role_level a) (permission_level b)"
  by (auto simp: role_level_def stricter_def split: option.splits)

lemma for_ref_loop_spec:
  assumes "\<forall>r \<in> set rules. rule_wf r"
  shows "\<exists>eff. for_ref_loop ref_name rules acc = Some eff \<and>
    (ef_has_explicit_match eff \<longleftrightarrow> ef_has_explicit_match acc \<or> (\<exists>r \<in> set rules. rule_applies ref_name r)) \<and>
    (ef_no_force_push eff \<longleftrightarrow> ef_no_force_push acc \<or> (\<exists>r \<in> set rules. rule_applies ref_name r \<and> pr_no_force_push r)) \<and>
    (ef_no_delete eff \<longleftrightarrow> ef_no_delete acc \<or> (\<exists>r \<in> set rules. rule_applies ref_name r \<and> pr_no_delete r)) \<and>
    (ef_require_patch eff \<longleftrightarrow> ef_require_patch acc \<or> (\<exists>r \<in> set rules. rule_applies ref_name r \<and> pr_require_patch r)) \<and>
    (\<forall>n. role_level (ef_push_role eff) \<le> n \<longleftrightarrow> role_level (ef_push_role acc) \<le> n \<and>
       (\<forall>r \<in> set rules. rule_applies ref_name r \<longrightarrow> role_level (pr_push_role r) \<le> n))"
  using assms
proof (induction rules arbitrary: acc)
  case (Cons rule rules)
  have m: "pattern_matches (pr_pattern rule) ref_name = Some (rule_applies ref_name rule)"
    using Cons.prems by (simp add: rule_wf_def rule_applies_def pattern_matches_spec)
  define acc' where "acc' = (if rule_applies ref_name rule then
     \<lparr>ef_push_role = (case pr_push_role rule of
              Some role \<Rightarrow> stricter (ef_push_role acc) role | None \<Rightarrow> ef_push_role acc),
          ef_no_force_push = ef_no_force_push acc \<or> pr_no_force_push rule,
          ef_no_delete = ef_no_delete acc \<or> pr_no_delete rule,
          ef_require_patch = ef_require_patch acc \<or> pr_require_patch rule,
          ef_has_explicit_match = True\<rparr> else acc)"
  have step: "for_ref_loop ref_name (rule # rules) acc = for_ref_loop ref_name rules acc'"
    by (simp add: m acc'_def)
  have level: "role_level (ef_push_role acc') \<le> n \<longleftrightarrow> role_level (ef_push_role acc) \<le> n \<and>
      (rule_applies ref_name rule \<longrightarrow> role_level (pr_push_role rule) \<le> n)" for n
    by (auto simp: acc'_def role_level_stricter role_level_def [of "pr_push_role rule"] split: option.split)
  from Cons.IH [of acc'] Cons.prems obtain eff where eff: "for_ref_loop ref_name rules acc' = Some eff"
    "ef_has_explicit_match eff \<longleftrightarrow> ef_has_explicit_match acc' \<or> (\<exists>r \<in> set rules. rule_applies ref_name r)"
    "ef_no_force_push eff \<longleftrightarrow> ef_no_force_push acc' \<or> (\<exists>r \<in> set rules. rule_applies ref_name r \<and> pr_no_force_push r)"
    "ef_no_delete eff \<longleftrightarrow> ef_no_delete acc' \<or> (\<exists>r \<in> set rules. rule_applies ref_name r \<and> pr_no_delete r)"
    "ef_require_patch eff \<longleftrightarrow> ef_require_patch acc' \<or> (\<exists>r \<in> set rules. rule_applies ref_name r \<and> pr_require_patch r)"
    "\<forall>n. role_level (ef_push_role eff) \<le> n \<longleftrightarrow> role_level (ef_push_role acc') \<le> n \<and>
       (\<forall>r \<in> set rules. rule_applies ref_name r \<longrightarrow> role_level (pr_push_role r) \<le> n)"
    by auto
  show ?case
    unfolding step
  proof (intro exI [of _ eff] conjI)
    show "for_ref_loop ref_name rules acc' = Some eff" by (rule eff(1))
    show "\<forall>n. role_level (ef_push_role eff) \<le> n \<longleftrightarrow> role_level (ef_push_role acc) \<le> n \<and>
       (\<forall>r \<in> set (rule # rules). rule_applies ref_name r \<longrightarrow> role_level (pr_push_role r) \<le> n)"
      using eff(6) level by simp
  qed (use eff(2-5) in \<open>auto simp: acc'_def\<close>)
qed simp


lemma permission_le_required_role:
  "permission_level (required_role u eff) \<le> n \<longleftrightarrow>
    permission_level (default_min_role (ru_ref_name u) (ru_kind u)) \<le> n \<and> role_level (ef_push_role eff) \<le> n"
  by (auto simp: required_role_def Let_def role_level_def split: option.splits)

text \<open>What the policy promises for one update, rule by rule.\<close>

definition update_allowed :: "protection_rule list \<Rightarrow> member_role \<Rightarrow> ref_update \<Rightarrow> bool" where
  "update_allowed rules role u \<longleftrightarrow>
    has_at_least role (default_min_role (ru_ref_name u) (ru_kind u)) \<and>
    list_all (\<lambda>r. rule_applies (ru_ref_name u) r \<longrightarrow>
      \<not> pr_require_patch r \<and>
      (case pr_push_role r of None \<Rightarrow> True | Some required \<Rightarrow> has_at_least role required) \<and>
      \<not> (pr_no_force_push r \<and> ru_kind u = NonFastForward) \<and>
      \<not> (pr_no_delete r \<and> ru_kind u = Delete)) rules"

lemma role_level_le_iff:
  "role_level r \<le> permission_level role \<longleftrightarrow> (case r of None \<Rightarrow> True | Some required \<Rightarrow> has_at_least role required)"
  by (auto simp: role_level_def has_at_least_def split: option.splits)

lemma evaluate_ref_update_spec:
  assumes "\<forall>r \<in> set rules. rule_wf r"
  shows "\<exists>res. evaluate_ref_update u role rules = Some res \<and>
    (res = Inr () \<longleftrightarrow> update_allowed rules role u) \<and>
    (\<forall>dn. res = Inl dn \<longrightarrow> dn_ref_name dn = ru_ref_name u)"
proof -
  obtain eff where eff: "for_ref (ru_ref_name u) rules = Some eff"
    "ef_has_explicit_match eff \<longleftrightarrow> (\<exists>r \<in> set rules. rule_applies (ru_ref_name u) r)"
    "ef_no_force_push eff \<longleftrightarrow> (\<exists>r \<in> set rules. rule_applies (ru_ref_name u) r \<and> pr_no_force_push r)"
    "ef_no_delete eff \<longleftrightarrow> (\<exists>r \<in> set rules. rule_applies (ru_ref_name u) r \<and> pr_no_delete r)"
    "ef_require_patch eff \<longleftrightarrow> (\<exists>r \<in> set rules. rule_applies (ru_ref_name u) r \<and> pr_require_patch r)"
    "\<And>n. role_level (ef_push_role eff) \<le> n \<longleftrightarrow>
       (\<forall>r \<in> set rules. rule_applies (ru_ref_name u) r \<longrightarrow> role_level (pr_push_role r) \<le> n)"
    using for_ref_loop_spec [OF assms, of "ru_ref_name u" no_rules]
    by (auto simp: for_ref_def no_rules_def role_level_def)
  have allowed: "update_allowed rules role u \<longleftrightarrow>
      permission_level (required_role u eff) \<le> permission_level role \<and> \<not> ef_require_patch eff \<and>
      \<not> (ef_no_force_push eff \<and> ru_kind u = NonFastForward) \<and> \<not> (ef_no_delete eff \<and> ru_kind u = Delete)"
    unfolding update_allowed_def permission_le_required_role role_level_le_iff [symmetric] eff(3-6)
      list_all_iff has_at_least_def by blast
  show ?thesis
  proof (cases "ef_has_explicit_match eff")
    case True
    then show ?thesis
      by (simp add: evaluate_ref_update_def eff(1) allowed Let_def has_at_least_def)
  next
    case False
    then have "update_allowed rules role u \<longleftrightarrow>
        has_at_least role (default_min_role (ru_ref_name u) (ru_kind u))"
      using eff(2) by (auto simp: update_allowed_def list_all_iff)
    then show ?thesis
      using False by (simp add: evaluate_ref_update_def eff(1) Let_def)
  qed
qed

lemma collect_denials_spec:
  assumes "\<forall>r \<in> set rules. rule_wf r"
  shows "\<exists>ds. collect_denials us role rules = Some ds \<and>
    map dn_ref_name ds = map ru_ref_name (filter (\<lambda>u. \<not> update_allowed rules role u) us)"
proof (induction us)
  case (Cons u us)
  from evaluate_ref_update_spec [OF assms, of u role] obtain res where res:
    "evaluate_ref_update u role rules = Some res" "res = Inr () \<longleftrightarrow> update_allowed rules role u"
    "\<And>dn. res = Inl dn \<Longrightarrow> dn_ref_name dn = ru_ref_name u"
    by auto
  from Cons obtain ds where "collect_denials us role rules = Some ds"
    "map dn_ref_name ds = map ru_ref_name (filter (\<lambda>u. \<not> update_allowed rules role u) us)"
    by auto
  with res show ?case
    by (cases res) auto
qed simp

lemma evaluate_push_spec:
  assumes "\<forall>r \<in> set rules. rule_wf r"
  shows "\<exists>res. evaluate_push us role rules = Some res \<and>
    (res = Inr () \<longleftrightarrow> list_all (update_allowed rules role) us) \<and>
    (\<forall>ds. res = Inl ds \<longrightarrow>
      map dn_ref_name ds = map ru_ref_name (filter (\<lambda>u. \<not> update_allowed rules role u) us))"
proof -
  obtain ds where ds: "collect_denials us role rules = Some ds"
    "map dn_ref_name ds = map ru_ref_name (filter (\<lambda>u. \<not> update_allowed rules role u) us)"
    using collect_denials_spec [OF assms] by blast
  have "ds = [] \<longleftrightarrow> list_all (update_allowed rules role) us"
    using ds(2) by (metis (mono_tags, lifting) Nil_is_map_conv filter_empty_conv list_all_iff)
  with ds show ?thesis by (simp add: evaluate_push_def)
qed

lemma update_allowed_antimono:
  "set rules \<subseteq> set rules' \<Longrightarrow> update_allowed rules' role u \<Longrightarrow> update_allowed rules role u"
  unfolding update_allowed_def list_all_iff by blast

lemma update_allowed_role_mono:
  assumes "has_at_least role' role" and "update_allowed rules role u"
  shows "update_allowed rules role' u"
proof -
  have up: "has_at_least role required \<Longrightarrow> has_at_least role' required" for required
    using assms(1) by (simp add: has_at_least_def)
  show ?thesis
    using assms(2) unfolding update_allowed_def list_all_iff by (auto dest: up split: option.splits)
qed

section \<open>Properties\<close>

text \<open>
  A pattern that parses never reaches the \<open>unreachable!()\<close> arms, on any ref name: matching decides
  exactly the segment-wise relation, where \<open>*\<close> stands for one segment and a final \<open>**\<close> for one or more.
  A parsed pattern has at most \<open>MAX_WILDCARDS_PER_PATTERN\<close> wildcards and at most \<open>MAX_PATTERN_LENGTH\<close>
  bytes, keeps its text, and has one segment per part of it.
\<close>

theorem pattern_match_spec:
  assumes "pattern_parse s = Inr p"
  shows "pattern_matches p r = Some (segments_match (rp_segments p) (split_char CHR ''/'' r)) \<and>
    length (filter (\<lambda>x. x = Wildcard \<or> x = RecursiveWildcard) (rp_segments p)) \<le> max_wildcards_per_pattern \<and>
    length (rp_raw p) \<le> max_pattern_length \<and> rp_raw p = s \<and>
    length (rp_segments p) = length (split_char CHR ''/'' s)"
proof -
  have "length (rp_raw p) \<le> max_pattern_length" "length (rp_segments p) = length (split_char CHR ''/'' s)"
    using assms parse_segments_shape [of "split_char CHR ''/'' s" 0]
    by (auto simp: pattern_parse_def split: if_splits sum.splits)
  with pattern_parse_wf [OF assms] show ?thesis
    by (simp add: pattern_matches_spec)
qed

definition sample_pattern :: ref_pattern where
  "sample_pattern = \<lparr>rp_raw = ''refs/heads/**'', rp_segments = [Literal ''refs'', Literal ''heads'', RecursiveWildcard]\<rparr>"

theorem pattern_match_spec_witness:
  "pattern_parse ''refs/heads/**'' = Inr sample_pattern \<and>
   pattern_matches sample_pattern ''refs/heads/a/b'' = Some True \<and>
   pattern_matches sample_pattern ''refs/heads'' = Some False"
proof -
  have p: "pattern_parse ''refs/heads/**'' = Inr sample_pattern" by code_simp
  have "segments_match (rp_segments sample_pattern) (split_char CHR ''/'' ''refs/heads/a/b'')"
    "\<not> segments_match (rp_segments sample_pattern) (split_char CHR ''/'' ''refs/heads'')"
    by code_simp+
  with p pattern_match_spec [OF p, of "''refs/heads/a/b''"] pattern_match_spec [OF p, of "''refs/heads''"]
  show ?thesis by simp
qed

text \<open>
  C18. The push policy under the protection tags of a repository, once they parse. The decision never
  panics, whatever the refs. A push is allowed exactly when every one of its updates is: the
  pusher has the built-in minimum role, and every rule whose pattern matches the ref neither requires a
  patch, nor asks for a higher role, nor forbids this force push or deletion. A denied push lists
  the refs of the refused updates, in order, and at most \<open>MAX_PROTECTION_RULES\<close> rules are in force.
\<close>

theorem push_policy_spec:
  assumes "parse_protection_tags tags = Inr pp"
  shows "\<exists>res. evaluate_push us role (pp_rules pp) = Some res \<and>
    (res = Inr () \<longleftrightarrow> list_all (update_allowed (pp_rules pp) role) us) \<and>
    (\<forall>ds. res = Inl ds \<longrightarrow>
      map dn_ref_name ds = map ru_ref_name (filter (\<lambda>u. \<not> update_allowed (pp_rules pp) role u) us)) \<and>
    length (pp_rules pp) \<le> max_protection_rules"
  using parse_tags_loop_wf [OF assms [unfolded parse_protection_tags_def]]
    evaluate_push_spec [of "pp_rules pp" us role]
  by auto

definition sample_tags :: "string list list" where
  "sample_tags = [[''name'', ''repo''], [''buzz-protect'', ''refs/heads/main'', ''push:admin'', ''no-force-push'']]"

definition sample_protection :: parsed_protection where
  "sample_protection = \<lparr>pp_rules = [\<lparr>pr_pattern = \<lparr>rp_raw = ''refs/heads/main'',
       rp_segments = [Literal ''refs'', Literal ''heads'', Literal ''main'']\<rparr>,
     pr_push_role = Some Admin, pr_no_force_push = True, pr_no_delete = False, pr_require_patch = False\<rparr>],
   pp_unknown_rules = []\<rparr>"

definition sample_force_push :: ref_update where
  "sample_force_push = \<lparr>ru_ref_name = ''refs/heads/main'', ru_kind = NonFastForward, ru_old_oid = ''a'', ru_new_oid = ''b''\<rparr>"

lemmas sample_git_defs = sample_tags_def sample_protection_def sample_force_push_def

theorem push_policy_spec_witness:
  "parse_protection_tags sample_tags = Inr sample_protection \<and>
   evaluate_push [sample_force_push\<lparr>ru_kind := FastForward\<rparr>] Admin (pp_rules sample_protection) = Some (Inr ()) \<and>
   (\<exists>ds. evaluate_push [sample_force_push] Owner (pp_rules sample_protection) = Some (Inl ds) \<and>
     map dn_ref_name ds = [''refs/heads/main''])"
proof -
  have p: "parse_protection_tags sample_tags = Inr sample_protection" by code_simp
  have a: "update_allowed (pp_rules sample_protection) Admin (sample_force_push\<lparr>ru_kind := FastForward\<rparr>)"
    and b: "\<not> update_allowed (pp_rules sample_protection) Owner sample_force_push"
    and c: "ru_ref_name sample_force_push = ''refs/heads/main''"
    by code_simp+
  from push_policy_spec [OF p, of "[sample_force_push\<lparr>ru_kind := FastForward\<rparr>]" Admin] a
  have A: "evaluate_push [sample_force_push\<lparr>ru_kind := FastForward\<rparr>] Admin (pp_rules sample_protection) = Some (Inr ())"
    by auto
  from push_policy_spec [OF p, of "[sample_force_push]" Owner] b
  obtain res where res: "evaluate_push [sample_force_push] Owner (pp_rules sample_protection) = Some res"
    "res \<noteq> Inr ()" "\<forall>ds. res = Inl ds \<longrightarrow> map dn_ref_name ds = [ru_ref_name sample_force_push]"
    by auto
  then have "\<exists>ds. evaluate_push [sample_force_push] Owner (pp_rules sample_protection) = Some (Inl ds) \<and>
     map dn_ref_name ds = [''refs/heads/main'']"
    using c by (cases res) auto
  with p A show ?thesis by blast
qed

text \<open>
  Protection only restricts. A push that the tags of a repository allow is allowed when some of
  the rules are removed, in particular under the built-in defaults alone, and when the pusher's role is raised: no
  \<open>push:\<close> rule weakens the built-in minimum, and no combination of rules lets a lower role do
  what a higher one cannot.
\<close>

theorem protection_only_restricts:
  assumes "parse_protection_tags tags = Inr pp" and "set rules \<subseteq> set (pp_rules pp)"
    and "has_at_least role' role" and "evaluate_push us role (pp_rules pp) = Some (Inr ())"
  shows "evaluate_push us role' rules = Some (Inr ())"
proof -
  have wf: "\<forall>r \<in> set (pp_rules pp). rule_wf r"
    using parse_tags_loop_wf [OF assms(1) [unfolded parse_protection_tags_def]] by simp
  have "list_all (update_allowed (pp_rules pp) role) us"
    using evaluate_push_spec [OF wf, of us role] assms(4) by auto
  then have "list_all (update_allowed rules role') us"
    using update_allowed_antimono [OF assms(2)] update_allowed_role_mono [OF assms(3)]
    by (auto simp: list_all_iff)
  with evaluate_push_spec [of rules us role'] wf assms(2) show ?thesis
    by auto
qed

theorem protection_only_restricts_witness:
  "parse_protection_tags sample_tags = Inr sample_protection \<and>
   evaluate_push [sample_force_push\<lparr>ru_kind := FastForward\<rparr>] Admin (pp_rules sample_protection) = Some (Inr ()) \<and>
   evaluate_push [sample_force_push\<lparr>ru_kind := FastForward\<rparr>] Owner [] = Some (Inr ())"
proof -
  have p: "parse_protection_tags sample_tags = Inr sample_protection"
    and a: "evaluate_push [sample_force_push\<lparr>ru_kind := FastForward\<rparr>] Admin (pp_rules sample_protection) = Some (Inr ())"
    and r: "has_at_least Owner Admin"
    by code_simp+
  from protection_only_restricts [OF p _ r a, of "[]"] p a show ?thesis by simp
qed

end
