(* ===== verification/Acp_Queue.thy ===== *)
theory Acp_Queue
  imports Complex_Main Nostr_Filter "HOL-Library.Multiset"
begin

text \<open>
  \<open>crates/buzz-acp/src/queue.rs\<close>, the event queue between the relay and the agents: per-channel queues
  with in-flight tracking, retry with backoff, cancelled batches and events withheld while a steer is
  under way. A hash map is an association list with distinct keys; no theorem depends on its
  order. \<open>Instant\<close> and \<open>Duration\<close> are numbers of nanoseconds, and every operation that reads the clock takes
  the time as an argument. Logging is left out. The jitter, floating-point in the source, is exact
  rational arithmetic.
\<close>

section \<open>Definitions\<close>

type_synonym instant = nat
type_synonym duration = nat

definition duration_from_secs :: "nat \<Rightarrow> duration" where
  "duration_from_secs s = s * 1000000000"

definition max_pending_per_channel :: nat where
  "max_pending_per_channel = 500"

definition max_batch_events :: nat where
  "max_batch_events = 50"

definition max_retries :: nat where
  "max_retries = 10"

definition base_retry_delay_secs :: nat where
  "base_retry_delay_secs = 5"

definition max_retry_delay_secs :: nat where
  "max_retry_delay_secs = 300"

definition in_flight_deadline_buffer_secs :: nat where
  "in_flight_deadline_buffer_secs = 100"

definition default_in_flight_deadline_secs :: nat where
  "default_in_flight_deadline_secs = 7300"

datatype dedup = Drop | Queue

record queued_event =
  qe_channel_id :: uuid
  qe_event :: nostr_event
  qe_received_at :: instant
  qe_prompt_tag :: string

record batch_event =
  be_event :: nostr_event
  be_prompt_tag :: string
  be_received_at :: instant

datatype cancel_reason = Interrupt | Steer

record flush_batch =
  fb_channel_id :: uuid
  fb_events :: "batch_event list"
  fb_cancelled_events :: "batch_event list"
  fb_cancel_reason :: "cancel_reason option"

record event_queue =
  queues :: "(uuid \<times> queued_event list) list"
  in_flight_channels :: "uuid set"
  in_flight_deadlines :: "(uuid \<times> instant) list"
  in_flight_batch_sizes :: "(uuid \<times> nat) list"
  retry_after :: "(uuid \<times> instant) list"
  retry_counts :: "(uuid \<times> nat) list"
  dedup_mode :: dedup
  cancelled_batches :: "(uuid \<times> batch_event list) list"
  cancel_reasons :: "(uuid \<times> cancel_reason) list"
  withheld_native_steer :: "(uuid \<times> queued_event list) list"
  in_flight_deadline :: duration

definition event_queue_new :: "dedup \<Rightarrow> event_queue" where
  "event_queue_new mode =
    \<lparr>queues = [], in_flight_channels = {}, in_flight_deadlines = [], in_flight_batch_sizes = [],
     retry_after = [], retry_counts = [], dedup_mode = mode, cancelled_batches = [], cancel_reasons = [],
     withheld_native_steer = [], in_flight_deadline = duration_from_secs default_in_flight_deadline_secs\<rparr>"

definition event_queue_default :: event_queue where
  "event_queue_default = event_queue_new Drop"

definition with_in_flight_deadline :: "nat \<Rightarrow> event_queue \<Rightarrow> event_queue" where
  "with_in_flight_deadline max_turn_duration_secs q =
    q\<lparr>in_flight_deadline := duration_from_secs (max_turn_duration_secs + in_flight_deadline_buffer_secs)\<rparr>"

definition extend_in_flight_deadline :: "instant \<Rightarrow> uuid \<Rightarrow> nat \<Rightarrow> event_queue \<Rightarrow> event_queue" where
  "extend_in_flight_deadline now ch max_turn_secs q =
    (case map_of (in_flight_deadlines q) ch of
       None \<Rightarrow> q
     | Some current \<Rightarrow>
         let extended = now + duration_from_secs (max_turn_secs + in_flight_deadline_buffer_secs)
         in if extended > current
            then q\<lparr>in_flight_deadlines := AList.update ch extended (in_flight_deadlines q)\<rparr>
            else q)"

text \<open>\<open>entry(\<dots>).or_default()\<close> on a map of lists.\<close>

definition entries :: "('k \<times> 'a list) list \<Rightarrow> 'k \<Rightarrow> 'a list" where
  "entries m k = (case map_of m k of Some xs \<Rightarrow> xs | None \<Rightarrow> [])"

definition push :: "queued_event \<Rightarrow> event_queue \<Rightarrow> bool \<times> event_queue" where
  "push e q =
    (if dedup_mode q = Drop \<and> qe_channel_id e \<in> in_flight_channels q then (False, q)
     else
       let queue = entries (queues q) (qe_channel_id e);
           queue1 = (if length queue \<ge> max_pending_per_channel then tl queue else queue)
       in (True, q\<lparr>queues := AList.update (qe_channel_id e) (queue1 @ [e]) (queues q)\<rparr>))"

text \<open>\<open>push_front\<close> in reverse order followed by \<open>pop_back\<close> down to the cap.\<close>

definition push_front_capped :: "uuid \<Rightarrow> queued_event list \<Rightarrow> event_queue \<Rightarrow> event_queue" where
  "push_front_capped ch es q =
    (let queue = foldl (\<lambda>queue e. e # queue) (entries (queues q) ch) (rev es)
     in q\<lparr>queues := AList.update ch (take max_pending_per_channel queue) (queues q)\<rparr>)"

definition recover_withheld_for_expired_channel :: "uuid \<Rightarrow> event_queue \<Rightarrow> event_queue" where
  "recover_withheld_for_expired_channel ch q =
    (case map_of (withheld_native_steer q) ch of
       None \<Rightarrow> q
     | Some es \<Rightarrow> push_front_capped ch es (q\<lparr>withheld_native_steer := AList.delete ch (withheld_native_steer q)\<rparr>))"

definition expire_one :: "event_queue \<Rightarrow> uuid \<Rightarrow> event_queue" where
  "expire_one q ch =
    recover_withheld_for_expired_channel ch
      (q\<lparr>in_flight_batch_sizes := AList.delete ch (in_flight_batch_sizes q),
         in_flight_channels := in_flight_channels q - {ch},
         in_flight_deadlines := AList.delete ch (in_flight_deadlines q)\<rparr>)"

definition expire_in_flight :: "instant \<Rightarrow> event_queue \<Rightarrow> event_queue" where
  "expire_in_flight now q =
    foldl expire_one q (map fst (filter (\<lambda>(_, deadline). now \<ge> deadline) (in_flight_deadlines q)))"

definition flushable :: "instant \<Rightarrow> event_queue \<Rightarrow> uuid \<times> queued_event list \<Rightarrow> bool" where
  "flushable now q e =
    (snd e \<noteq> [] \<and> fst e \<notin> in_flight_channels q \<and>
     (case map_of (retry_after q) (fst e) of None \<Rightarrow> True | Some t \<Rightarrow> t \<le> now))"

text \<open>\<open>min_by_key\<close>: the first of the entries with the least key.\<close>

fun min_by_key :: "('a \<Rightarrow> nat) \<Rightarrow> 'a list \<Rightarrow> 'a option" where
  "min_by_key key [] = None"
| "min_by_key key (x # xs) =
    (case min_by_key key xs of
       None \<Rightarrow> Some x
     | Some y \<Rightarrow> if key y < key x then Some y else Some x)"

definition batch_of :: "queued_event \<Rightarrow> batch_event" where
  "batch_of e = \<lparr>be_event = qe_event e, be_prompt_tag = qe_prompt_tag e, be_received_at = qe_received_at e\<rparr>"

definition queued_of :: "uuid \<Rightarrow> batch_event \<Rightarrow> queued_event" where
  "queued_of ch b = \<lparr>qe_channel_id = ch, qe_event = be_event b, qe_received_at = be_received_at b,
     qe_prompt_tag = be_prompt_tag b\<rparr>"

definition mark_in_flight :: "instant \<Rightarrow> uuid \<Rightarrow> nat \<Rightarrow> event_queue \<Rightarrow> event_queue" where
  "mark_in_flight now ch n q =
    q\<lparr>in_flight_channels := insert ch (in_flight_channels q),
      in_flight_deadlines := AList.update ch (now + in_flight_deadline q) (in_flight_deadlines q),
      in_flight_batch_sizes := AList.update ch n (in_flight_batch_sizes q)\<rparr>"

definition flush_cancelled :: "instant \<Rightarrow> event_queue \<Rightarrow> flush_batch option \<times> event_queue" where
  "flush_cancelled now q =
    (case find (\<lambda>ch. ch \<notin> in_flight_channels q) (map fst (cancelled_batches q)) of
       None \<Rightarrow> (None, q)
     | Some ch \<Rightarrow>
         let cancelled = entries (cancelled_batches q) ch
         in (Some \<lparr>fb_channel_id = ch, fb_events = cancelled, fb_cancelled_events = [],
               fb_cancel_reason = map_of (cancel_reasons q) ch\<rparr>,
             mark_in_flight now ch (length cancelled)
               (q\<lparr>cancelled_batches := AList.delete ch (cancelled_batches q),
                  cancel_reasons := AList.delete ch (cancel_reasons q)\<rparr>)))"

definition flush_queue :: "instant \<Rightarrow> uuid \<Rightarrow> event_queue \<Rightarrow> flush_batch \<times> event_queue" where
  "flush_queue now ch q =
    (let queue = entries (queues q) ch;
         drain_count = min max_batch_events (length queue);
         events = sort_key (\<lambda>b. ev_created_at (be_event b)) (map batch_of (take drain_count queue));
         rest = drop drain_count queue;
         cancelled_events = entries (cancelled_batches q) ch;
         cancel_reason = (if cancelled_events = [] then None else map_of (cancel_reasons q) ch)
     in (\<lparr>fb_channel_id = ch, fb_events = events, fb_cancelled_events = cancelled_events,
           fb_cancel_reason = cancel_reason\<rparr>,
         mark_in_flight now ch (length events)
           (q\<lparr>queues := (if rest = [] then AList.delete ch (queues q) else AList.update ch rest (queues q)),
              cancelled_batches := AList.delete ch (cancelled_batches q),
              cancel_reasons := AList.delete ch (cancel_reasons q)\<rparr>)))"

definition flush_next :: "instant \<Rightarrow> event_queue \<Rightarrow> flush_batch option \<times> event_queue" where
  "flush_next now q =
    (let q1 = expire_in_flight now q
     in case min_by_key (\<lambda>e. qe_received_at (hd (snd e))) (filter (flushable now q1) (queues q1)) of
          None \<Rightarrow> flush_cancelled now q1
        | Some (ch, _) \<Rightarrow> (case flush_queue now ch q1 of (b, q2) \<Rightarrow> (Some b, q2)))"

definition mark_complete :: "instant \<Rightarrow> uuid \<Rightarrow> event_queue \<Rightarrow> event_queue" where
  "mark_complete now ch q =
    (let q1 = q\<lparr>in_flight_channels := in_flight_channels q - {ch},
                in_flight_deadlines := AList.delete ch (in_flight_deadlines q),
                in_flight_batch_sizes := AList.delete ch (in_flight_batch_sizes q)\<rparr>
     in case map_of (retry_after q) ch of
          Some deadline \<Rightarrow>
            if deadline > now then q1
            else q1\<lparr>retry_after := AList.delete ch (retry_after q), retry_counts := AList.delete ch (retry_counts q)\<rparr>
        | None \<Rightarrow> q1\<lparr>retry_counts := AList.delete ch (retry_counts q)\<rparr>)"

text \<open>The backoff before attempt \<open>attempt + 1\<close>, and the jittered delay; \<open>nanos\<close> is the subsecond part of the system time.\<close>

definition capped_secs :: "nat \<Rightarrow> nat" where
  "capped_secs attempt = min (base_retry_delay_secs * 2 ^ min (attempt - 1) 6) max_retry_delay_secs"

definition jitter :: "nat \<Rightarrow> rat" where
  "jitter nanos = 4 / 5 + (of_nat nanos / 4294967295) * (2 / 5)"

definition retry_delay :: "nat \<Rightarrow> nat \<Rightarrow> duration" where
  "retry_delay attempt nanos = nat \<lfloor>of_nat (duration_from_secs (capped_secs attempt)) * jitter nanos\<rfloor>"

definition requeue :: "instant \<Rightarrow> nat \<Rightarrow> flush_batch \<Rightarrow> event_queue \<Rightarrow> flush_batch option \<times> event_queue" where
  "requeue now nanos batch q =
    (let ch = fb_channel_id batch;
         attempt = (case map_of (retry_counts q) ch of Some n \<Rightarrow> n | None \<Rightarrow> 0) + 1;
         q1 = q\<lparr>retry_counts := AList.update ch attempt (retry_counts q)\<rparr>
     in if attempt > max_retries
        then (Some batch, q1\<lparr>retry_counts := AList.delete ch (retry_counts q1), retry_after := AList.delete ch (retry_after q1)\<rparr>)
        else
          let q2 = push_front_capped ch (map (queued_of ch) (fb_events batch)) q1
          in (None, q2\<lparr>retry_after := AList.update ch (now + retry_delay attempt nanos) (retry_after q2)\<rparr>))"

definition requeue_preserve_timestamps :: "flush_batch \<Rightarrow> event_queue \<Rightarrow> event_queue" where
  "requeue_preserve_timestamps batch q =
    push_front_capped (fb_channel_id batch) (map (queued_of (fb_channel_id batch)) (fb_events batch)) q"

definition requeue_as_cancelled :: "flush_batch \<Rightarrow> cancel_reason \<Rightarrow> event_queue \<Rightarrow> event_queue" where
  "requeue_as_cancelled batch reason q =
    (let ch = fb_channel_id batch
     in q\<lparr>cancelled_batches := AList.update ch
            (entries (cancelled_batches q) ch @ fb_cancelled_events batch @ fb_events batch) (cancelled_batches q),
          cancel_reasons := AList.update ch reason (cancel_reasons q)\<rparr>)"

definition has_flushable_work :: "instant \<Rightarrow> event_queue \<Rightarrow> bool \<times> event_queue" where
  "has_flushable_work now q =
    (let q1 = expire_in_flight now q
     in (list_ex (flushable now q1) (queues q1) \<or>
         list_ex (\<lambda>ch. ch \<notin> in_flight_channels q1) (map fst (cancelled_batches q1)), q1))"

definition has_undispatched_work :: "event_queue \<Rightarrow> bool" where
  "has_undispatched_work q =
    (let has_queued = list_ex (\<lambda>(ch, es). es \<noteq> [] \<and> ch \<notin> in_flight_channels q) (queues q);
         has_cancelled = list_ex (\<lambda>ch. ch \<notin> in_flight_channels q) (map fst (cancelled_batches q));
         has_withheld = list_ex (\<lambda>(ch, es). es \<noteq> [] \<and> ch \<notin> in_flight_channels q) (withheld_native_steer q)
     in has_queued \<or> has_cancelled \<or> has_withheld)"

definition pending_channels :: "event_queue \<Rightarrow> nat" where
  "pending_channels q = length (queues q)"

definition drain_channel :: "uuid \<Rightarrow> event_queue \<Rightarrow> string list \<times> event_queue" where
  "drain_channel ch q =
    (map (\<lambda>e. to_hex (ev_id (qe_event e))) (entries (queues q) ch),
     q\<lparr>queues := AList.delete ch (queues q),
       retry_after := AList.delete ch (retry_after q),
       retry_counts := AList.delete ch (retry_counts q),
       cancelled_batches := AList.delete ch (cancelled_batches q),
       cancel_reasons := AList.delete ch (cancel_reasons q),
       withheld_native_steer := AList.delete ch (withheld_native_steer q)\<rparr>)"

definition is_channel_in_flight :: "uuid \<Rightarrow> event_queue \<Rightarrow> bool" where
  "is_channel_in_flight ch q \<longleftrightarrow> ch \<in> in_flight_channels q"

definition has_in_flight :: "event_queue \<Rightarrow> bool" where
  "has_in_flight q \<longleftrightarrow> in_flight_channels q \<noteq> {}"

definition has_id :: "string \<Rightarrow> queued_event \<Rightarrow> bool" where
  "has_id event_id e \<longleftrightarrow> to_hex (ev_id (qe_event e)) = event_id"

text \<open>The first element that satisfies a predicate, with the list without it.\<close>

fun take_out :: "('a \<Rightarrow> bool) \<Rightarrow> 'a list \<Rightarrow> ('a \<times> 'a list) option" where
  "take_out p [] = None"
| "take_out p (x # xs) =
    (if p x then Some (x, xs) else (case take_out p xs of None \<Rightarrow> None | Some (y, ys) \<Rightarrow> Some (y, x # ys)))"

text \<open>A list put back under its key, or the key removed when the list is empty.\<close>

definition put_or_remove :: "'k \<Rightarrow> 'a list \<Rightarrow> ('k \<times> 'a list) list \<Rightarrow> ('k \<times> 'a list) list" where
  "put_or_remove k xs m = (if xs = [] then AList.delete k m else AList.update k xs m)"

definition mark_native_steer_pending :: "uuid \<Rightarrow> string \<Rightarrow> event_queue \<Rightarrow> bool \<times> event_queue" where
  "mark_native_steer_pending ch event_id q =
    (case map_of (queues q) ch of
       None \<Rightarrow> (False, q)
     | Some es \<Rightarrow>
         (case take_out (has_id event_id) es of
            None \<Rightarrow> (False, q)
          | Some (e, rest) \<Rightarrow>
              (True, q\<lparr>queues := put_or_remove ch rest (queues q),
                 withheld_native_steer := AList.update ch (entries (withheld_native_steer q) ch @ [e])
                   (withheld_native_steer q)\<rparr>)))"

definition release_native_steer :: "uuid \<Rightarrow> string \<Rightarrow> event_queue \<Rightarrow> event_queue" where
  "release_native_steer ch event_id q =
    (case map_of (withheld_native_steer q) ch of
       None \<Rightarrow> q
     | Some es \<Rightarrow>
         (case take_out (has_id event_id) es of
            None \<Rightarrow> q
          | Some (e, rest) \<Rightarrow>
              push_front_capped ch [e] (q\<lparr>withheld_native_steer := put_or_remove ch rest (withheld_native_steer q)\<rparr>)))"

definition retain_others :: "uuid \<Rightarrow> string \<Rightarrow> (uuid \<times> queued_event list) list \<Rightarrow> (uuid \<times> queued_event list) list" where
  "retain_others ch event_id m =
    (case map_of m ch of
       None \<Rightarrow> m
     | Some es \<Rightarrow> put_or_remove ch (filter (\<lambda>e. \<not> has_id event_id e) es) m)"

definition remove_event :: "uuid \<Rightarrow> string \<Rightarrow> event_queue \<Rightarrow> event_queue" where
  "remove_event ch event_id q =
    q\<lparr>withheld_native_steer := retain_others ch event_id (withheld_native_steer q),
      queues := retain_others ch event_id (queues q)\<rparr>"

definition compact_expired_state :: "instant \<Rightarrow> event_queue \<Rightarrow> event_queue" where
  "compact_expired_state now q =
    (let ra = filter (\<lambda>(_, deadline). deadline > now) (retry_after q)
     in q\<lparr>retry_after := ra,
          retry_counts := filter (\<lambda>(ch, _).
            map_of ra ch \<noteq> None \<or> entries (queues q) ch \<noteq> [] \<or> ch \<in> in_flight_channels q) (retry_counts q)\<rparr>)"


section \<open>Maps of lists\<close>

lemma entries_update [simp]: "entries (AList.update k xs m) k' = (if k' = k then xs else entries m k')"
  by (simp add: entries_def update_conv')

lemma entries_delete [simp]: "entries (AList.delete k m) k' = (if k' = k then [] else entries m k')"
  by (simp add: entries_def delete_conv')

lemma entries_put_or_remove [simp]: "entries (put_or_remove k xs m) k' = (if k' = k then xs else entries m k')"
  by (simp add: put_or_remove_def)

lemma entries_Nil [simp]: "entries [] k = []"
  by (simp add: entries_def)

lemma entries_mem: "distinct (map fst m) \<Longrightarrow> (k, xs) \<in> set m \<Longrightarrow> entries m k = xs"
  by (simp add: entries_def)

lemma entries_nonempty_mem: "entries m k \<noteq> [] \<Longrightarrow> (k, entries m k) \<in> set m"
  by (auto simp: entries_def dest: map_of_SomeD split: option.splits)

lemma distinct_put_or_remove: "distinct (map fst m) \<Longrightarrow> distinct (map fst (put_or_remove k xs m))"
  by (simp add: put_or_remove_def distinct_update distinct_delete)

lemma entries_retain_others [simp]:
  "entries (retain_others ch i m) ch' =
    (if ch' = ch then filter (\<lambda>e. \<not> has_id i e) (entries m ch) else entries m ch')"
  by (auto simp: retain_others_def entries_def [of m] split: option.splits)

lemma distinct_retain_others: "distinct (map fst m) \<Longrightarrow> distinct (map fst (retain_others ch i m))"
  by (auto simp: retain_others_def distinct_put_or_remove split: option.splits)

lemma foldl_push_front: "foldl (\<lambda>queue e. e # queue) xs (rev es) = es @ xs"
  by (induction es) simp_all

lemma take_out_Some:
  "take_out p xs = Some (y, ys) \<Longrightarrow> \<exists>us vs. xs = us @ y # vs \<and> ys = us @ vs \<and> p y \<and> (\<forall>u \<in> set us. \<not> p u)"
proof (induction xs arbitrary: y ys)
  case (Cons x xs)
  show ?case
  proof (cases "p x")
    case True
    with Cons.prems show ?thesis by (intro exI [of _ "[]"] exI [of _ ys]) simp
  next
    case False
    with Cons.prems obtain zs where z: "take_out p xs = Some (y, zs)" "ys = x # zs"
      by (auto split: option.splits)
    then obtain us vs where "xs = us @ y # vs" "zs = us @ vs" "p y" "\<forall>u \<in> set us. \<not> p u"
      using Cons.IH by blast
    with z(2) False show ?thesis by (intro exI [of _ "x # us"] exI [of _ vs]) simp
  qed
qed simp

lemma take_out_None: "take_out p xs = None \<longleftrightarrow> (\<forall>x \<in> set xs. \<not> p x)"
  by (induction xs) (auto split: option.splits)

lemma min_by_key_None [simp]: "min_by_key key xs = None \<longleftrightarrow> xs = []"
  by (cases xs) (auto split: option.splits)

lemma min_by_key_Some: "min_by_key key xs = Some x \<Longrightarrow> x \<in> set xs \<and> (\<forall>y \<in> set xs. key x \<le> key y)"
proof (induction xs arbitrary: x)
  case (Cons a xs)
  show ?case
  proof (cases "min_by_key key xs")
    case None
    with Cons.prems show ?thesis by simp
  next
    case (Some y)
    with Cons.IH [OF Some] Cons.prems show ?thesis
      by (auto split: if_splits)
  qed
qed simp

section \<open>What a channel holds\<close>

text \<open>The events of a channel the queue still owes to the agent.\<close>

definition held :: "event_queue \<Rightarrow> uuid \<Rightarrow> batch_event multiset" where
  "held q ch = mset (map batch_of (entries (queues q) ch)) + mset (map batch_of (entries (withheld_native_steer q) ch)) +
     mset (entries (cancelled_batches q) ch)"

definition batch_contents :: "flush_batch \<Rightarrow> batch_event multiset" where
  "batch_contents b = mset (fb_events b) + mset (fb_cancelled_events b)"

definition has_room :: "event_queue \<Rightarrow> uuid \<Rightarrow> bool" where
  "has_room q ch \<longleftrightarrow>
    length (entries (queues q) ch) + length (entries (withheld_native_steer q) ch) \<le> max_pending_per_channel"

text \<open>
  The invariant: the three in-flight tables agree, a queue is bounded and holds only events of its
  channel, and no retry counter passes the limit.
\<close>

definition queue_inv :: "event_queue \<Rightarrow> bool" where
  "queue_inv q \<longleftrightarrow>
    distinct (map fst (queues q)) \<and> distinct (map fst (withheld_native_steer q)) \<and>
    distinct (map fst (in_flight_deadlines q)) \<and> distinct (map fst (retry_after q)) \<and>
    distinct (map fst (retry_counts q)) \<and>
    dom (map_of (in_flight_deadlines q)) = in_flight_channels q \<and>
    dom (map_of (in_flight_batch_sizes q)) = in_flight_channels q \<and>
    (\<forall>ch. length (entries (queues q) ch) \<le> max_pending_per_channel) \<and>
    (\<forall>ch. \<forall>e \<in> set (entries (queues q) ch) \<union> set (entries (withheld_native_steer q) ch). qe_channel_id e = ch) \<and>
    (\<forall>ch n. map_of (retry_counts q) ch = Some n \<longrightarrow> n \<le> max_retries)"

lemma queue_invD:
  assumes "queue_inv q"
  shows "distinct (map fst (queues q))" "distinct (map fst (in_flight_deadlines q))"
    "dom (map_of (in_flight_deadlines q)) = in_flight_channels q"
    "length (entries (queues q) ch) \<le> max_pending_per_channel"
    "e \<in> set (entries (queues q) ch) \<Longrightarrow> qe_channel_id e = ch"
    "e \<in> set (entries (withheld_native_steer q) ch) \<Longrightarrow> qe_channel_id e = ch"
    "map_of (retry_counts q) ch = Some n \<Longrightarrow> n \<le> max_retries"
  using assms by (auto simp: queue_inv_def)

lemma push_front_capped_inv:
  assumes "queue_inv q" and "\<forall>e \<in> set es. qe_channel_id e = ch"
  shows "queue_inv (push_front_capped ch es q)"
  using assms by (auto simp: queue_inv_def push_front_capped_def foldl_push_front Let_def distinct_update
      dest!: in_set_takeD)

lemma push_front_capped_simps [simp]:
  "entries (queues (push_front_capped ch es q)) ch' =
    (if ch' = ch then take max_pending_per_channel (es @ entries (queues q) ch) else entries (queues q) ch')"
  "withheld_native_steer (push_front_capped ch es q) = withheld_native_steer q"
  "cancelled_batches (push_front_capped ch es q) = cancelled_batches q"
  "in_flight_channels (push_front_capped ch es q) = in_flight_channels q"
  "in_flight_deadlines (push_front_capped ch es q) = in_flight_deadlines q"
  "in_flight_deadline (push_front_capped ch es q) = in_flight_deadline q"
  "retry_after (push_front_capped ch es q) = retry_after q"
  "retry_counts (push_front_capped ch es q) = retry_counts q"
  "dedup_mode (push_front_capped ch es q) = dedup_mode q"
  "cancel_reasons (push_front_capped ch es q) = cancel_reasons q"
  by (simp_all add: push_front_capped_def Let_def foldl_push_front)


lemma held_push_front_capped:
  assumes "length es + length (entries (queues q) ch) \<le> max_pending_per_channel"
  shows "held (push_front_capped ch es q) ch' = held q ch' + (if ch' = ch then mset (map batch_of es) else {#})"
  using assms by (simp add: held_def)

lemma batch_of_queued_of [simp]: "batch_of (queued_of ch b) = b"
  by (simp add: batch_of_def queued_of_def)

lemma batch_queued_comp [simp]: "batch_of \<circ> queued_of ch = id"
  by (simp add: fun_eq_iff)

lemma map_batch_queued [simp]: "map batch_of (map (queued_of ch) bs) = bs"
  by (induction bs) simp_all

section \<open>Expiry\<close>

lemma expire_one_inv:
  assumes "queue_inv q"
  shows "queue_inv (expire_one q ch)"
proof -
  let ?q = "q\<lparr>in_flight_batch_sizes := AList.delete ch (in_flight_batch_sizes q),
         in_flight_channels := in_flight_channels q - {ch},
         in_flight_deadlines := AList.delete ch (in_flight_deadlines q)\<rparr>"
  have inv: "queue_inv ?q" "queue_inv (?q\<lparr>withheld_native_steer := AList.delete ch (withheld_native_steer q)\<rparr>)"
    using assms by (auto simp: queue_inv_def distinct_delete delete_conv')
  have "\<forall>e \<in> set es. qe_channel_id e = ch" if "map_of (withheld_native_steer q) ch = Some es" for es
    using queue_invD(6) [OF assms] that by (metis entries_def option.simps(5))
  with inv show ?thesis
    by (auto simp: expire_one_def recover_withheld_for_expired_channel_def
        split: option.split intro!: push_front_capped_inv)
qed

lemma expire_one_simps [simp]:
  "in_flight_channels (expire_one q ch) = in_flight_channels q - {ch}"
  "map_of (in_flight_deadlines (expire_one q ch)) = (map_of (in_flight_deadlines q))(ch := None)"
  "in_flight_deadline (expire_one q ch) = in_flight_deadline q"
  "cancelled_batches (expire_one q ch) = cancelled_batches q"
  "cancel_reasons (expire_one q ch) = cancel_reasons q"
  "retry_after (expire_one q ch) = retry_after q"
  "retry_counts (expire_one q ch) = retry_counts q"
  by (simp_all add: expire_one_def recover_withheld_for_expired_channel_def delete_conv' split: option.split)

lemma expire_one_entries:
  assumes "queue_inv q"
  shows "entries (queues (expire_one q ch)) ch' =
      (if ch' = ch then take max_pending_per_channel (entries (withheld_native_steer q) ch @ entries (queues q) ch)
       else entries (queues q) ch')"
    and "entries (withheld_native_steer (expire_one q ch)) ch' =
      (if ch' = ch then [] else entries (withheld_native_steer q) ch')"
  using queue_invD(4) [OF assms, of ch]
  by (simp_all add: expire_one_def recover_withheld_for_expired_channel_def
      entries_def [of "withheld_native_steer q"] split: option.split)

lemma expire_one_held:
  assumes "queue_inv q" and "has_room q ch"
  shows "held (expire_one q i) ch = held q ch" and "has_room (expire_one q i) ch"
  using assms by (auto simp: held_def has_room_def expire_one_entries)

lemma foldl_expire:
  assumes "queue_inv q"
  shows "queue_inv (foldl expire_one q ids)"
    and "in_flight_channels (foldl expire_one q ids) = in_flight_channels q - set ids"
    and "map_of (in_flight_deadlines (foldl expire_one q ids)) = map_of (in_flight_deadlines q) |` (- set ids)"
    and "in_flight_deadline (foldl expire_one q ids) = in_flight_deadline q"
    and "cancelled_batches (foldl expire_one q ids) = cancelled_batches q"
    and "retry_after (foldl expire_one q ids) = retry_after q"
    and "retry_counts (foldl expire_one q ids) = retry_counts q"
    and "has_room q ch \<Longrightarrow> held (foldl expire_one q ids) ch = held q ch"
  using assms
proof (induction ids arbitrary: q)
  case (Cons i ids)
  {
    case 1 then show ?case using Cons.IH(1) [of "expire_one q i"] expire_one_inv by simp
  next
    case 2 then show ?case using Cons.IH(2) [of "expire_one q i"] expire_one_inv [of q i] by auto
  next
    case 3 then show ?case
      using Cons.IH(3) [of "expire_one q i"] expire_one_inv [of q i] by (auto simp: restrict_map_def fun_eq_iff)
  next
    case 4 then show ?case using Cons.IH(4) [of "expire_one q i"] expire_one_inv [of q i] by simp
  next
    case 5 then show ?case using Cons.IH(5) [of "expire_one q i"] expire_one_inv [of q i] by simp
  next
    case 6 then show ?case using Cons.IH(6) [of "expire_one q i"] expire_one_inv [of q i] by simp
  next
    case 7 then show ?case using Cons.IH(7) [of "expire_one q i"] expire_one_inv [of q i] by simp
  next
    case 8 then show ?case
      using Cons.IH(8) [of "expire_one q i"] expire_one_inv [of q i] expire_one_held [of q ch i] by simp
  }
qed (simp_all add: restrict_map_def)

lemma expired_ids:
  assumes "queue_inv q"
  shows "set (map fst (filter (\<lambda>(_, deadline). now \<ge> deadline) (in_flight_deadlines q))) =
    {ch. \<exists>d. map_of (in_flight_deadlines q) ch = Some d \<and> d \<le> now}"
  using queue_invD(2) [OF assms] by (force simp: map_of_eq_Some_iff image_iff)

lemma expire_in_flight_spec:
  assumes "queue_inv q"
  shows "queue_inv (expire_in_flight now q)"
    and "map_of (in_flight_deadlines (expire_in_flight now q)) ch =
      (case map_of (in_flight_deadlines q) ch of Some d \<Rightarrow> if now < d then Some d else None | None \<Rightarrow> None)"
    and "ch \<in> in_flight_channels (expire_in_flight now q) \<longleftrightarrow>
      (\<exists>d. map_of (in_flight_deadlines q) ch = Some d \<and> now < d)"
    and "in_flight_deadline (expire_in_flight now q) = in_flight_deadline q"
    and "cancelled_batches (expire_in_flight now q) = cancelled_batches q"
    and "retry_after (expire_in_flight now q) = retry_after q"
    and "retry_counts (expire_in_flight now q) = retry_counts q"
    and "has_room q ch \<Longrightarrow> held (expire_in_flight now q) ch = held q ch"
proof -
  note f = foldl_expire [OF assms, where ids = "map fst (filter (\<lambda>(_, deadline). now \<ge> deadline) (in_flight_deadlines q))"]
  show "queue_inv (expire_in_flight now q)" "in_flight_deadline (expire_in_flight now q) = in_flight_deadline q"
    "cancelled_batches (expire_in_flight now q) = cancelled_batches q"
    "retry_after (expire_in_flight now q) = retry_after q"
    "retry_counts (expire_in_flight now q) = retry_counts q"
    "has_room q ch \<Longrightarrow> held (expire_in_flight now q) ch = held q ch"
    unfolding expire_in_flight_def by (fact f(1), fact f(4), fact f(5), fact f(6), fact f(7), rule f(8))
  show dl: "map_of (in_flight_deadlines (expire_in_flight now q)) ch =
      (case map_of (in_flight_deadlines q) ch of Some d \<Rightarrow> if now < d then Some d else None | None \<Rightarrow> None)"
    unfolding expire_in_flight_def f(3) expired_ids [OF assms]
    by (auto simp: restrict_map_def split: option.splits)
  show "ch \<in> in_flight_channels (expire_in_flight now q) \<longleftrightarrow>
      (\<exists>d. map_of (in_flight_deadlines q) ch = Some d \<and> now < d)"
    unfolding queue_invD(3) [OF \<open>queue_inv (expire_in_flight now q)\<close>, symmetric] domIff dl
    by (auto split: option.splits)
qed


section \<open>Every operation keeps the invariant\<close>

named_theorems queue_inv_intros \<open>one preservation lemma per operation of the queue\<close>

lemma event_queue_new_inv: "queue_inv (event_queue_new mode)"
  by (simp add: queue_inv_def event_queue_new_def)

lemma with_in_flight_deadline_inv [queue_inv_intros]: "queue_inv q \<Longrightarrow> queue_inv (with_in_flight_deadline n q)"
  by (simp add: queue_inv_def with_in_flight_deadline_def)

lemma extend_in_flight_deadline_inv [queue_inv_intros]:
  "queue_inv q \<Longrightarrow> queue_inv (extend_in_flight_deadline now ch n q)"
  by (auto simp: queue_inv_def extend_in_flight_deadline_def Let_def distinct_update update_conv' split: option.split)

lemma push_inv [queue_inv_intros]:
  assumes "queue_inv q"
  shows "queue_inv (snd (push e q))"
proof (cases "dedup_mode q = Drop \<and> qe_channel_id e \<in> in_flight_channels q")
  case False
  let ?es = "entries (queues q) (qe_channel_id e)"
  let ?es1 = "if length ?es \<ge> max_pending_per_channel then tl ?es else ?es"
  have "length (?es1 @ [e]) \<le> max_pending_per_channel"
    using queue_invD(4) [OF assms, of "qe_channel_id e"] by (auto simp: max_pending_per_channel_def)
  moreover have "set (?es1 @ [e]) \<subseteq> insert e (set ?es)"
    by (cases ?es) auto
  moreover have "snd (push e q) = q\<lparr>queues := AList.update (qe_channel_id e) (?es1 @ [e]) (queues q)\<rparr>"
    using False by (auto simp: push_def Let_def)
  ultimately show ?thesis
    using assms by (auto simp: queue_inv_def distinct_update subset_iff)
qed (simp add: push_def assms)

lemma mark_in_flight_inv: "queue_inv q \<Longrightarrow> queue_inv (mark_in_flight now ch n q)"
  by (auto simp: queue_inv_def mark_in_flight_def distinct_update update_conv')

lemma flush_cancelled_inv: "queue_inv q \<Longrightarrow> queue_inv (snd (flush_cancelled now q))"
  by (auto simp: flush_cancelled_def Let_def split: option.split intro!: mark_in_flight_inv)
    (simp add: queue_inv_def)

lemma flush_queue_inv:
  assumes "queue_inv q"
  shows "queue_inv (snd (flush_queue now ch q))"
proof -
  let ?n = "min max_batch_events (length (entries (queues q) ch))"
  have "snd (flush_queue now ch q) = mark_in_flight now ch (length (fb_events (fst (flush_queue now ch q))))
      (q\<lparr>queues := put_or_remove ch (drop ?n (entries (queues q) ch)) (queues q),
         cancelled_batches := AList.delete ch (cancelled_batches q),
         cancel_reasons := AList.delete ch (cancel_reasons q)\<rparr>)"
    by (simp add: flush_queue_def Let_def put_or_remove_def)
  moreover have "queue_inv (q\<lparr>queues := put_or_remove ch (drop ?n (entries (queues q) ch)) (queues q),
         cancelled_batches := AList.delete ch (cancelled_batches q),
         cancel_reasons := AList.delete ch (cancel_reasons q)\<rparr>)"
    using assms by (auto simp: queue_inv_def distinct_put_or_remove dest!: in_set_dropD intro: le_trans [OF diff_le_self])
  ultimately show ?thesis
    by (simp add: mark_in_flight_inv)
qed

lemma flush_next_inv [queue_inv_intros]: "queue_inv q \<Longrightarrow> queue_inv (snd (flush_next now q))"
  using expire_in_flight_spec(1) [of q now] flush_cancelled_inv flush_queue_inv
  by (auto simp: flush_next_def Let_def split: option.split prod.split) (metis snd_conv)+

lemma mark_complete_inv [queue_inv_intros]: "queue_inv q \<Longrightarrow> queue_inv (mark_complete now ch q)"
  by (auto simp: queue_inv_def mark_complete_def Let_def distinct_delete delete_conv' simp del: map_of_eq_Some_iff
      split: option.split)

lemma requeue_inv [queue_inv_intros]:
  assumes "queue_inv q"
  shows "queue_inv (snd (requeue now nanos b q))"
proof -
  let ?ch = "fb_channel_id b"
  let ?a = "(case map_of (retry_counts q) ?ch of Some n \<Rightarrow> n | None \<Rightarrow> 0) + 1"
  let ?q1 = "q\<lparr>retry_counts := AList.update ?ch ?a (retry_counts q)\<rparr>"
  show ?thesis
  proof (cases "?a > max_retries")
    case True
    then show ?thesis
      using assms by (auto simp: requeue_def Let_def queue_inv_def distinct_delete distinct_update delete_conv' update_conv')
  next
    case False
    have "queue_inv ?q1"
      using assms False by (auto simp: queue_inv_def distinct_update update_conv')
    then have "queue_inv (push_front_capped ?ch (map (queued_of ?ch) (fb_events b)) ?q1)"
      by (rule push_front_capped_inv) (auto simp: queued_of_def)
    then show ?thesis
      using False by (simp add: requeue_def Let_def) (simp add: queue_inv_def distinct_update)
  qed
qed

lemma requeue_preserve_inv [queue_inv_intros]: "queue_inv q \<Longrightarrow> queue_inv (requeue_preserve_timestamps b q)"
  unfolding requeue_preserve_timestamps_def by (rule push_front_capped_inv) (auto simp: queued_of_def)

lemma requeue_as_cancelled_inv [queue_inv_intros]: "queue_inv q \<Longrightarrow> queue_inv (requeue_as_cancelled b reason q)"
  by (simp add: queue_inv_def requeue_as_cancelled_def Let_def)

lemma has_flushable_work_inv [queue_inv_intros]: "queue_inv q \<Longrightarrow> queue_inv (snd (has_flushable_work now q))"
  by (simp add: has_flushable_work_def Let_def expire_in_flight_spec(1))

lemma drain_channel_inv [queue_inv_intros]: "queue_inv q \<Longrightarrow> queue_inv (snd (drain_channel ch q))"
  by (auto simp: queue_inv_def drain_channel_def distinct_delete delete_conv')

lemma mark_native_steer_pending_inv [queue_inv_intros]:
  assumes "queue_inv q"
  shows "queue_inv (snd (mark_native_steer_pending ch i q))"
proof (cases "take_out (has_id i) (entries (queues q) ch)")
  case None
  then show ?thesis
    using assms by (auto simp: mark_native_steer_pending_def entries_def split: option.split)
next
  case (Some p)
  obtain e rest where p: "p = (e, rest)" by (cases p)
  with Some obtain us vs where es: "entries (queues q) ch = us @ e # vs" "rest = us @ vs"
    using take_out_Some [of "has_id i"] by metis
  have "map_of (queues q) ch = Some (entries (queues q) ch)"
    using es(1) by (auto simp: entries_def split: option.splits)
  with Some p have "snd (mark_native_steer_pending ch i q) = q\<lparr>queues := put_or_remove ch rest (queues q),
      withheld_native_steer := AList.update ch (entries (withheld_native_steer q) ch @ [e]) (withheld_native_steer q)\<rparr>"
    by (simp add: mark_native_steer_pending_def)
  moreover have "length rest \<le> max_pending_per_channel" "\<forall>x \<in> insert e (set rest). qe_channel_id x = ch"
    using queue_invD(4) [OF assms, of ch] queue_invD(5) [OF assms, where ch = ch] es by auto
  ultimately show ?thesis
    using assms by (auto simp: queue_inv_def distinct_put_or_remove distinct_update)
qed

lemma release_native_steer_inv [queue_inv_intros]:
  assumes "queue_inv q"
  shows "queue_inv (release_native_steer ch i q)"
proof (cases "map_of (withheld_native_steer q) ch")
  case (Some es)
  then have es: "entries (withheld_native_steer q) ch = es" by (simp add: entries_def)
  show ?thesis
  proof (cases "take_out (has_id i) es")
    case p: (Some p)
    obtain e rest where "p = (e, rest)" by (cases p)
    with p obtain us vs where u: "take_out (has_id i) es = Some (e, rest)" "es = us @ e # vs" "rest = us @ vs"
      using take_out_Some [of "has_id i"] by metis
    have ch: "\<forall>x \<in> set es. qe_channel_id x = ch"
      using queue_invD(6) [OF assms] es by blast
    have "queue_inv (q\<lparr>withheld_native_steer := put_or_remove ch rest (withheld_native_steer q)\<rparr>)"
      using assms ch u(2,3) by (auto simp: queue_inv_def distinct_put_or_remove)
    then show ?thesis
      using Some u(1) ch u(2) by (simp add: release_native_steer_def push_front_capped_inv)
  qed (simp add: release_native_steer_def Some assms)
qed (simp add: release_native_steer_def assms)

lemma remove_event_inv [queue_inv_intros]: "queue_inv q \<Longrightarrow> queue_inv (remove_event ch i q)"
  by (auto simp: queue_inv_def remove_event_def distinct_retain_others intro: le_trans [OF length_filter_le])

lemma distinct_filter_keys: "distinct (map fst m) \<Longrightarrow> distinct (map fst (filter P m))"
  by (simp add: distinct_map_filter)

lemma map_of_filter_SomeD: "distinct (map fst m) \<Longrightarrow> map_of (filter P m) k = Some v \<Longrightarrow> map_of m k = Some v"
  by (auto simp: map_of_eq_Some_iff distinct_filter_keys)

lemma compact_expired_state_inv [queue_inv_intros]:
  assumes "queue_inv q"
  shows "queue_inv (compact_expired_state now q)"
proof -
  have "distinct (map fst (retry_counts q))" "distinct (map fst (retry_after q))"
    using assms by (simp_all add: queue_inv_def)
  moreover have "n \<le> max_retries" if "map_of (filter P (retry_counts q)) ch = Some n" for P ch n
    using map_of_filter_SomeD [OF calculation(1) that] queue_invD(7) [OF assms] by blast
  ultimately show ?thesis
    using assms unfolding queue_inv_def compact_expired_state_def Let_def
    by (simp add: distinct_filter_keys del: map_of_eq_Some_iff)
qed


section \<open>Flushing\<close>

lemma mark_in_flight_simps [simp]:
  "in_flight_channels (mark_in_flight now ch n q) = insert ch (in_flight_channels q)"
  "map_of (in_flight_deadlines (mark_in_flight now ch n q)) =
    (map_of (in_flight_deadlines q))(ch \<mapsto> now + in_flight_deadline q)"
  "in_flight_deadline (mark_in_flight now ch n q) = in_flight_deadline q"
  "queues (mark_in_flight now ch n q) = queues q"
  "withheld_native_steer (mark_in_flight now ch n q) = withheld_native_steer q"
  "cancelled_batches (mark_in_flight now ch n q) = cancelled_batches q"
  "held (mark_in_flight now ch n q) k = held q k"
  by (simp_all add: mark_in_flight_def update_conv' held_def)

text \<open>What a flush that returns a batch does to the state after expiry.\<close>

definition flushed :: "instant \<Rightarrow> event_queue \<Rightarrow> flush_batch \<Rightarrow> event_queue \<Rightarrow> bool" where
  "flushed now q b q' \<longleftrightarrow>
    fb_channel_id b \<notin> in_flight_channels q \<and>
    in_flight_channels q' = insert (fb_channel_id b) (in_flight_channels q) \<and>
    map_of (in_flight_deadlines q') = (map_of (in_flight_deadlines q))(fb_channel_id b \<mapsto> now + in_flight_deadline q) \<and>
    (\<forall>k. held q k = held q' k + (if k = fb_channel_id b then batch_contents b else {#}))"

lemma flush_queue_flushed:
  assumes "ch \<notin> in_flight_channels q"
  shows "flushed now q (fst (flush_queue now ch q)) (snd (flush_queue now ch q))"
proof -
  define taken where "taken = take (min max_batch_events (length (entries (queues q) ch))) (entries (queues q) ch)"
  define rest where "rest = drop (min max_batch_events (length (entries (queues q) ch))) (entries (queues q) ch)"
  have split: "entries (queues q) ch = taken @ rest"
    by (simp add: taken_def rest_def)
  have state: "snd (flush_queue now ch q) = mark_in_flight now ch (length taken)
      (q\<lparr>queues := put_or_remove ch rest (queues q), cancelled_batches := AList.delete ch (cancelled_batches q),
         cancel_reasons := AList.delete ch (cancel_reasons q)\<rparr>)"
    by (simp add: flush_queue_def Let_def put_or_remove_def taken_def rest_def)
  have batch: "fb_channel_id (fst (flush_queue now ch q)) = ch"
    "batch_contents (fst (flush_queue now ch q)) = mset (map batch_of taken) + mset (entries (cancelled_batches q) ch)"
    by (simp_all add: flush_queue_def Let_def batch_contents_def taken_def)
  show ?thesis
    unfolding flushed_def state batch using assms by (simp add: held_def split)
qed

lemma find_first: "find P xs = Some x \<Longrightarrow> P x \<and> x \<in> set xs"
  by (induction xs) (auto split: if_splits)

lemma flush_cancelled_flushed:
  assumes "flush_cancelled now q = (Some b, q')"
  shows "flushed now q b q'"
proof (cases "find (\<lambda>ch. ch \<notin> in_flight_channels q) (map fst (cancelled_batches q))")
  case (Some ch)
  then have "ch \<notin> in_flight_channels q" using find_first by fastforce
  moreover have "b = \<lparr>fb_channel_id = ch, fb_events = entries (cancelled_batches q) ch, fb_cancelled_events = [],
      fb_cancel_reason = map_of (cancel_reasons q) ch\<rparr>"
    and "q' = mark_in_flight now ch (length (entries (cancelled_batches q) ch))
      (q\<lparr>cancelled_batches := AList.delete ch (cancelled_batches q), cancel_reasons := AList.delete ch (cancel_reasons q)\<rparr>)"
    using assms Some by (simp_all add: flush_cancelled_def Let_def)
  ultimately show ?thesis
    by (simp add: flushed_def held_def batch_contents_def)
qed (use assms in \<open>simp add: flush_cancelled_def\<close>)

lemma flush_next_Some:
  assumes "queue_inv q" and "flush_next now q = (Some b, q')"
  shows "flushed now (expire_in_flight now q) b q'"
proof (cases "min_by_key (\<lambda>e. qe_received_at (hd (snd e)))
    (filter (flushable now (expire_in_flight now q)) (queues (expire_in_flight now q)))")
  case None
  with assms(2) have "flush_cancelled now (expire_in_flight now q) = (Some b, q')"
    by (simp add: flush_next_def Let_def)
  then show ?thesis by (rule flush_cancelled_flushed)
next
  case (Some e)
  then have e: "flushable now (expire_in_flight now q) e"
    using min_by_key_Some by fastforce
  with Some assms(2) have "flush_queue now (fst e) (expire_in_flight now q) = (b, q')"
    by (cases e) (auto simp: flush_next_def Let_def split: prod.splits)
  moreover have "fst e \<notin> in_flight_channels (expire_in_flight now q)"
    using e by (simp add: flushable_def)
  ultimately show ?thesis
    using flush_queue_flushed [of "fst e" "expire_in_flight now q" now] by simp
qed

lemma flush_cancelled_None_iff:
  "fst (flush_cancelled now q) = None \<longleftrightarrow> \<not> list_ex (\<lambda>ch. ch \<notin> in_flight_channels q) (map fst (cancelled_batches q))"
  by (auto simp: flush_cancelled_def Let_def find_None_iff list_ex_iff dest!: find_first split: option.splits)

lemma flush_next_None_iff:
  "fst (flush_next now q) \<noteq> None \<longleftrightarrow> fst (has_flushable_work now q)"
proof (cases "filter (flushable now (expire_in_flight now q)) (queues (expire_in_flight now q)) = []")
  case True
  then have "flush_next now q = flush_cancelled now (expire_in_flight now q)"
    and "\<not> list_ex (flushable now (expire_in_flight now q)) (queues (expire_in_flight now q))"
    by (simp_all add: flush_next_def Let_def filter_empty_conv list_ex_iff)
  then show ?thesis
    by (simp add: flush_cancelled_None_iff has_flushable_work_def Let_def)
next
  case False
  then obtain e where "min_by_key (\<lambda>e. qe_received_at (hd (snd e)))
      (filter (flushable now (expire_in_flight now q)) (queues (expire_in_flight now q))) = Some e"
    by (metis min_by_key_None not_None_eq)
  then have "fst (flush_next now q) \<noteq> None"
    by (auto simp: flush_next_def Let_def split: prod.splits)
  with False show ?thesis
    by (auto simp: has_flushable_work_def Let_def filter_empty_conv list_ex_iff)
qed

text \<open>The batch a non-empty set of ready channels gives.\<close>

lemma flush_next_oldest:
  assumes inv: "queue_inv q" and q1: "q1 = expire_in_flight now q" and ready: "\<exists>e \<in> set (queues q1). flushable now q1 e"
  obtains b q' n where "flush_next now q = (Some b, q')" "q' = snd (flush_queue now (fb_channel_id b) q1)"
    "b = fst (flush_queue now (fb_channel_id b) q1)"
    "flushable now q1 (fb_channel_id b, entries (queues q1) (fb_channel_id b))"
    "\<And>k. flushable now q1 (k, entries (queues q1) k) \<Longrightarrow>
       qe_received_at (hd (entries (queues q1) (fb_channel_id b))) \<le> qe_received_at (hd (entries (queues q1) k))"
proof -
  let ?key = "\<lambda>e :: uuid \<times> queued_event list. qe_received_at (hd (snd e))"
  from ready have "filter (flushable now q1) (queues q1) \<noteq> []"
    by (auto simp: filter_empty_conv)
  then obtain ch es where min: "min_by_key ?key (filter (flushable now q1) (queues q1)) = Some (ch, es)"
    by (metis min_by_key_None not_None_eq surj_pair)
  then have mem: "(ch, es) \<in> set (queues q1)" and fl: "flushable now q1 (ch, es)"
    and le: "\<forall>y \<in> set (filter (flushable now q1) (queues q1)). ?key (ch, es) \<le> ?key y"
    using min_by_key_Some [OF min] by auto
  have dist: "distinct (map fst (queues q1))"
    using expire_in_flight_spec(1) [OF inv] q1 queue_invD(1) by blast
  have es: "entries (queues q1) ch = es"
    using entries_mem [OF dist mem] .
  let ?b = "fst (flush_queue now ch q1)"
  have ch: "fb_channel_id ?b = ch"
    by (simp add: flush_queue_def Let_def)
  have fn: "flush_next now q = (Some ?b, snd (flush_queue now ch q1))"
    using min by (simp add: flush_next_def Let_def q1 [symmetric] split: prod.split)
  have old: "qe_received_at (hd es) \<le> qe_received_at (hd (entries (queues q1) k))"
    if "flushable now q1 (k, entries (queues q1) k)" for k
    using le that entries_nonempty_mem [of "queues q1" k] by (auto simp: flushable_def)
  show ?thesis
    by (rule that [of ?b "snd (flush_queue now ch q1)"]) (use fn fl old es ch in simp_all)
qed

section \<open>The queue as a system of steps\<close>

text \<open>The calls the harness makes, with the clock readings they use.\<close>

datatype queue_op =
    OpExtend instant uuid nat
  | OpPush queued_event
  | OpFlush instant
  | OpComplete instant uuid
  | OpRequeue instant nat flush_batch
  | OpRequeuePreserve flush_batch
  | OpRequeueCancelled flush_batch cancel_reason
  | OpPoll instant
  | OpDrain uuid
  | OpSteerPending uuid string
  | OpSteerRelease uuid string
  | OpRemove uuid string
  | OpCompact instant

fun run_op :: "queue_op \<Rightarrow> event_queue \<Rightarrow> event_queue" where
  "run_op (OpExtend now ch n) q = extend_in_flight_deadline now ch n q"
| "run_op (OpPush e) q = snd (push e q)"
| "run_op (OpFlush now) q = snd (flush_next now q)"
| "run_op (OpComplete now ch) q = mark_complete now ch q"
| "run_op (OpRequeue now nanos b) q = snd (requeue now nanos b q)"
| "run_op (OpRequeuePreserve b) q = requeue_preserve_timestamps b q"
| "run_op (OpRequeueCancelled b reason) q = requeue_as_cancelled b reason q"
| "run_op (OpPoll now) q = snd (has_flushable_work now q)"
| "run_op (OpDrain ch) q = snd (drain_channel ch q)"
| "run_op (OpSteerPending ch i) q = snd (mark_native_steer_pending ch i q)"
| "run_op (OpSteerRelease ch i) q = release_native_steer ch i q"
| "run_op (OpRemove ch i) q = remove_event ch i q"
| "run_op (OpCompact now) q = compact_expired_state now q"

inductive queue_step :: "event_queue \<Rightarrow> event_queue \<Rightarrow> bool" where
  queue_stepI: "queue_step q (run_op op q)"

definition queue_init :: "event_queue \<Rightarrow> bool" where
  "queue_init q \<longleftrightarrow> (\<exists>mode n. q = with_in_flight_deadline n (event_queue_new mode))"

definition queue_reachable :: "event_queue \<Rightarrow> bool" where
  "queue_reachable q \<longleftrightarrow> (\<exists>q0. queue_init q0 \<and> queue_step\<^sup>*\<^sup>* q0 q)"

lemma run_op_inv: "queue_inv q \<Longrightarrow> queue_inv (run_op op q)"
  by (cases op) (simp_all add: queue_inv_intros)

interpretation acp: invariant_system queue_init queue_step queue_inv
proof unfold_locales
  show "queue_inv q" if "queue_init q" for q
    using that by (auto simp: queue_init_def intro: queue_inv_intros event_queue_new_inv)
  show "queue_inv q'" if "queue_inv q" "queue_step q q'" for q q'
    using that(2,1) by cases (simp add: run_op_inv)
qed

lemma queue_reachable_inv: "queue_reachable q \<Longrightarrow> queue_inv q"
  using acp.reachable_inv by (auto simp: queue_reachable_def)

lemma queue_reachable_run: "queue_reachable q \<Longrightarrow> queue_reachable (run_op op q)"
  unfolding queue_reachable_def by (meson queue_stepI rtranclp.rtrancl_into_rtrancl)

text \<open>The operations that leave a turn of a channel with deadline \<open>d\<close> running.\<close>

fun keeps_turn :: "uuid \<Rightarrow> instant \<Rightarrow> queue_op \<Rightarrow> bool" where
  "keeps_turn ch d (OpComplete _ c) \<longleftrightarrow> c \<noteq> ch"
| "keeps_turn ch d (OpFlush now) \<longleftrightarrow> now < d"
| "keeps_turn ch d (OpPoll now) \<longleftrightarrow> now < d"
| "keeps_turn ch d _ \<longleftrightarrow> True"

definition turn_until :: "uuid \<Rightarrow> instant \<Rightarrow> event_queue \<Rightarrow> bool" where
  "turn_until ch d q \<longleftrightarrow> (\<exists>d'. map_of (in_flight_deadlines q) ch = Some d' \<and> d \<le> d')"

lemma turn_until_cong:
  "in_flight_deadlines q' = in_flight_deadlines q \<Longrightarrow> turn_until ch d q \<Longrightarrow> turn_until ch d q'"
  by (simp add: turn_until_def)

lemma expire_turn_until:
  "queue_inv q \<Longrightarrow> now < d \<Longrightarrow> turn_until ch d q \<Longrightarrow> turn_until ch d (expire_in_flight now q)"
  by (auto simp: turn_until_def expire_in_flight_spec(2))

lemma flush_turn_until:
  assumes "queue_inv q" "now < d" "turn_until ch d q"
  shows "turn_until ch d (snd (flush_next now q))"
    and "flush_next now q = (Some b, q') \<Longrightarrow> fb_channel_id b \<noteq> ch"
proof -
  let ?q1 = "expire_in_flight now q"
  have t: "turn_until ch d ?q1"
    using assms by (rule expire_turn_until)
  then have "ch \<in> in_flight_channels ?q1"
    unfolding queue_invD(3) [OF expire_in_flight_spec(1) [OF assms(1)], symmetric] by (auto simp: turn_until_def)
  then have other: "fb_channel_id b \<noteq> ch" if "flush_next now q = (Some b, q')" for b q'
    using flush_next_Some [OF assms(1) that] by (auto simp: flushed_def)
  then show "flush_next now q = (Some b, q') \<Longrightarrow> fb_channel_id b \<noteq> ch" .
  show "turn_until ch d (snd (flush_next now q))"
  proof (cases "fst (flush_next now q)")
    case None
    then have "in_flight_deadlines (snd (flush_next now q)) = in_flight_deadlines ?q1"
      by (auto simp: flush_next_def flush_cancelled_def Let_def split: option.splits prod.splits)
    with t show ?thesis by (simp add: turn_until_def)
  next
    case (Some b)
    then have "flush_next now q = (Some b, snd (flush_next now q))" by (simp add: prod_eq_iff)
    from flush_next_Some [OF assms(1) this] other [OF this] t show ?thesis
      by (simp add: flushed_def turn_until_def)
  qed
qed

lemma run_op_turn_until:
  assumes inv: "queue_inv q" and keeps: "keeps_turn ch d op" and turn: "turn_until ch d q"
  shows "turn_until ch d (run_op op q)"
proof (cases op)
  case (OpExtend now c n)
  with turn show ?thesis
    by (auto simp: turn_until_def extend_in_flight_deadline_def Let_def update_conv' split: option.split)
next
  case (OpFlush now)
  with flush_turn_until(1) [OF inv _ turn] keeps show ?thesis by simp
next
  case (OpComplete now c)
  with keeps turn show ?thesis
    by (auto simp: turn_until_def mark_complete_def Let_def delete_conv' split: option.split)
next
  case (OpPoll now)
  with expire_turn_until [OF inv _ turn] keeps show ?thesis by (simp add: has_flushable_work_def Let_def)
qed (use turn in \<open>auto simp: turn_until_def push_def requeue_def requeue_preserve_timestamps_def requeue_as_cancelled_def
      drain_channel_def mark_native_steer_pending_def release_native_steer_def remove_event_def
      compact_expired_state_def Let_def split: option.split prod.split\<close>)

lemma run_ops_turn_until:
  "queue_inv q \<Longrightarrow> list_all (keeps_turn ch d) ops \<Longrightarrow> turn_until ch d q \<Longrightarrow>
    queue_inv (foldl (\<lambda>q op. run_op op q) q ops) \<and> turn_until ch d (foldl (\<lambda>q op. run_op op q) q ops)"
  by (induction ops arbitrary: q) (auto simp: run_op_inv run_op_turn_until)


section \<open>Retry delays and conservation\<close>

lemma retry_delay_bounds:
  assumes "nanos < 1000000000"
  shows "800000000 * capped_secs a \<le> retry_delay a nanos" and "retry_delay a nanos < 893132258 * capped_secs a"
proof -
  let ?c = "of_nat (capped_secs a) :: rat"
  have pos: "0 < capped_secs a"
    by (simp add: capped_secs_def base_retry_delay_secs_def max_retry_delay_secs_def)
  have n: "of_nat nanos \<le> (1000000000 :: rat)"
    using assms by (metis less_imp_le of_nat_le_iff of_nat_numeral)
  have lo: "4 / 5 \<le> jitter nanos" and hi: "jitter nanos < 893132258 / 1000000000"
    using n by (simp_all add: jitter_def)
  have d: "of_nat (duration_from_secs (capped_secs a)) * jitter nanos = ?c * (1000000000 * jitter nanos)"
    by (simp add: duration_from_secs_def)
  have "800000000 * ?c \<le> ?c * (1000000000 * jitter nanos)"
    using lo by (simp add: mult.commute mult_left_mono)
  then have "int (800000000 * capped_secs a) \<le> \<lfloor>?c * (1000000000 * jitter nanos)\<rfloor>"
    by (simp add: le_floor_iff)
  then show "800000000 * capped_secs a \<le> retry_delay a nanos"
    unfolding retry_delay_def d by (simp add: le_nat_iff)
  have "?c * (1000000000 * jitter nanos) < ?c * 893132258"
    using hi pos by (intro mult_strict_left_mono) simp_all
  then have "\<lfloor>?c * (1000000000 * jitter nanos)\<rfloor> < int (893132258 * capped_secs a)"
    by (simp add: floor_less_iff mult.commute)
  then show "retry_delay a nanos < 893132258 * capped_secs a"
    unfolding retry_delay_def d using pos by (simp add: nat_less_iff)
qed

definition retry_count :: "event_queue \<Rightarrow> uuid \<Rightarrow> nat" where
  "retry_count q ch = (case map_of (retry_counts q) ch of Some n \<Rightarrow> n | None \<Rightarrow> 0)"

lemma requeue_retry:
  assumes "retry_count q (fb_channel_id b) < max_retries"
  shows "requeue now nanos b q = (None, (push_front_capped (fb_channel_id b)
      (map (queued_of (fb_channel_id b)) (fb_events b))
      (q\<lparr>retry_counts := AList.update (fb_channel_id b) (retry_count q (fb_channel_id b) + 1) (retry_counts q)\<rparr>))
    \<lparr>retry_after := AList.update (fb_channel_id b)
       (now + retry_delay (retry_count q (fb_channel_id b) + 1) nanos) (retry_after q)\<rparr>)"
  using assms by (simp add: requeue_def Let_def retry_count_def [symmetric])

lemma requeue_dead_letter:
  assumes "max_retries \<le> retry_count q (fb_channel_id b)"
  shows "requeue now nanos b q = (Some b, q\<lparr>retry_counts := AList.delete (fb_channel_id b) (retry_counts q),
      retry_after := AList.delete (fb_channel_id b) (retry_after q)\<rparr>)"
  using assms by (simp add: requeue_def Let_def retry_count_def [symmetric] delete_update_same)

lemma retry_count_le: "queue_inv q \<Longrightarrow> retry_count q ch \<le> max_retries"
  using queue_invD(7) by (auto simp: retry_count_def split: option.split)

lemma flush_next_held:
  assumes "queue_inv q" and "has_room q k"
  shows "held q k = held (snd (flush_next now q)) k +
    (case fst (flush_next now q) of None \<Rightarrow> {#} | Some b \<Rightarrow> if k = fb_channel_id b then batch_contents b else {#})"
proof (cases "fst (flush_next now q)")
  case None
  then have "held (snd (flush_next now q)) k = held (expire_in_flight now q) k"
    by (auto simp: flush_next_def flush_cancelled_def Let_def split: option.splits prod.splits)
  with None assms show ?thesis by (simp add: expire_in_flight_spec(8))
next
  case (Some b)
  then have "flush_next now q = (Some b, snd (flush_next now q))" by (simp add: prod_eq_iff)
  from flush_next_Some [OF assms(1) this]
  have "held (expire_in_flight now q) k = held (snd (flush_next now q)) k +
      (if k = fb_channel_id b then batch_contents b else {#})"
    unfolding flushed_def by blast
  then show ?thesis
    unfolding expire_in_flight_spec(8) [OF assms] using Some by simp
qed






section \<open>Properties\<close>

definition sample_queued :: "uuid \<Rightarrow> nat \<Rightarrow> queued_event" where
  "sample_queued ch t = \<lparr>qe_channel_id = ch, qe_event = \<lparr>ev_id = replicate 32 (of_nat t), ev_pubkey = ''alice'',
     ev_created_at = t, ev_kind = 9, ev_tags = []\<rparr>, qe_received_at = t, qe_prompt_tag = ''mention''\<rparr>"

definition sample_queue0 :: event_queue where
  "sample_queue0 = with_in_flight_deadline 60 (event_queue_new Queue)"

definition sample_queue1 :: event_queue where
  "sample_queue1 = run_op (OpPush (sample_queued 4 7)) sample_queue0"

text \<open>A cancelled turn of channel 4 waits for a new event of the same channel.\<close>

definition sample_batch :: flush_batch where
  "sample_batch = \<lparr>fb_channel_id = 4, fb_events = [batch_of (sample_queued 4 3)], fb_cancelled_events = [],
     fb_cancel_reason = None\<rparr>"

definition sample_queue2 :: event_queue where
  "sample_queue2 = run_op (OpRequeueCancelled sample_batch Steer) sample_queue1"

lemma sample_queue_reachable: "queue_reachable sample_queue1" "queue_reachable sample_queue2"
proof -
  have "queue_reachable sample_queue0"
    unfolding queue_reachable_def queue_init_def sample_queue0_def by blast
  then show "queue_reachable sample_queue1" "queue_reachable sample_queue2"
    unfolding sample_queue1_def sample_queue2_def by (simp_all only: queue_reachable_run)
qed

lemmas queue_eval = sample_queue2_def sample_queue1_def sample_queue0_def sample_batch_def sample_queued_def
  event_queue_new_def with_in_flight_deadline_def duration_from_secs_def in_flight_deadline_buffer_secs_def
  push_def requeue_as_cancelled_def entries_def max_pending_per_channel_def max_batch_events_def
  flush_next_def expire_in_flight_def flushable_def flush_queue_def flush_cancelled_def mark_in_flight_def
  batch_of_def has_room_def retry_count_def Let_def

lemma pair_of_fst: "fst p = Some x \<Longrightarrow> p = (Some x, snd p)"
  by (cases p) simp

text \<open>
  C24. One turn per channel. Once a batch of a channel has been handed out, no later flush hands out
  another batch of the same channel before its deadline, whatever the harness does in between (new
  events, requeues, cancellations, steers, other turns, deadline extensions), until the turn is marked complete.
\<close>

theorem one_turn_per_channel:
  assumes "queue_reachable q" and "flush_next now q = (Some b, q1)"
    and "list_all (keeps_turn (fb_channel_id b) (now + in_flight_deadline q)) ops"
    and "now' < now + in_flight_deadline q"
    and "flush_next now' (foldl (\<lambda>q op. run_op op q) q1 ops) = (Some b', q2)"
  shows "fb_channel_id b' \<noteq> fb_channel_id b"
proof -
  note inv = queue_reachable_inv [OF assms(1)]
  have "turn_until (fb_channel_id b) (now + in_flight_deadline q) q1"
    using flush_next_Some [OF inv assms(2)] by (simp add: flushed_def turn_until_def expire_in_flight_spec(4) [OF inv])
  moreover have "queue_inv q1"
    using flush_next_inv [OF inv, of now] assms(2) by simp
  ultimately show ?thesis
    using run_ops_turn_until [OF _ assms(3)] flush_turn_until(2) [OF _ assms(4) _ assms(5)] by blast
qed

theorem one_turn_per_channel_witness:
  "\<exists>b b' q2. fst (flush_next 10 sample_queue1) = Some b \<and>
     flush_next 20 (foldl (\<lambda>q op. run_op op q) (snd (flush_next 10 sample_queue1))
       [OpPush (sample_queued 4 11), OpPush (sample_queued 5 12)]) = (Some b', q2) \<and>
     fb_channel_id b = 4 \<and> fb_channel_id b' \<noteq> 4"
proof -
  let ?ops = "[OpPush (sample_queued 4 11), OpPush (sample_queued 5 12)]"
  let ?q = "foldl (\<lambda>q op. run_op op q) (snd (flush_next 10 sample_queue1)) ?ops"
  have "map_option fb_channel_id (fst (flush_next 10 sample_queue1)) = Some 4"
    and "fst (flush_next 20 ?q) \<noteq> None" and d: "20 < 10 + in_flight_deadline sample_queue1"
    by (simp_all add: queue_eval)
  then obtain b b' where b: "fst (flush_next 10 sample_queue1) = Some b" "fb_channel_id b = 4"
    and b': "fst (flush_next 20 ?q) = Some b'"
    by auto
  have "list_all (keeps_turn (fb_channel_id b) (10 + in_flight_deadline sample_queue1)) ?ops"
    by simp
  from one_turn_per_channel [OF sample_queue_reachable(1) pair_of_fst [OF b(1)] this d pair_of_fst [OF b']]
  show ?thesis
    using b pair_of_fst [OF b'] by metis
qed

text \<open>
  The next batch is fair and bounded. Whenever some channel is ready (events queued, no turn
  running, no backoff in force), there is flushable work and the flush returns a batch of a ready
  channel whose head event waited at least as long as every other ready channel's; the batch is the
  first \<open>MAX_BATCH_EVENTS\<close> events of that queue in the order of their creation times, the others stay queued in
  order, and everything cancelled for the channel comes along. A flush returns a batch exactly
  when there is flushable work.
\<close>

theorem flush_next_fair:
  assumes "queue_reachable q" and "q1 = expire_in_flight now q"
    and "flushable now q1 (k, entries (queues q1) k)"
  shows "(\<forall>t. fst (flush_next t q) \<noteq> None \<longleftrightarrow> fst (has_flushable_work t q)) \<and>
    (\<exists>b q' es. flush_next now q = (Some b, q') \<and> es = entries (queues q1) (fb_channel_id b) \<and>
      flushable now q1 (fb_channel_id b, es) \<and>
      qe_received_at (hd es) \<le> qe_received_at (hd (entries (queues q1) k)) \<and>
      mset (fb_events b) = mset (map batch_of (take max_batch_events es)) \<and>
      sorted (map (\<lambda>x. ev_created_at (be_event x)) (fb_events b)) \<and>
      entries (queues q') (fb_channel_id b) = drop max_batch_events es \<and>
      fb_cancelled_events b = entries (cancelled_batches q) (fb_channel_id b))"
proof -
  note inv = queue_reachable_inv [OF assms(1)]
  have "(k, entries (queues q1) k) \<in> set (queues q1)"
    using assms(3) entries_nonempty_mem by (fastforce simp: flushable_def)
  then obtain b q' where b: "flush_next now q = (Some b, q')" "q' = snd (flush_queue now (fb_channel_id b) q1)"
    "b = fst (flush_queue now (fb_channel_id b) q1)"
    "flushable now q1 (fb_channel_id b, entries (queues q1) (fb_channel_id b))"
    "qe_received_at (hd (entries (queues q1) (fb_channel_id b))) \<le> qe_received_at (hd (entries (queues q1) k))"
    using flush_next_oldest [OF inv assms(2)] assms(3) by metis
  let ?ch = "fb_channel_id b"
  let ?f = "flush_queue now ?ch q1"
  have "mset (fb_events (fst ?f)) = mset (map batch_of (take max_batch_events (entries (queues q1) ?ch)))"
    "sorted (map (\<lambda>x. ev_created_at (be_event x)) (fb_events (fst ?f)))"
    "entries (queues (snd ?f)) ?ch = drop max_batch_events (entries (queues q1) ?ch)"
    "fb_cancelled_events (fst ?f) = entries (cancelled_batches q1) ?ch"
    by (simp_all add: flush_queue_def Let_def min_def)
  moreover have "cancelled_batches q1 = cancelled_batches q"
    using expire_in_flight_spec(5) [OF inv] assms(2) by simp
  ultimately show ?thesis
    using b flush_next_None_iff by metis
qed

theorem flush_next_fair_witness:
  "\<exists>b q'. flush_next 10 sample_queue1 = (Some b, q') \<and> mset (fb_events b) = {#batch_of (sample_queued 4 7)#}"
proof -
  let ?q1 = "expire_in_flight 10 sample_queue1"
  have f: "flushable 10 ?q1 (4, entries (queues ?q1) 4)" by (simp add: queue_eval)
  have other: "entries (queues ?q1) k = (if k = 4 then [sample_queued 4 7] else [])" for k
    by (simp add: expire_in_flight_def sample_queue1_def sample_queue0_def event_queue_new_def
        with_in_flight_deadline_def push_def entries_def sample_queued_def Let_def max_pending_per_channel_def)
  from flush_next_fair [OF sample_queue_reachable(1) refl f] obtain b q' where
    b: "flush_next 10 sample_queue1 = (Some b, q')"
    "flushable 10 ?q1 (fb_channel_id b, entries (queues ?q1) (fb_channel_id b))"
    "mset (fb_events b) = mset (map batch_of (take max_batch_events (entries (queues ?q1) (fb_channel_id b))))"
    by blast
  then have "entries (queues ?q1) (fb_channel_id b) = [sample_queued 4 7]"
    using other by (simp add: flushable_def split: if_splits)
  with b show ?thesis by (simp add: max_batch_events_def)
qed



text \<open>
  Retries end. A failed batch is put back with its channel's attempt counter raised and the
  channel closed to flushing until a time between 0.8 and 0.8932 times the capped exponential delay from now;
  marking the turn complete before that time keeps the counter. The counter never passes
  \<open>MAX_RETRIES\<close>, and the failure after the last attempt returns the batch to the caller, queues
  nothing and clears the counter and the throttle.
\<close>

theorem requeue_backoff:
  assumes "queue_reachable q" and "nanos < 1000000000" and "ch = fb_channel_id b"
    and "n = retry_count q ch" and "requeue now nanos b q = (r, q')"
  shows "n \<le> max_retries \<and>
    (n < max_retries \<longrightarrow> r = None \<and> retry_count q' ch = n + 1 \<and>
      (\<exists>t. now + 800000000 * capped_secs (n + 1) \<le> t \<and> t < now + 893132258 * capped_secs (n + 1) \<and>
        (\<forall>now' es. now' < t \<longrightarrow> \<not> flushable now' q' (ch, es) \<and> retry_count (mark_complete now' ch q') ch = n + 1))) \<and>
    (n = max_retries \<longrightarrow> r = Some b \<and> retry_count q' ch = 0 \<and> map_of (retry_after q') ch = None \<and> queues q' = queues q)"
proof -
  have "n \<le> max_retries"
    using retry_count_le [OF queue_reachable_inv [OF assms(1)]] assms(4) by simp
  moreover have "r = None \<and> retry_count q' ch = n + 1 \<and>
      (\<exists>t. now + 800000000 * capped_secs (n + 1) \<le> t \<and> t < now + 893132258 * capped_secs (n + 1) \<and>
        (\<forall>now' es. now' < t \<longrightarrow> \<not> flushable now' q' (ch, es) \<and> retry_count (mark_complete now' ch q') ch = n + 1))"
    if "n < max_retries"
  proof -
    have rq: "r = None" "map_of (retry_counts q') ch = Some (n + 1)"
      "map_of (retry_after q') ch = Some (now + retry_delay (n + 1) nanos)"
      using requeue_retry [of q b now nanos] that assms(3-5) by (auto simp: update_conv')
    then have "\<not> flushable now' q' (ch, es) \<and> retry_count (mark_complete now' ch q') ch = n + 1"
      if "now' < now + retry_delay (n + 1) nanos" for now' es
      using that by (simp add: flushable_def mark_complete_def Let_def retry_count_def)
    with rq retry_delay_bounds [OF assms(2), of "n + 1"] show ?thesis
      by (auto simp: retry_count_def intro!: exI [of _ "now + retry_delay (n + 1) nanos"])
  qed
  moreover have "r = Some b \<and> retry_count q' ch = 0 \<and> map_of (retry_after q') ch = None \<and> queues q' = queues q"
    if "n = max_retries"
    using requeue_dead_letter [of q b now nanos] that assms(3-5) by (auto simp: retry_count_def delete_conv')
  ultimately show ?thesis by blast
qed

theorem requeue_backoff_witness:
  "fst (requeue 0 5 sample_batch sample_queue1) = None \<and>
   retry_count (snd (requeue 0 5 sample_batch sample_queue1)) 4 = 1"
proof -
  have n: "retry_count sample_queue1 4 = 0" and c: "fb_channel_id sample_batch = 4"
    by (simp_all add: queue_eval)
  from requeue_backoff [OF sample_queue_reachable(1) _ c [symmetric] n [symmetric], of 5 0] show ?thesis
    by (simp add: max_retries_def prod_eq_iff)
qed

text \<open>
  Putting a merged batch back when no agent is free loses its cancelled part: after a flush,
  \<open>requeue_preserve_timestamps\<close> and \<open>mark_complete\<close>, the channel holds what it held before the flush except
  exactly the events of the cancelled turn that the batch carried.
\<close>

theorem requeue_preserve_drops_cancelled:
  assumes "queue_reachable q" and "has_room q (fb_channel_id b)" and "flush_next now q = (Some b, q1)"
    and "length (fb_events b) + length (entries (queues q1) (fb_channel_id b)) \<le> max_pending_per_channel"
  shows "held q (fb_channel_id b) =
    held (mark_complete t (fb_channel_id b) (requeue_preserve_timestamps b q1)) (fb_channel_id b) +
      mset (fb_cancelled_events b)"
proof -
  let ?ch = "fb_channel_id b"
  have "held (mark_complete t ?ch q2) k = held q2 k" for q2 k
    by (auto simp: held_def mark_complete_def Let_def split: option.split)
  moreover have "held q ?ch = held q1 ?ch + batch_contents b"
    using flush_next_held [OF queue_reachable_inv [OF assms(1)] assms(2), of now] assms(3) by simp
  moreover have "held (requeue_preserve_timestamps b q1) ?ch = held q1 ?ch + mset (fb_events b)"
    using held_push_front_capped [of "map (queued_of ?ch) (fb_events b)" q1 ?ch ?ch] assms(4)
    by (simp add: requeue_preserve_timestamps_def)
  ultimately show ?thesis
    by (simp add: batch_contents_def)
qed

theorem requeue_preserve_drops_cancelled_witness:
  "\<exists>b q1. flush_next 10 sample_queue2 = (Some b, q1) \<and> fb_cancelled_events b = [batch_of (sample_queued 4 3)] \<and>
     held sample_queue2 4 =
       held (mark_complete 11 4 (requeue_preserve_timestamps b q1)) 4 + {#batch_of (sample_queued 4 3)#}"
proof -
  have "map_option (\<lambda>b. (fb_channel_id b, fb_cancelled_events b, length (fb_events b))) (fst (flush_next 10 sample_queue2)) =
      Some (4, [batch_of (sample_queued 4 3)], 1)"
    and e: "entries (queues (snd (flush_next 10 sample_queue2))) 4 = []" and r: "has_room sample_queue2 4"
    by (simp_all add: queue_eval)
  then obtain b where b: "fst (flush_next 10 sample_queue2) = Some b" "fb_channel_id b = 4"
    "fb_cancelled_events b = [batch_of (sample_queued 4 3)]" "length (fb_events b) = 1"
    by auto
  have "length (fb_events b) + length (entries (queues (snd (flush_next 10 sample_queue2))) (fb_channel_id b))
      \<le> max_pending_per_channel"
    using b e by (simp add: max_pending_per_channel_def)
  from requeue_preserve_drops_cancelled [OF sample_queue_reachable(2) _ pair_of_fst [OF b(1)] this, of 11]
  show ?thesis
    using b r pair_of_fst [OF b(1)] by (metis mset_single_iff_right mset.simps add_mset_add_single add_0)
qed

end
