(* ===== verification/Pairing_Qr.thy ===== *)
theory Pairing_Qr
  imports Rust_Text "HOL-Library.Code_Target_Nat"
begin

text \<open>
  The messages and errors of device pairing (\<open>crates/buzz-core/src/pairing/types.rs\<close>, \<open>mod.rs\<close>), the derivations of
  \<open>pairing/crypto.rs\<close> and the QR codec of \<open>pairing/qr.rs\<close>. Keys, ECDH, HKDF, NIP-44, hex, percent
  encoding, URL parsing, JSON and event signing are library code: the fields of the record \<open>pairing_lib\<close>, an
  argument of every definition that calls them; a fallible one returns its error text. A byte array
  is a list of bytes, a string the list of its UTF-8 bytes.
\<close>

section \<open>Messages, errors and the library\<close>

type_synonym byte_array = "8 word list"

datatype payload_type = Nsec | Bunker | Connect | Custom

datatype abort_reason = SasMismatchReason | UserDenied | Timeout | ProtocolError | UnknownReason

datatype pairing_message =
    Offer string nat
  | SasConfirm string
  | Payload payload_type string
  | Complete bool
  | Abort abort_reason

datatype pairing_error =
    InvalidQr string
  | InvalidSessionId
  | SasMismatch
  | TranscriptMismatch
  | UnexpectedMessage string string
  | SessionExpired
  | Nip44Error string
  | JsonError string
  | InvalidPubkey string
  | SigningError string

record pairing_event =
  pe_id :: byte_array
  pe_pubkey :: byte_array
  pe_kind :: nat
  pe_tags :: "string list list"
  pe_created_at :: nat
  pe_content :: string

record pairing_lib =
  public_key :: "byte_array \<Rightarrow> byte_array"
  generate_shared_key :: "byte_array \<Rightarrow> byte_array \<Rightarrow> string + byte_array"
  hkdf_extract :: "byte_array \<Rightarrow> byte_array \<Rightarrow> byte_array"
  hkdf_expand :: "byte_array \<Rightarrow> byte_array \<Rightarrow> nat \<Rightarrow> byte_array"
  lib_ct_eq :: "byte_array \<Rightarrow> byte_array \<Rightarrow> bool"
  hex_encode :: "byte_array \<Rightarrow> string"
  hex_decode :: "string \<Rightarrow> string + byte_array"
  pubkey_from_hex :: "string \<Rightarrow> string + byte_array"
  percent_encode :: "string \<Rightarrow> string"
  percent_decode :: "string \<Rightarrow> string"
  url_parse :: "string \<Rightarrow> string + string \<times> bool"
  str_debug :: "string \<Rightarrow> string"
  json_of_message :: "pairing_message \<Rightarrow> string + string"
  message_of_json :: "string \<Rightarrow> string + pairing_message"
  nip44_encrypt :: "byte_array \<Rightarrow> byte_array \<Rightarrow> byte_array \<Rightarrow> string \<Rightarrow> string + string"
  nip44_decrypt :: "byte_array \<Rightarrow> byte_array \<Rightarrow> string \<Rightarrow> string + string"
  sign_with_keys :: "byte_array \<Rightarrow> nat \<Rightarrow> string list list \<Rightarrow> nat \<Rightarrow> string \<Rightarrow> string + pairing_event"
  verify_event :: "pairing_event \<Rightarrow> string + unit"

section \<open>Derivations\<close>

definition byte_string :: "string \<Rightarrow> byte_array" where
  "byte_string s = map of_char s"

definition hkdf32 :: "pairing_lib \<Rightarrow> byte_array \<Rightarrow> byte_array \<Rightarrow> byte_array \<Rightarrow> byte_array" where
  "hkdf32 lib salt ikm info = take 32 (hkdf_expand lib (hkdf_extract lib salt ikm) info 32)"

definition derive_session_id :: "pairing_lib \<Rightarrow> byte_array \<Rightarrow> byte_array" where
  "derive_session_id lib session_secret = hkdf32 lib [] session_secret (byte_string ''nostr-pair-session-id'')"

text \<open>\<open>u32::from_be_bytes\<close>.\<close>

definition be_u32 :: "byte_array \<Rightarrow> nat" where
  "be_u32 bs = foldl (\<lambda>n b. n * 256 + unat b) 0 (take 4 bs)"

definition derive_sas :: "pairing_lib \<Rightarrow> byte_array \<Rightarrow> byte_array \<Rightarrow> nat \<times> byte_array" where
  "derive_sas lib ecdh_shared session_secret =
    (let sas_input = hkdf32 lib session_secret ecdh_shared (byte_string ''nostr-pair-sas-v1'')
     in (be_u32 sas_input mod 1000000, sas_input))"

definition derive_transcript_hash ::
  "pairing_lib \<Rightarrow> byte_array \<Rightarrow> byte_array \<Rightarrow> byte_array \<Rightarrow> byte_array \<Rightarrow> byte_array \<Rightarrow> byte_array" where
  "derive_transcript_hash lib session_id source_pubkey target_pubkey sas_input session_secret =
    hkdf32 lib session_secret (session_id @ source_pubkey @ target_pubkey @ sas_input)
      (byte_string ''nostr-pair-transcript-v1'')"

definition format_sas :: "nat \<Rightarrow> string" where
  "format_sas code = replicate (6 - length (decimal code)) (CHR ''0'') @ decimal code"

definition ct_eq :: "pairing_lib \<Rightarrow> byte_array \<Rightarrow> byte_array \<Rightarrow> bool" where
  "ct_eq lib a b = lib_ct_eq lib a b"

section \<open>The QR code\<close>

record qr_payload =
  qr_source_pubkey :: byte_array
  qr_session_secret :: byte_array
  qr_relays :: "string list"
  qr_version :: nat

definition url_encode :: "pairing_lib \<Rightarrow> string \<Rightarrow> string" where
  "url_encode lib s = percent_encode lib s"

definition url_decode :: "pairing_lib \<Rightarrow> string \<Rightarrow> string" where
  "url_decode lib s = percent_decode lib s"

definition is_lowercase_hex :: "char \<Rightarrow> bool" where
  "is_lowercase_hex c \<longleftrightarrow>
    (let n = (of_char c :: nat) in (48 \<le> n \<and> n \<le> 57) \<or> (97 \<le> n \<and> n \<le> 102))"

definition encode_qr :: "pairing_lib \<Rightarrow> qr_payload \<Rightarrow> string" where
  "encode_qr lib payload =
    ''nostrpair://'' @ hex_encode lib (qr_source_pubkey payload) @ ''?secret='' @
    hex_encode lib (qr_session_secret payload) @
    concat (map (\<lambda>relay. ''&relay='' @ url_encode lib relay) (qr_relays payload)) @ ''&v=1''"

definition parse_u32 :: "string \<Rightarrow> nat option" where
  "parse_u32 = parse_uint 4294967295"

record qr_query =
  qq_secret :: "string option"
  qq_relays :: "string list"
  qq_version :: "nat option"

definition qr_param :: "pairing_lib \<Rightarrow> qr_query \<Rightarrow> string \<Rightarrow> qr_query" where
  "qr_param lib q pair =
    (case split_once CHR ''='' pair of
       None \<Rightarrow> q
     | Some (key, value) \<Rightarrow>
         if key = ''secret'' then q\<lparr>qq_secret := Some value\<rparr>
         else if key = ''relay'' then q\<lparr>qq_relays := qq_relays q @ [url_decode lib value]\<rparr>
         else if key = ''v'' then q\<lparr>qq_version := parse_u32 value\<rparr>
         else q)"

fun check_relays :: "pairing_lib \<Rightarrow> string list \<Rightarrow> pairing_error + unit" where
  "check_relays lib [] = Inr ()"
| "check_relays lib (relay # relays) =
    (case url_parse lib relay of
       Inl e \<Rightarrow> Inl (InvalidQr (''invalid relay URL '' @ str_debug lib relay @ '': '' @ e))
     | Inr (scheme, has_host) \<Rightarrow>
         if scheme \<noteq> ''wss'' \<and> scheme \<noteq> ''ws''
         then Inl (InvalidQr (''relay URL must use wss:// or ws:// scheme, got '' @ str_debug lib scheme))
         else if \<not> has_host then Inl (InvalidQr (''relay URL has no host: '' @ str_debug lib relay))
         else check_relays lib relays)"

text \<open>The ellipsis of an error message, U+2026 in UTF-8.\<close>

definition ellipsis :: string where
  "ellipsis = [CHR 0xE2, CHR 0x80, CHR 0xA6]"

definition decode_qr :: "pairing_lib \<Rightarrow> string \<Rightarrow> pairing_error + qr_payload" where
  "decode_qr lib uri =
    (if length uri > 2048
     then Inl (InvalidQr (''URI exceeds 2048-character limit ('' @ decimal (length uri) @ '' chars)''))
     else if \<not> prefix ''nostrpair://'' uri then Inl (InvalidQr ''URI must start with nostrpair://'')
     else case split_once CHR ''?'' (drop 12 uri) of
       None \<Rightarrow> Inl (InvalidQr (''missing query string (expected ?secret='' @ ellipsis @ ''&relay='' @ ellipsis @ '')''))
     | Some (pubkey_hex, query) \<Rightarrow>
         if length pubkey_hex \<noteq> 64 \<or> \<not> list_all is_lowercase_hex pubkey_hex
         then Inl (InvalidQr (''pubkey must be 64 lowercase hex chars, got '' @ str_debug lib pubkey_hex))
         else case pubkey_from_hex lib pubkey_hex of
           Inl e \<Rightarrow> Inl (InvalidQr (''invalid pubkey: '' @ e))
         | Inr source_pubkey \<Rightarrow>
             let q = foldl (qr_param lib) \<lparr>qq_secret = None, qq_relays = [], qq_version = None\<rparr>
                   (split_char CHR ''&'' query);
                 version = (case qq_version q of Some v \<Rightarrow> v | None \<Rightarrow> 1)
             in if version \<noteq> 1
                then Inl (InvalidQr (''unsupported protocol version '' @ decimal version @ '', expected 1''))
                else case qq_secret q of
                  None \<Rightarrow> Inl (InvalidQr (''missing '' @ [CHR 0x27] @ ''secret'' @ [CHR 0x27] @ '' query parameter''))
                | Some secret_str \<Rightarrow>
                    if length secret_str \<noteq> 64 \<or> \<not> list_all is_lowercase_hex secret_str
                    then Inl (InvalidQr (''secret must be 64 lowercase hex chars, got '' @ str_debug lib secret_str))
                    else case hex_decode lib secret_str of
                      Inl e \<Rightarrow> Inl (InvalidQr (''invalid secret hex: '' @ e))
                    | Inr session_secret \<Rightarrow>
                        if length session_secret \<noteq> 32
                        then Inl (InvalidQr ''secret must be exactly 32 bytes'')
                        else if session_secret = replicate 32 0
                        then Inl (InvalidQr ''session_secret must not be all zeros'')
                        else if qq_relays q = []
                        then Inl (InvalidQr (''at least one '' @ [CHR 0x27] @ ''relay'' @ [CHR 0x27] @
                          '' query parameter is required''))
                        else case check_relays lib (qq_relays q) of
                          Inl e \<Rightarrow> Inl e
                        | Inr _ \<Rightarrow> Inr \<lparr>qr_source_pubkey = source_pubkey, qr_session_secret = session_secret,
                            qr_relays = qq_relays q, qr_version = version\<rparr>)"


section \<open>Lemmas\<close>

text \<open>What the codec relies on of the hex library, for one byte array.\<close>

definition hex_ok :: "pairing_lib \<Rightarrow> byte_array \<Rightarrow> bool" where
  "hex_ok lib bs \<longleftrightarrow> hex_decode lib (hex_encode lib bs) = Inr bs \<and>
    length (hex_encode lib bs) = 2 * length bs \<and> list_all is_lowercase_hex (hex_encode lib bs)"

text \<open>A relay the codec can carry: it survives percent encoding, and the URL library accepts it.\<close>

definition relay_ok :: "pairing_lib \<Rightarrow> string \<Rightarrow> bool" where
  "relay_ok lib relay \<longleftrightarrow>
    (\<exists>scheme. url_parse lib relay = Inr (scheme, True) \<and> (scheme = ''wss'' \<or> scheme = ''ws''))"

definition percent_ok :: "pairing_lib \<Rightarrow> string \<Rightarrow> bool" where
  "percent_ok lib s \<longleftrightarrow> percent_decode lib (percent_encode lib s) = s \<and> CHR ''&'' \<notin> set (percent_encode lib s)"

lemma lowercase_hex_plain:
  assumes "list_all is_lowercase_hex s"
  shows "CHR ''?'' \<notin> set s" and "CHR ''&'' \<notin> set s"
  using assms by (auto simp: list_all_iff is_lowercase_hex_def)

lemma split_relays:
  assumes "\<forall>r \<in> set relays. CHR ''&'' \<notin> set (percent_encode lib r)" and "CHR ''&'' \<notin> set first"
  shows "split_char CHR ''&'' (first @ concat (map (\<lambda>relay. ''&relay='' @ url_encode lib relay) relays) @ ''&v=1'') =
    first # map (\<lambda>relay. ''relay='' @ percent_encode lib relay) relays @ [''v=1'']"
  using assms
proof (induction relays arbitrary: first)
  case Nil
  then show ?case using split_char_append [of "CHR ''&''" first "''v=1''"] by simp
next
  case (Cons r relays)
  have "split_char CHR ''&'' (first @ CHR ''&'' # (''relay='' @ percent_encode lib r) @
      concat (map (\<lambda>relay. ''&relay='' @ url_encode lib relay) relays) @ ''&v=1'') =
    first # split_char CHR ''&'' ((''relay='' @ percent_encode lib r) @
      concat (map (\<lambda>relay. ''&relay='' @ url_encode lib relay) relays) @ ''&v=1'')"
    using Cons.prems(2) by (rule split_char_append)
  with Cons.IH [of "''relay='' @ percent_encode lib r"] Cons.prems show ?case
    by (simp add: url_encode_def)
qed

lemma qr_param_relay:
  "qr_param lib q (''relay='' @ v) = q\<lparr>qq_relays := qq_relays q @ [percent_decode lib v]\<rparr>"
  using split_once_append [of "CHR ''=''" "''relay''" v] by (simp add: qr_param_def url_decode_def)

lemma qr_param_secret: "qr_param lib q (''secret='' @ v) = q\<lparr>qq_secret := Some v\<rparr>"
  using split_once_append [of "CHR ''=''" "''secret''" v] by (simp add: qr_param_def)

lemma qr_param_version: "qr_param lib q ''v=1'' = q\<lparr>qq_version := Some 1\<rparr>"
  by (simp add: qr_param_def parse_u32_def parse_uint_def digit_value_def)

lemma foldl_relays:
  "\<forall>r \<in> set relays. percent_decode lib (percent_encode lib r) = r \<Longrightarrow>
    foldl (qr_param lib) q (map (\<lambda>relay. ''relay='' @ percent_encode lib relay) relays) =
      q\<lparr>qq_relays := qq_relays q @ relays\<rparr>"
proof (induction relays arbitrary: q)
  case (Cons r relays)
  then have "foldl (qr_param lib) q (map (\<lambda>relay. ''relay='' @ percent_encode lib relay) (r # relays)) =
      (q\<lparr>qq_relays := qq_relays q @ [r]\<rparr>)\<lparr>qq_relays := (qq_relays q @ [r]) @ relays\<rparr>"
    using qr_param_relay [of lib q "percent_encode lib r"] by simp
  then show ?case by simp
qed simp

lemma check_relays_iff: "check_relays lib relays = Inr () \<longleftrightarrow> list_all (relay_ok lib) relays"
proof (induction relays)
  case (Cons r relays)
  then show ?case
    by (cases "url_parse lib r") (auto simp: relay_ok_def [of lib r] split: if_splits)
qed simp

lemma qr_query_of_encoding:
  assumes "\<forall>r \<in> set relays. percent_ok lib r" and "list_all is_lowercase_hex secret"
  shows "foldl (qr_param lib) \<lparr>qq_secret = None, qq_relays = [], qq_version = None\<rparr>
      (split_char CHR ''&'' (''secret='' @ secret @
        concat (map (\<lambda>relay. ''&relay='' @ url_encode lib relay) relays) @ ''&v=1'')) =
    \<lparr>qq_secret = Some secret, qq_relays = relays, qq_version = Some 1\<rparr>"
proof -
  have "CHR ''&'' \<notin> set (''secret='' @ secret)"
    using lowercase_hex_plain(2) [OF assms(2)] by simp
  from split_relays [of relays lib "''secret='' @ secret", OF _ this] assms(1)
  have "split_char CHR ''&'' (''secret='' @ secret @
        concat (map (\<lambda>relay. ''&relay='' @ url_encode lib relay) relays) @ ''&v=1'') =
      (''secret='' @ secret) # map (\<lambda>relay. ''relay='' @ percent_encode lib relay) relays @ [''v=1'']"
    by (simp add: percent_ok_def)
  moreover have "qr_param lib \<lparr>qq_secret = None, qq_relays = [], qq_version = None\<rparr> (''secret='' @ secret) =
      \<lparr>qq_secret = Some secret, qq_relays = [], qq_version = None\<rparr>"
    by (simp only: qr_param_secret) simp
  ultimately show ?thesis
    using foldl_relays [of relays lib "\<lparr>qq_secret = Some secret, qq_relays = [], qq_version = None\<rparr>"] assms(1)
    by (simp only: foldl.simps foldl_append qr_param_version) (simp add: percent_ok_def)
qed

lemma decode_qr_payload:
  assumes "decode_qr lib uri = Inr p"
  shows "qr_version p = 1 \<and> length (qr_session_secret p) = 32 \<and> qr_session_secret p \<noteq> replicate 32 0 \<and>
    qr_relays p \<noteq> [] \<and> list_all (relay_ok lib) (qr_relays p) \<and> length uri \<le> 2048"
  using assms by (auto simp: decode_qr_def Let_def check_relays_iff [symmetric] split: if_splits option.splits sum.splits)

lemma decode_qr_key:
  assumes "decode_qr lib uri = Inr p"
  obtains pubkey_hex query where "uri = ''nostrpair://'' @ pubkey_hex @ ''?'' @ query" "length pubkey_hex = 64"
    "list_all is_lowercase_hex pubkey_hex" "pubkey_from_hex lib pubkey_hex = Inr (qr_source_pubkey p)"
proof -
  obtain rest where uri: "uri = ''nostrpair://'' @ rest"
    using assms by (auto simp: decode_qr_def prefix_def split: if_splits)
  then have "drop 12 uri = rest" by simp
  with assms that [folded append.assoc] show thesis
    by (auto simp: decode_qr_def Let_def uri dest!: split_once_SomeD split: if_splits option.splits sum.splits prod.splits)
qed

lemma length_format_sas: "code < 1000000 \<Longrightarrow> length (format_sas code) = 6"
  using length_decimal [of 6 code] by (simp add: format_sas_def)

section \<open>Properties\<close>

text \<open>
  The QR code carries a session. Decoding what \<open>encode_qr\<close> wrote gives the payload back, for a
  32-byte secret that is not zero, at least one relay, a URI within the limit, and libraries that
  invert each other on these values (hex on the key and the secret, percent encoding on the
  relays, which it leaves free of \<open>&\<close>).
\<close>

theorem qr_roundtrip:
  assumes "hex_ok lib (qr_source_pubkey p)" and "hex_ok lib (qr_session_secret p)"
    and "pubkey_from_hex lib (hex_encode lib (qr_source_pubkey p)) = Inr (qr_source_pubkey p)"
    and "length (qr_source_pubkey p) = 32" and "length (qr_session_secret p) = 32"
    and "qr_session_secret p \<noteq> replicate 32 0" and "qr_version p = 1" and "qr_relays p \<noteq> []"
    and "list_all (relay_ok lib) (qr_relays p)" and "list_all (percent_ok lib) (qr_relays p)"
    and "length (encode_qr lib p) \<le> 2048"
  shows "decode_qr lib (encode_qr lib p) = Inr p"
proof -
  let ?pk = "hex_encode lib (qr_source_pubkey p)" and ?sec = "hex_encode lib (qr_session_secret p)"
  define query where "query = ''secret='' @ ?sec @
    concat (map (\<lambda>relay. ''&relay='' @ url_encode lib relay) (qr_relays p)) @ ''&v=1''"
  have hex: "list_all is_lowercase_hex ?pk" "length ?pk = 64" "list_all is_lowercase_hex ?sec" "length ?sec = 64"
    using assms(1,2,4,5) by (simp_all add: hex_ok_def)
  have uri: "encode_qr lib p = ''nostrpair://'' @ ?pk @ CHR ''?'' # query"
    by (simp add: encode_qr_def query_def)
  have rest: "drop 12 (encode_qr lib p) = ?pk @ CHR ''?'' # query" and pre: "prefix ''nostrpair://'' (encode_qr lib p)"
    unfolding uri by (simp_all add: prefix_def)
  have split: "split_once CHR ''?'' (drop 12 (encode_qr lib p)) = Some (?pk, query)"
    unfolding rest using lowercase_hex_plain(1) [OF hex(1)] by (rule split_once_append)
  have params: "foldl (qr_param lib) \<lparr>qq_secret = None, qq_relays = [], qq_version = None\<rparr>
      (split_char CHR ''&'' query) = \<lparr>qq_secret = Some ?sec, qq_relays = qr_relays p, qq_version = Some 1\<rparr>"
    unfolding query_def using assms(10) hex(3) by (intro qr_query_of_encoding) (simp_all add: list_all_iff)
  have relays: "check_relays lib (qr_relays p) = Inr ()"
    using assms(9) by (simp add: check_relays_iff)
  have sec: "hex_decode lib ?sec = Inr (qr_session_secret p)"
    using assms(2) by (simp add: hex_ok_def)
  have "decode_qr lib (encode_qr lib p) = Inr \<lparr>qr_source_pubkey = qr_source_pubkey p,
      qr_session_secret = qr_session_secret p, qr_relays = qr_relays p, qr_version = 1\<rparr>"
    unfolding decode_qr_def Let_def split using assms(3,5,6,8,11) hex pre relays sec by (simp add: params)
  then show ?thesis
    using assms(7) by simp
qed

text \<open>
  C37. What a scanned code can put into a session. Whatever the text, a payload that \<open>decode_qr\<close> returns is well
  formed: the key is the one spelled by 64 lowercase hex digits after the scheme, the secret has 32
  bytes and is not zero, the version is 1, and there is a relay, every one of them a WebSocket URL with a host.
\<close>

theorem decode_qr_validates:
  assumes "decode_qr lib uri = Inr p"
  shows "qr_version p = 1 \<and> length (qr_session_secret p) = 32 \<and> qr_session_secret p \<noteq> replicate 32 0 \<and>
    qr_relays p \<noteq> [] \<and> list_all (relay_ok lib) (qr_relays p) \<and> length uri \<le> 2048 \<and>
    (\<exists>pubkey_hex query. uri = ''nostrpair://'' @ pubkey_hex @ ''?'' @ query \<and> length pubkey_hex = 64 \<and>
      list_all is_lowercase_hex pubkey_hex \<and> pubkey_from_hex lib pubkey_hex = Inr (qr_source_pubkey p))"
  using decode_qr_payload [OF assms] decode_qr_key [OF assms] by metis

definition sample_hex :: "byte_array \<Rightarrow> string" where
  "sample_hex bs = concat (map (\<lambda>b. [''0123456789abcdef'' ! (unat b div 16), ''0123456789abcdef'' ! (unat b mod 16)]) bs)"

definition sample_nibble :: "char \<Rightarrow> 8 word" where
  "sample_nibble c = (let n = (of_char c :: nat) in if n \<le> 57 then of_nat (n - 48) else of_nat (n - 87))"

fun sample_unhex :: "string \<Rightarrow> byte_array" where
  "sample_unhex (a # b # cs) = (sample_nibble a * 16 + sample_nibble b) # sample_unhex cs"
| "sample_unhex _ = []"

text \<open>A library instance for the examples: reversible toy versions of the primitives.\<close>

fun sample_json :: "pairing_message \<Rightarrow> string" where
  "sample_json (Offer s v) = CHR ''O'' # s"
| "sample_json (SasConfirm s) = CHR ''S'' # s"
| "sample_json (Payload t s) = CHR ''P'' # s"
| "sample_json (Complete b) = (if b then ''C'' else ''F'')"
| "sample_json (Abort r) = ''A''"

fun sample_unjson :: "string \<Rightarrow> string + pairing_message" where
  "sample_unjson [] = Inl ''eof''"
| "sample_unjson (c # s) =
    (if c = CHR ''O'' then Inr (Offer s 1)
     else if c = CHR ''S'' then Inr (SasConfirm s)
     else if c = CHR ''P'' then Inr (Payload Nsec s)
     else if c = CHR ''C'' then Inr (Complete True)
     else if c = CHR ''F'' then Inr (Complete False)
     else Inr (Abort UserDenied))"

definition sample_pad :: string where
  "sample_pad = replicate 132 (CHR ''.'')"

lemma length_sample_pad [simp]: "length sample_pad = 132"
  by (simp only: sample_pad_def length_replicate)

definition sample_lib :: pairing_lib where
  "sample_lib =
    \<lparr>public_key = map (\<lambda>b. b + 1),
     generate_shared_key = (\<lambda>sk pk. Inr (map2 (\<lambda>a b. a + b) sk pk)),
     hkdf_extract = (\<lambda>salt ikm. salt @ ikm),
     hkdf_expand = (\<lambda>prk info n. take n (rev prk)),
     lib_ct_eq = (\<lambda>a b. a = b),
     hex_encode = sample_hex,
     hex_decode = (\<lambda>s. Inr (sample_unhex s)),
     pubkey_from_hex = (\<lambda>s. Inr (sample_unhex s)),
     percent_encode = (\<lambda>s. s),
     percent_decode = (\<lambda>s. s),
     url_parse = (\<lambda>s. if prefix ''wss://'' s then Inr (''wss'', True) else Inl ''bad''),
     str_debug = (\<lambda>s. s),
     json_of_message = (\<lambda>m. Inr (sample_json m)),
     message_of_json = sample_unjson,
     nip44_encrypt = (\<lambda>sk pk nonce s. Inr (sample_pad @ s)),
     nip44_decrypt = (\<lambda>sk pk s. Inr (drop 132 s)),
     sign_with_keys = (\<lambda>sk k tags t s. Inr \<lparr>pe_id = [of_nat (length s)], pe_pubkey = map (\<lambda>b. b + 1) sk, pe_kind = k,
       pe_tags = tags, pe_created_at = t, pe_content = s\<rparr>),
     verify_event = (\<lambda>e. Inr ())\<rparr>"

definition sample_qr :: qr_payload where
  "sample_qr = \<lparr>qr_source_pubkey = replicate 32 171, qr_session_secret = replicate 32 7,
     qr_relays = [''wss://relay.test''], qr_version = 1\<rparr>"

lemma sample_nibbles:
  "n < 16 \<Longrightarrow> sample_nibble (''0123456789abcdef'' ! n) = of_nat n \<and> is_lowercase_hex (''0123456789abcdef'' ! n)"
proof -
  have "\<forall>n\<in>set [0..<16]. sample_nibble (''0123456789abcdef'' ! n) = of_nat n \<and> is_lowercase_hex (''0123456789abcdef'' ! n)"
    by code_simp
  then show "n < 16 \<Longrightarrow> ?thesis" by auto
qed

lemma sample_hex_byte: "of_nat (unat b div 16) * 16 + of_nat (unat b mod 16) = (b :: 8 word)"
proof -
  have "of_nat (unat b div 16) * 16 + of_nat (unat b mod 16) = (of_nat (unat b div 16 * 16 + unat b mod 16) :: 8 word)"
    by (simp only: of_nat_add of_nat_mult of_nat_numeral)
  also have "\<dots> = b" by (simp only: div_mult_mod_eq) simp
  finally show ?thesis .
qed

lemma sample_hex_ok: "hex_ok sample_lib bs"
proof (induction bs)
  case (Cons b bs)
  have "unat b div 16 < 16" "unat b mod 16 < 16"
    using unat_byte_less [of b] by (auto simp: less_mult_imp_div_less)
  with Cons sample_nibbles show ?case
    by (simp add: hex_ok_def sample_lib_def sample_hex_def sample_hex_byte)
qed (simp add: hex_ok_def sample_lib_def sample_hex_def)

theorem qr_roundtrip_witness: "decode_qr sample_lib (encode_qr sample_lib sample_qr) = Inr sample_qr"
proof (rule qr_roundtrip)
  show "list_all (relay_ok sample_lib) (qr_relays sample_qr)"
    by (simp add: sample_qr_def relay_ok_def sample_lib_def)
  show "pubkey_from_hex sample_lib (hex_encode sample_lib (qr_source_pubkey sample_qr)) = Inr (qr_source_pubkey sample_qr)"
    using sample_hex_ok [of "qr_source_pubkey sample_qr"] by (simp add: hex_ok_def sample_lib_def)
  show "length (encode_qr sample_lib sample_qr) \<le> 2048"
    using sample_hex_ok [of "qr_source_pubkey sample_qr"] sample_hex_ok [of "qr_session_secret sample_qr"]
    by (simp add: encode_qr_def hex_ok_def sample_qr_def url_encode_def) (simp add: sample_lib_def)
qed (simp_all only: sample_hex_ok, simp_all add: sample_qr_def percent_ok_def sample_lib_def)

definition sample_uri :: "string \<Rightarrow> string" where
  "sample_uri v = ''nostrpair://'' @ concat (replicate 32 ''ab'') @ ''?secret='' @ concat (replicate 32 ''07'') @
     ''&relay=wss://relay.test&v='' @ v"

lemma sample_uri_decodes:
  "decode_qr sample_lib (sample_uri ''1'') = Inr sample_qr"
  "isl (decode_qr sample_lib (sample_uri ''2''))"
  by code_simp+

theorem decode_qr_validates_witness:
  "decode_qr sample_lib (sample_uri ''1'') = Inr sample_qr \<and> qr_version sample_qr = 1 \<and>
    list_all (relay_ok sample_lib) (qr_relays sample_qr) \<and> length (sample_uri ''1'') \<le> 2048"
  using decode_qr_validates [OF sample_uri_decodes(1)] sample_uri_decodes(1) by blast

text \<open>
  A version that is present but does not fit a \<open>u32\<close> is dropped by \<open>parse().ok()\<close>, so the code is read as version 1.
\<close>

lemma overflowing_version_accepted: "decode_qr sample_lib (sample_uri ''4294967296'') = Inr sample_qr"
  by code_simp

end
