(* ===== verification/Pairing_Session.thy ===== *)
theory Pairing_Session
  imports Pairing_Qr
begin

text \<open>
  \<open>crates/buzz-core/src/pairing/session.rs\<close>: both sides of a device pairing. A method that takes
  \<open>&mut self\<close> returns its result with the session it leaves, since some errors leave a changed session. The
  clock, fresh keys and secrets, and what \<open>build_event\<close> draws at random are arguments. Wiping secrets from memory on
  drop has no effect on the values.
\<close>

section \<open>State\<close>

definition default_timeout :: nat where
  "default_timeout = 120 * 1000000000"

definition pairing_kind :: nat where
  "pairing_kind = 24134"

datatype role = Source | Target

datatype session_state =
    Waiting
  | Confirming
  | AwaitingConfirmation
  | Transferring
  | PayloadExchanged
  | Completed
  | Aborted

record pairing_session =
  ps_role :: role
  ps_state :: session_state
  ps_keys :: byte_array
  ps_session_secret :: byte_array
  ps_relay_urls :: "string list"
  ps_peer_pubkey :: "byte_array option"
  ps_session_id :: byte_array
  ps_sas_code :: "nat option"
  ps_sas_input :: "byte_array option"
  ps_processed_ids :: "byte_array set"
  ps_created_at :: nat
  ps_timeout :: nat

text \<open>What \<open>build_event\<close> reads of the outside: the time in seconds, a random number and the NIP-44 nonce.\<close>

record entropy =
  en_now :: nat
  en_random :: nat
  en_nonce :: byte_array

fun role_debug :: "role \<Rightarrow> string" where
  "role_debug Source = ''Source''"
| "role_debug Target = ''Target''"

fun state_debug :: "session_state \<Rightarrow> string" where
  "state_debug Waiting = ''Waiting''"
| "state_debug Confirming = ''Confirming''"
| "state_debug AwaitingConfirmation = ''AwaitingConfirmation''"
| "state_debug Transferring = ''Transferring''"
| "state_debug PayloadExchanged = ''PayloadExchanged''"
| "state_debug Completed = ''Completed''"
| "state_debug Aborted = ''Aborted''"

fun message_name :: "pairing_message \<Rightarrow> string" where
  "message_name (Offer _ _) = ''offer''"
| "message_name (SasConfirm _) = ''sas-confirm''"
| "message_name (Payload _ _) = ''payload''"
| "message_name (Complete _) = ''complete''"
| "message_name (Abort _) = ''abort''"

definition unexpected :: "string \<Rightarrow> pairing_message \<Rightarrow> pairing_error" where
  "unexpected expected got = UnexpectedMessage expected (message_name got)"

section \<open>Checks\<close>

text \<open>The \<open>?\<close> operator: return the error and the session as it is, or go on.\<close>

definition or_return :: "'e + 'a \<Rightarrow> 's \<Rightarrow> ('a \<Rightarrow> ('e + 'b) \<times> 's) \<Rightarrow> ('e + 'b) \<times> 's" where
  "or_return r s f = (case r of Inl e \<Rightarrow> (Inl e, s) | Inr a \<Rightarrow> f a)"

definition is_expired :: "nat \<Rightarrow> pairing_session \<Rightarrow> bool" where
  "is_expired now s \<longleftrightarrow> now - ps_created_at s > ps_timeout s"

definition check_expired :: "nat \<Rightarrow> pairing_session \<Rightarrow> pairing_error + unit" where
  "check_expired now s = (if is_expired now s then Inl SessionExpired else Inr ())"

definition expect_state :: "session_state \<Rightarrow> pairing_session \<Rightarrow> pairing_error + unit" where
  "expect_state expected s =
    (if ps_state s \<noteq> expected
     then Inl (UnexpectedMessage (''state '' @ state_debug expected) (''state '' @ state_debug (ps_state s)))
     else Inr ())"

definition expect_role :: "role \<Rightarrow> pairing_session \<Rightarrow> pairing_error + unit" where
  "expect_role expected s =
    (if ps_role s \<noteq> expected
     then Inl (UnexpectedMessage (''role '' @ role_debug expected) (''role '' @ role_debug (ps_role s)))
     else Inr ())"

definition tag_points_to :: "string \<Rightarrow> string list \<Rightarrow> bool" where
  "tag_points_to pk_hex t \<longleftrightarrow> (case t of a # b # _ \<Rightarrow> a = ''p'' \<and> b = pk_hex | _ \<Rightarrow> False)"

definition validate_event_basics :: "pairing_lib \<Rightarrow> pairing_session \<Rightarrow> pairing_event \<Rightarrow> pairing_error + unit" where
  "validate_event_basics lib s event =
    (case verify_event lib event of
       Inl e \<Rightarrow> Inl (InvalidPubkey (''event verification failed: '' @ e))
     | Inr _ \<Rightarrow>
         if pe_id event \<in> ps_processed_ids s
         then Inl (UnexpectedMessage ''new event'' ''duplicate event id'')
         else if pe_kind event \<noteq> pairing_kind
         then Inl (UnexpectedMessage (''kind '' @ decimal pairing_kind) (''kind '' @ decimal (pe_kind event)))
         else if \<not> list_ex (tag_points_to (hex_encode lib (public_key lib (ps_keys s)))) (pe_tags event)
         then Inl (InvalidPubkey ''event p-tag does not match our ephemeral pubkey'')
         else Inr ())"

definition validate_event_from_peer :: "pairing_lib \<Rightarrow> pairing_session \<Rightarrow> pairing_event \<Rightarrow> pairing_error + unit" where
  "validate_event_from_peer lib s event =
    (case validate_event_basics lib s event of
       Inl e \<Rightarrow> Inl e
     | Inr _ \<Rightarrow>
         (case ps_peer_pubkey s of
            Some expected \<Rightarrow>
              if pe_pubkey event \<noteq> expected
              then Inl (InvalidPubkey (''event from '' @ hex_encode lib (pe_pubkey event) @ '' but expected '' @
                hex_encode lib expected))
              else Inr ()
          | None \<Rightarrow> Inr ()))"

text \<open>The en dash and the less-or-equal sign of the size messages, in UTF-8.\<close>

definition en_dash :: string where
  "en_dash = [CHR 0xE2, CHR 0x80, CHR 0x93]"

definition le_sign :: string where
  "le_sign = [CHR 0xE2, CHR 0x89, CHR 0xA4]"

definition decrypt_message :: "pairing_lib \<Rightarrow> pairing_session \<Rightarrow> pairing_event \<Rightarrow> pairing_error + pairing_message" where
  "decrypt_message lib s event =
    (let content_len = length (pe_content event)
     in if \<not> (132 \<le> content_len \<and> content_len \<le> 87472)
        then Inl (UnexpectedMessage (''NIP-44 content (132'' @ en_dash @ ''87472 chars)'') (decimal content_len @ '' chars''))
        else case nip44_decrypt lib (ps_keys s) (pe_pubkey event) (pe_content event) of
          Inl e \<Rightarrow> Inl (Nip44Error e)
        | Inr decrypted \<Rightarrow>
            if length decrypted > 65535
            then Inl (UnexpectedMessage (''plaintext '' @ le_sign @ '' 65535 bytes'') (decimal 0 @ '' bytes''))
            else case message_of_json lib decrypted of Inl e \<Rightarrow> Inl (JsonError e) | Inr m \<Rightarrow> Inr m)"

text \<open>\<open>build_event\<close> after it has found the peer: serialize, encrypt, sign.\<close>

definition seal_message ::
  "pairing_lib \<Rightarrow> entropy \<Rightarrow> byte_array \<Rightarrow> byte_array \<Rightarrow> pairing_message \<Rightarrow> pairing_error + pairing_event" where
  "seal_message lib en keys peer message =
    (case json_of_message lib message of
       Inl e \<Rightarrow> Inl (JsonError e)
     | Inr plaintext \<Rightarrow>
         (case nip44_encrypt lib keys peer (en_nonce en) plaintext of
            Inl e \<Rightarrow> Inl (Nip44Error e)
          | Inr encrypted \<Rightarrow>
              (case sign_with_keys lib keys pairing_kind [[''p'', hex_encode lib peer]]
                 (en_now en - en_random en mod 31) encrypted of
                 Inl e \<Rightarrow> Inl (SigningError e)
               | Inr event \<Rightarrow> Inr event)))"

definition build_event :: "pairing_lib \<Rightarrow> entropy \<Rightarrow> pairing_session \<Rightarrow> pairing_message \<Rightarrow> pairing_error + pairing_event" where
  "build_event lib en s message =
    (case ps_peer_pubkey s of
       None \<Rightarrow> Inl (InvalidPubkey ''no peer pubkey set'')
     | Some peer \<Rightarrow> seal_message lib en (ps_keys s) peer message)"

definition record_event :: "pairing_event \<Rightarrow> pairing_session \<Rightarrow> pairing_session" where
  "record_event event s = s\<lparr>ps_processed_ids := insert (pe_id event) (ps_processed_ids s)\<rparr>"

text \<open>\<open>hex::decode\<close> into a 32-byte array.\<close>

definition decode32 :: "pairing_lib \<Rightarrow> string \<Rightarrow> byte_array option" where
  "decode32 lib t = (case hex_decode lib t of Inl _ \<Rightarrow> None | Inr b \<Rightarrow> if length b = 32 then Some b else None)"

section \<open>The source\<close>

definition new_source :: "pairing_lib \<Rightarrow> byte_array \<Rightarrow> byte_array \<Rightarrow> nat \<Rightarrow> string \<Rightarrow> pairing_session \<times> qr_payload" where
  "new_source lib keys session_secret now relay_url =
    (\<lparr>ps_role = Source, ps_state = Waiting, ps_keys = keys, ps_session_secret = session_secret,
      ps_relay_urls = [relay_url], ps_peer_pubkey = None, ps_session_id = derive_session_id lib session_secret,
      ps_sas_code = None, ps_sas_input = None, ps_processed_ids = {}, ps_created_at = now,
      ps_timeout = default_timeout\<rparr>,
     \<lparr>qr_source_pubkey = public_key lib keys, qr_session_secret = session_secret, qr_relays = [relay_url],
      qr_version = 1\<rparr>)"

definition handle_offer ::
  "pairing_lib \<Rightarrow> nat \<Rightarrow> pairing_event \<Rightarrow> pairing_session \<Rightarrow> (pairing_error + string) \<times> pairing_session" where
  "handle_offer lib now event s =
    or_return (check_expired now s) s (\<lambda>_.
    or_return (expect_state Waiting s) s (\<lambda>_.
    or_return (expect_role Source s) s (\<lambda>_.
    or_return (validate_event_basics lib s event) s (\<lambda>_.
    or_return (decrypt_message lib s event) s (\<lambda>msg.
      case msg of
        Offer session_id_hex version \<Rightarrow>
          if version \<noteq> 1
          then (Inl (UnexpectedMessage ''version 1'' (''version '' @ decimal version)), s)
          else if (case decode32 lib session_id_hex of Some i \<Rightarrow> \<not> ct_eq lib i (ps_session_id s) | None \<Rightarrow> True)
          then (Inl InvalidSessionId, s)
          else
            let peer = pe_pubkey event; s1 = s\<lparr>ps_peer_pubkey := Some peer\<rparr>
            in (case generate_shared_key lib (ps_keys s) peer of
                  Inl e \<Rightarrow> (Inl (SigningError e), s1)
                | Inr ecdh \<Rightarrow>
                    (case derive_sas lib ecdh (ps_session_secret s) of
                       (code, sas_input) \<Rightarrow>
                         (Inr (format_sas code), record_event event
                            (s1\<lparr>ps_sas_code := Some code, ps_sas_input := Some sas_input, ps_state := Confirming\<rparr>))))
      | other \<Rightarrow> (Inl (unexpected ''offer'' other), s))))))"

definition confirm_sas ::
  "pairing_lib \<Rightarrow> entropy \<Rightarrow> nat \<Rightarrow> pairing_session \<Rightarrow> (pairing_error + pairing_event) \<times> pairing_session" where
  "confirm_sas lib en now s =
    or_return (check_expired now s) s (\<lambda>_.
    or_return (expect_state Confirming s) s (\<lambda>_.
    or_return (expect_role Source s) s (\<lambda>_.
    or_return (case ps_sas_input s of None \<Rightarrow> Inl SasMismatch | Some i \<Rightarrow> Inr i) s (\<lambda>sas_input.
    or_return (case ps_peer_pubkey s of None \<Rightarrow> Inl (InvalidPubkey ''no peer'') | Some p \<Rightarrow> Inr p) s (\<lambda>peer.
      let transcript_hash = derive_transcript_hash lib (ps_session_id s) (public_key lib (ps_keys s)) peer sas_input
            (ps_session_secret s)
      in or_return (build_event lib en s (SasConfirm (hex_encode lib transcript_hash))) s (\<lambda>event.
           (Inr event, s\<lparr>ps_state := Transferring\<rparr>)))))))"

definition handle_return_payload ::
  "pairing_lib \<Rightarrow> nat \<Rightarrow> pairing_event \<Rightarrow> pairing_session \<Rightarrow> (pairing_error + payload_type \<times> string) \<times> pairing_session" where
  "handle_return_payload lib now event s =
    or_return (check_expired now s) s (\<lambda>_.
    or_return (expect_state Transferring s) s (\<lambda>_.
    or_return (expect_role Source s) s (\<lambda>_.
    or_return (validate_event_from_peer lib s event) s (\<lambda>_.
    or_return (decrypt_message lib s event) s (\<lambda>msg.
      case msg of
        Payload payload_type payload \<Rightarrow>
          (Inr (payload_type, payload), record_event event (s\<lparr>ps_state := PayloadExchanged\<rparr>))
      | other \<Rightarrow> (Inl (unexpected ''payload'' other), s))))))"

definition send_source_complete ::
  "pairing_lib \<Rightarrow> entropy \<Rightarrow> nat \<Rightarrow> bool \<Rightarrow> pairing_session \<Rightarrow> (pairing_error + pairing_event) \<times> pairing_session" where
  "send_source_complete lib en now success s =
    or_return (check_expired now s) s (\<lambda>_.
    or_return (expect_state PayloadExchanged s) s (\<lambda>_.
    or_return (expect_role Source s) s (\<lambda>_.
    or_return (build_event lib en s (Complete success)) s (\<lambda>event.
      (Inr event, s\<lparr>ps_state := (if success then Completed else Aborted)\<rparr>)))))"

definition send_payload ::
  "pairing_lib \<Rightarrow> entropy \<Rightarrow> nat \<Rightarrow> payload_type \<Rightarrow> string \<Rightarrow> pairing_session \<Rightarrow> (pairing_error + pairing_event) \<times> pairing_session" where
  "send_payload lib en now payload_type payload s =
    or_return (check_expired now s) s (\<lambda>_.
    or_return (expect_state Transferring s) s (\<lambda>_.
    or_return (expect_role Source s) s (\<lambda>_.
    or_return (build_event lib en s (Payload payload_type payload)) s (\<lambda>event.
      (Inr event, s\<lparr>ps_state := PayloadExchanged\<rparr>)))))"

definition handle_complete ::
  "pairing_lib \<Rightarrow> nat \<Rightarrow> pairing_event \<Rightarrow> pairing_session \<Rightarrow> (pairing_error + unit) \<times> pairing_session" where
  "handle_complete lib now event s =
    or_return (check_expired now s) s (\<lambda>_.
    or_return (expect_state PayloadExchanged s) s (\<lambda>_.
    or_return (expect_role Source s) s (\<lambda>_.
    or_return (validate_event_from_peer lib s event) s (\<lambda>_.
    or_return (decrypt_message lib s event) s (\<lambda>msg.
      case msg of
        Complete success \<Rightarrow>
          if success then (Inr (), record_event event (s\<lparr>ps_state := Completed\<rparr>))
          else (Inl (UnexpectedMessage ''complete(success=true)'' ''complete(success=false)''), s\<lparr>ps_state := Aborted\<rparr>)
      | other \<Rightarrow> (Inl (unexpected ''complete'' other), s))))))"

section \<open>The target\<close>

definition new_target ::
  "pairing_lib \<Rightarrow> entropy \<Rightarrow> byte_array \<Rightarrow> nat \<Rightarrow> qr_payload \<Rightarrow> pairing_error + pairing_session \<times> pairing_event" where
  "new_target lib en keys now qr =
    (case generate_shared_key lib keys (qr_source_pubkey qr) of
       Inl e \<Rightarrow> Inl (SigningError e)
     | Inr ecdh \<Rightarrow>
         (case derive_sas lib ecdh (qr_session_secret qr) of
            (code, sas_input) \<Rightarrow>
              let session_id = derive_session_id lib (qr_session_secret qr);
                  session = \<lparr>ps_role = Target, ps_state = Waiting, ps_keys = keys,
                    ps_session_secret = qr_session_secret qr, ps_relay_urls = qr_relays qr,
                    ps_peer_pubkey = Some (qr_source_pubkey qr), ps_session_id = session_id, ps_sas_code = Some code,
                    ps_sas_input = Some sas_input, ps_processed_ids = {}, ps_created_at = now,
                    ps_timeout = default_timeout\<rparr>
              in (case build_event lib en session (Offer (hex_encode lib session_id) 1) of
                    Inl e \<Rightarrow> Inl e
                  | Inr event \<Rightarrow> Inr (session\<lparr>ps_state := Confirming\<rparr>, event))))"

definition handle_sas_confirm ::
  "pairing_lib \<Rightarrow> nat \<Rightarrow> pairing_event \<Rightarrow> pairing_session \<Rightarrow> (pairing_error + string) \<times> pairing_session" where
  "handle_sas_confirm lib now event s =
    or_return (check_expired now s) s (\<lambda>_.
    or_return (expect_state Confirming s) s (\<lambda>_.
    or_return (expect_role Target s) s (\<lambda>_.
    or_return (validate_event_from_peer lib s event) s (\<lambda>_.
    or_return (decrypt_message lib s event) s (\<lambda>msg.
      case msg of
        SasConfirm received_hash \<Rightarrow>
          or_return (case ps_sas_input s of None \<Rightarrow> Inl SasMismatch | Some i \<Rightarrow> Inr i) s (\<lambda>sas_input.
          or_return (case ps_peer_pubkey s of None \<Rightarrow> Inl (InvalidPubkey ''no peer'') | Some p \<Rightarrow> Inr p) s (\<lambda>peer.
            let expected_hash = derive_transcript_hash lib (ps_session_id s) peer (public_key lib (ps_keys s)) sas_input
                  (ps_session_secret s)
            in if (case decode32 lib received_hash of Some rb \<Rightarrow> \<not> ct_eq lib rb expected_hash | None \<Rightarrow> True)
               then (Inl TranscriptMismatch, s\<lparr>ps_state := Aborted\<rparr>)
               else
                 let s1 = record_event event (s\<lparr>ps_state := AwaitingConfirmation\<rparr>)
                 in (case ps_sas_code s1 of None \<Rightarrow> (Inl SasMismatch, s1) | Some code \<Rightarrow> (Inr (format_sas code), s1))))
      | other \<Rightarrow> (Inl (unexpected ''sas-confirm'' other), s))))))"

definition confirm_target_sas :: "nat \<Rightarrow> pairing_session \<Rightarrow> (pairing_error + unit) \<times> pairing_session" where
  "confirm_target_sas now s =
    or_return (check_expired now s) s (\<lambda>_.
    or_return (expect_state AwaitingConfirmation s) s (\<lambda>_.
    or_return (expect_role Target s) s (\<lambda>_.
      (Inr (), s\<lparr>ps_state := Transferring\<rparr>))))"

definition handle_payload ::
  "pairing_lib \<Rightarrow> nat \<Rightarrow> pairing_event \<Rightarrow> pairing_session \<Rightarrow> (pairing_error + payload_type \<times> string) \<times> pairing_session" where
  "handle_payload lib now event s =
    or_return (check_expired now s) s (\<lambda>_.
    or_return (expect_state Transferring s) s (\<lambda>_.
    or_return (expect_role Target s) s (\<lambda>_.
    or_return (validate_event_from_peer lib s event) s (\<lambda>_.
    or_return (decrypt_message lib s event) s (\<lambda>msg.
      case msg of
        Payload payload_type payload \<Rightarrow>
          (Inr (payload_type, payload), record_event event (s\<lparr>ps_state := PayloadExchanged\<rparr>))
      | other \<Rightarrow> (Inl (unexpected ''payload'' other), s))))))"

definition send_complete ::
  "pairing_lib \<Rightarrow> entropy \<Rightarrow> nat \<Rightarrow> pairing_session \<Rightarrow> (pairing_error + pairing_event) \<times> pairing_session" where
  "send_complete lib en now s =
    or_return (check_expired now s) s (\<lambda>_.
    or_return (expect_state PayloadExchanged s) s (\<lambda>_.
    or_return (expect_role Target s) s (\<lambda>_.
    or_return (build_event lib en s (Complete True)) s (\<lambda>event.
      (Inr event, s\<lparr>ps_state := Completed\<rparr>)))))"

section \<open>Either side\<close>

definition terminal :: "pairing_session \<Rightarrow> bool" where
  "terminal s \<longleftrightarrow> ps_state s = Completed \<or> ps_state s = Aborted"

definition abort ::
  "pairing_lib \<Rightarrow> entropy \<Rightarrow> abort_reason \<Rightarrow> pairing_session \<Rightarrow> (pairing_error + pairing_event option) \<times> pairing_session" where
  "abort lib en reason s =
    (if terminal s
     then (Inl (UnexpectedMessage ''non-terminal state'' (''state '' @ state_debug (ps_state s))), s)
     else if ps_peer_pubkey s = None then (Inr None, s\<lparr>ps_state := Aborted\<rparr>)
     else or_return (build_event lib en s (Abort reason)) s (\<lambda>event. (Inr (Some event), s\<lparr>ps_state := Aborted\<rparr>)))"

definition handle_abort ::
  "pairing_lib \<Rightarrow> pairing_event \<Rightarrow> pairing_session \<Rightarrow> (pairing_error + abort_reason) \<times> pairing_session" where
  "handle_abort lib event s =
    (if terminal s
     then (Inl (UnexpectedMessage ''non-terminal state'' (''state '' @ state_debug (ps_state s))), s)
     else if ps_peer_pubkey s = None
     then (Inl (InvalidPubkey ''cannot accept abort before peer is known''), s)
     else
       or_return (validate_event_from_peer lib s event) s (\<lambda>_.
       or_return (decrypt_message lib s event) s (\<lambda>msg.
         case msg of
           Abort reason \<Rightarrow> (Inr reason, record_event event (s\<lparr>ps_state := Aborted\<rparr>))
         | other \<Rightarrow> (Inl (unexpected ''abort'' other), s))))"

definition session_sas_code :: "pairing_session \<Rightarrow> string option" where
  "session_sas_code s = map_option format_sas (ps_sas_code s)"

definition qr_uri :: "pairing_lib \<Rightarrow> pairing_session \<Rightarrow> string option" where
  "qr_uri lib s =
    (if ps_role s \<noteq> Source then None
     else Some (encode_qr lib \<lparr>qr_source_pubkey = public_key lib (ps_keys s), qr_session_secret = ps_session_secret s,
       qr_relays = ps_relay_urls s, qr_version = 1\<rparr>))"


section \<open>A session as a system of steps\<close>

text \<open>The calls on a session, with what they read of the outside. Any event may arrive at any time.\<close>

datatype pairing_op =
    DoOffer nat pairing_event
  | DoConfirmSas entropy nat
  | DoReturnPayload nat pairing_event
  | DoSourceComplete entropy nat bool
  | DoSendPayload entropy nat payload_type string
  | DoHandleComplete nat pairing_event
  | DoSasConfirm nat pairing_event
  | DoConfirmTarget nat
  | DoPayload nat pairing_event
  | DoSendComplete entropy nat
  | DoAbort entropy abort_reason
  | DoHandleAbort pairing_event

definition outcome :: "('e + 'a) \<times> 's \<Rightarrow> bool \<times> 's" where
  "outcome p = (\<not> isl (fst p), snd p)"

fun run_pairing :: "pairing_lib \<Rightarrow> pairing_op \<Rightarrow> pairing_session \<Rightarrow> bool \<times> pairing_session" where
  "run_pairing lib (DoOffer now ev) s = outcome (handle_offer lib now ev s)"
| "run_pairing lib (DoConfirmSas en now) s = outcome (confirm_sas lib en now s)"
| "run_pairing lib (DoReturnPayload now ev) s = outcome (handle_return_payload lib now ev s)"
| "run_pairing lib (DoSourceComplete en now b) s = outcome (send_source_complete lib en now b s)"
| "run_pairing lib (DoSendPayload en now t x) s = outcome (send_payload lib en now t x s)"
| "run_pairing lib (DoHandleComplete now ev) s = outcome (handle_complete lib now ev s)"
| "run_pairing lib (DoSasConfirm now ev) s = outcome (handle_sas_confirm lib now ev s)"
| "run_pairing lib (DoConfirmTarget now) s = outcome (confirm_target_sas now s)"
| "run_pairing lib (DoPayload now ev) s = outcome (handle_payload lib now ev s)"
| "run_pairing lib (DoSendComplete en now) s = outcome (send_complete lib en now s)"
| "run_pairing lib (DoAbort en r) s = outcome (abort lib en r s)"
| "run_pairing lib (DoHandleAbort ev) s = outcome (handle_abort lib ev s)"

text \<open>
  The specification: which calls move a session of a role from one state to another, and whether
  they are reported as a success.
\<close>

fun pairing_edge :: "role \<Rightarrow> pairing_op \<Rightarrow> session_state \<Rightarrow> bool \<Rightarrow> session_state \<Rightarrow> bool" where
  "pairing_edge r (DoConfirmSas _ _) st ok st' \<longleftrightarrow> r = Source \<and> st = Confirming \<and> ok \<and> st' = Transferring"
| "pairing_edge r (DoReturnPayload _ _) st ok st' \<longleftrightarrow> r = Source \<and> st = Transferring \<and> ok \<and> st' = PayloadExchanged"
| "pairing_edge r (DoSourceComplete _ _ b) st ok st' \<longleftrightarrow>
    r = Source \<and> st = PayloadExchanged \<and> ok \<and> st' = (if b then Completed else Aborted)"
| "pairing_edge r (DoSendPayload _ _ _ _) st ok st' \<longleftrightarrow> r = Source \<and> st = Transferring \<and> ok \<and> st' = PayloadExchanged"
| "pairing_edge r (DoHandleComplete _ _) st ok st' \<longleftrightarrow>
    r = Source \<and> st = PayloadExchanged \<and> st' = (if ok then Completed else Aborted)"
| "pairing_edge r (DoSasConfirm _ _) st ok st' \<longleftrightarrow>
    r = Target \<and> st = Confirming \<and> st' = (if ok then AwaitingConfirmation else Aborted)"
| "pairing_edge r (DoConfirmTarget _) st ok st' \<longleftrightarrow> r = Target \<and> st = AwaitingConfirmation \<and> ok \<and> st' = Transferring"
| "pairing_edge r (DoPayload _ _) st ok st' \<longleftrightarrow> r = Target \<and> st = Transferring \<and> ok \<and> st' = PayloadExchanged"
| "pairing_edge r (DoSendComplete _ _) st ok st' \<longleftrightarrow> r = Target \<and> st = PayloadExchanged \<and> ok \<and> st' = Completed"
| "pairing_edge r (DoAbort _ _) st ok st' \<longleftrightarrow> st \<noteq> Completed \<and> st \<noteq> Aborted \<and> ok \<and> st' = Aborted"
| "pairing_edge r (DoHandleAbort _) st ok st' \<longleftrightarrow> st \<noteq> Completed \<and> st \<noteq> Aborted \<and> ok \<and> st' = Aborted"
| "pairing_edge r (DoOffer _ _) st ok st' \<longleftrightarrow> False"

fun event_of :: "pairing_op \<Rightarrow> pairing_event option" where
  "event_of (DoOffer _ ev) = Some ev"
| "event_of (DoReturnPayload _ ev) = Some ev"
| "event_of (DoHandleComplete _ ev) = Some ev"
| "event_of (DoSasConfirm _ ev) = Some ev"
| "event_of (DoPayload _ ev) = Some ev"
| "event_of (DoHandleAbort ev) = Some ev"
| "event_of _ = None"

text \<open>The ids recorded by a call: that of the event it accepted, if any.\<close>

definition ids_after :: "pairing_op \<Rightarrow> bool \<Rightarrow> byte_array set \<Rightarrow> byte_array set" where
  "ids_after op ok ids = (case event_of op of Some ev \<Rightarrow> if ok then insert (pe_id ev) ids else ids | None \<Rightarrow> ids)"

definition sas_known :: "pairing_lib \<Rightarrow> pairing_session \<Rightarrow> bool" where
  "sas_known lib s \<longleftrightarrow>
    (\<exists>peer ecdh. ps_peer_pubkey s = Some peer \<and> generate_shared_key lib (ps_keys s) peer = Inr ecdh \<and>
      ps_sas_code s = Some (fst (derive_sas lib ecdh (ps_session_secret s))) \<and>
      ps_sas_input s = Some (snd (derive_sas lib ecdh (ps_session_secret s))))"

section \<open>Lemmas\<close>

lemma or_return_simps [simp]: "or_return (Inl e) s f = (Inl e, s)" "or_return (Inr a) s f = f a"
  by (simp_all add: or_return_def)

lemma outcome_simps [simp]: "outcome (Inl e, s) = (False, s)" "outcome (Inr a, s) = (True, s)"
  by (simp_all add: outcome_def)

lemma outcome_or_return [simp]:
  "outcome (or_return r s f) = (ok, s') \<longleftrightarrow>
    (\<exists>e. r = Inl e \<and> \<not> ok \<and> s' = s) \<or> (\<exists>a. r = Inr a \<and> outcome (f a) = (ok, s'))"
  by (cases r) auto

lemma check_simps [simp]:
  "check_expired now s = Inr u \<longleftrightarrow> \<not> is_expired now s"
  "expect_state st s = Inr u \<longleftrightarrow> ps_state s = st"
  "expect_role r s = Inr u \<longleftrightarrow> ps_role s = r"
  by (simp_all add: check_expired_def expect_state_def expect_role_def)

text \<open>Every call leaves the session unchanged and fails, or follows an edge, or is an offer.\<close>

lemma offer_shape:
  assumes "run_pairing lib (DoOffer now ev) s = (ok, s')"
  shows "s' = s \<and> \<not> ok \<or>
    ps_role s = Source \<and> ps_state s = Waiting \<and> validate_event_basics lib s ev = Inr () \<and>
      (\<not> ok \<and> s' = s\<lparr>ps_peer_pubkey := Some (pe_pubkey ev)\<rparr> \<or>
       (\<exists>ecdh. ok \<and> generate_shared_key lib (ps_keys s) (pe_pubkey ev) = Inr ecdh \<and>
         s' = s\<lparr>ps_peer_pubkey := Some (pe_pubkey ev), ps_sas_code := Some (fst (derive_sas lib ecdh (ps_session_secret s))),
           ps_sas_input := Some (snd (derive_sas lib ecdh (ps_session_secret s))), ps_state := Confirming,
           ps_processed_ids := insert (pe_id ev) (ps_processed_ids s)\<rparr>))"
proof (cases "decrypt_message lib s ev")
  case (Inl e)
  then show ?thesis using assms by (auto simp: handle_offer_def)
next
  case (Inr msg)
  then show ?thesis
    using assms by (cases msg) (auto simp: handle_offer_def Let_def record_event_def
        split: if_splits option.splits sum.splits prod.splits)
qed


definition moved :: "pairing_op \<Rightarrow> pairing_session \<Rightarrow> bool \<Rightarrow> pairing_session \<Rightarrow> bool" where
  "moved op s ok s' \<longleftrightarrow> pairing_edge (ps_role s) op (ps_state s) ok (ps_state s') \<and>
    s' = s\<lparr>ps_state := ps_state s', ps_processed_ids := ids_after op ok (ps_processed_ids s)\<rparr>"

lemma decrypt_cases:
  obtains (error) e where "decrypt_message lib s ev = Inl e"
  | (offer) i v where "decrypt_message lib s ev = Inr (Offer i v)"
  | (confirm) h where "decrypt_message lib s ev = Inr (SasConfirm h)"
  | (payload) t x where "decrypt_message lib s ev = Inr (Payload t x)"
  | (complete) b where "decrypt_message lib s ev = Inr (Complete b)"
  | (abort) r where "decrypt_message lib s ev = Inr (Abort r)"
  by (cases "decrypt_message lib s ev"; cases "projr (decrypt_message lib s ev)") auto

lemmas move_simps = moved_def ids_after_def record_event_def Let_def

lemma receive_shapes:
  assumes "op = DoReturnPayload now ev \<or> op = DoPayload now ev \<or> op = DoHandleComplete now ev \<or> op = DoHandleAbort ev"
    and "run_pairing lib op s = (ok, s')"
  shows "s' = s \<and> \<not> ok \<or> moved op s ok s'"
  using assms
  by (cases rule: decrypt_cases [of lib s ev])
    (auto simp: move_simps handle_return_payload_def handle_payload_def handle_complete_def handle_abort_def terminal_def
      split: if_splits)

lemma sas_confirm_shape:
  assumes "op = DoSasConfirm now ev" and "ps_role s = Target \<Longrightarrow> ps_sas_code s \<noteq> None"
    and "run_pairing lib op s = (ok, s')"
  shows "s' = s \<and> \<not> ok \<or> moved op s ok s'"
  using assms
  by (cases rule: decrypt_cases [of lib s ev])
    (auto simp: move_simps handle_sas_confirm_def split: if_splits option.splits)

lemma send_shapes:
  assumes "event_of op = None" and "run_pairing lib op s = (ok, s')"
  shows "s' = s \<and> \<not> ok \<or> moved op s ok s'"
  using assms
  by (cases op) (auto simp: move_simps confirm_sas_def send_source_complete_def send_payload_def confirm_target_sas_def
      send_complete_def abort_def terminal_def split: if_splits)

lemma message_shapes:
  assumes "\<nexists>now ev. op = DoOffer now ev" and "sas_known lib s \<or> ps_role s = Source"
    and "run_pairing lib op s = (ok, s')"
  shows "s' = s \<and> \<not> ok \<or> moved op s ok s'"
proof (cases op)
  case (DoSasConfirm now ev)
  have "ps_sas_code s \<noteq> None" if "ps_role s = Target"
    using assms(2) that by (auto simp: sas_known_def)
  then show ?thesis using sas_confirm_shape [OF DoSasConfirm _ assms(3)] by blast
qed (use assms(1,3) receive_shapes [where op = op] send_shapes [of op] in auto)

section \<open>The invariant\<close>

text \<open>
  What holds in every state a session reaches: the session id comes from the secret, a session past
  \<open>Waiting\<close> and not aborted knows its peer and the authentication string derived with it, and each role
  visits only its own states.
\<close>

definition pairing_inv :: "pairing_lib \<Rightarrow> pairing_session \<Rightarrow> bool" where
  "pairing_inv lib s \<longleftrightarrow>
    ps_session_id s = derive_session_id lib (ps_session_secret s) \<and>
    (ps_state s \<noteq> Waiting \<and> ps_state s \<noteq> Aborted \<longrightarrow> sas_known lib s) \<and>
    (ps_role s = Source \<longrightarrow> ps_state s \<noteq> AwaitingConfirmation) \<and>
    (ps_role s = Target \<longrightarrow> sas_known lib s \<and> ps_state s \<noteq> Waiting)"

lemma new_source_inv: "pairing_inv lib (fst (new_source lib keys secret now relay))"
  by (simp add: pairing_inv_def new_source_def)

lemma new_target_inv:
  assumes "new_target lib en keys now qr = Inr (s, ev)"
  shows "pairing_inv lib s" and "ps_role s = Target" and "ps_state s = Confirming"
  using assms by (auto simp: pairing_inv_def sas_known_def new_target_def Let_def split: sum.splits prod.splits)

lemma sas_known_upd [simp]: "sas_known lib (s\<lparr>ps_state := st, ps_processed_ids := ids\<rparr>) = sas_known lib s"
  by (simp add: sas_known_def)

lemma moved_inv:
  assumes "pairing_inv lib s" and "moved op s ok s'"
  shows "pairing_inv lib s'"
proof -
  obtain st ids where s': "s' = s\<lparr>ps_state := st, ps_processed_ids := ids\<rparr>"
    and edge: "pairing_edge (ps_role s) op (ps_state s) ok st"
    using assms(2) by (metis moved_def)
  have "ps_state s \<noteq> Waiting \<and> ps_state s \<noteq> Aborted \<or> st = Aborted"
    and "ps_role s = Source \<longrightarrow> st \<noteq> AwaitingConfirmation" and "st \<noteq> Waiting"
    using edge by (cases op; auto split: if_splits)+
  with assms(1) show ?thesis
    unfolding s' by (auto simp: pairing_inv_def)
qed

lemma run_pairing_shape:
  assumes "pairing_inv lib s" and "run_pairing lib op s = (ok, s')"
  shows "s' = s \<and> \<not> ok \<or> moved op s ok s' \<or> (\<exists>now ev. op = DoOffer now ev)"
proof (cases "\<exists>now ev. op = DoOffer now ev")
  case False
  have "sas_known lib s \<or> ps_role s = Source"
    using assms(1) by (cases "ps_role s") (simp_all add: pairing_inv_def)
  with False assms(2) show ?thesis using message_shapes by blast
qed blast

lemma run_pairing_inv:
  assumes "pairing_inv lib s" and "run_pairing lib op s = (ok, s')"
  shows "pairing_inv lib s'"
proof (cases "\<exists>now ev. op = DoOffer now ev")
  case True
  then obtain now ev where op: "op = DoOffer now ev" by blast
  have w: "pairing_inv lib (s\<lparr>ps_peer_pubkey := Some (pe_pubkey ev)\<rparr>)" if "ps_role s = Source" "ps_state s = Waiting"
    using assms(1) that by (simp add: pairing_inv_def)
  have c: "pairing_inv lib (s\<lparr>ps_peer_pubkey := Some (pe_pubkey ev), ps_sas_code := Some (fst (derive_sas lib ecdh (ps_session_secret s))),
           ps_sas_input := Some (snd (derive_sas lib ecdh (ps_session_secret s))), ps_state := Confirming,
           ps_processed_ids := insert (pe_id ev) (ps_processed_ids s)\<rparr>)"
    if "ps_role s = Source" "generate_shared_key lib (ps_keys s) (pe_pubkey ev) = Inr ecdh" for ecdh
    using assms(1) that by (simp add: pairing_inv_def sas_known_def)
  from offer_shape [OF assms(2) [unfolded op]] show ?thesis
    using assms(1) w c by (elim disjE conjE exE) simp_all
next
  case False
  with run_pairing_shape [OF assms] moved_inv [OF assms(1)] assms(1) show ?thesis by blast
qed

text \<open>The accepted calls of a run, with the session they lead to.\<close>

definition run_pairings :: "pairing_lib \<Rightarrow> pairing_op list \<Rightarrow> pairing_session \<Rightarrow> pairing_op list \<times> pairing_session" where
  "run_pairings lib ops s =
    foldl (\<lambda>(acc, s) op. case run_pairing lib op s of (ok, s') \<Rightarrow> (if ok then acc @ [op] else acc, s')) ([], s) ops"

lemma run_pairings_snoc:
  "run_pairings lib (ops @ [op]) s =
    (case run_pairings lib ops s of (acc, s1) \<Rightarrow>
       case run_pairing lib op s1 of (ok, s2) \<Rightarrow> (if ok then acc @ [op] else acc, s2))"
  by (simp add: run_pairings_def split: prod.split)

lemma run_pairings_Nil [simp]: "run_pairings lib [] s = ([], s)"
  by (simp add: run_pairings_def)

lemma run_pairings_inv: "pairing_inv lib s \<Longrightarrow> pairing_inv lib (snd (run_pairings lib ops s))"
  by (induction ops rule: rev_induct) (auto simp: run_pairings_snoc split: prod.splits dest: run_pairing_inv)


section \<open>The order of the calls\<close>




lemma moved_fields:
  assumes "moved op s ok s'"
  shows "ps_role s' = ps_role s" and "ps_processed_ids s' = ids_after op ok (ps_processed_ids s)"
    and "ps_peer_pubkey s' = ps_peer_pubkey s" and "ps_keys s' = ps_keys s"
proof -
  obtain st ids where "s' = s\<lparr>ps_state := st, ps_processed_ids := ids\<rparr>" "ids = ids_after op ok (ps_processed_ids s)"
    using assms by (metis moved_def)
  then show "ps_role s' = ps_role s" "ps_processed_ids s' = ids_after op ok (ps_processed_ids s)"
    "ps_peer_pubkey s' = ps_peer_pubkey s" "ps_keys s' = ps_keys s"
    by simp_all
qed



section \<open>Accepted events\<close>

lemma validate_basics_ok:
  "validate_event_basics lib s ev = Inr () \<longleftrightarrow>
    verify_event lib ev = Inr () \<and> pe_id ev \<notin> ps_processed_ids s \<and> pe_kind ev = pairing_kind \<and>
    list_ex (tag_points_to (hex_encode lib (public_key lib (ps_keys s)))) (pe_tags ev)"
  by (auto simp: validate_event_basics_def split: sum.splits)

lemma validate_peer_ok:
  "validate_event_from_peer lib s ev = Inr () \<longleftrightarrow>
    validate_event_basics lib s ev = Inr () \<and> (\<forall>p. ps_peer_pubkey s = Some p \<longrightarrow> pe_pubkey ev = p)"
  by (auto simp: validate_event_from_peer_def split: sum.splits option.splits)

lemma accepted_validated:
  assumes "run_pairing lib op s = (True, s')" and "event_of op = Some ev" and "\<nexists>now. op = DoOffer now ev"
  shows "validate_event_from_peer lib s ev = Inr ()"
  using assms
proof (cases op)
  case (DoHandleAbort ev')
  with assms show ?thesis by (auto simp: handle_abort_def split: if_splits)
qed (auto simp: handle_return_payload_def handle_complete_def handle_sas_confirm_def handle_payload_def)

lemma accepted_event:
  assumes "pairing_inv lib s" and "run_pairing lib op s = (True, s')" and "event_of op = Some ev"
  shows "validate_event_basics lib s ev = Inr () \<and> ((\<exists>now. op = DoOffer now ev) \<or> ps_peer_pubkey s = Some (pe_pubkey ev)) \<and>
    pe_id ev \<in> ps_processed_ids s'"
proof (cases "\<exists>now. op = DoOffer now ev")
  case True
  then obtain now where op: "op = DoOffer now ev" by blast
  from offer_shape [OF assms(2) [unfolded op]] op show ?thesis
    by (elim disjE conjE exE) simp_all
next
  case False
  have "validate_event_from_peer lib s ev = Inr ()"
    using assms(2,3) False accepted_validated by blast
  moreover have no: "\<nexists>now ev. op = DoOffer now ev"
    using False assms(3) by auto
  then have m: "moved op s True s'"
    using run_pairing_shape [OF assms(1,2)] by blast
  moreover have "\<exists>p. ps_peer_pubkey s = Some p"
  proof (cases "ps_state s = Waiting")
    case True
    with m have "\<exists>ev. op = DoHandleAbort ev"
      using assms(3) conjunct1 [OF m [unfolded moved_def]] by (cases op) simp_all
    then obtain ev' where "op = DoHandleAbort ev'" by blast
    with assms(2) show ?thesis by (cases "ps_peer_pubkey s") (simp_all add: handle_abort_def terminal_def True)
  next
    case False
    moreover from m have "ps_state s \<noteq> Aborted"
      using conjunct1 [OF m [unfolded moved_def]] by (cases op) simp_all
    ultimately show ?thesis
      using assms(1) by (auto simp: pairing_inv_def sas_known_def)
  qed
  moreover have "pe_id ev \<in> ps_processed_ids s'"
    unfolding moved_fields(2) [OF m] using assms(3) by (simp add: ids_after_def)
  ultimately show ?thesis by (auto simp: validate_peer_ok)
qed


lemma run_pairing_ids_mono:
  assumes "pairing_inv lib s" and "run_pairing lib op s = (ok, s')"
  shows "ps_processed_ids s \<subseteq> ps_processed_ids s'"
proof (cases "\<exists>now ev. op = DoOffer now ev")
  case True
  then obtain now ev where op: "op = DoOffer now ev" by blast
  from offer_shape [OF assms(2) [unfolded op]] show ?thesis
    by (elim disjE conjE exE) auto
next
  case False
  with run_pairing_shape [OF assms] moved_fields(2) show ?thesis
    by (auto simp: ids_after_def split: option.split)
qed

lemma run_pairings_ids_mono:
  "pairing_inv lib s \<Longrightarrow> ps_processed_ids s \<subseteq> ps_processed_ids (snd (run_pairings lib ops s))"
proof (induction ops rule: rev_induct)
  case (snoc op ops)
  have "pairing_inv lib (snd (run_pairings lib ops s))"
    using snoc.prems by (rule run_pairings_inv)
  from run_pairing_ids_mono [OF this] snoc show ?case
    by (fastforce simp: run_pairings_snoc split: prod.split)
qed simp

section \<open>Sealing and opening messages\<close>

text \<open>
  What the two parties rely on of JSON, NIP-44 and signing for one message from \<open>a\<close> to \<open>b\<close>: it is
  serialized, encrypted and signed within the size limits, and decryption, parsing and verification
  undo it.
\<close>

definition message_ok :: "pairing_lib \<Rightarrow> byte_array \<Rightarrow> byte_array \<Rightarrow> entropy \<Rightarrow> pairing_message \<Rightarrow> bool" where
  "message_ok lib a b en m \<longleftrightarrow>
    (case json_of_message lib m of
       Inl _ \<Rightarrow> False
     | Inr p \<Rightarrow> length p \<le> 65535 \<and> message_of_json lib p = Inr m \<and>
         (case nip44_encrypt lib a (public_key lib b) (en_nonce en) p of
            Inl _ \<Rightarrow> False
          | Inr c \<Rightarrow> 132 \<le> length c \<and> length c \<le> 87472 \<and> nip44_decrypt lib b (public_key lib a) c = Inr p \<and>
              (case sign_with_keys lib a pairing_kind [[''p'', hex_encode lib (public_key lib b)]]
                 (en_now en - en_random en mod 31) c of
                 Inl _ \<Rightarrow> False
               | Inr ev \<Rightarrow> pe_pubkey ev = public_key lib a \<and> pe_kind ev = pairing_kind \<and>
                   pe_tags ev = [[''p'', hex_encode lib (public_key lib b)]] \<and> pe_content ev = c \<and>
                   verify_event lib ev = Inr ())))"

definition message_id :: "pairing_lib \<Rightarrow> byte_array \<Rightarrow> byte_array \<Rightarrow> entropy \<Rightarrow> pairing_message \<Rightarrow> byte_array" where
  "message_id lib a b en m =
    (case seal_message lib en a (public_key lib b) m of Inl _ \<Rightarrow> [] | Inr ev \<Rightarrow> pe_id ev)"

text \<open>An event that brings a message from \<open>a\<close> to \<open>b\<close>, for sessions with these keys.\<close>

definition carries :: "pairing_lib \<Rightarrow> byte_array \<Rightarrow> byte_array \<Rightarrow> entropy \<Rightarrow> pairing_message \<Rightarrow> pairing_event \<Rightarrow> bool" where
  "carries lib a b en m ev \<longleftrightarrow>
    (\<forall>s. ps_keys s = a \<longrightarrow> ps_peer_pubkey s = Some (public_key lib b) \<longrightarrow> build_event lib en s m = Inr ev) \<and>
    pe_pubkey ev = public_key lib a \<and> pe_id ev = message_id lib a b en m \<and>
    (\<forall>t. ps_keys t = b \<longrightarrow> decrypt_message lib t ev = Inr m) \<and>
    (\<forall>t. ps_keys t = b \<longrightarrow> pe_id ev \<notin> ps_processed_ids t \<longrightarrow> validate_event_basics lib t ev = Inr ())"

lemma carriesD:
  assumes "carries lib a b en m ev"
  shows "ps_keys s = a \<Longrightarrow> ps_peer_pubkey s = Some (public_key lib b) \<Longrightarrow> build_event lib en s m = Inr ev"
    and "pe_pubkey ev = public_key lib a" and "pe_id ev = message_id lib a b en m"
    and "ps_keys t = b \<Longrightarrow> decrypt_message lib t ev = Inr m"
    and "ps_keys t = b \<Longrightarrow> pe_id ev \<notin> ps_processed_ids t \<Longrightarrow> validate_event_basics lib t ev = Inr ()"
    and "ps_keys t = b \<Longrightarrow> pe_id ev \<notin> ps_processed_ids t \<Longrightarrow> ps_peer_pubkey t = Some (public_key lib a) \<Longrightarrow>
      validate_event_from_peer lib t ev = Inr ()"
  using assms by (simp_all add: carries_def validate_peer_ok)

lemma message_carried:
  assumes "message_ok lib a b en m"
  shows "\<exists>ev. carries lib a b en m ev"
proof -
  from assms obtain p c ev where p: "json_of_message lib m = Inr p" "length p \<le> 65535" "message_of_json lib p = Inr m"
    and c: "nip44_encrypt lib a (public_key lib b) (en_nonce en) p = Inr c" "132 \<le> length c" "length c \<le> 87472"
      "nip44_decrypt lib b (public_key lib a) c = Inr p"
    and ev: "sign_with_keys lib a pairing_kind [[''p'', hex_encode lib (public_key lib b)]]
        (en_now en - en_random en mod 31) c = Inr ev"
      "pe_pubkey ev = public_key lib a" "pe_kind ev = pairing_kind"
      "pe_tags ev = [[''p'', hex_encode lib (public_key lib b)]]" "pe_content ev = c" "verify_event lib ev = Inr ()"
    by (auto simp: message_ok_def split: sum.splits)
  have seal: "seal_message lib en a (public_key lib b) m = Inr ev"
    using p c ev by (simp add: seal_message_def)
  have "carries lib a b en m ev"
    using p c ev by (simp add: carries_def build_event_def seal message_id_def decrypt_message_def Let_def
        validate_basics_ok tag_points_to_def)
  then show ?thesis ..
qed

lemma decode32_hex: "hex_ok lib b \<Longrightarrow> length b = 32 \<Longrightarrow> decode32 lib (hex_encode lib b) = Some b"
  by (simp add: decode32_def hex_ok_def)

section \<open>A run without interference\<close>

text \<open>The keys, libraries and times with which two honest devices can pair.\<close>

definition can_pair ::
  "pairing_lib \<Rightarrow> byte_array \<Rightarrow> byte_array \<Rightarrow> byte_array \<Rightarrow> payload_type \<Rightarrow> string \<Rightarrow> entropy \<Rightarrow> entropy \<Rightarrow> entropy \<Rightarrow> entropy \<Rightarrow> bool" where
  "can_pair lib a b secret ty x en1 en2 en3 en4 \<longleftrightarrow>
    (case generate_shared_key lib a (public_key lib b) of
       Inl _ \<Rightarrow> False
     | Inr k \<Rightarrow>
         generate_shared_key lib b (public_key lib a) = Inr k \<and>
         (let sid = derive_session_id lib secret;
              h = derive_transcript_hash lib sid (public_key lib a) (public_key lib b) (snd (derive_sas lib k secret)) secret;
              offer = Offer (hex_encode lib sid) 1; confirm = SasConfirm (hex_encode lib h)
          in hex_ok lib sid \<and> length sid = 32 \<and> lib_ct_eq lib sid sid \<and> hex_ok lib h \<and> length h = 32 \<and> lib_ct_eq lib h h \<and>
             message_ok lib b a en1 offer \<and> message_ok lib a b en2 confirm \<and>
             message_ok lib a b en3 (Payload ty x) \<and> message_ok lib b a en4 (Complete True) \<and>
             message_id lib b a en1 offer \<noteq> message_id lib b a en4 (Complete True) \<and>
             message_id lib a b en2 confirm \<noteq> message_id lib a b en3 (Payload ty x)))"

lemma be_u32_mod: "be_u32 bs mod 1000000 < 1000000"
  by simp

lemma pairing_run:
  assumes "can_pair lib a b secret ty x en1 en2 en3 en4" and time: "t - t0 \<le> default_timeout"
    and src: "new_source lib a secret t0 relay = (s0, qr)"
  obtains tg offer sas s1 confirm s2 tg1 tg2 pay s3 tg3 complete tg4 s4 where
    "new_target lib en1 b t0 qr = Inr (tg, offer)" "handle_offer lib t offer s0 = (Inr sas, s1)"
    "session_sas_code tg = Some sas" "length sas = 6"
    "confirm_sas lib en2 t s1 = (Inr confirm, s2)" "handle_sas_confirm lib t confirm tg = (Inr sas, tg1)"
    "confirm_target_sas t tg1 = (Inr (), tg2)" "send_payload lib en3 t ty x s2 = (Inr pay, s3)"
    "handle_payload lib t pay tg2 = (Inr (ty, x), tg3)" "send_complete lib en4 t tg3 = (Inr complete, tg4)"
    "handle_complete lib t complete s3 = (Inr (), s4)" "ps_state s4 = Completed" "ps_state tg4 = Completed"
proof -
  define sid where "sid = derive_session_id lib secret"
  from assms(1) obtain k where k: "generate_shared_key lib a (public_key lib b) = Inr k"
    "generate_shared_key lib b (public_key lib a) = Inr k"
    by (auto simp: can_pair_def split: sum.splits)
  define inp where "inp = snd (derive_sas lib k secret)"
  define code where "code = fst (derive_sas lib k secret)"
  have sas: "derive_sas lib k secret = (code, inp)"
    by (simp add: code_def inp_def)
  define h where "h = derive_transcript_hash lib sid (public_key lib a) (public_key lib b) inp secret"
  have ok: "hex_ok lib sid" "length sid = 32" "lib_ct_eq lib sid sid" "hex_ok lib h" "length h = 32" "lib_ct_eq lib h h"
    "message_ok lib b a en1 (Offer (hex_encode lib sid) 1)" "message_ok lib a b en2 (SasConfirm (hex_encode lib h))"
    "message_ok lib a b en3 (Payload ty x)" "message_ok lib b a en4 (Complete True)"
    "message_id lib b a en1 (Offer (hex_encode lib sid) 1) \<noteq> message_id lib b a en4 (Complete True)"
    "message_id lib a b en2 (SasConfirm (hex_encode lib h)) \<noteq> message_id lib a b en3 (Payload ty x)"
    using assms(1) k by (simp_all add: can_pair_def Let_def sid_def h_def inp_def)
  have live: "\<not> is_expired t s" if "ps_created_at s = t0" "ps_timeout s = default_timeout" for s
    using time that by (simp add: is_expired_def)
  have len: "length (format_sas code) = 6"
    by (rule length_format_sas) (simp add: code_def derive_sas_def Let_def)
  obtain offer confirm pay complete where
    ev: "carries lib b a en1 (Offer (hex_encode lib sid) 1) offer" "carries lib a b en2 (SasConfirm (hex_encode lib h)) confirm"
      "carries lib a b en3 (Payload ty x) pay" "carries lib b a en4 (Complete True) complete"
    using message_carried ok(7-10) by metis
  note offer = carriesD [OF ev(1)] and confirm = carriesD [OF ev(2)] and pay = carriesD [OF ev(3)]
    and complete = carriesD [OF ev(4)]
  define tg where "tg = \<lparr>ps_role = Target, ps_state = Confirming, ps_keys = b, ps_session_secret = secret,
    ps_relay_urls = [relay], ps_peer_pubkey = Some (public_key lib a), ps_session_id = sid, ps_sas_code = Some code,
    ps_sas_input = Some inp, ps_processed_ids = {}, ps_created_at = t0, ps_timeout = default_timeout\<rparr>"
  define s1 where "s1 = \<lparr>ps_role = Source, ps_state = Confirming, ps_keys = a, ps_session_secret = secret,
    ps_relay_urls = [relay], ps_peer_pubkey = Some (public_key lib b), ps_session_id = sid, ps_sas_code = Some code,
    ps_sas_input = Some inp, ps_processed_ids = {pe_id offer}, ps_created_at = t0, ps_timeout = default_timeout\<rparr>"
  have s0: "s0 = \<lparr>ps_role = Source, ps_state = Waiting, ps_keys = a, ps_session_secret = secret,
      ps_relay_urls = [relay], ps_peer_pubkey = None, ps_session_id = sid,
      ps_sas_code = None, ps_sas_input = None, ps_processed_ids = {}, ps_created_at = t0, ps_timeout = default_timeout\<rparr>"
    and qr: "qr_source_pubkey qr = public_key lib a" "qr_session_secret qr = secret" "qr_relays qr = [relay]"
    using src by (auto simp: new_source_def sid_def)
  note run = live ct_eq_def decode32_hex [OF ok(1,2)] decode32_hex [OF ok(4,5)] ok(3,6) record_event_def Let_def
    check_expired_def expect_state_def expect_role_def
  let ?s2 = "s1\<lparr>ps_state := Transferring\<rparr>" and ?s3 = "s1\<lparr>ps_state := PayloadExchanged\<rparr>"
  let ?tg1 = "tg\<lparr>ps_state := AwaitingConfirmation, ps_processed_ids := {pe_id confirm}\<rparr>"
  let ?tg2 = "?tg1\<lparr>ps_state := Transferring\<rparr>"
  let ?tg3 = "?tg2\<lparr>ps_state := PayloadExchanged, ps_processed_ids := {pe_id pay, pe_id confirm}\<rparr>"
  show ?thesis
  proof (rule that [where tg = tg and ?s1.0 = s1 and ?s2.0 = ?s2 and ?s3.0 = ?s3 and ?tg1.0 = ?tg1 and ?tg2.0 = ?tg2
        and ?tg3.0 = ?tg3 and sas = "format_sas code" and offer = offer and confirm = confirm and pay = pay
        and complete = complete and ?tg4.0 = "?tg3\<lparr>ps_state := Completed\<rparr>"
        and ?s4.0 = "record_event complete (?s3\<lparr>ps_state := Completed\<rparr>)"])
    show "new_target lib en1 b t0 qr = Inr (tg, offer)"
      using offer(1) by (simp add: new_target_def qr k sas Let_def sid_def [symmetric] tg_def)
    show "handle_offer lib t offer s0 = (Inr (format_sas code), s1)"
      using offer(2-5) by (simp add: handle_offer_def s0 s1_def run k sas)
    show "confirm_sas lib en2 t s1 = (Inr confirm, ?s2)"
      using confirm(1) by (simp add: confirm_sas_def s1_def run h_def [symmetric])
    show "handle_sas_confirm lib t confirm tg = (Inr (format_sas code), ?tg1)"
      using confirm(4,6) by (simp add: handle_sas_confirm_def tg_def run h_def [symmetric])
    show "confirm_target_sas t ?tg1 = (Inr (), ?tg2)"
      by (simp add: confirm_target_sas_def tg_def run)
    show "send_payload lib en3 t ty x ?s2 = (Inr pay, ?s3)"
      using pay(1) by (simp add: send_payload_def s1_def run)
    show "handle_payload lib t pay ?tg2 = (Inr (ty, x), ?tg3)"
      using pay(3,4,6) confirm(3) ok(12) by (simp add: handle_payload_def tg_def run)
    show "send_complete lib en4 t ?tg3 = (Inr complete, ?tg3\<lparr>ps_state := Completed\<rparr>)"
      using complete(1) by (simp add: send_complete_def tg_def run)
    show "handle_complete lib t complete ?s3 = (Inr (), record_event complete (?s3\<lparr>ps_state := Completed\<rparr>))"
      using complete(3,4,6) offer(3) ok(11) by (simp add: handle_complete_def s1_def run)
  qed (simp_all add: len session_sas_code_def tg_def record_event_def)
qed

definition sample_entropy :: entropy where
  "sample_entropy = \<lparr>en_now = 100, en_random = 0, en_nonce = []\<rparr>"

lemma sample_derivations:
  "generate_shared_key sample_lib (replicate 32 1) (public_key sample_lib (replicate 32 2)) = Inr (replicate 32 4)"
  "generate_shared_key sample_lib (replicate 32 2) (public_key sample_lib (replicate 32 1)) = Inr (replicate 32 4)"
  "derive_session_id sample_lib (replicate 32 7) = replicate 32 7"
  "snd (derive_sas sample_lib (replicate 32 4) (replicate 32 7)) = replicate 32 4"
  "derive_transcript_hash sample_lib (replicate 32 7) (public_key sample_lib (replicate 32 1))
    (public_key sample_lib (replicate 32 2)) (replicate 32 4) (replicate 32 7) = replicate 32 4"
  by code_simp+

lemma sample_message_ok:
  "sample_unjson (sample_json m) = Inr m \<Longrightarrow> length (sample_json m) \<le> 1000 \<Longrightarrow> message_ok sample_lib a b en m"
  "message_id sample_lib a b en m = [of_nat (132 + length (sample_json m))]"
  by (simp_all add: message_ok_def message_id_def seal_message_def sample_lib_def pairing_kind_def)

lemma sample_hex_length:
  "length (hex_encode sample_lib (replicate 32 7)) = 64" "length (hex_encode sample_lib (replicate 32 4)) = 64"
  using sample_hex_ok by (simp_all add: hex_ok_def)

lemma sample_can_pair:
  "can_pair sample_lib (replicate 32 1) (replicate 32 2) (replicate 32 7) Nsec ''nsec1secret''
    sample_entropy sample_entropy sample_entropy sample_entropy"
  unfolding can_pair_def sample_derivations Let_def sum.case
  by (intro conjI sample_message_ok(1) sample_hex_ok refl length_replicate)
    (simp_all add: sample_message_ok(2) sample_hex_length, simp_all add: sample_lib_def)

definition sample_source :: pairing_session where
  "sample_source = fst (new_source sample_lib (replicate 32 1) (replicate 32 7) 0 ''wss://relay.test'')"

lemma sample_run:
  obtains offer sas s1 confirm s2 pay s3 where
    "handle_offer sample_lib 5 offer sample_source = (Inr sas, s1)"
    "confirm_sas sample_lib sample_entropy 5 s1 = (Inr confirm, s2)"
    "send_payload sample_lib sample_entropy 5 Nsec ''nsec1secret'' s2 = (Inr pay, s3)"
proof -
  have time: "(5 :: nat) - 0 \<le> default_timeout" by (simp add: default_timeout_def)
  obtain s0 qr where src: "new_source sample_lib (replicate 32 1) (replicate 32 7) 0 ''wss://relay.test'' = (s0, qr)"
    by fastforce
  then have "s0 = sample_source" by (simp add: sample_source_def)
  with that show thesis
    by - (rule pairing_run [OF sample_can_pair time src], simp)
qed

section \<open>Properties\<close>



text \<open>
  C26. No replay and no stranger. An event that a session accepts carries a valid signature, the
  pairing kind and a tag addressed to the session's key, is from the session's peer (an offer, which fixes the
  peer, excepted), and was not accepted before; and no event with the same id is accepted by any
  later call, after whatever else happens.
\<close>

theorem pairing_no_replay:
  assumes "s0 = fst (new_source lib keys secret t0 relay) \<or> (\<exists>en qr offer. new_target lib en keys t0 qr = Inr (s0, offer))"
    and "run_pairings lib ops s0 = (acc, s)" and "run_pairing lib op s = (True, s1)" and "event_of op = Some ev"
    and "run_pairings lib ops' s1 = (acc', s2)" and "event_of op' = Some ev'" and "pe_id ev' = pe_id ev"
  shows "verify_event lib ev = Inr () \<and> pe_kind ev = pairing_kind \<and>
    list_ex (tag_points_to (hex_encode lib (public_key lib (ps_keys s)))) (pe_tags ev) \<and>
    ((\<exists>now. op = DoOffer now ev) \<or> ps_peer_pubkey s = Some (pe_pubkey ev)) \<and>
    pe_id ev \<notin> ps_processed_ids s \<and> \<not> fst (run_pairing lib op' s2)"
proof -
  have "pairing_inv lib s0"
    using assms(1) new_source_inv new_target_inv(1) by blast
  then have inv: "pairing_inv lib s"
    using run_pairings_inv [of lib s0 ops] assms(2) by simp
  note acc = accepted_event [OF inv assms(3,4)]
  have inv1: "pairing_inv lib s1"
    using run_pairing_inv [OF inv assms(3)] .
  then have "pe_id ev \<in> ps_processed_ids s2" and inv2: "pairing_inv lib s2"
    using run_pairings_ids_mono [OF inv1, of ops'] run_pairings_inv [OF inv1, of ops'] acc assms(5) by auto
  then have "\<not> fst (run_pairing lib op' s2)"
    using accepted_event [OF inv2 _ assms(6)] assms(7) by (cases "run_pairing lib op' s2") (auto simp: validate_basics_ok)
  with acc show ?thesis by (auto simp: validate_basics_ok)
qed

theorem pairing_no_replay_witness:
  "\<exists>offer s1. run_pairing sample_lib (DoOffer 5 offer) sample_source = (True, s1) \<and>
    verify_event sample_lib offer = Inr () \<and> pe_kind offer = pairing_kind \<and>
    \<not> fst (run_pairing sample_lib (DoOffer 6 offer) s1)"
proof -
  obtain offer sas s1 where "handle_offer sample_lib 5 offer sample_source = (Inr sas, s1)"
    using sample_run by metis
  then have run: "run_pairing sample_lib (DoOffer 5 offer) sample_source = (True, s1)"
    by (simp add: outcome_def)
  have "verify_event sample_lib offer = Inr () \<and> pe_kind offer = pairing_kind \<and>
    \<not> fst (run_pairing sample_lib (DoOffer 6 offer) s1)"
    using pairing_no_replay [OF disjI1 [OF sample_source_def] run_pairings_Nil run _ run_pairings_Nil,
        where ev = offer and op' = "DoOffer 6 offer"]
    by simp
  with run show ?thesis by blast
qed


text \<open>
  C27. Two honest devices pair. With a symmetric key agreement, libraries that undo each other on
  the four messages, distinct event ids and no more than the session's two minutes between creation and the last
  call, the flow of the module's documentation succeeds at every step: both sides show the same
  six-digit code, the target receives exactly the payload the source sent, and both end completed.
\<close>

theorem pairing_completes:
  assumes "can_pair lib a b secret ty x en1 en2 en3 en4" and "t - t0 \<le> default_timeout"
    and "new_source lib a secret t0 relay = (s0, qr)"
  shows "\<exists>tg offer sas s1 confirm s2 tg1 tg2 pay s3 tg3 complete tg4 s4.
    new_target lib en1 b t0 qr = Inr (tg, offer) \<and> handle_offer lib t offer s0 = (Inr sas, s1) \<and>
    session_sas_code tg = Some sas \<and> length sas = 6 \<and>
    confirm_sas lib en2 t s1 = (Inr confirm, s2) \<and> handle_sas_confirm lib t confirm tg = (Inr sas, tg1) \<and>
    confirm_target_sas t tg1 = (Inr (), tg2) \<and> send_payload lib en3 t ty x s2 = (Inr pay, s3) \<and>
    handle_payload lib t pay tg2 = (Inr (ty, x), tg3) \<and> send_complete lib en4 t tg3 = (Inr complete, tg4) \<and>
    handle_complete lib t complete s3 = (Inr (), s4) \<and> ps_state s4 = Completed \<and> ps_state tg4 = Completed"
  by (rule pairing_run [OF assms]) blast

theorem pairing_completes_witness:
  "\<exists>tg offer sas s1. new_target sample_lib sample_entropy (replicate 32 2) 0
      (snd (new_source sample_lib (replicate 32 1) (replicate 32 7) 0 ''wss://relay.test'')) = Inr (tg, offer) \<and>
    handle_offer sample_lib 5 offer (fst (new_source sample_lib (replicate 32 1) (replicate 32 7) 0 ''wss://relay.test'')) =
      (Inr sas, s1) \<and> session_sas_code tg = Some sas"
proof -
  have "(5 :: nat) - 0 \<le> default_timeout" by (simp add: default_timeout_def)
  from pairing_completes [OF sample_can_pair this, where relay = "''wss://relay.test''"]
  show ?thesis by (metis prod.collapse)
qed

end
