(* ===== verification/Audio_Room.thy ===== *)
theory Audio_Room
  imports Prelude
begin

text \<open>
  \<open>crates/buzz-relay/src/audio/room.rs\<close> and \<open>wire.rs\<close>: the rooms of an audio call. A room hands out the
  one-byte indices its peers are known by, forwards frames and control messages to them, and
  publishes every change of its roster with a revision.

  A room's fields are changed only under its admission lock, so an operation is one step. The lock is never
  poisoned, since no critical section panics. A bounded channel is the list of what was sent and not
  yet received, with a flag that tells whether the receiver still exists. The broadcast channel is
  the list of everything sent on it; a receiver is a position in that list. Fresh peer ids are arguments.
\<close>

section \<open>Rooms\<close>

datatype peer_ctrl = JsonCtrl string | CloseCtrl

record audio_peer =
  ap_pubkey :: string
  ap_audio_tx :: "8 word list channel"
  ap_ctrl_tx :: "peer_ctrl channel"
  ap_peer_index :: "8 word"

definition audio_channel_capacity :: nat where
  "audio_channel_capacity = 8"

definition ctrl_channel_capacity :: nat where
  "ctrl_channel_capacity = 32"

definition max_peers_per_room :: nat where
  "max_peers_per_room = 25"

record roster_peer =
  rp_pubkey :: string
  rp_peer_index :: "8 word"

record roster_snapshot =
  rs_revision :: "64 word"
  rs_peers :: "roster_peer list"

record roster_delta =
  rd_revision :: "64 word"
  rd_joined :: "roster_peer option"
  rd_left :: "roster_peer option"

datatype admission_error = Ended | Full | VersionMismatch "8 word" "8 word"

record admission_guard =
  ag_next_fresh :: "8 word"
  ag_free :: "8 word list"
  ag_ended :: bool
  ag_pinned_version :: "8 word option"
  ag_roster_revision :: "64 word"

definition guard_new :: admission_guard where
  "guard_new = \<lparr>ag_next_fresh = 0, ag_free = [], ag_ended = False, ag_pinned_version = None, ag_roster_revision = 0\<rparr>"

definition alloc :: "admission_guard \<Rightarrow> 8 word option \<times> admission_guard" where
  "alloc g =
    (if ag_free g \<noteq> [] then (Some (last (ag_free g)), g\<lparr>ag_free := butlast (ag_free g)\<rparr>)
     else if ag_next_fresh g = 255 then (None, g)
     else (Some (ag_next_fresh g), g\<lparr>ag_next_fresh := ag_next_fresh g + 1\<rparr>))"

definition release :: "8 word \<Rightarrow> admission_guard \<Rightarrow> admission_guard" where
  "release idx g = g\<lparr>ag_free := ag_free g @ [idx]\<rparr>"

text \<open>\<open>roster_log\<close> is what was sent on \<open>roster_tx\<close>.\<close>

record room =
  ro_community_id :: uuid
  ro_channel_id :: uuid
  ro_peers :: "(uuid \<times> audio_peer) list"
  ro_guard :: admission_guard
  ro_roster_log :: "roster_delta list"

definition room_new :: "uuid \<Rightarrow> uuid \<Rightarrow> room" where
  "room_new community_id channel_id =
    \<lparr>ro_community_id = community_id, ro_channel_id = channel_id, ro_peers = [], ro_guard = guard_new, ro_roster_log = []\<rparr>"

definition room_is_empty :: "room \<Rightarrow> bool" where
  "room_is_empty r \<longleftrightarrow> ro_peers r = []"

definition mark_ended :: "room \<Rightarrow> bool \<times> room" where
  "mark_ended r = (room_is_empty r, r\<lparr>ro_guard := (ro_guard r)\<lparr>ag_ended := True\<rparr>\<rparr>)"

definition clear_ended :: "room \<Rightarrow> room" where
  "clear_ended r = r\<lparr>ro_guard := (ro_guard r)\<lparr>ag_ended := False\<rparr>\<rparr>"

definition peer_new :: "string \<Rightarrow> 8 word \<Rightarrow> audio_peer" where
  "peer_new pubkey peer_index =
    \<lparr>ap_pubkey = pubkey, ap_audio_tx = new_channel, ap_ctrl_tx = new_channel, ap_peer_index = peer_index\<rparr>"

text \<open>Raise the revision and send the delta that carries it.\<close>

definition publish :: "roster_peer option \<Rightarrow> roster_peer option \<Rightarrow> room \<Rightarrow> room" where
  "publish joined left r =
    (let revision = ag_roster_revision (ro_guard r) + 1
     in r\<lparr>ro_guard := (ro_guard r)\<lparr>ag_roster_revision := revision\<rparr>,
          ro_roster_log := ro_roster_log r @ [\<lparr>rd_revision = revision, rd_joined = joined, rd_left = left\<rparr>]\<rparr>)"

text \<open>The checks both admissions start with.\<close>

definition version_ok :: "admission_guard \<Rightarrow> 8 word \<Rightarrow> admission_error option" where
  "version_ok g requested_version =
    (case ag_pinned_version g of
       Some pinned \<Rightarrow> if pinned \<noteq> requested_version then Some (VersionMismatch pinned requested_version) else None
     | None \<Rightarrow> None)"

definition pin_version :: "8 word \<Rightarrow> admission_guard \<Rightarrow> admission_guard" where
  "pin_version v g = g\<lparr>ag_pinned_version := Some (case ag_pinned_version g of Some p \<Rightarrow> p | None \<Rightarrow> v)\<rparr>"

definition insert_peer :: "uuid \<Rightarrow> string \<Rightarrow> 8 word \<Rightarrow> room \<Rightarrow> room" where
  "insert_peer peer_id pubkey peer_index r =
    publish (Some \<lparr>rp_pubkey = pubkey, rp_peer_index = peer_index\<rparr>) None
      (r\<lparr>ro_peers := AList.update peer_id (peer_new pubkey peer_index) (ro_peers r)\<rparr>)"

definition add_peer :: "uuid \<Rightarrow> string \<Rightarrow> 8 word \<Rightarrow> room \<Rightarrow> (admission_error + uuid \<times> 8 word) \<times> room" where
  "add_peer peer_id pubkey requested_version r =
    (let g = ro_guard r
     in if ag_ended g then (Inl Ended, r)
        else if length (ro_peers r) \<ge> max_peers_per_room then (Inl Full, r)
        else case version_ok g requested_version of
          Some e \<Rightarrow> (Inl e, r)
        | None \<Rightarrow>
            (case alloc g of
               (None, g1) \<Rightarrow> (Inl Full, r\<lparr>ro_guard := g1\<rparr>)
             | (Some peer_index, g1) \<Rightarrow>
                 (Inr (peer_id, peer_index),
                  insert_peer peer_id pubkey peer_index (r\<lparr>ro_guard := pin_version requested_version g1\<rparr>))))"

definition saturating_succ :: "8 word \<Rightarrow> 8 word" where
  "saturating_succ x = (if x = 255 then 255 else x + 1)"

definition reserve_index :: "8 word \<Rightarrow> admission_guard \<Rightarrow> admission_guard" where
  "reserve_index peer_index g =
    (let g1 = g\<lparr>ag_free := filter (\<lambda>idx. idx \<noteq> peer_index) (ag_free g)\<rparr>
     in if peer_index \<ge> ag_next_fresh g1 then g1\<lparr>ag_next_fresh := saturating_succ peer_index\<rparr> else g1)"

definition add_peer_at_index ::
  "uuid \<Rightarrow> string \<Rightarrow> 8 word \<Rightarrow> 8 word \<Rightarrow> room \<Rightarrow> (admission_error + uuid) \<times> room" where
  "add_peer_at_index peer_id pubkey requested_version peer_index r =
    (let g = ro_guard r
     in if ag_ended g then (Inl Ended, r)
        else if length (ro_peers r) \<ge> max_peers_per_room \<or>
          list_ex (\<lambda>(_, p). ap_peer_index p = peer_index) (ro_peers r) then (Inl Full, r)
        else case version_ok g requested_version of
          Some e \<Rightarrow> (Inl e, r)
        | None \<Rightarrow>
            (Inr peer_id, insert_peer peer_id pubkey peer_index
               (r\<lparr>ro_guard := reserve_index peer_index (pin_version requested_version g)\<rparr>)))"

definition take_peer :: "uuid \<Rightarrow> audio_peer \<Rightarrow> room \<Rightarrow> room" where
  "take_peer peer_id peer r =
    r\<lparr>ro_peers := AList.delete peer_id (ro_peers r), ro_guard := release (ap_peer_index peer) (ro_guard r)\<rparr>"

definition left_of :: "audio_peer \<Rightarrow> roster_peer" where
  "left_of peer = \<lparr>rp_pubkey = ap_pubkey peer, rp_peer_index = ap_peer_index peer\<rparr>"

definition remove_peer :: "uuid \<Rightarrow> room \<Rightarrow> room" where
  "remove_peer peer_id r =
    (case map_of (ro_peers r) peer_id of
       None \<Rightarrow> r
     | Some peer \<Rightarrow> publish None (Some (left_of peer)) (take_peer peer_id peer r))"

definition remove_peer_and_check_ended :: "uuid \<Rightarrow> room \<Rightarrow> (8 word \<times> bool) option \<times> room" where
  "remove_peer_and_check_ended peer_id r =
    (case map_of (ro_peers r) peer_id of
       None \<Rightarrow> (None, r)
     | Some peer \<Rightarrow>
         let r1 = take_peer peer_id peer r;
             should_end = (\<not> ag_ended (ro_guard r1) \<and> ro_peers r1 = []);
             r2 = (if should_end then r1\<lparr>ro_guard := (ro_guard r1)\<lparr>ag_ended := True\<rparr>\<rparr> else r1)
         in (Some (ap_peer_index peer, should_end), publish None (Some (left_of peer)) r2))"

text \<open>
  In the code the revision is raised before the room's end is decided and the delta sent after; nothing
  else reads the revision in between.
\<close>

definition send_audio :: "8 word list \<Rightarrow> audio_peer \<Rightarrow> audio_peer" where
  "send_audio frame p = p\<lparr>ap_audio_tx := snd (try_send audio_channel_capacity frame (ap_audio_tx p))\<rparr>"

definition broadcast_frame :: "uuid \<Rightarrow> 8 word list \<Rightarrow> room \<Rightarrow> room" where
  "broadcast_frame sender_id frame r =
    (case map_of (ro_peers r) sender_id of
       None \<Rightarrow> r
     | Some sender \<Rightarrow>
         let prefixed = ap_peer_index sender # frame
         in r\<lparr>ro_peers := map (\<lambda>(k, p). (k, if k = sender_id then p else send_audio prefixed p)) (ro_peers r)\<rparr>)"

definition deliver_prefixed :: "8 word \<Rightarrow> 8 word list \<Rightarrow> room \<Rightarrow> room" where
  "deliver_prefixed author_index prefixed r =
    r\<lparr>ro_peers := map (\<lambda>(k, p). (k, if ap_peer_index p = author_index then p else send_audio prefixed p)) (ro_peers r)\<rparr>"

definition broadcast_control :: "string \<Rightarrow> room \<Rightarrow> room" where
  "broadcast_control json r =
    r\<lparr>ro_peers := map (\<lambda>(k, p). (k, p\<lparr>ap_ctrl_tx := snd (try_send ctrl_channel_capacity (JsonCtrl json) (ap_ctrl_tx p))\<rparr>))
      (ro_peers r)\<rparr>"

definition room_roster_snapshot :: "room \<Rightarrow> roster_snapshot" where
  "room_roster_snapshot r =
    \<lparr>rs_revision = ag_roster_revision (ro_guard r),
     rs_peers = sort_key rp_peer_index (map (\<lambda>(_, p). left_of p) (ro_peers r))\<rparr>"

definition peer_pubkeys :: "room \<Rightarrow> (string \<times> 8 word) list" where
  "peer_pubkeys r = map (\<lambda>(_, p). (ap_pubkey p, ap_peer_index p)) (ro_peers r)"


section \<open>The rooms of a relay\<close>

text \<open>
  A room is shared: connections keep a reference to it while the manager may forget it. So rooms live
  in a store, a reference is a position in it, and the manager maps keys to references.
\<close>

record audio_rooms =
  ar_rooms :: "((uuid \<times> uuid) \<times> nat) list"
  ar_store :: "room list"

definition manager_new :: audio_rooms where
  "manager_new = \<lparr>ar_rooms = [], ar_store = []\<rparr>"

definition get_or_create :: "uuid \<Rightarrow> uuid \<Rightarrow> audio_rooms \<Rightarrow> nat \<times> audio_rooms" where
  "get_or_create community_id channel_id m =
    (case map_of (ar_rooms m) (community_id, channel_id) of
       Some a \<Rightarrow> (a, m)
     | None \<Rightarrow>
         (length (ar_store m),
          m\<lparr>ar_rooms := AList.update (community_id, channel_id) (length (ar_store m)) (ar_rooms m),
            ar_store := ar_store m @ [room_new community_id channel_id]\<rparr>))"

definition get_room :: "uuid \<Rightarrow> uuid \<Rightarrow> audio_rooms \<Rightarrow> nat option" where
  "get_room community_id channel_id m = map_of (ar_rooms m) (community_id, channel_id)"

definition get_unambiguous_by_channel :: "uuid \<Rightarrow> audio_rooms \<Rightarrow> nat option" where
  "get_unambiguous_by_channel channel_id m =
    (case filter (\<lambda>(k, _). snd k = channel_id) (ar_rooms m) of [(_, a)] \<Rightarrow> Some a | _ \<Rightarrow> None)"

definition cleanup_if_empty :: "uuid \<Rightarrow> uuid \<Rightarrow> audio_rooms \<Rightarrow> bool \<times> audio_rooms" where
  "cleanup_if_empty community_id channel_id m =
    (case map_of (ar_rooms m) (community_id, channel_id) of
       Some a \<Rightarrow>
         if room_is_empty (ar_store m ! a)
         then (True, m\<lparr>ar_rooms := AList.delete (community_id, channel_id) (ar_rooms m)\<rparr>)
         else (False, m)
     | None \<Rightarrow> (False, m))"

text \<open>An operation on the room behind a reference.\<close>

definition on_room :: "nat \<Rightarrow> (room \<Rightarrow> 'a \<times> room) \<Rightarrow> audio_rooms \<Rightarrow> 'a \<times> audio_rooms" where
  "on_room a f m = (case f (ar_store m ! a) of (x, r) \<Rightarrow> (x, m\<lparr>ar_store := (ar_store m)[a := r]\<rparr>))"

section \<open>Frame headers\<close>

definition v2_header_len :: nat where
  "v2_header_len = 8"

text \<open>\<open>level_dbov\<close> is an \<open>i8\<close>, kept as its byte.\<close>

record frame_header =
  fh_seq :: "16 word"
  fh_ts_48k :: "32 word"
  fh_level_dbov :: "8 word"
  fh_flags :: "8 word"

definition is_dtx :: "frame_header \<Rightarrow> bool" where
  "is_dtx h \<longleftrightarrow> and (fh_flags h) 1 \<noteq> 0"

definition from_be_bytes :: "8 word list \<Rightarrow> nat" where
  "from_be_bytes bs = foldl (\<lambda>n b. n * 256 + unat b) 0 bs"

definition frame_header_parse :: "8 word list \<Rightarrow> (frame_header \<times> 8 word list) option" where
  "frame_header_parse bytes =
    (if length bytes < v2_header_len then None
     else
       let raw_level = bytes ! 6;
           level_dbov = (if - 127 \<le> sint raw_level \<and> sint raw_level \<le> 0 then raw_level else - 127)
       in Some (\<lparr>fh_seq = of_nat (from_be_bytes [bytes ! 0, bytes ! 1]),
                 fh_ts_48k = of_nat (from_be_bytes [bytes ! 2, bytes ! 3, bytes ! 4, bytes ! 5]),
                 fh_level_dbov = level_dbov, fh_flags = bytes ! 7\<rparr>, drop v2_header_len bytes))"

section \<open>A room as a system of steps\<close>

datatype room_op =
    RAdd uuid string "8 word"
  | RAddAt uuid string "8 word" "8 word"
  | RRemove uuid
  | RRemoveCheck uuid
  | RMarkEnded
  | RClearEnded
  | RBroadcast uuid "8 word list"
  | RDeliver "8 word" "8 word list"
  | RControl string
  | RRecvAudio uuid
  | RRecvCtrl uuid
  | RDropReceivers uuid

definition map_peer :: "uuid \<Rightarrow> (audio_peer \<Rightarrow> audio_peer) \<Rightarrow> room \<Rightarrow> room" where
  "map_peer peer_id f r = r\<lparr>ro_peers := map (\<lambda>(k, p). (k, if k = peer_id then f p else p)) (ro_peers r)\<rparr>"

fun run_room :: "room_op \<Rightarrow> room \<Rightarrow> room" where
  "run_room (RAdd i k v) r = snd (add_peer i k v r)"
| "run_room (RAddAt i k v n) r = snd (add_peer_at_index i k v n r)"
| "run_room (RRemove i) r = remove_peer i r"
| "run_room (RRemoveCheck i) r = snd (remove_peer_and_check_ended i r)"
| "run_room RMarkEnded r = snd (mark_ended r)"
| "run_room RClearEnded r = clear_ended r"
| "run_room (RBroadcast i f) r = broadcast_frame i f r"
| "run_room (RDeliver n f) r = deliver_prefixed n f r"
| "run_room (RControl j) r = broadcast_control j r"
| "run_room (RRecvAudio i) r = map_peer i (\<lambda>p. p\<lparr>ap_audio_tx := snd (recv (ap_audio_tx p))\<rparr>) r"
| "run_room (RRecvCtrl i) r = map_peer i (\<lambda>p. p\<lparr>ap_ctrl_tx := snd (recv (ap_ctrl_tx p))\<rparr>) r"
| "run_room (RDropReceivers i) r =
    map_peer i (\<lambda>p. p\<lparr>ap_audio_tx := drop_receiver (ap_audio_tx p), ap_ctrl_tx := drop_receiver (ap_ctrl_tx p)\<rparr>) r"

text \<open>\<open>Uuid::new_v4\<close> gives an id that is not in use.\<close>

fun fresh_id :: "room_op \<Rightarrow> room \<Rightarrow> bool" where
  "fresh_id (RAdd i _ _) r \<longleftrightarrow> i \<notin> fst ` set (ro_peers r)"
| "fresh_id (RAddAt i _ _ _) r \<longleftrightarrow> i \<notin> fst ` set (ro_peers r)"
| "fresh_id _ r \<longleftrightarrow> True"

inductive room_step :: "room \<Rightarrow> room \<Rightarrow> bool" where
  room_stepI: "fresh_id op r \<Longrightarrow> room_step r (run_room op r)"

definition room_init :: "room \<Rightarrow> bool" where
  "room_init r \<longleftrightarrow> (\<exists>community_id channel_id. r = room_new community_id channel_id)"

section \<open>The roster\<close>

text \<open>Who speaks under which index, and what a delta does to it.\<close>

definition roster_of :: "room \<Rightarrow> 8 word \<Rightarrow> string option" where
  "roster_of r = map_of (map (\<lambda>(_, p). (ap_peer_index p, ap_pubkey p)) (ro_peers r))"

definition roster_apply :: "roster_delta \<Rightarrow> (8 word \<Rightarrow> string option) \<Rightarrow> 8 word \<Rightarrow> string option" where
  "roster_apply d m =
    (case rd_joined d of
       Some p \<Rightarrow> m(rp_peer_index p \<mapsto> rp_pubkey p)
     | None \<Rightarrow> (case rd_left d of Some p \<Rightarrow> m(rp_peer_index p := None) | None \<Rightarrow> m))"

definition roster_at :: "roster_delta list \<Rightarrow> nat \<Rightarrow> 8 word \<Rightarrow> string option" where
  "roster_at ds n = foldl (\<lambda>m d. roster_apply d m) Map.empty (take n ds)"

definition indices :: "room \<Rightarrow> 8 word list" where
  "indices r = map (\<lambda>(_, p). ap_peer_index p) (ro_peers r)"

text \<open>
  The allocator: indices in use and free ones are all different, and below the next fresh one (which stays at 255 when the
  indices are used up).
\<close>

definition index_ok :: "uuid list \<Rightarrow> 8 word list \<Rightarrow> 8 word list \<Rightarrow> 8 word \<Rightarrow> bool" where
  "index_ok ids used free next_fresh \<longleftrightarrow>
    distinct ids \<and> length ids \<le> max_peers_per_room \<and> distinct (used @ free) \<and>
    (\<forall>i \<in> set (used @ free). i < next_fresh \<or> next_fresh = 255)"

definition index_inv :: "room \<Rightarrow> bool" where
  "index_inv r \<longleftrightarrow>
    index_ok (map fst (ro_peers r)) (indices r) (ag_free (ro_guard r)) (ag_next_fresh (ro_guard r))"

definition roster_inv :: "room \<Rightarrow> bool" where
  "roster_inv r \<longleftrightarrow>
    ag_roster_revision (ro_guard r) = of_nat (length (ro_roster_log r)) \<and>
    map rd_revision (ro_roster_log r) = map (\<lambda>n. of_nat (Suc n)) [0..<length (ro_roster_log r)] \<and>
    roster_of r = roster_at (ro_roster_log r) (length (ro_roster_log r))"

definition channels_inv :: "room \<Rightarrow> bool" where
  "channels_inv r \<longleftrightarrow>
    (\<forall>(_, p) \<in> set (ro_peers r). length (ch_buf (ap_audio_tx p)) \<le> audio_channel_capacity \<and>
      length (ch_buf (ap_ctrl_tx p)) \<le> ctrl_channel_capacity)"

definition room_inv :: "room \<Rightarrow> bool" where
  "room_inv r \<longleftrightarrow> index_inv r \<and> roster_inv r \<and> channels_inv r"

section \<open>Lemmas\<close>

lemma delete_split:
  assumes "distinct (map fst al)" and "map_of al k = Some v"
  obtains xs ys where "al = xs @ (k, v) # ys" "AList.delete k al = xs @ ys"
proof -
  obtain xs ys where al: "al = xs @ (k, v) # ys"
    using map_of_SomeD [OF assms(2)] by (meson split_list)
  have "k \<notin> fst ` set xs" "k \<notin> fst ` set ys"
    using assms(1) by (auto simp: al)
  then have "AList.delete k al = xs @ ys"
    by (force simp: al AList.delete_eq intro: arg_cong2 [where f = append] filter_True)
  with al that show thesis by blast
qed

lemma alloc_cases:
  obtains (free) fs i where "ag_free g = fs @ [i]" "alloc g = (Some i, g\<lparr>ag_free := fs\<rparr>)"
  | (none) "ag_free g = []" "ag_next_fresh g = 255" "alloc g = (None, g)"
  | (fresh) "ag_free g = []" "ag_next_fresh g \<noteq> 255" "alloc g = (Some (ag_next_fresh g), g\<lparr>ag_next_fresh := ag_next_fresh g + 1\<rparr>)"
proof (cases "ag_free g" rule: rev_cases)
  case Nil
  then show ?thesis using that(2,3) by (cases "ag_next_fresh g = 255") (simp_all add: alloc_def)
next
  case (snoc fs i)
  then show ?thesis using that(1) by (simp add: alloc_def)
qed

lemma minus_one_byte: "- 1 = (255 :: 8 word)"
  by (simp add: word_uint_eq_iff unsigned_minus_1_eq_mask mask_eq_exp_minus_1)

lemma byte_ge_255: "255 \<le> i \<longleftrightarrow> i = 255" for i :: "8 word"
  using unat_byte_less [of i] by (auto simp: word_le_nat_alt word_unat_eq_iff)

lemma less_succ_byte: "n \<noteq> 255 \<Longrightarrow> i < n + 1 \<longleftrightarrow> i \<le> n" for n i :: "8 word"
proof -
  assume "n \<noteq> 255"
  then have "n \<noteq> - 1" by (metis minus_one_byte)
  then have "1 + n \<noteq> 0" by (simp add: eq_neg_iff_add_eq_0 add.commute)
  then show ?thesis using unatSuc [of n] by (simp add: word_less_nat_alt word_le_nat_alt add.commute less_Suc_eq_le)
qed


lemma index_ok_free:
  assumes "index_ok ids used (free @ [i]) n" and "k \<notin> set ids" and "length ids < max_peers_per_room"
  shows "index_ok (ids @ [k]) (used @ [i]) free n"
  using assms by (auto simp: index_ok_def)

lemma index_ok_fresh:
  assumes "index_ok ids used [] n" and "k \<notin> set ids" and "length ids < max_peers_per_room" and "n \<noteq> 255"
  shows "index_ok (ids @ [k]) (used @ [n]) [] (n + 1)"
  using assms by (auto simp: index_ok_def less_succ_byte)

lemma index_ok_reserve:
  assumes "index_ok ids used free n" and "k \<notin> set ids" and "length ids < max_peers_per_room" and "i \<notin> set used"
  shows "index_ok (ids @ [k]) (used @ [i]) (filter (\<lambda>x. x \<noteq> i) free) (if n \<le> i then saturating_succ i else n)"
  using assms
  by (auto simp: index_ok_def saturating_succ_def less_succ_byte byte_ge_255)
    (meson Un_iff less_imp_le order.trans)+

lemma index_ok_take:
  assumes "index_ok (ids1 @ k # ids2) (used1 @ i # used2) free n"
  shows "index_ok (ids1 @ ids2) (used1 @ used2) (free @ [i]) n"
  using assms by (auto simp: index_ok_def)

lemma indices_simps [simp]:
  "indices (r\<lparr>ro_guard := g\<rparr>) = indices r" "indices (r\<lparr>ro_roster_log := l\<rparr>) = indices r"
  "indices (r\<lparr>ro_peers := ps\<rparr>) = map (\<lambda>(_, p). ap_peer_index p) ps"
  by (simp_all add: indices_def)

lemma roster_of_simps [simp]:
  "roster_of (r\<lparr>ro_guard := g\<rparr>) = roster_of r" "roster_of (r\<lparr>ro_roster_log := l\<rparr>) = roster_of r"
  "roster_of (r\<lparr>ro_peers := ps\<rparr>) = map_of (map (\<lambda>(_, p). (ap_peer_index p, ap_pubkey p)) ps)"
  by (simp_all add: roster_of_def)

lemma publish_simps [simp]:
  "ro_peers (publish j l r) = ro_peers r" "indices (publish j l r) = indices r" "roster_of (publish j l r) = roster_of r"
  "ag_free (ro_guard (publish j l r)) = ag_free (ro_guard r)"
  "ag_next_fresh (ro_guard (publish j l r)) = ag_next_fresh (ro_guard r)"
  "ag_ended (ro_guard (publish j l r)) = ag_ended (ro_guard r)"
  "ag_pinned_version (ro_guard (publish j l r)) = ag_pinned_version (ro_guard r)"
  by (simp_all add: publish_def Let_def indices_def roster_of_def)

lemma index_inv_publish [simp]: "index_inv (publish j l r) \<longleftrightarrow> index_inv r"
  by (simp add: index_inv_def)

lemma channels_inv_publish [simp]: "channels_inv (publish j l r) \<longleftrightarrow> channels_inv r"
  by (simp add: channels_inv_def)

lemma roster_at_snoc: "roster_at (ds @ [d]) (Suc (length ds)) = roster_apply d (roster_at ds (length ds))"
  by (simp add: roster_at_def)

text \<open>A published change keeps the roster invariant when the delta says what happened to the peers.\<close>

lemma roster_inv_publish:
  assumes "roster_inv r" and "ro_roster_log r' = ro_roster_log r"
    and "ag_roster_revision (ro_guard r') = ag_roster_revision (ro_guard r)"
    and "\<And>v. roster_of r' = roster_apply \<lparr>rd_revision = v, rd_joined = j, rd_left = l\<rparr> (roster_of r)"
  shows "roster_inv (publish j l r')"
  using assms by (simp add: roster_inv_def publish_def Let_def roster_at_snoc add.commute)

lemma map_of_distinct_delete:
  "distinct (map fst (xs @ (k, v) # ys)) \<Longrightarrow> map_of (xs @ ys) = (map_of (xs @ (k, v) # ys))(k := None)"
  by (induction xs) (auto simp: fun_upd_twist map_of_eq_None_iff [symmetric] fun_upd_idem)

lemma take_peer_inv:
  assumes "index_inv r" and "map_of (ro_peers r) i = Some p"
  shows "index_inv (take_peer i p r)"
    and "roster_of (take_peer i p r) = (roster_of r)(ap_peer_index p := None)"
proof -
  obtain xs ys where ps: "ro_peers r = xs @ (i, p) # ys" "AList.delete i (ro_peers r) = xs @ ys"
    using delete_split [OF _ assms(2)] assms(1) by (auto simp: index_inv_def index_ok_def)
  show "index_inv (take_peer i p r)"
    using assms(1) index_ok_take [of "map fst xs" i "map fst ys" "map (\<lambda>(_, p). ap_peer_index p) xs" "ap_peer_index p"]
    by (simp add: index_inv_def take_peer_def ps(2) indices_def release_def) (simp add: ps(1))
  have "distinct (map fst (map (\<lambda>(_, p). (ap_peer_index p, ap_pubkey p)) (ro_peers r)))"
    using assms(1) by (simp add: index_inv_def index_ok_def indices_def case_prod_unfold comp_def)
  then show "roster_of (take_peer i p r) = (roster_of r)(ap_peer_index p := None)"
    using map_of_distinct_delete [of "map (\<lambda>(_, p). (ap_peer_index p, ap_pubkey p)) xs" "ap_peer_index p" "ap_pubkey p"
        "map (\<lambda>(_, p). (ap_peer_index p, ap_pubkey p)) ys"]
    by (simp add: take_peer_def roster_of_def ps(2)) (simp add: ps(1))
qed


lemma map_of_fresh_snoc: "k \<notin> fst ` set xs \<Longrightarrow> map_of (xs @ [(k, v)]) = (map_of xs)(k \<mapsto> v)"
  by (auto simp: fun_eq_iff map_add_def map_of_eq_None_iff [symmetric] split: option.splits)

text \<open>Admission, with the guard the allocator left.\<close>

lemma insert_peer_inv:
  assumes "room_inv r" and fresh: "i \<notin> fst ` set (ro_peers r)" and unused: "n \<notin> set (indices r)"
    and ok: "index_ok (map fst (ro_peers r) @ [i]) (indices r @ [n]) (ag_free g) (ag_next_fresh g)"
    and rev: "ag_roster_revision g = ag_roster_revision (ro_guard r)"
  shows "room_inv (insert_peer i k n (r\<lparr>ro_guard := g\<rparr>))"
proof -
  let ?r = "r\<lparr>ro_guard := g, ro_peers := AList.update i (peer_new k n) (ro_peers r)\<rparr>"
  have ps: "AList.update i (peer_new k n) (ro_peers r) = ro_peers r @ [(i, peer_new k n)]"
    using fresh by (rule update_fresh)
  have "n \<notin> fst ` set (map (\<lambda>(_, p). (ap_peer_index p, ap_pubkey p)) (ro_peers r))"
    using unused by (auto simp: indices_def)
  then have "roster_of ?r = (roster_of r)(n \<mapsto> k)"
    using map_of_fresh_snoc [of n _ k] unfolding ps by (simp add: roster_of_def peer_new_def del: map_of_append)
  then have "roster_inv (publish (Some \<lparr>rp_pubkey = k, rp_peer_index = n\<rparr>) None ?r)"
    using assms(1) rev by (intro roster_inv_publish [of r]) (simp_all add: room_inv_def roster_apply_def)
  moreover have "index_inv ?r"
    using ok unfolding ps by (simp add: index_inv_def peer_new_def indices_def)
  moreover have "channels_inv ?r"
    using assms(1) unfolding ps by (auto simp: room_inv_def channels_inv_def peer_new_def new_channel_def)
  ultimately show ?thesis
    by (simp add: room_inv_def insert_peer_def)
qed

lemma alloc_revision [simp]: "ag_roster_revision (snd (alloc g)) = ag_roster_revision g"
  by (simp add: alloc_def)

lemma pin_version_simps [simp]:
  "ag_free (pin_version v g) = ag_free g" "ag_next_fresh (pin_version v g) = ag_next_fresh g"
  "ag_roster_revision (pin_version v g) = ag_roster_revision g" "ag_ended (pin_version v g) = ag_ended g"
  by (simp_all add: pin_version_def)

lemma add_peer_cases:
  assumes "add_peer i k v r = (x, r')"
  obtains (error) e where "x = Inl e" "r' = r"
  | (ok) n g where "x = Inr (i, n)" "\<not> ag_ended (ro_guard r)" "length (ro_peers r) < max_peers_per_room"
      "version_ok (ro_guard r) v = None" "alloc (ro_guard r) = (Some n, g)"
      "r' = insert_peer i k n (r\<lparr>ro_guard := pin_version v g\<rparr>)"
proof (cases rule: alloc_cases [of "ro_guard r"])
  case none
  then show ?thesis using assms error by (auto simp: add_peer_def Let_def split: if_splits option.splits)
qed (use assms that in \<open>auto simp: add_peer_def Let_def not_le split: if_splits option.splits\<close>)

lemma add_peer_inv [inv_intros]:
  assumes "room_inv r" and "i \<notin> fst ` set (ro_peers r)"
  shows "room_inv (snd (add_peer i k v r))"
proof (cases "add_peer i k v r" rule: prod.exhaust)
  case (Pair x r')
  from Pair show ?thesis
  proof (cases rule: add_peer_cases)
    case (ok n g)
    have inv: "index_ok (map fst (ro_peers r)) (indices r) (ag_free (ro_guard r)) (ag_next_fresh (ro_guard r))"
      and new: "i \<notin> set (map fst (ro_peers r))" "length (map fst (ro_peers r)) < max_peers_per_room"
      using assms ok(3) by (simp_all add: room_inv_def index_inv_def)
    have "index_ok (map fst (ro_peers r) @ [i]) (indices r @ [n]) (ag_free g) (ag_next_fresh g)"
    proof (cases rule: alloc_cases [of "ro_guard r"])
      case (free fs j)
      with ok(5) inv new index_ok_free show ?thesis by fastforce
    next
      case fresh
      with ok(5) inv new index_ok_fresh [of _ _ "ag_next_fresh (ro_guard r)"] show ?thesis by fastforce
    qed (use ok(5) in simp)
    moreover from this have "n \<notin> set (indices r)" by (simp add: index_ok_def)
    moreover have "ag_roster_revision g = ag_roster_revision (ro_guard r)"
      using ok(5) alloc_revision [of "ro_guard r"] by simp
    ultimately show ?thesis
      using assms by (simp add: Pair ok(6) insert_peer_inv)
  qed (use assms Pair in simp)
qed

lemma add_peer_at_index_inv [inv_intros]:
  assumes "room_inv r" and "i \<notin> fst ` set (ro_peers r)"
  shows "room_inv (snd (add_peer_at_index i k v n r))"
proof (cases "ag_ended (ro_guard r) \<or> length (ro_peers r) \<ge> max_peers_per_room \<or>
    list_ex (\<lambda>(_, p). ap_peer_index p = n) (ro_peers r) \<or> version_ok (ro_guard r) v \<noteq> None")
  case True
  then show ?thesis using assms(1) by (auto simp: add_peer_at_index_def Let_def split: option.split)
next
  case False
  have unused: "n \<notin> set (indices r)"
    using False by (auto simp: indices_def list_ex_iff)
  have "index_ok (map fst (ro_peers r) @ [i]) (indices r @ [n]) (ag_free (reserve_index n (pin_version v (ro_guard r))))
      (ag_next_fresh (reserve_index n (pin_version v (ro_guard r))))"
    using index_ok_reserve [of "map fst (ro_peers r)" "indices r" "ag_free (ro_guard r)" "ag_next_fresh (ro_guard r)" i n]
      assms False unused
    by (cases "ag_next_fresh (ro_guard r) \<le> n") (simp_all add: room_inv_def index_inv_def reserve_index_def Let_def)
  moreover have "ag_roster_revision (reserve_index n (pin_version v (ro_guard r))) = ag_roster_revision (ro_guard r)"
    by (simp add: reserve_index_def Let_def)
  ultimately show ?thesis
    using assms False unused by (simp add: add_peer_at_index_def Let_def insert_peer_inv)
qed


lemma take_peer_fields [simp]:
  "ro_roster_log (take_peer i p r) = ro_roster_log r"
  "ag_roster_revision (ro_guard (take_peer i p r)) = ag_roster_revision (ro_guard r)"
  "ag_ended (ro_guard (take_peer i p r)) = ag_ended (ro_guard r)"
  "ro_peers (take_peer i p r) = AList.delete i (ro_peers r)"
  by (simp_all add: take_peer_def release_def)

lemma leave_inv:
  assumes "room_inv r" and "map_of (ro_peers r) i = Some p"
  shows "room_inv (publish None (Some (left_of p)) (take_peer i p r))"
proof -
  have "roster_inv (publish None (Some (left_of p)) (take_peer i p r))"
    using assms take_peer_inv(2) [OF _ assms(2)]
    by (intro roster_inv_publish [of r]) (simp_all add: room_inv_def roster_apply_def left_of_def)
  moreover have "channels_inv (take_peer i p r)"
    using assms(1) by (auto simp: room_inv_def channels_inv_def AList.delete_eq)
  ultimately show ?thesis
    using assms take_peer_inv(1) [OF _ assms(2)] by (simp add: room_inv_def)
qed

lemma room_inv_ended [simp]: "room_inv (r\<lparr>ro_guard := (ro_guard r)\<lparr>ag_ended := b\<rparr>\<rparr>) \<longleftrightarrow> room_inv r"
  by (simp add: room_inv_def index_inv_def roster_inv_def channels_inv_def)

lemma publish_ended:
  "publish j l (r\<lparr>ro_guard := (ro_guard r)\<lparr>ag_ended := b\<rparr>\<rparr>) =
    (publish j l r)\<lparr>ro_guard := (ro_guard (publish j l r))\<lparr>ag_ended := b\<rparr>\<rparr>"
  by (simp add: publish_def Let_def)

lemma remove_peer_inv [inv_intros]: "room_inv r \<Longrightarrow> room_inv (remove_peer i r)"
  by (simp add: remove_peer_def leave_inv split: option.split)

lemma remove_peer_and_check_ended_inv [inv_intros]:
  "room_inv r \<Longrightarrow> room_inv (snd (remove_peer_and_check_ended i r))"
  using leave_inv [of r i]
  by (auto simp: remove_peer_and_check_ended_def Let_def publish_ended split: option.split)

text \<open>Operations that only touch the channels of the peers.\<close>

lemma map_peers_inv:
  assumes "room_inv r"
    and same: "\<And>k p. ap_peer_index (f k p) = ap_peer_index p" "\<And>k p. ap_pubkey (f k p) = ap_pubkey p"
    and buf: "\<And>k p. length (ch_buf (ap_audio_tx p)) \<le> audio_channel_capacity \<Longrightarrow>
        length (ch_buf (ap_ctrl_tx p)) \<le> ctrl_channel_capacity \<Longrightarrow>
        length (ch_buf (ap_audio_tx (f k p))) \<le> audio_channel_capacity \<and>
        length (ch_buf (ap_ctrl_tx (f k p))) \<le> ctrl_channel_capacity"
  shows "room_inv (r\<lparr>ro_peers := map (\<lambda>(k, p). (k, f k p)) (ro_peers r)\<rparr>)"
proof -
  let ?r = "r\<lparr>ro_peers := map (\<lambda>(k, p). (k, f k p)) (ro_peers r)\<rparr>"
  have same: "map fst (ro_peers ?r) = map fst (ro_peers r)" "indices ?r = indices r" "roster_of ?r = roster_of r"
    by (simp_all add: indices_def roster_of_def comp_def case_prod_unfold same)
  have "index_inv ?r" "roster_inv ?r"
    using assms(1) unfolding room_inv_def index_inv_def roster_inv_def same by simp_all
  moreover have "channels_inv ?r"
    using assms(1) buf by (auto simp: room_inv_def channels_inv_def)
  ultimately show ?thesis by (simp add: room_inv_def)
qed

lemma try_send_bound: "length (ch_buf ch) \<le> c \<Longrightarrow> length (ch_buf (snd (try_send c x ch))) \<le> c"
  by (simp add: try_send_def)

lemma recv_bound: "length (ch_buf ch) \<le> c \<Longrightarrow> length (ch_buf (snd (recv ch))) \<le> c"
  by (cases "ch_buf ch") (simp_all add: recv_def)

lemma send_audio_simps [simp]:
  "ap_peer_index (send_audio f p) = ap_peer_index p" "ap_pubkey (send_audio f p) = ap_pubkey p"
  "ap_ctrl_tx (send_audio f p) = ap_ctrl_tx p"
  "length (ch_buf (ap_audio_tx p)) \<le> audio_channel_capacity \<Longrightarrow>
    length (ch_buf (ap_audio_tx (send_audio f p))) \<le> audio_channel_capacity"
  by (simp_all add: send_audio_def try_send_bound)

lemma broadcast_frame_inv [inv_intros]: "room_inv r \<Longrightarrow> room_inv (broadcast_frame i f r)"
  unfolding broadcast_frame_def Let_def by (auto split: option.split intro!: map_peers_inv)

lemma deliver_prefixed_inv [inv_intros]: "room_inv r \<Longrightarrow> room_inv (deliver_prefixed n f r)"
  unfolding deliver_prefixed_def by (rule map_peers_inv) auto

lemma broadcast_control_inv [inv_intros]: "room_inv r \<Longrightarrow> room_inv (broadcast_control j r)"
  unfolding broadcast_control_def by (rule map_peers_inv) (auto simp: try_send_bound)

lemma map_peer_inv:
  assumes "room_inv r" and "\<And>p. ap_peer_index (f p) = ap_peer_index p" "\<And>p. ap_pubkey (f p) = ap_pubkey p"
    and "\<And>p. length (ch_buf (ap_audio_tx (f p))) \<le> length (ch_buf (ap_audio_tx p))"
    and "\<And>p. length (ch_buf (ap_ctrl_tx (f p))) \<le> length (ch_buf (ap_ctrl_tx p))"
  shows "room_inv (map_peer i f r)"
  unfolding map_peer_def using assms by (intro map_peers_inv) (auto; meson order_trans)+

lemma room_new_inv: "room_inv (room_new c h)"
  by (simp add: room_inv_def index_inv_def index_ok_def roster_inv_def channels_inv_def room_new_def guard_new_def
      indices_def roster_of_def roster_at_def)

lemma run_room_inv: "room_inv r \<Longrightarrow> fresh_id op r \<Longrightarrow> room_inv (run_room op r)"
  by (cases op) (auto simp: mark_ended_def clear_ended_def drop_receiver_def intro!: inv_intros map_peer_inv recv_bound)

interpretation audio: invariant_system room_init room_step room_inv
proof unfold_locales
  show "room_inv r" if "room_init r" for r
    using that by (auto simp: room_init_def room_new_inv)
  show "room_inv r'" if "room_inv r" "room_step r r'" for r r'
    using that(2,1) by cases (simp add: run_room_inv)
qed

definition room_reachable :: "room \<Rightarrow> bool" where
  "room_reachable r \<longleftrightarrow> (\<exists>r0. room_init r0 \<and> room_step\<^sup>*\<^sup>* r0 r)"

lemma room_reachable_inv: "room_reachable r \<Longrightarrow> room_inv r"
  using audio.reachable_inv by (auto simp: room_reachable_def)


lemma map_of_map_pair: "map_of (map (\<lambda>(k, p). (k, h k p)) xs) j = map_option (h j) (map_of xs j)"
  by (induction xs) auto

section \<open>Runs of a room\<close>

text \<open>A list of operations is a run when every id it draws is fresh at its point.\<close>

fun room_run :: "room_op list \<Rightarrow> room \<Rightarrow> bool" where
  "room_run [] r \<longleftrightarrow> True"
| "room_run (op # ops) r \<longleftrightarrow> fresh_id op r \<and> room_run ops (run_room op r)"

definition run_rooms :: "room_op list \<Rightarrow> room \<Rightarrow> room" where
  "run_rooms ops r = foldl (\<lambda>r op. run_room op r) r ops"

lemma run_rooms_simps [simp]: "run_rooms [] r = r" "run_rooms (op # ops) r = run_rooms ops (run_room op r)"
  by (simp_all add: run_rooms_def)

lemma run_rooms_reachable: "room_reachable r \<Longrightarrow> room_run ops r \<Longrightarrow> room_reachable (run_rooms ops r)"
proof (induction ops arbitrary: r)
  case (Cons op ops)
  then have "room_reachable (run_room op r)"
    unfolding room_reachable_def by (metis room_run.simps(2) room_stepI rtranclp.rtrancl_into_rtrancl)
  with Cons show ?case by simp
qed simp

text \<open>A property that no operation of a kind takes away.\<close>

lemma run_rooms_keeps:
  assumes "\<And>op r. op \<in> S \<Longrightarrow> P r \<Longrightarrow> P (run_room op r)" and "set ops \<subseteq> S" and "P r"
  shows "P (run_rooms ops r)"
  using assms(2,3) by (induction ops arbitrary: r) (auto intro: assms(1))

lemma guard_unchanged [simp]:
  "ro_guard (broadcast_frame i f r) = ro_guard r" "ro_guard (deliver_prefixed n f r) = ro_guard r"
  "ro_guard (broadcast_control j r) = ro_guard r" "ro_guard (map_peer i g r) = ro_guard r"
  by (simp_all add: broadcast_frame_def deliver_prefixed_def broadcast_control_def map_peer_def Let_def split: option.split)

lemma empty_unchanged [simp]:
  "ro_peers (broadcast_frame i f r) = [] \<longleftrightarrow> ro_peers r = []" "ro_peers (deliver_prefixed n f r) = [] \<longleftrightarrow> ro_peers r = []"
  "ro_peers (broadcast_control j r) = [] \<longleftrightarrow> ro_peers r = []" "ro_peers (map_peer i g r) = [] \<longleftrightarrow> ro_peers r = []"
  by (simp_all add: broadcast_frame_def deliver_prefixed_def broadcast_control_def map_peer_def Let_def split: option.split)

lemma length_unchanged [simp]:
  "length (ro_peers (broadcast_frame i f r)) = length (ro_peers r)"
  "length (ro_peers (deliver_prefixed n f r)) = length (ro_peers r)"
  "length (ro_peers (broadcast_control j r)) = length (ro_peers r)" "length (ro_peers (map_peer i g r)) = length (ro_peers r)"
  by (simp_all add: broadcast_frame_def deliver_prefixed_def broadcast_control_def map_peer_def Let_def split: option.split)

lemma pinned_stays: "ag_pinned_version (ro_guard r) = Some v \<Longrightarrow> ag_pinned_version (ro_guard (run_room op r)) = Some v"
  by (cases op) (auto simp: add_peer_def add_peer_at_index_def remove_peer_def remove_peer_and_check_ended_def take_peer_def
      release_def insert_peer_def mark_ended_def clear_ended_def reserve_index_def pin_version_def alloc_def Let_def
      split: option.splits if_splits prod.splits)

lemma add_peer_pins:
  assumes "add_peer i k v r = (Inr x, r')"
  shows "ag_pinned_version (ro_guard r') = Some v" and "ag_pinned_version (ro_guard r) \<in> {None, Some v}"
proof -
  obtain n g where *: "version_ok (ro_guard r) v = None" "alloc (ro_guard r) = (Some n, g)"
    "r' = insert_peer i k n (r\<lparr>ro_guard := pin_version v g\<rparr>)"
    using assms by (cases rule: add_peer_cases) auto
  have "ag_pinned_version g = ag_pinned_version (ro_guard r)"
    using *(2) by (auto simp: alloc_def split: if_splits)
  with * show "ag_pinned_version (ro_guard r') = Some v" "ag_pinned_version (ro_guard r) \<in> {None, Some v}"
    by (auto simp: insert_peer_def pin_version_def version_ok_def split: option.splits if_splits)
qed

definition over :: "room \<Rightarrow> bool" where
  "over r \<longleftrightarrow> ag_ended (ro_guard r) \<and> ro_peers r = []"

lemma over_stays: "op \<noteq> RClearEnded \<Longrightarrow> over r \<Longrightarrow> over (run_room op r)"
  by (cases op) (auto simp: over_def add_peer_def add_peer_at_index_def remove_peer_def remove_peer_and_check_ended_def
      mark_ended_def Let_def)

text \<open>The allocator of a room that only its own relay fills: no index is skipped.\<close>

definition dense :: "room \<Rightarrow> bool" where
  "dense r \<longleftrightarrow> index_inv r \<and> length (indices r) + length (ag_free (ro_guard r)) = unat (ag_next_fresh (ro_guard r)) \<and>
    (\<forall>i \<in> set (indices r @ ag_free (ro_guard r)). i < ag_next_fresh (ro_guard r))"

fun local_op :: "room_op \<Rightarrow> bool" where
  "local_op (RAddAt _ _ _ _) \<longleftrightarrow> False"
| "local_op _ \<longleftrightarrow> True"

lemma length_indices: "length (indices r) = length (ro_peers r)"
  by (simp add: indices_def)


lemma indices_insert [simp]:
  assumes "i \<notin> fst ` set (ro_peers r)"
  shows "indices (insert_peer i k n r) = indices r @ [n]"
  unfolding insert_peer_def publish_simps by (simp add: update_fresh [OF assms]) (simp add: peer_new_def indices_def)

lemma insert_guard [simp]:
  "ag_free (ro_guard (insert_peer i k n r)) = ag_free (ro_guard r)"
  "ag_next_fresh (ro_guard (insert_peer i k n r)) = ag_next_fresh (ro_guard r)"
  by (simp_all add: insert_peer_def)

lemma indices_take:
  assumes "index_inv r" and "map_of (ro_peers r) i = Some p"
  obtains a b where "indices r = a @ ap_peer_index p # b" "indices (take_peer i p r) = a @ b"
    "ag_free (ro_guard (take_peer i p r)) = ag_free (ro_guard r) @ [ap_peer_index p]"
    "ag_next_fresh (ro_guard (take_peer i p r)) = ag_next_fresh (ro_guard r)"
proof -
  obtain xs ys where "ro_peers r = xs @ (i, p) # ys" "AList.delete i (ro_peers r) = xs @ ys"
    using delete_split [OF _ assms(2)] assms(1) by (auto simp: index_inv_def index_ok_def)
  then show thesis
    using that [of "map (\<lambda>(_, p). ap_peer_index p) xs" "map (\<lambda>(_, p). ap_peer_index p) ys"]
    by (auto simp: take_peer_def indices_def release_def)
qed

lemma dense_add:
  assumes "dense r" and "room_inv r" and "i \<notin> fst ` set (ro_peers r)"
  shows "dense (snd (add_peer i k v r))"
proof -
  have idx: "index_inv (snd (add_peer i k v r))"
    using add_peer_inv [OF assms(2,3)] by (simp add: room_inv_def)
  obtain x r' where xr: "add_peer i k v r = (x, r')" by fastforce
  then show ?thesis
  proof (cases rule: add_peer_cases)
    case (ok n g)
    show ?thesis
    proof (cases rule: alloc_cases [of "ro_guard r"])
      case fresh
      then have "unat (ag_next_fresh (ro_guard r) + 1) = Suc (unat (ag_next_fresh (ro_guard r)))"
        using unatSuc [of "ag_next_fresh (ro_guard r)"] minus_one_byte
        by (metis add.commute eq_neg_iff_add_eq_0)
      then show ?thesis
        using assms(1,3) idx ok fresh by (auto simp: xr dense_def less_succ_byte)
    qed (use assms(1,3) idx ok in \<open>auto simp: xr dense_def\<close>)
  qed (use assms(1) xr in simp)
qed

lemma dense_leave:
  assumes "dense r" and "map_of (ro_peers r) i = Some p"
  shows "dense (take_peer i p r)"
proof -
  have inv: "index_inv r" using assms(1) by (simp add: dense_def)
  obtain a b where "indices r = a @ ap_peer_index p # b" "indices (take_peer i p r) = a @ b"
    "ag_free (ro_guard (take_peer i p r)) = ag_free (ro_guard r) @ [ap_peer_index p]"
    "ag_next_fresh (ro_guard (take_peer i p r)) = ag_next_fresh (ro_guard r)"
    using indices_take [OF inv assms(2)] .
  then show ?thesis
    using assms(1) take_peer_inv(1) [OF inv assms(2)] by (auto simp: dense_def)
qed

lemma dense_publish [simp]: "dense (publish j l r) \<longleftrightarrow> dense r"
  by (simp add: dense_def)

lemma dense_ended [simp]: "dense (r\<lparr>ro_guard := (ro_guard r)\<lparr>ag_ended := b\<rparr>\<rparr>) \<longleftrightarrow> dense r"
  by (simp add: dense_def index_inv_def)

lemma dense_same:
  assumes "dense r" and "index_inv r'" and "indices r' = indices r" and "ro_guard r' = ro_guard r"
  shows "dense r'"
  using assms by (simp add: dense_def)

lemma indices_unchanged [simp]:
  "indices (broadcast_frame i f r) = indices r" "indices (deliver_prefixed n f r) = indices r"
  "indices (broadcast_control j r) = indices r"
  "(\<And>p. ap_peer_index (g p) = ap_peer_index p) \<Longrightarrow> indices (map_peer i g r) = indices r"
  by (auto simp: broadcast_frame_def deliver_prefixed_def broadcast_control_def map_peer_def indices_def Let_def
      split: option.split)

lemma dense_step:
  assumes "dense r" and "room_inv r" and "fresh_id op r" and "local_op op"
  shows "dense (run_room op r)"
proof -
  have inv: "index_inv (run_room op r)"
    using run_room_inv [OF assms(2,3)] by (simp add: room_inv_def)
  show ?thesis
  proof (cases op)
    case (RAdd i k v)
    then show ?thesis using dense_add [OF assms(1,2)] assms(3) by simp
  next
    case (RRemove i)
    then show ?thesis using assms(1) dense_leave by (simp add: remove_peer_def split: option.split)
  next
    case (RRemoveCheck i)
    then show ?thesis
      using assms(1) dense_leave by (auto simp: remove_peer_and_check_ended_def Let_def split: option.split)
  qed (use assms(1,4) inv in \<open>auto simp: mark_ended_def clear_ended_def intro!: dense_same [OF assms(1)]\<close>)
qed

lemma dense_run:
  assumes "dense r" and "room_inv r" and "room_run ops r" and "list_all local_op ops"
  shows "dense (run_rooms ops r)"
  using assms by (induction ops arbitrary: r) (simp_all add: dense_step run_room_inv)


lemma peer_pubkeys_indices: "map snd (peer_pubkeys r) = indices r"
  by (simp add: peer_pubkeys_def indices_def comp_def case_prod_unfold)

lemma length_peer_pubkeys [simp]: "length (peer_pubkeys r) = length (ro_peers r)"
  by (simp add: peer_pubkeys_def)

lemma peer_pubkeys_insert:
  assumes "i \<notin> fst ` set (ro_peers r)"
  shows "peer_pubkeys (insert_peer i k n r) = peer_pubkeys r @ [(k, n)]"
  unfolding peer_pubkeys_def insert_peer_def publish_simps
  by (simp add: update_fresh [OF assms]) (simp add: peer_new_def)

lemma room_new_reachable: "room_reachable (room_new c h)"
  by (auto simp: room_reachable_def room_init_def)

lemma room_new_dense: "dense (room_new c h)"
  using room_new_inv [of c h] by (simp add: dense_def room_inv_def) (simp add: room_new_def guard_new_def indices_def)

definition sample_room :: room where
  "sample_room = run_rooms [RAdd 1 ''alice'' 2, RAdd 2 ''bob'' 2, RAdd 3 ''carol'' 2] (room_new 7 9)"

lemma sample_room_eq:
  "sample_room = \<lparr>ro_community_id = 7, ro_channel_id = 9,
    ro_peers = [(1, peer_new ''alice'' 0), (2, peer_new ''bob'' 1), (3, peer_new ''carol'' 2)],
    ro_guard = \<lparr>ag_next_fresh = 3, ag_free = [], ag_ended = False, ag_pinned_version = Some 2, ag_roster_revision = 3\<rparr>,
    ro_roster_log =
      [\<lparr>rd_revision = 1, rd_joined = Some \<lparr>rp_pubkey = ''alice'', rp_peer_index = 0\<rparr>, rd_left = None\<rparr>,
       \<lparr>rd_revision = 2, rd_joined = Some \<lparr>rp_pubkey = ''bob'', rp_peer_index = 1\<rparr>, rd_left = None\<rparr>,
       \<lparr>rd_revision = 3, rd_joined = Some \<lparr>rp_pubkey = ''carol'', rp_peer_index = 2\<rparr>, rd_left = None\<rparr>]\<rparr>"
  by (simp add: sample_room_def add_peer_def room_new_def guard_new_def alloc_def version_ok_def max_peers_per_room_def
      insert_peer_def publish_def pin_version_def Let_def)

lemma sample_room_run: "room_run [RAdd 1 ''alice'' 2, RAdd 2 ''bob'' 2, RAdd 3 ''carol'' 2] (room_new 7 9)"
  by (simp add: add_peer_def room_new_def guard_new_def alloc_def version_ok_def max_peers_per_room_def
      insert_peer_def publish_def pin_version_def Let_def)

lemma sample_room_reachable: "room_reachable sample_room"
  unfolding sample_room_def by (rule run_rooms_reachable [OF room_new_reachable sample_room_run])

section \<open>Properties\<close>

text \<open>
  C7. An index names one speaker. In every reachable room at most 25 peers are in, no two share an index, and an
  admission gives an index nobody in the room has, whatever mix of local admissions, admissions at
  an index chosen elsewhere and departures led there.
\<close>

theorem room_indices_unique:
  assumes "room_reachable r" and "i \<notin> fst ` set (ro_peers r)"
  shows "length (peer_pubkeys r) \<le> 25 \<and> distinct (map snd (peer_pubkeys r)) \<and>
    (\<forall>n r'. add_peer i k v r = (Inr (i, n), r') \<longrightarrow>
      n \<notin> set (map snd (peer_pubkeys r)) \<and> peer_pubkeys r' = peer_pubkeys r @ [(k, n)])"
proof -
  have inv: "room_inv r" using assms(1) by (rule room_reachable_inv)
  have "peer_pubkeys r' = peer_pubkeys r @ [(k, n)] \<and> n \<notin> set (indices r)"
    if "add_peer i k v r = (Inr (i, n), r')" for n r'
    using that
  proof (cases rule: add_peer_cases)
    case (ok m g)
    then have r': "r' = insert_peer i k n (r\<lparr>ro_guard := pin_version v g\<rparr>)" by simp
    have "room_inv r'"
      using add_peer_inv [OF inv assms(2), of k v] that by simp
    then have "distinct (indices r @ [n])"
      using assms(2) by (simp add: r' room_inv_def index_inv_def index_ok_def)
    then show ?thesis
      using assms(2) peer_pubkeys_insert [of i "r\<lparr>ro_guard := pin_version v g\<rparr>"] by (simp add: r' peer_pubkeys_def)
  qed simp
  with inv show ?thesis
    by (auto simp: peer_pubkeys_indices room_inv_def index_inv_def index_ok_def max_peers_per_room_def)
qed

theorem room_indices_unique_witness:
  "peer_pubkeys sample_room = [(''alice'', 0), (''bob'', 1), (''carol'', 2)] \<and> length (peer_pubkeys sample_room) \<le> 25 \<and>
    4 \<notin> fst ` set (ro_peers sample_room)"
proof -
  have fresh: "4 \<notin> fst ` set (ro_peers sample_room)" by (simp add: sample_room_eq)
  have "peer_pubkeys sample_room = [(''alice'', 0), (''bob'', 1), (''carol'', 2)]"
    by (simp add: sample_room_eq peer_pubkeys_def peer_new_def)
  with room_indices_unique [OF sample_room_reachable fresh] fresh show ?thesis by blast
qed

text \<open>
  When a room refuses. In a room that only its own relay fills, an admission is refused as ended exactly when the room
  has ended, else as full exactly when 25 peers are in (the allocator never runs out before), else for
  its version exactly when it differs from the pinned one; in every other case it succeeds. Indices
  stay below 255.
\<close>

theorem local_room_admission:
  assumes "room_run ops (room_new c h)" and "list_all local_op ops" and "r = run_rooms ops (room_new c h)"
  shows "fst (add_peer i k v r) =
      (if ag_ended (ro_guard r) then Inl Ended
       else if length (ro_peers r) = 25 then Inl Full
       else if ag_pinned_version (ro_guard r) \<notin> {None, Some v}
       then Inl (VersionMismatch (the (ag_pinned_version (ro_guard r))) v)
       else Inr (i, the (fst (alloc (ro_guard r))))) \<and>
    (\<forall>x \<in> set (peer_pubkeys r). snd x < 255)"
proof -
  have inv: "room_inv r" using room_reachable_inv [OF run_rooms_reachable [OF room_new_reachable assms(1)]] assms(3) by simp
  have dense: "dense r" using dense_run [OF room_new_dense room_new_inv assms(1,2)] assms(3) by simp
  have le: "length (ro_peers r) \<le> 25"
    using inv by (simp add: room_inv_def index_inv_def index_ok_def max_peers_per_room_def)
  have "fst (alloc (ro_guard r)) \<noteq> None"
  proof (cases rule: alloc_cases [of "ro_guard r"])
    case none
    with dense le show ?thesis by (simp add: dense_def length_indices)
  qed simp_all
  then have "fst (add_peer i k v r) =
      (if ag_ended (ro_guard r) then Inl Ended
       else if length (ro_peers r) = 25 then Inl Full
       else if ag_pinned_version (ro_guard r) \<notin> {None, Some v}
       then Inl (VersionMismatch (the (ag_pinned_version (ro_guard r))) v)
       else Inr (i, the (fst (alloc (ro_guard r)))))"
    using le by (auto simp: add_peer_def Let_def max_peers_per_room_def version_ok_def split: option.split prod.split)
  moreover have "snd x < 255" if "x \<in> set (peer_pubkeys r)" for x
  proof -
    have "snd x \<in> set (indices r)" using that by (simp flip: peer_pubkeys_indices)
    then have "snd x < ag_next_fresh (ro_guard r)" using dense by (simp add: dense_def)
    also have "ag_next_fresh (ro_guard r) \<le> 255" using byte_ge_255 [of "ag_next_fresh (ro_guard r)"] by auto
    finally show ?thesis .
  qed
  ultimately show ?thesis by blast
qed

theorem local_room_admission_witness:
  "fst (add_peer 4 ''dave'' 2 sample_room) = Inr (4, 3) \<and>
    fst (add_peer 4 ''dave'' 1 sample_room) = Inl (VersionMismatch 2 1)"
proof -
  let ?ops = "[RAdd 1 ''alice'' 2, RAdd 2 ''bob'' 2, RAdd 3 ''carol'' 2]"
  have local: "list_all local_op ?ops" by simp
  have guard: "ag_ended (ro_guard sample_room) = False" "length (ro_peers sample_room) = 3"
    "ag_pinned_version (ro_guard sample_room) = Some 2" "fst (alloc (ro_guard sample_room)) = Some 3"
    by (simp_all add: sample_room_eq alloc_def)
  show ?thesis
    using local_room_admission [OF sample_room_run local sample_room_def, of 4 "''dave''"] by (simp add: guard)
qed


text \<open>
  One call, one protocol version. After an admission with some version, every later admission to the room that
  succeeds has the same version, whatever happens in between, and a different one is refused.
\<close>

theorem version_pinned:
  assumes "add_peer i k v r = (Inr x, r1)" and "fst (add_peer i' k' v' (run_rooms ops r1)) = Inr y"
  shows "v' = v"
proof -
  have "ag_pinned_version (ro_guard (run_rooms ops r1)) = Some v"
    by (rule run_rooms_keeps [where S = UNIV and P = "\<lambda>r. ag_pinned_version (ro_guard r) = Some v"]) (simp_all add: pinned_stays add_peer_pins(1) [OF assms(1)])
  moreover obtain r2 where "add_peer i' k' v' (run_rooms ops r1) = (Inr y, r2)"
    using assms(2) by (metis prod.collapse)
  ultimately show ?thesis
    using add_peer_pins(2) by fastforce
qed

theorem version_pinned_witness:
  "(2 :: 8 word) = 2 \<and> fst (add_peer 4 ''dave'' 2 (run_rooms [RRemove 1] (snd (add_peer 1 ''alice'' 2 (room_new 7 9))))) = Inr (4, 0)"
proof -
  have "add_peer 1 ''alice'' 2 (room_new 7 9) = (Inr (1, 0), snd (add_peer 1 ''alice'' 2 (room_new 7 9)))"
    and *: "fst (add_peer 4 ''dave'' 2 (run_rooms [RRemove 1] (snd (add_peer 1 ''alice'' 2 (room_new 7 9))))) = Inr (4, 0)"
    by (simp_all add: prod_eq_iff remove_peer_def add_peer_def room_new_def guard_new_def alloc_def version_ok_def
        pin_version_def max_peers_per_room_def insert_peer_def publish_def take_peer_def release_def peer_new_def Let_def)
  from version_pinned [OF this] * show ?thesis by blast
qed

text \<open>
  A call ends once. When removing the last peer reports that the room should end, then until the end is taken back no
  admission succeeds, whatever is called, the room stays empty, and no other removal reports it again.
\<close>

theorem auto_end_once:
  assumes "remove_peer_and_check_ended i r = (Some (n, True), r1)" and "RClearEnded \<notin> set ops"
  shows "ro_peers (run_rooms ops r1) = [] \<and> fst (add_peer i1 k v (run_rooms ops r1)) = Inl Ended \<and>
    fst (add_peer_at_index i1 k v n1 (run_rooms ops r1)) = Inl Ended \<and>
    (\<forall>m b. fst (remove_peer_and_check_ended i2 (run_rooms ops r1)) \<noteq> Some (m, b))"
proof -
  have "over r1"
    using assms(1) by (auto simp: remove_peer_and_check_ended_def over_def Let_def split: option.splits if_splits)
  then have "over (run_rooms ops r1)"
    using assms(2) by (intro run_rooms_keeps [where S = "- {RClearEnded}" and P = over]) (auto simp: over_stays)
  then show ?thesis
    by (simp add: over_def add_peer_def add_peer_at_index_def remove_peer_and_check_ended_def)
qed

theorem auto_end_once_witness:
  "\<exists>r1. remove_peer_and_check_ended 1 (snd (add_peer 1 ''alice'' 2 (room_new 7 9))) = (Some (0, True), r1) \<and>
    fst (add_peer 4 ''dave'' 2 (run_rooms [RControl ''left''] r1)) = Inl Ended"
proof -
  have "remove_peer_and_check_ended 1 (snd (add_peer 1 ''alice'' 2 (room_new 7 9))) =
      (Some (0, True), snd (remove_peer_and_check_ended 1 (snd (add_peer 1 ''alice'' 2 (room_new 7 9)))))"
    by (simp add: prod_eq_iff remove_peer_and_check_ended_def add_peer_def room_new_def guard_new_def alloc_def version_ok_def
        max_peers_per_room_def insert_peer_def publish_def take_peer_def release_def peer_new_def Let_def)
  with auto_end_once [OF this, of "[RControl ''left'']" 4 "''dave''" 2] show ?thesis by fastforce
qed

text \<open>
  Who hears a frame. In every reachable room a frame of a peer reaches every other peer that can
  take it (its receiver is alive and fewer than 8 frames wait) and nobody else, behind the index under which
  exactly the sender is listed. A frame that comes over the mesh with an author index reaches everyone but the
  peer of that index.
\<close>

theorem frame_fan_out:
  assumes "room_reachable r" and "map_of (ro_peers r) i = Some p" and "map_of (ro_peers r) j = Some q"
  shows "map_of (ro_peers (broadcast_frame i f r)) j = Some (if j = i then q else send_audio (ap_peer_index p # f) q) \<and>
    map_of (ro_peers (deliver_prefixed n f r)) j = Some (if ap_peer_index q = n then q else send_audio f q) \<and>
    ch_buf (ap_audio_tx (send_audio f q)) =
      (if ch_open (ap_audio_tx q) \<and> length (ch_buf (ap_audio_tx q)) < 8 then ch_buf (ap_audio_tx q) @ [f]
       else ch_buf (ap_audio_tx q)) \<and>
    roster_of r (ap_peer_index p) = Some (ap_pubkey p) \<and> (ap_peer_index q = ap_peer_index p \<longleftrightarrow> j = i)"
proof -
  have inv: "distinct (indices r)" "distinct (map fst (ro_peers r))"
    using room_reachable_inv [OF assms(1)] by (simp_all add: room_inv_def index_inv_def index_ok_def)
  have in_p: "(i, p) \<in> set (ro_peers r)" and in_q: "(j, q) \<in> set (ro_peers r)"
    using assms(2,3) by (simp_all add: map_of_SomeD)
  have "(i, p) = (j, q)" if "ap_peer_index q = ap_peer_index p"
    using inv(1) in_p in_q that inj_onD [of "\<lambda>(_, p). ap_peer_index p" "set (ro_peers r)" "(i, p)" "(j, q)"]
    unfolding indices_def distinct_map by simp
  then have same: "ap_peer_index q = ap_peer_index p \<longleftrightarrow> j = i"
    using assms(2,3) by auto
  have "distinct (map fst (map (\<lambda>(_, p). (ap_peer_index p, ap_pubkey p)) (ro_peers r)))"
    using inv(1) by (simp add: indices_def case_prod_unfold comp_def)
  then have "roster_of r (ap_peer_index p) = Some (ap_pubkey p)"
    using in_p unfolding roster_of_def by (intro map_of_is_SomeI) (auto simp: rev_image_eqI)
  moreover have "map_of (ro_peers (broadcast_frame i f r)) j = Some (if j = i then q else send_audio (ap_peer_index p # f) q)"
    "map_of (ro_peers (deliver_prefixed n f r)) j = Some (if ap_peer_index q = n then q else send_audio f q)"
    using assms(2,3) by (simp_all add: broadcast_frame_def deliver_prefixed_def Let_def map_of_map_pair)
  ultimately show ?thesis
    using same by (simp add: send_audio_def try_send_def audio_channel_capacity_def)
qed

theorem frame_fan_out_witness:
  "\<exists>p q. map_of (ro_peers sample_room) 1 = Some p \<and> map_of (ro_peers sample_room) 2 = Some q \<and>
    map_of (ro_peers (broadcast_frame 1 [5] sample_room)) 2 = Some (send_audio [0, 5] q)"
proof -
  obtain p q where pq: "map_of (ro_peers sample_room) 1 = Some p" "map_of (ro_peers sample_room) 2 = Some q"
    and idx: "ap_peer_index p = 0"
  proof -
    have "map_of (ro_peers sample_room) 1 = Some (peer_new ''alice'' 0)"
      "map_of (ro_peers sample_room) 2 = Some (peer_new ''bob'' 1)"
      by (simp_all add: sample_room_eq)
    with that show thesis by (simp add: peer_new_def)
  qed
  with frame_fan_out [OF sample_room_reachable pq, of "[5]"] show ?thesis by (simp add: idx)
qed

text \<open>
  A room can be lost with a peer in it. A connection that holds the reference \<open>get_or_create\<close> gave it, while
  another one cleans the still empty room up, is admitted to a room the manager no longer knows:
  no lookup finds the peer's room, so frames from the mesh do not reach it.
\<close>

theorem admission_to_evicted_room:
  assumes "get_or_create c h manager_new = (a, m1)" and "cleanup_if_empty c h m1 = (b, m2)"
    and "on_room a (add_peer i k v) m2 = (x, m3)"
  shows "b \<and> (\<exists>n. x = Inr (i, n)) \<and> ro_peers (ar_store m3 ! a) \<noteq> [] \<and>
    get_room c h m3 = None \<and> get_unambiguous_by_channel h m3 = None"
proof -
  have m2: "a = 0" "m2 = \<lparr>ar_rooms = [], ar_store = [room_new c h]\<rparr>" "b"
    using assms(1,2) by (auto simp: get_or_create_def manager_new_def cleanup_if_empty_def room_is_empty_def room_new_def)
  have "add_peer i k v (room_new c h) =
      (Inr (i, 0), insert_peer i k 0 ((room_new c h)\<lparr>ro_guard := pin_version v (guard_new\<lparr>ag_next_fresh := 1\<rparr>)\<rparr>))"
    by (simp add: add_peer_def room_new_def guard_new_def alloc_def version_ok_def max_peers_per_room_def Let_def)
  then show ?thesis
    using assms(3) by (auto simp: m2 on_room_def get_room_def get_unambiguous_by_channel_def insert_peer_def)
qed

theorem admission_to_evicted_room_witness:
  "\<exists>m1 m2 m3. get_or_create 7 9 manager_new = (0, m1) \<and> cleanup_if_empty 7 9 m1 = (True, m2) \<and>
    on_room 0 (add_peer 1 ''alice'' 2) m2 = (Inr (1, 0), m3) \<and> get_unambiguous_by_channel 9 m3 = None"
proof -
  obtain m1 m2 m3 where "get_or_create 7 9 manager_new = (0, m1)" "cleanup_if_empty 7 9 m1 = (True, m2)"
    "on_room 0 (add_peer 1 ''alice'' 2) m2 = (Inr (1, 0), m3)"
    by (simp add: get_or_create_def manager_new_def cleanup_if_empty_def room_is_empty_def room_new_def on_room_def
        add_peer_def guard_new_def alloc_def version_ok_def max_peers_per_room_def Let_def)
  with admission_to_evicted_room [OF this] show ?thesis by blast
qed

end
