(* ===== verification/Mesh_Wire.thy ===== *)
theory Mesh_Wire
  imports Prelude
begin

text \<open>
  The frames relays exchange, \<open>crates/buzz-relay-mesh/src/wire.rs\<close>, the errors of \<open>lib.rs\<close>, and the
  length-delimited framing of a stream in \<open>peer.rs\<close>. The postcard encoding of a value is a parameter.
\<close>

section \<open>Frames\<close>

type_synonym runtime_id = "8 word list"
type_synonym u64 = "64 word"

record fenced_header =
  fe_session_id :: uuid
  fe_generation :: u64
  fe_owner_runtime_id :: runtime_id

datatype profile = ReliableStream | RealtimeMedia | HuddleControl

record mesh_datagram =
  md_fenced :: fenced_header
  md_seq :: u64
  md_payload :: "8 word list"

datatype stream_role = Control | Session fenced_header profile

record stream_hello =
  sh_sender :: runtime_id
  sh_role :: stream_role

datatype goodbye_reason = SessionEndedReason | Draining | StaleGenerationReason

datatype mesh_stream_frame =
    Hello stream_hello
  | Data fenced_header "8 word list"
  | Goodbye fenced_header goodbye_reason
  | Gossip "8 word list"

datatype mesh_error =
    Encode string
  | Decode string
  | UnknownWireVersion "8 word"
  | EmptyFrame
  | FrameTooLarge nat nat
  | DatagramTooLarge nat nat
  | PeerNotConnected runtime_id
  | PeerDraining runtime_id
  | StaleGeneration uuid u64 u64
  | NoActiveLease uuid u64 u64 runtime_id
  | OwnerMismatch uuid u64 runtime_id runtime_id
  | FutureGeneration uuid u64 u64
  | Disabled
  | Transport string
  | Redis string


unbundle bit_operations_syntax

section \<open>Encoding\<close>

definition wire_version :: "8 word" where
  "wire_version = 1"

definition max_stream_frame :: "32 word" where
  "max_stream_frame = 16 * 1024 * 1024"

definition encode :: "('a \<Rightarrow> string + 8 word list) \<Rightarrow> 'a \<Rightarrow> mesh_error + 8 word list" where
  "encode postcard frame = (case postcard frame of Inl e \<Rightarrow> Inl (Encode e) | Inr bytes \<Rightarrow> Inr (wire_version # bytes))"

definition decode :: "(8 word list \<Rightarrow> string + 'a) \<Rightarrow> 8 word list \<Rightarrow> mesh_error + 'a" where
  "decode from_postcard bytes =
    (case bytes of
       [] \<Rightarrow> Inl EmptyFrame
     | v # rest \<Rightarrow>
         if v = wire_version then (case from_postcard rest of Inl e \<Rightarrow> Inl (Decode e) | Inr x \<Rightarrow> Inr x)
         else Inl (UnknownWireVersion v))"

definition encode_datagram_checked ::
  "(mesh_datagram \<Rightarrow> string + 8 word list) \<Rightarrow> mesh_datagram \<Rightarrow> nat \<Rightarrow> mesh_error + 8 word list" where
  "encode_datagram_checked postcard dgram max_datagram_size =
    (case encode postcard dgram of
       Inl e \<Rightarrow> Inl e
     | Inr bytes \<Rightarrow>
         if length bytes > max_datagram_size then Inl (DatagramTooLarge (length bytes) max_datagram_size)
         else Inr bytes)"

definition to_le_bytes :: "32 word \<Rightarrow> 8 word list" where
  "to_le_bytes w = [ucast w, ucast (drop_bit 8 w), ucast (drop_bit 16 w), ucast (drop_bit 24 w)]"

fun from_le_bytes :: "8 word list \<Rightarrow> 32 word" where
  "from_le_bytes [] = 0"
| "from_le_bytes (b # bs) = ucast b OR push_bit 8 (from_le_bytes bs)"

section \<open>Framed streams\<close>

text \<open>
  The receiving half of a stream: the bytes that have arrived and not been read, and whether the peer has finished
  the stream or it has failed. The sending half is the list of the bytes written.
\<close>

datatype stream_end = Open | Finished | Failed string

record recv_half =
  rv_bytes :: "8 word list"
  rv_end :: stream_end

datatype read_exact_error = FinishedEarly nat | ReadError string

text \<open>\<open>None\<close> stands for a read that waits for more bytes.\<close>

definition read_exact :: "nat \<Rightarrow> recv_half \<Rightarrow> (read_exact_error + 8 word list) option \<times> recv_half" where
  "read_exact n h =
    (if n \<le> length (rv_bytes h) then (Some (Inr (take n (rv_bytes h))), h\<lparr>rv_bytes := drop n (rv_bytes h)\<rparr>)
     else case rv_end h of
       Open \<Rightarrow> (None, h)
     | Finished \<Rightarrow> (Some (Inl (FinishedEarly (length (rv_bytes h)))), h\<lparr>rv_bytes := []\<rparr>)
     | Failed e \<Rightarrow> (Some (Inl (ReadError e)), h\<lparr>rv_bytes := []\<rparr>))"

text \<open>Each write is given with its result; the stream of a failed write is not used again.\<close>

definition send_frame ::
  "(mesh_stream_frame \<Rightarrow> string + 8 word list) \<Rightarrow> string + unit \<Rightarrow> string + unit \<Rightarrow> mesh_stream_frame \<Rightarrow>
    8 word list \<Rightarrow> (mesh_error + unit) \<times> 8 word list" where
  "send_frame postcard write_len write_body frame out =
    (case encode postcard frame of
       Inl e \<Rightarrow> (Inl e, out)
     | Inr bytes \<Rightarrow>
         if length bytes > unat max_stream_frame
         then (Inl (FrameTooLarge (length bytes) (unat max_stream_frame)), out)
         else case write_len of
           Inl e \<Rightarrow> (Inl (Transport e), out)
         | Inr _ \<Rightarrow>
             let out = out @ to_le_bytes (of_nat (length bytes))
             in (case write_body of
                   Inl e \<Rightarrow> (Inl (Transport e), out)
                 | Inr _ \<Rightarrow> (Inr (), out @ bytes)))"

definition recv_frame ::
  "(8 word list \<Rightarrow> string + mesh_stream_frame) \<Rightarrow> (read_exact_error \<Rightarrow> string) \<Rightarrow> recv_half \<Rightarrow>
    (mesh_error + mesh_stream_frame option) option \<times> recv_half" where
  "recv_frame from_postcard text h =
    (case read_exact 4 h of
       (None, h) \<Rightarrow> (None, h)
     | (Some (Inl (FinishedEarly n)), h) \<Rightarrow>
         (if n = 0 then (Some (Inr None), h) else (Some (Inl (Transport (text (FinishedEarly n)))), h))
     | (Some (Inl err), h) \<Rightarrow> (Some (Inl (Transport (text err))), h)
     | (Some (Inr len_bytes), h) \<Rightarrow>
         let len = from_le_bytes len_bytes
         in if len > max_stream_frame
            then (Some (Inl (FrameTooLarge (unat len) (unat max_stream_frame))), h)
            else case read_exact (unat len) h of
              (None, h) \<Rightarrow> (None, h)
            | (Some (Inl err), h) \<Rightarrow> (Some (Inl (Transport (text err))), h)
            | (Some (Inr bytes), h) \<Rightarrow>
                (case decode from_postcard bytes of
                   Inl e \<Rightarrow> (Some (Inl e), h)
                 | Inr frame \<Rightarrow> (Some (Inr (Some frame)), h)))"

fun send_frames ::
  "(mesh_stream_frame \<Rightarrow> string + 8 word list) \<Rightarrow> mesh_stream_frame list \<Rightarrow> 8 word list \<Rightarrow> (mesh_error + unit) \<times> 8 word list" where
  "send_frames postcard [] out = (Inr (), out)"
| "send_frames postcard (frame # frames) out =
    (case send_frame postcard (Inr ()) (Inr ()) frame out of
       (Inl e, out) \<Rightarrow> (Inl e, out)
     | (Inr _, out) \<Rightarrow> send_frames postcard frames out)"

fun recv_frames ::
  "(8 word list \<Rightarrow> string + mesh_stream_frame) \<Rightarrow> (read_exact_error \<Rightarrow> string) \<Rightarrow> nat \<Rightarrow> recv_half \<Rightarrow>
    (mesh_error + mesh_stream_frame option) list" where
  "recv_frames from_postcard text 0 h = []"
| "recv_frames from_postcard text (Suc n) h =
    (case recv_frame from_postcard text h of
       (None, _) \<Rightarrow> []
     | (Some r, h) \<Rightarrow> r # recv_frames from_postcard text n h)"

section \<open>The operations of a connection\<close>

record link_counters =
  lc_streams_opened :: u64
  lc_streams_accepted :: u64
  lc_datagrams_sent :: u64
  lc_datagrams_received :: u64

text \<open>The calls of the transport are given with their results.\<close>

definition open_bi :: "string + 's \<Rightarrow> link_counters \<Rightarrow> (mesh_error + 's) \<times> link_counters" where
  "open_bi opened c =
    (case opened of
       Inl err \<Rightarrow> (Inl (Transport err), c)
     | Inr s \<Rightarrow> (Inr s, c\<lparr>lc_streams_opened := lc_streams_opened c + 1\<rparr>))"

definition accept_bi :: "string + 's \<Rightarrow> link_counters \<Rightarrow> (mesh_error + 's) \<times> link_counters" where
  "accept_bi accepted c =
    (case accepted of
       Inl err \<Rightarrow> (Inl (Transport err), c)
     | Inr s \<Rightarrow> (Inr s, c\<lparr>lc_streams_accepted := lc_streams_accepted c + 1\<rparr>))"

definition link_send_datagram ::
  "(mesh_datagram \<Rightarrow> string + 8 word list) \<Rightarrow> nat option \<Rightarrow> (8 word list \<Rightarrow> string + unit) \<Rightarrow> mesh_datagram \<Rightarrow> link_counters \<Rightarrow>
    (mesh_error + unit) \<times> link_counters" where
  "link_send_datagram postcard max_datagram_size send dgram c =
    (case max_datagram_size of
       None \<Rightarrow> (Inl (Transport ''peer does not support QUIC datagrams''), c)
     | Some limit \<Rightarrow>
         (case encode_datagram_checked postcard dgram limit of
            Inl e \<Rightarrow> (Inl e, c)
          | Inr bytes \<Rightarrow>
              (case send bytes of
                 Inl err \<Rightarrow> (Inl (Transport err), c)
               | Inr _ \<Rightarrow> (Inr (), c\<lparr>lc_datagrams_sent := lc_datagrams_sent c + 1\<rparr>))))"

definition recv_datagram ::
  "(8 word list \<Rightarrow> string + mesh_datagram) \<Rightarrow> string + 8 word list \<Rightarrow> link_counters \<Rightarrow> (mesh_error + mesh_datagram) \<times> link_counters" where
  "recv_datagram from_postcard read c =
    (case read of
       Inl err \<Rightarrow> (Inl (Transport err), c)
     | Inr bytes \<Rightarrow>
         (case decode from_postcard bytes of
            Inl e \<Rightarrow> (Inl e, c)
          | Inr dgram \<Rightarrow> (Inr dgram, c\<lparr>lc_datagrams_received := lc_datagrams_received c + 1\<rparr>)))"

section \<open>What a framed stream carries\<close>

lemma to_le_bytes_length [simp]: "length (to_le_bytes w) = 4"
  by (simp add: to_le_bytes_def)

lemma from_le_bytes_to_le_bytes [simp]: "from_le_bytes (to_le_bytes w) = w"
proof (rule bit_word_eqI)
  fix n assume n: "n < LENGTH(32)"
  have "n < 8 \<or> 8 \<le> n \<and> n < 16 \<or> 16 \<le> n \<and> n < 24 \<or> 24 \<le> n \<and> n < 32" using n by auto
  then show "bit (from_le_bytes (to_le_bytes w)) n \<longleftrightarrow> bit w n"
    using n by (elim disjE) (auto simp: to_le_bytes_def bit_simps le_diff_conv2 le_Suc_ex dest!: le_Suc_ex)
qed

lemma decode_encode:
  assumes "encode postcard x = Inr bytes" "from_postcard (projr (postcard x)) = Inr x"
  shows "decode from_postcard bytes = Inr x"
  using assms by (auto simp: encode_def decode_def split: sum.splits)

lemma encode_not_empty: "encode postcard x = Inr bytes \<Longrightarrow> bytes \<noteq> []"
  by (auto simp: encode_def split: sum.splits)


lemma max_stream_frame_unat: "unat max_stream_frame = 16777216"
  by (simp add: max_stream_frame_def)

lemma read_exact_append [simp]:
  "length xs = n \<Longrightarrow> read_exact n \<lparr>rv_bytes = xs @ ys, rv_end = e\<rparr> = (Some (Inr xs), \<lparr>rv_bytes = ys, rv_end = e\<rparr>)"
  by (simp add: read_exact_def)

lemma length_prefix_unat:
  assumes "n \<le> 16777216"
  shows "unat (of_nat n :: 32 word) = n" "\<not> of_nat n > max_stream_frame"
proof -
  have less: "n < 2 ^ LENGTH(32)" using assms by simp
  then show *: "unat (of_nat n :: 32 word) = n" by (simp add: unat_of_nat)
  show "\<not> of_nat n > max_stream_frame" using assms * by (simp add: word_less_nat_alt max_stream_frame_unat)
qed

lemma recv_frame_sent:
  assumes enc: "encode postcard f = Inr bytes" and len: "length bytes \<le> 16777216" and dec: "decode from_postcard bytes = Inr f"
  shows "recv_frame from_postcard text \<lparr>rv_bytes = to_le_bytes (of_nat (length bytes)) @ bytes @ rest, rv_end = e\<rparr> =
    (Some (Inr (Some f)), \<lparr>rv_bytes = rest, rv_end = e\<rparr>)"
  using dec length_prefix_unat [OF len] by (simp add: recv_frame_def Let_def)

lemma send_frame_sent:
  assumes "encode postcard f = Inr bytes" "length bytes \<le> 16777216"
  shows "send_frame postcard (Inr ()) (Inr ()) f out = (Inr (), out @ to_le_bytes (of_nat (length bytes)) @ bytes)"
  using assms by (simp add: send_frame_def max_stream_frame_unat)

definition frame_fits :: "(mesh_stream_frame \<Rightarrow> string + 8 word list) \<Rightarrow> mesh_stream_frame \<Rightarrow> bool" where
  "frame_fits postcard f \<longleftrightarrow> (case encode postcard f of Inl _ \<Rightarrow> False | Inr bytes \<Rightarrow> length bytes \<le> unat max_stream_frame)"

lemma send_frames_append:
  "\<forall>f \<in> set frames. frame_fits postcard f \<Longrightarrow>
    send_frames postcard frames out = (Inr (), out @ snd (send_frames postcard frames []))"
proof (induction frames arbitrary: out)
  case (Cons f frames)
  obtain bytes where bytes: "encode postcard f = Inr bytes" "length bytes \<le> 16777216"
    using Cons.prems by (auto simp: frame_fits_def max_stream_frame_unat split: sum.splits)
  have IH: "send_frames postcard frames o' = (Inr (), o' @ snd (send_frames postcard frames []))" for o'
    by (rule Cons.IH) (use Cons.prems in simp)
  have "send_frames postcard (f # frames) o' =
      (Inr (), o' @ to_le_bytes (of_nat (length bytes)) @ bytes @ snd (send_frames postcard frames []))" for o'
    using IH [of "o' @ to_le_bytes (of_nat (length bytes)) @ bytes"] by (simp add: send_frame_sent [OF bytes])
  from this [of out] this [of "[]"] show ?case by simp
qed simp

lemma recv_frames_sent:
  assumes "\<forall>f \<in> set frames. frame_fits postcard f \<and> (\<forall>bs. postcard f = Inr bs \<longrightarrow> from_postcard bs = Inr f)"
  shows "recv_frames from_postcard text (length frames + k)
           \<lparr>rv_bytes = snd (send_frames postcard frames []) @ rest, rv_end = e\<rparr> =
         map (Inr \<circ> Some) frames @ recv_frames from_postcard text k \<lparr>rv_bytes = rest, rv_end = e\<rparr>"
  using assms
proof (induction frames)
  case (Cons f frames)
  obtain bytes where bytes: "encode postcard f = Inr bytes" "length bytes \<le> 16777216"
    using Cons.prems by (auto simp: frame_fits_def max_stream_frame_unat split: sum.splits)
  have "decode from_postcard bytes = Inr f"
    using Cons.prems bytes(1) by (auto simp: encode_def decode_def split: sum.splits)
  note recv = recv_frame_sent [OF bytes this]
  have "snd (send_frames postcard (f # frames) []) =
      to_le_bytes (of_nat (length bytes)) @ bytes @ snd (send_frames postcard frames [])"
    using send_frames_append [of frames postcard "to_le_bytes (of_nat (length bytes)) @ bytes"] Cons.prems
    by (simp add: send_frame_sent [OF bytes])
  then show ?case using Cons by (simp add: recv)
qed simp

text \<open>
  C36. A framed stream is faithful. Frames that fit are all written, and the receiver reads exactly them, in
  order and whatever follows; a frame above the limit is refused by the sender before a byte is written,
  and a length prefix above the limit is refused by the receiver before a byte of the body is read.
\<close>

theorem framed_stream_faithful:
  assumes fits: "\<forall>f \<in> set frames. frame_fits postcard f"
    and roundtrip: "\<forall>f bs. postcard f = Inr bs \<longrightarrow> from_postcard bs = Inr f"
  shows "fst (send_frames postcard frames []) = Inr () \<and>
    recv_frames from_postcard text (length frames + k)
           \<lparr>rv_bytes = snd (send_frames postcard frames []) @ rest, rv_end = e\<rparr> =
         map (Inr \<circ> Some) frames @ recv_frames from_postcard text k \<lparr>rv_bytes = rest, rv_end = e\<rparr> \<and>
    (postcard big = Inr bs \<longrightarrow> length bs \<ge> unat max_stream_frame \<longrightarrow>
         send_frame postcard w1 w2 big out = (Inl (FrameTooLarge (Suc (length bs)) (unat max_stream_frame)), out)) \<and>
    (n > max_stream_frame \<longrightarrow>
         recv_frame from_postcard text \<lparr>rv_bytes = to_le_bytes n @ body, rv_end = e\<rparr> =
         (Some (Inl (FrameTooLarge (unat n) (unat max_stream_frame))), \<lparr>rv_bytes = body, rv_end = e\<rparr>))"
proof (intro conjI impI)
  show "fst (send_frames postcard frames []) = Inr ()"
    using send_frames_append [OF fits] by (metis fst_conv)
  show "recv_frames from_postcard text (length frames + k)
           \<lparr>rv_bytes = snd (send_frames postcard frames []) @ rest, rv_end = e\<rparr> =
         map (Inr \<circ> Some) frames @ recv_frames from_postcard text k \<lparr>rv_bytes = rest, rv_end = e\<rparr>"
    by (rule recv_frames_sent) (use fits roundtrip in blast)
qed (simp_all add: send_frame_def encode_def recv_frame_def Let_def)

text \<open>An encoding of the frame that carries gossip; other frames are not used in the example.\<close>

definition sample_postcard :: "mesh_stream_frame \<Rightarrow> string + 8 word list" where
  "sample_postcard f = (case f of Gossip bs \<Rightarrow> Inr (3 # bs) | _ \<Rightarrow> Inl ''unsupported'')"

definition sample_from_postcard :: "8 word list \<Rightarrow> string + mesh_stream_frame" where
  "sample_from_postcard bs = (case bs of b # rest \<Rightarrow> if b = 3 then Inr (Gossip rest) else Inl ''tag'' | [] \<Rightarrow> Inl ''eof'')"

theorem framed_stream_faithful_witness:
  "recv_frames sample_from_postcard (\<lambda>_. []) 3
     \<lparr>rv_bytes = snd (send_frames sample_postcard [Gossip [7], Gossip []] []), rv_end = Finished\<rparr> =
   [Inr (Some (Gossip [7])), Inr (Some (Gossip [])), Inr None]"
proof -
  have fits: "\<forall>f \<in> set [Gossip [7], Gossip []]. frame_fits sample_postcard f"
    by (simp add: frame_fits_def encode_def sample_postcard_def max_stream_frame_unat)
  have roundtrip: "\<forall>f bs. sample_postcard f = Inr bs \<longrightarrow> sample_from_postcard bs = Inr f"
    by (auto simp: sample_postcard_def sample_from_postcard_def split: mesh_stream_frame.splits)
  from framed_stream_faithful [OF fits roundtrip, of "\<lambda>_. []" 1 "[]" Finished]
  show ?thesis by (simp add: recv_frame_def read_exact_def numeral_3_eq_3)
qed

end
