(* ===== verification/Audio_Mesh.thy ===== *)
theory Audio_Mesh
  imports Audio_Room Mesh_Wire "HOL-Library.Multiset"
begin

text \<open>
  Calls that span relays: \<open>crates/buzz-relay/src/audio/mesh.rs\<close> (the generation floor and inbound media) and the control
  streams of \<open>join.rs\<close>: the owner's side that admits remote clients, the other side that mirrors the
  owner's roster, and the resolution of who owns a call. The frames are those of \<open>Mesh_Wire\<close>.

  Each turn of an asynchronous loop is a function of what arrived and of the results of the awaited
  calls (sending a frame, asking the directory), which are arguments.
\<close>

section \<open>The generation floor\<close>

type_synonym generation_floor = "(uuid \<times> u64) list"

datatype fence_verdict = Accept bool | RejectStale u64

definition floor_new :: generation_floor where
  "floor_new = []"

definition floor_check :: "uuid \<Rightarrow> u64 \<Rightarrow> generation_floor \<Rightarrow> fence_verdict \<times> generation_floor" where
  "floor_check session_id generation seen =
    (case map_of seen session_id of
       Some known \<Rightarrow>
         if generation < known then (RejectStale known, seen)
         else (Accept (generation > known), if generation > known then AList.update session_id generation seen else seen)
     | None \<Rightarrow> (Accept False, AList.update session_id generation seen))"

definition floor_forget :: "uuid \<Rightarrow> generation_floor \<Rightarrow> generation_floor" where
  "floor_forget session_id seen = AList.delete session_id seen"

record mesh_audio_router =
  mr_rooms :: audio_rooms
  mr_fence :: generation_floor
  mr_local_runtime_id :: runtime_id

definition on_media_datagram :: "mesh_datagram \<Rightarrow> mesh_audio_router \<Rightarrow> fence_verdict \<times> mesh_audio_router" where
  "on_media_datagram dgram router =
    (let session_id = fe_session_id (md_fenced dgram)
     in case floor_check session_id (fe_generation (md_fenced dgram)) (mr_fence router) of
       (verdict, fence) \<Rightarrow>
         let router1 = router\<lparr>mr_fence := fence\<rparr>
         in (case verdict of
               RejectStale known \<Rightarrow> (verdict, router1)
             | Accept _ \<Rightarrow>
                 (case get_unambiguous_by_channel session_id (mr_rooms router1) of
                    None \<Rightarrow> (verdict, router1)
                  | Some a \<Rightarrow>
                      (case md_payload dgram of
                         [] \<Rightarrow> (verdict, router1)
                       | author_index # rest \<Rightarrow>
                           (verdict, router1\<lparr>mr_rooms := snd (on_room a
                              (\<lambda>r. ((), deliver_prefixed author_index (author_index # rest) r)) (mr_rooms router1))\<rparr>)))))"

text \<open>The datagrams a remote peer's sink sends for the frames it drains.\<close>

primrec remote_peer_sink :: "fenced_header \<Rightarrow> u64 \<Rightarrow> 8 word list list \<Rightarrow> mesh_datagram list" where
  "remote_peer_sink fenced seq [] = []"
| "remote_peer_sink fenced seq (frame # frames) =
    \<lparr>md_fenced = fenced, md_seq = seq, md_payload = frame\<rparr> # remote_peer_sink fenced (seq + 1) frames"

definition media_datagram :: "8 word \<Rightarrow> fenced_header \<Rightarrow> u64 \<Rightarrow> 8 word list \<Rightarrow> mesh_datagram" where
  "media_datagram peer_index fenced seq client_frame =
    \<lparr>md_fenced = fenced, md_seq = seq, md_payload = peer_index # client_frame\<rparr>"

section \<open>Control messages\<close>

record roster_entry =
  re_pubkey :: string
  re_peer_index :: "8 word"

definition roster_entry_from :: "roster_peer \<Rightarrow> roster_entry" where
  "roster_entry_from peer = \<lparr>re_pubkey = rp_pubkey peer, re_peer_index = rp_peer_index peer\<rparr>"

record wire_snapshot =
  wsn_revision :: u64
  wsn_peers :: "roster_entry list"

datatype fence_rejection = StaleGenerationFence | NoActiveLeaseFence | OwnerMismatchFence | FutureGenerationFence

datatype register_rejection = RoomFull | RoomEnded | VersionMismatchRejection "8 word" "8 word" | Fenced fence_rejection

datatype huddle_control_msg =
    RegisterPeer uuid string "8 word"
  | PeerRegistered string "8 word" wire_snapshot
  | RosterSnapshotMsg u64 "roster_entry list"
  | RosterDeltaMsg u64 "roster_entry option" "roster_entry option"
  | RosterResync
  | RegisterRejected string register_rejection
  | UnregisterPeer string

fun fence_rejection_from_mesh_error :: "mesh_error \<Rightarrow> fence_rejection option" where
  "fence_rejection_from_mesh_error (StaleGeneration _ _ _) = Some StaleGenerationFence"
| "fence_rejection_from_mesh_error (NoActiveLease _ _ _ _) = Some NoActiveLeaseFence"
| "fence_rejection_from_mesh_error (OwnerMismatch _ _ _ _) = Some OwnerMismatchFence"
| "fence_rejection_from_mesh_error (FutureGeneration _ _ _) = Some FutureGenerationFence"
| "fence_rejection_from_mesh_error _ = None"

fun fence_rejection_code :: "fence_rejection \<Rightarrow> string" where
  "fence_rejection_code StaleGenerationFence = ''stale_generation''"
| "fence_rejection_code NoActiveLeaseFence = ''no_active_lease''"
| "fence_rejection_code OwnerMismatchFence = ''owner_mismatch''"
| "fence_rejection_code FutureGenerationFence = ''future_generation''"

fun admission_to_rejection :: "admission_error \<Rightarrow> register_rejection" where
  "admission_to_rejection Full = RoomFull"
| "admission_to_rejection Ended = RoomEnded"
| "admission_to_rejection (VersionMismatch pinned requested) = VersionMismatchRejection pinned requested"

definition wire_roster_snapshot :: "room \<Rightarrow> wire_snapshot" where
  "wire_roster_snapshot r =
    (let snapshot = room_roster_snapshot r
     in \<lparr>wsn_revision = rs_revision snapshot, wsn_peers = map roster_entry_from (rs_peers snapshot)\<rparr>)"

definition roster_snapshot_msg :: "room \<Rightarrow> huddle_control_msg" where
  "roster_snapshot_msg r =
    (let snapshot = wire_roster_snapshot r in RosterSnapshotMsg (wsn_revision snapshot) (wsn_peers snapshot))"

definition roster_delta_msg :: "roster_delta \<Rightarrow> huddle_control_msg" where
  "roster_delta_msg delta =
    RosterDeltaMsg (rd_revision delta) (map_option roster_entry_from (rd_joined delta))
      (map_option roster_entry_from (rd_left delta))"

text \<open>Encodings and texts of other libraries: postcard, JSON, and the display of ids and frames.\<close>

record control_lib =
  encode_control :: "huddle_control_msg \<Rightarrow> mesh_error + 8 word list"
  decode_control :: "8 word list \<Rightarrow> mesh_error + huddle_control_msg"
  joined_json :: "string \<Rightarrow> 8 word \<Rightarrow> string"
  left_json :: "string \<Rightarrow> 8 word \<Rightarrow> string"
  uuid_text :: "uuid \<Rightarrow> string"
  runtime_text :: "runtime_id \<Rightarrow> string"
  profile_debug :: "profile \<Rightarrow> string"
  frame_debug :: "mesh_stream_frame \<Rightarrow> string"


section \<open>The owner's side of a control stream\<close>

text \<open>A receiver of the roster channel, which keeps the last 64 deltas.\<close>

datatype roster_recv = Pending | Received roster_delta | Lagged

definition roster_channel_capacity :: nat where
  "roster_channel_capacity = 64"

definition subscribe_roster :: "room \<Rightarrow> nat" where
  "subscribe_roster r = length (ro_roster_log r)"

definition recv_roster :: "roster_delta list \<Rightarrow> nat \<Rightarrow> roster_recv \<times> nat" where
  "recv_roster sent pos =
    (if pos \<ge> length sent then (Pending, pos)
     else if length sent - pos > roster_channel_capacity then (Lagged, length sent - roster_channel_capacity)
     else (Received (sent ! pos), pos + 1))"

text \<open>The local variables of \<open>serve_control_loop\<close>, and the frames it sent.\<close>

record control_stream =
  cs_registered :: "(string \<times> uuid) list"
  cs_community :: "uuid option"
  cs_roster_rx :: "(nat \<times> nat) option"
  cs_sent :: "mesh_stream_frame list"

definition control_stream_new :: control_stream where
  "control_stream_new = \<lparr>cs_registered = [], cs_community = None, cs_roster_rx = None, cs_sent = []\<rparr>"

text \<open>What \<open>select!\<close> picks in a turn, and the results of what the turn awaits.\<close>

datatype loop_event =
    DrainFired
  | LostFired
  | RosterReady
  | RosterClosed
  | FrameArrived "mesh_error + mesh_stream_frame option"

record loop_env =
  le_send :: "mesh_error + unit"
  le_validate :: "mesh_error + unit"
  le_is_draining :: bool
  le_peer_id :: uuid

datatype flow = Continue | Break "mesh_error + unit" "goodbye_reason option" | Return mesh_error

text \<open>\<open>stream.send_frame(Data \<dots> encode_control(msg)?).await\<close>; \<open>fail\<close> tells what an error of the sending does.\<close>

definition send_control ::
  "control_lib \<Rightarrow> loop_env \<Rightarrow> fenced_header \<Rightarrow> huddle_control_msg \<Rightarrow> (mesh_error \<Rightarrow> flow) \<Rightarrow> control_stream \<Rightarrow> flow \<times> control_stream" where
  "send_control lib env fenced msg fail cs =
    (case encode_control lib msg of
       Inl e \<Rightarrow> (Return e, cs)
     | Inr payload \<Rightarrow>
         (case le_send env of
            Inl e \<Rightarrow> (fail e, cs)
          | Inr _ \<Rightarrow> (Continue, cs\<lparr>cs_sent := cs_sent cs @ [Data fenced payload]\<rparr>)))"

definition register_remote_peer ::
  "control_lib \<Rightarrow> uuid \<Rightarrow> string \<Rightarrow> 8 word \<Rightarrow> (string \<times> uuid) list \<Rightarrow> room \<Rightarrow>
    (huddle_control_msg \<times> (string \<times> uuid) list) \<times> room" where
  "register_remote_peer lib new_id pubkey protocol_version registered r =
    (case add_peer new_id pubkey protocol_version r of
       (Inr (peer_id, peer_index), r1) \<Rightarrow>
         let r2 = broadcast_control (joined_json lib pubkey peer_index) r1;
             reply = PeerRegistered pubkey peer_index (wire_roster_snapshot r2);
             r3 = map_peer peer_id (\<lambda>p. p\<lparr>ap_ctrl_tx := drop_receiver (ap_ctrl_tx p)\<rparr>) r2
         in ((reply, AList.update pubkey peer_id registered), r3)
     | (Inl reason, r1) \<Rightarrow> ((RegisterRejected pubkey (admission_to_rejection reason), registered), r1))"

definition drop_remote_peer :: "control_lib \<Rightarrow> string \<Rightarrow> uuid \<Rightarrow> room \<Rightarrow> room" where
  "drop_remote_peer lib pubkey peer_id r =
    (let peer_index = map_option ap_peer_index (map_of (ro_peers r) peer_id);
         r1 = remove_peer peer_id r
     in case peer_index of Some n \<Rightarrow> broadcast_control (left_json lib pubkey n) r1 | None \<Rightarrow> r1)"

definition stream_room :: "uuid \<Rightarrow> control_stream \<Rightarrow> audio_rooms \<Rightarrow> nat option" where
  "stream_room session_id cs m = Option.bind (cs_community cs) (\<lambda>c. get_room c session_id m)"

definition is_peer_registered :: "huddle_control_msg \<Rightarrow> bool" where
  "is_peer_registered msg = (case msg of PeerRegistered _ _ _ \<Rightarrow> True | _ \<Rightarrow> False)"

definition handle_register ::
  "control_lib \<Rightarrow> loop_env \<Rightarrow> fenced_header \<Rightarrow> uuid \<Rightarrow> string \<Rightarrow> 8 word \<Rightarrow> control_stream \<Rightarrow> audio_rooms \<Rightarrow>
    flow \<times> control_stream \<times> audio_rooms" where
  "handle_register lib env fenced community_id pubkey protocol_version cs m =
    (if cs_community cs \<noteq> None \<and> cs_community cs \<noteq> Some community_id
     then (Break (Inl (Transport (''huddle-control stream community changed '' @ uuid_text lib (the (cs_community cs)) @
             '' -> '' @ uuid_text lib community_id))) None, cs, m)
     else
       let cs1 = cs\<lparr>cs_community := Some community_id\<rparr>
       in if le_is_draining env then (Break (Inr ()) (Some Draining), cs1, m)
          else (case get_or_create community_id (fe_session_id fenced) m of
            (a, m1) \<Rightarrow>
              let new_roster_rx = subscribe_roster (ar_store m1 ! a)
              in (case le_validate env of
                    Inr _ \<Rightarrow>
                      (case on_room a (register_remote_peer lib (le_peer_id env) pubkey protocol_version (cs_registered cs1)) m1 of
                         ((reply, registered), m2) \<Rightarrow>
                           (case send_control lib env fenced reply (\<lambda>e. Break (Inl e) None) (cs1\<lparr>cs_registered := registered\<rparr>) of
                              (fl, cs2) \<Rightarrow>
                                (fl, if fl = Continue \<and> is_peer_registered reply
                                     then cs2\<lparr>cs_roster_rx := Some (a, new_roster_rx)\<rparr> else cs2, m2)))
                  | Inl e \<Rightarrow>
                      (case fence_rejection_from_mesh_error e of
                         Some reason \<Rightarrow>
                           (case send_control lib env fenced (RegisterRejected pubkey (Fenced reason))
                              (\<lambda>e. Break (Inl e) None) cs1 of
                              (fl, cs2) \<Rightarrow> (fl, cs2, m1))
                       | None \<Rightarrow> (Break (Inl e) None, cs1, m1)))))"

definition right_arrow :: string where
  "right_arrow = [CHR 0xE2, CHR 0x86, CHR 0x92]"

fun handle_control_msg ::
  "control_lib \<Rightarrow> loop_env \<Rightarrow> fenced_header \<Rightarrow> huddle_control_msg \<Rightarrow> control_stream \<Rightarrow> audio_rooms \<Rightarrow>
    flow \<times> control_stream \<times> audio_rooms" where
  "handle_control_msg lib env fenced (RegisterPeer community_id pubkey protocol_version) cs m =
    handle_register lib env fenced community_id pubkey protocol_version cs m"
| "handle_control_msg lib env fenced (UnregisterPeer pubkey) cs m =
    (case map_of (cs_registered cs) pubkey of
       None \<Rightarrow> (Continue, cs, m)
     | Some peer_id \<Rightarrow>
         let cs1 = cs\<lparr>cs_registered := AList.delete pubkey (cs_registered cs)\<rparr>
         in (case stream_room (fe_session_id fenced) cs m of
               None \<Rightarrow> (Continue, cs1, m)
             | Some a \<Rightarrow> (Continue, cs1, snd (on_room a (\<lambda>r. ((), drop_remote_peer lib pubkey peer_id r)) m))))"
| "handle_control_msg lib env fenced RosterResync cs m =
    (case stream_room (fe_session_id fenced) cs m of
       None \<Rightarrow> (Break (Inr ()) None, cs, m)
     | Some a \<Rightarrow>
         (case send_control lib env fenced (roster_snapshot_msg (ar_store m ! a)) Return cs of (fl, cs1) \<Rightarrow> (fl, cs1, m)))"
| "handle_control_msg lib env fenced _ cs m =
    (Break (Inl (Transport (''huddle-control owner received an owner'' @ right_arrow @ ''non-owner reply''))) None, cs, m)"

text \<open>One turn of the loop. \<open>RosterReady\<close> is picked only when the stream has a receiver with something to give.\<close>

definition handle_roster_event ::
  "control_lib \<Rightarrow> loop_env \<Rightarrow> fenced_header \<Rightarrow> control_stream \<Rightarrow> audio_rooms \<Rightarrow> flow \<times> control_stream \<times> audio_rooms" where
  "handle_roster_event lib env fenced cs m =
    (case cs_roster_rx cs of
       None \<Rightarrow> (Continue, cs, m)
     | Some (a, pos) \<Rightarrow>
         (case recv_roster (ro_roster_log (ar_store m ! a)) pos of
            (Pending, _) \<Rightarrow> (Continue, cs, m)
          | (Received delta, pos') \<Rightarrow>
              (case send_control lib env fenced (roster_delta_msg delta) Return (cs\<lparr>cs_roster_rx := Some (a, pos')\<rparr>) of
                 (fl, cs1) \<Rightarrow> (fl, cs1, m))
          | (Lagged, pos') \<Rightarrow>
              let cs1 = cs\<lparr>cs_roster_rx := Some (a, pos')\<rparr>
              in (case stream_room (fe_session_id fenced) cs m of
                    None \<Rightarrow> (Break (Inr ()) None, cs1, m)
                  | Some b \<Rightarrow>
                      (case send_control lib env fenced (roster_snapshot_msg (ar_store m ! b)) Return cs1 of
                         (fl, cs2) \<Rightarrow> (fl, cs2, m)))))"

definition serve_step ::
  "control_lib \<Rightarrow> runtime_id \<Rightarrow> fenced_header \<Rightarrow> loop_env \<Rightarrow> loop_event \<Rightarrow> control_stream \<Rightarrow> audio_rooms \<Rightarrow>
    flow \<times> control_stream \<times> audio_rooms" where
  "serve_step lib local_runtime_id fenced env ev cs m =
    (case ev of
       DrainFired \<Rightarrow> (Break (Inr ()) (Some Draining), cs, m)
     | LostFired \<Rightarrow> (Break (Inr ()) (Some StaleGenerationReason), cs, m)
     | RosterReady \<Rightarrow> handle_roster_event lib env fenced cs m
     | RosterClosed \<Rightarrow> (Break (Inr ()) None, cs, m)
     | FrameArrived (Inr (Some (Data f payload))) \<Rightarrow>
         if f \<noteq> fenced
         then (Break (Inl (OwnerMismatch (fe_session_id fenced) (fe_generation f) (fe_owner_runtime_id f) local_runtime_id)) None, cs, m)
         else (case decode_control lib payload of
           Inl e \<Rightarrow> (Break (Inl e) None, cs, m)
         | Inr msg \<Rightarrow> handle_control_msg lib env fenced msg cs m)
     | FrameArrived (Inr (Some (Goodbye _ _))) \<Rightarrow> (Break (Inr ()) None, cs, m)
     | FrameArrived (Inr None) \<Rightarrow> (Break (Inr ()) None, cs, m)
     | FrameArrived (Inr (Some other)) \<Rightarrow>
         (Break (Inl (Transport (''huddle-control stream got unexpected frame '' @ frame_debug lib other))) None, cs, m)
     | FrameArrived (Inl e) \<Rightarrow> (Break (Inl e) None, cs, m))"

text \<open>After the loop: the farewell, whose failure is ignored, and the removal of the stream's peers.\<close>

definition teardown ::
  "control_lib \<Rightarrow> loop_env \<Rightarrow> fenced_header \<Rightarrow> goodbye_reason option \<Rightarrow> control_stream \<Rightarrow> audio_rooms \<Rightarrow> control_stream \<times> audio_rooms" where
  "teardown lib env fenced reason cs m =
    (case reason of
       Some rsn \<Rightarrow> (case le_send env of Inr _ \<Rightarrow> cs\<lparr>cs_sent := cs_sent cs @ [Goodbye fenced rsn]\<rparr> | Inl _ \<Rightarrow> cs)
     | None \<Rightarrow> cs,
     case stream_room (fe_session_id fenced) cs m of
       None \<Rightarrow> m
     | Some a \<Rightarrow>
         snd (on_room a (\<lambda>r. ((), fold (\<lambda>(pubkey, peer_id). drop_remote_peer lib pubkey peer_id) (cs_registered cs) r)) m))"

fun serve_control_loop ::
  "control_lib \<Rightarrow> runtime_id \<Rightarrow> fenced_header \<Rightarrow> (loop_env \<times> loop_event) list \<Rightarrow> control_stream \<Rightarrow> audio_rooms \<Rightarrow>
    (mesh_error + unit) option \<times> control_stream \<times> audio_rooms" where
  "serve_control_loop lib me fenced [] cs m = (None, cs, m)"
| "serve_control_loop lib me fenced ((env, ev) # evs) cs m =
    (case serve_step lib me fenced env ev cs m of
       (Continue, cs1, m1) \<Rightarrow> serve_control_loop lib me fenced evs cs1 m1
     | (Break res reason, cs1, m1) \<Rightarrow> (Some res, teardown lib env fenced reason cs1 m1)
     | (Return e, cs1, m1) \<Rightarrow> (Some (Inl e), cs1, m1))"

definition accept_inbound ::
  "control_lib \<Rightarrow> runtime_id \<Rightarrow> runtime_id \<Rightarrow> stream_hello \<Rightarrow> (loop_env \<times> loop_event) list \<Rightarrow> audio_rooms \<Rightarrow>
    (mesh_error + unit) option \<times> audio_rooms" where
  "accept_inbound lib local_runtime_id from hello evs m =
    (if sh_sender hello \<noteq> from
     then (Some (Inl (Transport (''huddle-control hello.sender '' @ runtime_text lib (sh_sender hello) @
             '' != authenticated peer '' @ runtime_text lib from))), m)
     else case sh_role hello of
       Control \<Rightarrow> (Some (Inl (Transport ''huddle-control stream Hello was not a session role'')), m)
     | Session fenced profile \<Rightarrow>
         if profile \<noteq> HuddleControl
         then (Some (Inl (Transport (''huddle-control acceptor got profile '' @ profile_debug lib profile))), m)
         else if fe_owner_runtime_id fenced \<noteq> local_runtime_id
         then (Some (Inl (OwnerMismatch (fe_session_id fenced) (fe_generation fenced) (fe_owner_runtime_id fenced)
                 local_runtime_id)), m)
         else (case serve_control_loop lib local_runtime_id fenced evs control_stream_new m of (res, _, m1) \<Rightarrow> (res, m1)))"

section \<open>The other side\<close>

datatype teardown_cause = OwnerLost | OwnerDraining | SessionEnded | StreamClosed

fun from_goodbye :: "goodbye_reason \<Rightarrow> teardown_cause" where
  "from_goodbye StaleGenerationReason = OwnerLost"
| "from_goodbye Draining = OwnerDraining"
| "from_goodbye SessionEndedReason = SessionEnded"

text \<open>What is sent to the client, as the JSON objects' fields.\<close>

datatype ws_event =
    WsRoster u64 "roster_entry list"
  | WsJoined u64 roster_entry
  | WsLeft u64 roster_entry

text \<open>
  A turn of \<open>read_owner_control\<close>: the frame, whether the client still takes messages, and whether a
  resync request can be sent. The result is the next revision, what was forwarded and requested, and
  the cause if the loop ends.
\<close>

record reader =
  rd_known :: u64
  rd_forwarded :: "ws_event list"
  rd_resyncs :: nat

definition forward :: "bool \<Rightarrow> u64 \<Rightarrow> ws_event \<Rightarrow> reader \<Rightarrow> teardown_cause option \<times> reader" where
  "forward client_ok next ev st =
    (if client_ok then (None, st\<lparr>rd_known := next, rd_forwarded := rd_forwarded st @ [ev]\<rparr>)
     else (Some SessionEnded, st\<lparr>rd_known := next\<rparr>))"

definition read_owner_control_step ::
  "control_lib \<Rightarrow> bool \<Rightarrow> bool \<Rightarrow> mesh_error + mesh_stream_frame option \<Rightarrow> reader \<Rightarrow> teardown_cause option \<times> reader" where
  "read_owner_control_step lib client_ok resync_ok frame st =
    (case frame of
       Inr (Some (Goodbye _ reason)) \<Rightarrow> (Some (from_goodbye reason), st)
     | Inr (Some (Data _ payload)) \<Rightarrow>
         (case decode_control lib payload of
            Inr (RosterSnapshotMsg next peers) \<Rightarrow> forward client_ok next (WsRoster next peers) st
          | Inr (RosterDeltaMsg next joined left) \<Rightarrow>
              if next = rd_known st + 1
              then (case joined of
                      Some peer \<Rightarrow> forward client_ok next (WsJoined next peer) st
                    | None \<Rightarrow>
                        (case left of
                           Some peer \<Rightarrow> forward client_ok next (WsLeft next peer) st
                         | None \<Rightarrow> (None, st\<lparr>rd_known := next\<rparr>)))
              else if next \<le> rd_known st then (None, st)
              else (case encode_control lib RosterResync of
                      Inl _ \<Rightarrow> (Some StreamClosed, st)
                    | Inr _ \<Rightarrow>
                        if resync_ok then (None, st\<lparr>rd_resyncs := Suc (rd_resyncs st)\<rparr>) else (Some StreamClosed, st))
          | _ \<Rightarrow> (None, st))
     | Inr (Some _) \<Rightarrow> (None, st)
     | Inr None \<Rightarrow> (Some StreamClosed, st)
     | Inl _ \<Rightarrow> (Some StreamClosed, st))"

fun read_owner_control ::
  "control_lib \<Rightarrow> (bool \<times> bool \<times> (mesh_error + mesh_stream_frame option)) list \<Rightarrow> reader \<Rightarrow> teardown_cause option \<times> reader" where
  "read_owner_control lib [] st = (None, st)"
| "read_owner_control lib ((client_ok, resync_ok, frame) # frames) st =
    (case read_owner_control_step lib client_ok resync_ok frame st of
       (Some cause, st1) \<Rightarrow> (Some cause, st1)
     | (None, st1) \<Rightarrow> read_owner_control lib frames st1)"


section \<open>Who owns a call\<close>

record ownership =
  ow_owner_runtime_id :: runtime_id
  ow_generation :: u64

record huddle_lease =
  hl_owner_runtime_id :: runtime_id
  hl_generation :: u64

datatype acquire_outcome = Acquired huddle_lease | Held ownership

datatype join_outcome = LocalOwner u64 | RemoteOwner runtime_id u64

record resolved_join =
  rj_outcome :: join_outcome
  rj_acquired :: "huddle_lease option"

fun join_fenced_header :: "join_outcome \<Rightarrow> uuid \<Rightarrow> runtime_id \<Rightarrow> fenced_header" where
  "join_fenced_header (LocalOwner generation) session_id local_runtime_id =
    \<lparr>fe_session_id = session_id, fe_generation = generation, fe_owner_runtime_id = local_runtime_id\<rparr>"
| "join_fenced_header (RemoteOwner owner_runtime_id generation) session_id local_runtime_id =
    \<lparr>fe_session_id = session_id, fe_generation = generation, fe_owner_runtime_id = owner_runtime_id\<rparr>"

text \<open>What the directory answers to the calls of one resolution.\<close>

record directory_answers =
  da_owner_of :: "mesh_error + ownership option"
  da_acquire :: "mesh_error + acquire_outcome"
  da_validate :: "fenced_header \<Rightarrow> mesh_error + unit"

definition route_to_owner :: "directory_answers \<Rightarrow> uuid \<Rightarrow> runtime_id \<Rightarrow> ownership \<Rightarrow> mesh_error + resolved_join" where
  "route_to_owner dir session_id local_runtime_id ownership =
    (if ow_owner_runtime_id ownership = local_runtime_id
     then Inr \<lparr>rj_outcome = LocalOwner (ow_generation ownership), rj_acquired = None\<rparr>
     else
       let fenced = \<lparr>fe_session_id = session_id, fe_generation = ow_generation ownership,
             fe_owner_runtime_id = ow_owner_runtime_id ownership\<rparr>
       in case da_validate dir fenced of
         Inl e \<Rightarrow> Inl e
       | Inr _ \<Rightarrow> Inr \<lparr>rj_outcome = RemoteOwner (ow_owner_runtime_id ownership) (ow_generation ownership), rj_acquired = None\<rparr>)"

definition resolve_join :: "directory_answers \<Rightarrow> uuid \<Rightarrow> runtime_id \<Rightarrow> mesh_error + resolved_join" where
  "resolve_join dir session_id local_runtime_id =
    (case da_owner_of dir of
       Inl e \<Rightarrow> Inl e
     | Inr (Some o1) \<Rightarrow> route_to_owner dir session_id local_runtime_id o1
     | Inr None \<Rightarrow>
         (case da_acquire dir of
            Inl e \<Rightarrow> Inl e
          | Inr (Acquired lease) \<Rightarrow> Inr \<lparr>rj_outcome = LocalOwner (hl_generation lease), rj_acquired = Some lease\<rparr>
          | Inr (Held o1) \<Rightarrow> route_to_owner dir session_id local_runtime_id o1))"

definition owner_ready_max_attempts :: nat where
  "owner_ready_max_attempts = 25"

text \<open>
  The attempts of \<open>resolve_join_owner_ready\<close>: the directory's answers in each, and whether the registry has a live
  entry after it.
\<close>

fun owner_ready_loop ::
  "control_lib \<Rightarrow> uuid \<Rightarrow> runtime_id \<Rightarrow> nat \<Rightarrow> (nat \<Rightarrow> directory_answers \<times> bool) \<Rightarrow> mesh_error + resolved_join" where
  "owner_ready_loop lib session_id me 0 answers =
    Inl (Transport (''huddle owner not ready for session '' @ uuid_text lib session_id @ '' after '' @
      decimal owner_ready_max_attempts @ '' attempts''))"
| "owner_ready_loop lib session_id me (Suc n) answers =
    (case answers (owner_ready_max_attempts - Suc n) of
       (dir, live) \<Rightarrow>
         (case resolve_join dir session_id me of
            Inl e \<Rightarrow> Inl e
          | Inr resolved \<Rightarrow>
              (case (rj_outcome resolved, rj_acquired resolved) of
                 (LocalOwner _, None) \<Rightarrow> if live then Inr resolved else owner_ready_loop lib session_id me n answers
               | _ \<Rightarrow> Inr resolved)))"

definition resolve_join_owner_ready ::
  "control_lib \<Rightarrow> uuid \<Rightarrow> runtime_id \<Rightarrow> (nat \<Rightarrow> directory_answers \<times> bool) \<Rightarrow> mesh_error + resolved_join" where
  "resolve_join_owner_ready lib session_id me answers =
    owner_ready_loop lib session_id me owner_ready_max_attempts answers"

section \<open>The registry of owned calls\<close>

text \<open>
  A cancellation token is a position in the list of flags; a renewer is the lease it keeps with its two
  tokens, the caller's and the one it cancels on loss.
\<close>

record owner_entry =
  oe_lost :: nat
  oe_draining :: nat
  oe_cancel :: nat
  oe_generation :: u64

record owner_registry =
  or_entries :: "(uuid \<times> owner_entry) list"
  or_draining :: bool
  or_tokens :: "bool list"
  or_renewers :: "(huddle_lease \<times> nat \<times> nat) list"

definition owner_registry_new :: owner_registry where
  "owner_registry_new = \<lparr>or_entries = [], or_draining = False, or_tokens = [], or_renewers = []\<rparr>"

definition new_token :: "bool \<Rightarrow> owner_registry \<Rightarrow> nat \<times> owner_registry" where
  "new_token cancelled reg = (length (or_tokens reg), reg\<lparr>or_tokens := or_tokens reg @ [cancelled]\<rparr>)"

definition cancel_token :: "nat \<Rightarrow> owner_registry \<Rightarrow> owner_registry" where
  "cancel_token t reg = reg\<lparr>or_tokens := (or_tokens reg)[t := True]\<rparr>"

definition spawn_renewer :: "huddle_lease \<Rightarrow> nat \<Rightarrow> owner_registry \<Rightarrow> nat \<times> owner_registry" where
  "spawn_renewer lease cancel reg =
    (case new_token False reg of (lost, reg1) \<Rightarrow> (lost, reg1\<lparr>or_renewers := or_renewers reg1 @ [(lease, cancel, lost)]\<rparr>))"

definition lost_for :: "uuid \<Rightarrow> owner_registry \<Rightarrow> nat option" where
  "lost_for session_id reg = map_option oe_lost (map_of (or_entries reg) session_id)"

definition drain_for :: "uuid \<Rightarrow> owner_registry \<Rightarrow> nat option" where
  "drain_for session_id reg = map_option oe_draining (map_of (or_entries reg) session_id)"

definition registry_release :: "uuid \<Rightarrow> u64 \<Rightarrow> owner_registry \<Rightarrow> owner_registry" where
  "registry_release session_id generation reg =
    (case map_of (or_entries reg) session_id of
       Some entry \<Rightarrow>
         if oe_generation entry = generation
         then (cancel_token (oe_cancel entry) reg)\<lparr>or_entries := AList.delete session_id (or_entries reg)\<rparr>
         else reg
     | None \<Rightarrow> reg)"

definition registry_drain :: "uuid \<Rightarrow> u64 \<Rightarrow> owner_registry \<Rightarrow> bool \<times> owner_registry" where
  "registry_drain session_id generation reg =
    (case map_of (or_entries reg) session_id of
       Some entry \<Rightarrow>
         if oe_generation entry = generation
         then (True, (cancel_token (oe_cancel entry) (cancel_token (oe_draining entry) reg))
                 \<lparr>or_entries := AList.delete session_id (or_entries reg)\<rparr>)
         else (False, reg)
     | None \<Rightarrow> (False, reg))"

definition drain_all :: "owner_registry \<Rightarrow> nat \<times> owner_registry" where
  "drain_all reg =
    (let reg1 = reg\<lparr>or_draining := True\<rparr>; rooms = map (\<lambda>(k, e). (k, oe_generation e)) (or_entries reg1)
     in foldl (\<lambda>(n, reg) (session_id, generation).
          case registry_drain session_id generation reg of (drained, reg') \<Rightarrow> (if drained then Suc n else n, reg')) (0, reg1) rooms)"

text \<open>
  \<open>drain_began\<close>: another thread set the shutdown flag between the first check and the publication of the entry. The
  drains of single rooms that follow in that thread are operations of their own.
\<close>

definition attach_signals :: "bool \<Rightarrow> uuid \<Rightarrow> huddle_lease \<Rightarrow> owner_registry \<Rightarrow> (nat \<times> nat) \<times> owner_registry" where
  "attach_signals drain_began session_id lease reg =
    (if or_draining reg
     then
       case new_token True reg of (cancel, reg1) \<Rightarrow>
       (case spawn_renewer lease cancel reg1 of (_, reg2) \<Rightarrow>
       (case new_token True reg2 of (draining, reg3) \<Rightarrow>
       (case new_token False reg3 of (lost, reg4) \<Rightarrow> ((lost, draining), reg4))))
     else case map_of (or_entries reg) session_id of
       Some existing \<Rightarrow>
         (case new_token True reg of (cancel, reg1) \<Rightarrow>
         (case spawn_renewer lease cancel reg1 of (_, reg2) \<Rightarrow> ((oe_lost existing, oe_draining existing), reg2)))
     | None \<Rightarrow>
         (case new_token False reg of (cancel, reg1) \<Rightarrow>
         (case spawn_renewer lease cancel reg1 of (lost, reg2) \<Rightarrow>
         (case new_token False reg2 of (draining, reg3) \<Rightarrow>
           let entry = \<lparr>oe_lost = lost, oe_draining = draining, oe_cancel = cancel, oe_generation = hl_generation lease\<rparr>;
               reg4 = reg3\<lparr>or_entries := AList.update session_id entry (or_entries reg3), or_draining := or_draining reg3 \<or> drain_began\<rparr>
           in if or_draining reg4
              then ((lost, draining), cancel_token cancel (cancel_token draining
                     (snd (registry_drain session_id (hl_generation lease) reg4))))
              else ((lost, draining), reg4)))))"


section \<open>Lemmas\<close>

subsection \<open>The fence\<close>










subsection \<open>The mirror of the roster\<close>

text \<open>What the client makes of the forwarded events.\<close>

fun ws_apply :: "ws_event \<Rightarrow> (8 word \<Rightarrow> string option) \<Rightarrow> 8 word \<Rightarrow> string option" where
  "ws_apply (WsRoster _ peers) view = map_of (map (\<lambda>p. (re_peer_index p, re_pubkey p)) peers)"
| "ws_apply (WsJoined _ p) view = view(re_peer_index p \<mapsto> re_pubkey p)"
| "ws_apply (WsLeft _ p) view = view(re_peer_index p := None)"

definition client_view :: "(8 word \<Rightarrow> string option) \<Rightarrow> reader \<Rightarrow> 8 word \<Rightarrow> string option" where
  "client_view view st = foldl (\<lambda>v e. ws_apply e v) view (rd_forwarded st)"

text \<open>A message tells the truth about a log of deltas when it is one of them, or the roster after some of them.\<close>

definition truthful :: "roster_delta list \<Rightarrow> huddle_control_msg \<Rightarrow> bool" where
  "truthful ds msg =
    (case msg of
       RosterDeltaMsg v joined left \<Rightarrow> \<exists>n < length ds. v = of_nat (Suc n) \<and> msg = roster_delta_msg (ds ! n)
     | RosterSnapshotMsg v peers \<Rightarrow>
         \<exists>n \<le> length ds. v = of_nat n \<and> map_of (map (\<lambda>p. (re_peer_index p, re_pubkey p)) peers) = roster_at ds n
     | _ \<Rightarrow> True)"

definition in_sync :: "roster_delta list \<Rightarrow> (8 word \<Rightarrow> string option) \<Rightarrow> reader \<Rightarrow> bool" where
  "in_sync ds view st \<longleftrightarrow> (\<exists>n \<le> length ds. rd_known st = of_nat n \<and> client_view view st = roster_at ds n)"

lemma roster_at_Suc: "n < length ds \<Longrightarrow> roster_at ds (Suc n) = roster_apply (ds ! n) (roster_at ds n)"
  by (simp add: roster_at_def take_Suc_conv_app_nth)

lemma of_nat_u64_inj:
  assumes "(of_nat a :: u64) = of_nat b" and "a < 2 ^ 64" and "b < 2 ^ 64"
  shows "a = b"
  using arg_cong [OF assms(1), of unat] assms(2,3) by (simp add: unat_of_nat)


lemma client_view_forward [simp]:
  "client_view view (st\<lparr>rd_known := v, rd_forwarded := rd_forwarded st @ [e]\<rparr>) = ws_apply e (client_view view st)"
  "client_view view (st\<lparr>rd_known := v\<rparr>) = client_view view st"
  "client_view view (st\<lparr>rd_resyncs := k\<rparr>) = client_view view st"
  by (simp_all add: client_view_def)

lemma read_delta_sync:
  assumes len: "length ds < 2 ^ 64" and sync: "in_sync ds view st"
    and delta: "n' < length ds" "next = of_nat (Suc n')" "joined = map_option roster_entry_from (rd_joined (ds ! n'))"
      "left = map_option roster_entry_from (rd_left (ds ! n'))" "next = rd_known st + 1"
    and st': "(case joined of
        Some peer \<Rightarrow> forward True next (WsJoined next peer) st
      | None \<Rightarrow> (case left of Some peer \<Rightarrow> forward True next (WsLeft next peer) st | None \<Rightarrow> (None, st\<lparr>rd_known := next\<rparr>))) = (None, st')"
  shows "in_sync ds view st'"
proof -
  obtain n where n: "n \<le> length ds" "rd_known st = of_nat n" "client_view view st = roster_at ds n"
    using sync by (auto simp: in_sync_def)
  have "(of_nat n' :: u64) = of_nat n"
    using delta(2,5) n(2) by simp
  then have "n' = n"
    using of_nat_u64_inj delta(1) n(1) len by auto
  then have "client_view view st' = roster_apply (ds ! n) (roster_at ds n) \<and> rd_known st' = of_nat (Suc n)"
    using st' delta n(3)
    by (auto simp: forward_def roster_apply_def roster_entry_from_def split: option.splits)
  then show ?thesis
    using delta(1) roster_at_Suc [of n ds] \<open>n' = n\<close> by (auto simp: in_sync_def intro!: exI [of _ "Suc n"])
qed

lemma forward_None: "forward ok v e st = (None, st') \<longleftrightarrow> ok \<and> forward True v e st = (None, st')"
  by (simp add: forward_def)

lemma read_step_sync:
  assumes len: "length ds < 2 ^ 64" and sync: "in_sync ds view st"
    and truth: "\<And>f payload msg. frame = Inr (Some (Data f payload)) \<Longrightarrow> decode_control lib payload = Inr msg \<Longrightarrow> truthful ds msg"
    and step: "read_owner_control_step lib client_ok resync_ok frame st = (None, st')"
  shows "in_sync ds view st'"
proof (cases "\<exists>f payload msg. frame = Inr (Some (Data f payload)) \<and> decode_control lib payload = Inr msg")
  case False
  then show ?thesis
    using step sync
    by (auto simp: read_owner_control_step_def split: sum.splits option.splits mesh_stream_frame.splits)
next
  case True
  then obtain f payload msg where frame: "frame = Inr (Some (Data f payload))" "decode_control lib payload = Inr msg"
    by blast
  then have msg: "truthful ds msg" using truth by blast
  show ?thesis
  proof (cases msg)
    case (RosterSnapshotMsg v peers)
    with msg step frame show ?thesis
      by (auto simp: read_owner_control_step_def truthful_def forward_def in_sync_def split: if_splits)
  next
    case (RosterDeltaMsg v joined left)
    then obtain n' where n': "n' < length ds" "v = of_nat (Suc n')" "msg = roster_delta_msg (ds ! n')"
      using msg by (auto simp: truthful_def)
    show ?thesis
    proof (cases "v = rd_known st + 1")
      case True
      have "(case joined of
          Some peer \<Rightarrow> forward True v (WsJoined v peer) st
        | None \<Rightarrow> (case left of Some peer \<Rightarrow> forward True v (WsLeft v peer) st | None \<Rightarrow> (None, st\<lparr>rd_known := v\<rparr>))) = (None, st')"
        using step frame RosterDeltaMsg True
        by (auto simp: read_owner_control_step_def forward_def split: option.splits if_splits)
      moreover have "joined = map_option roster_entry_from (rd_joined (ds ! n'))"
        "left = map_option roster_entry_from (rd_left (ds ! n'))"
        using RosterDeltaMsg n'(3) by (simp_all add: roster_delta_msg_def)
      ultimately show ?thesis
        using read_delta_sync [OF len sync n'(1,2) _ _ True] by blast
    next
      case False
      then show ?thesis
        using step frame RosterDeltaMsg sync
        by (auto simp: read_owner_control_step_def in_sync_def split: if_splits sum.splits)
    qed
  qed (use step frame sync in \<open>auto simp: read_owner_control_step_def\<close>)
qed

lemma read_owner_control_sync:
  assumes "length ds < 2 ^ 64" and "in_sync ds view st"
    and "\<And>c q f payload msg. (c, q, Inr (Some (Data f payload))) \<in> set frames \<Longrightarrow> decode_control lib payload = Inr msg \<Longrightarrow>
      truthful ds msg"
    and "read_owner_control lib frames st = (None, st')"
  shows "in_sync ds view st'"
  using assms(2-4)
proof (induction frames arbitrary: st)
  case (Cons x frames)
  obtain c q frame where x: "x = (c, q, frame)" by (cases x) auto
  obtain st1 where st1: "read_owner_control_step lib c q frame st = (None, st1)" "read_owner_control lib frames st1 = (None, st')"
    using Cons.prems(3) by (auto simp: x split: prod.splits option.splits)
  have "in_sync ds view st1"
    using read_step_sync [OF assms(1) Cons.prems(1) _ st1(1)] Cons.prems(2) x by (metis list.set_intros(1))
  then show ?case
    using Cons.IH [OF _ _ st1(2)] Cons.prems(2) by (meson list.set_intros(2))
qed simp


lemma room_log_grows: "room_step r r' \<Longrightarrow> \<exists>zs. ro_roster_log r' = ro_roster_log r @ zs"
proof (induction rule: room_step.induct)
  case (room_stepI op r)
  show ?case
    by (cases op) (auto simp: add_peer_def add_peer_at_index_def remove_peer_def remove_peer_and_check_ended_def
        broadcast_frame_def deliver_prefixed_def broadcast_control_def map_peer_def mark_ended_def clear_ended_def
        insert_peer_def publish_def take_peer_def Let_def split: option.split prod.split)
qed

lemma room_log_prefix: "room_step\<^sup>*\<^sup>* r r' \<Longrightarrow> \<exists>zs. ro_roster_log r' = ro_roster_log r @ zs"
  by (induction rule: rtranclp_induct) (auto dest!: room_log_grows)

lemma map_of_mset:
  assumes "mset ys = mset xs" and "distinct (map fst xs)"
  shows "map_of ys = map_of xs"
proof -
  have "mset (map fst ys) = mset (map fst xs)"
    using assms(1) by simp
  then have "distinct (map fst ys)"
    using assms(2) mset_eq_imp_distinct_iff by blast
  then show ?thesis
    using assms map_of_inject_set mset_eq_setD by metis
qed

lemma snapshot_view:
  assumes "room_inv r"
  shows "map_of (map (\<lambda>p. (re_peer_index p, re_pubkey p)) (wsn_peers (wire_roster_snapshot r))) = roster_of r"
proof -
  let ?xs = "map (\<lambda>(_, p). (ap_peer_index p, ap_pubkey p)) (ro_peers r)"
  let ?ys = "map (\<lambda>p. (re_peer_index p, re_pubkey p)) (wsn_peers (wire_roster_snapshot r))"
  have dx: "distinct (map fst ?xs)"
    using assms by (simp add: room_inv_def index_inv_def index_ok_def indices_def case_prod_unfold comp_def)
  have "mset ?ys = mset ?xs"
    by (simp add: wire_roster_snapshot_def room_roster_snapshot_def Let_def roster_entry_from_def left_of_def
        case_prod_unfold multiset.map_comp comp_def)
  then have "map_of ?ys = map_of ?xs"
    using dx by (rule map_of_mset)
  then show ?thesis
    by (simp only: roster_of_def)
qed

lemma room_messages_truthful:
  assumes "room_inv r" and "ro_roster_log r' = ro_roster_log r @ zs"
  shows "truthful (ro_roster_log r') (roster_snapshot_msg r)"
    and "d \<in> set (ro_roster_log r) \<Longrightarrow> truthful (ro_roster_log r') (roster_delta_msg d)"
proof -
  have rost: "ag_roster_revision (ro_guard r) = of_nat (length (ro_roster_log r))"
    "map rd_revision (ro_roster_log r) = map (\<lambda>n. of_nat (Suc n)) [0..<length (ro_roster_log r)]"
    "roster_of r = roster_at (ro_roster_log r') (length (ro_roster_log r))"
    using assms by (simp_all add: room_inv_def roster_inv_def roster_at_def)
  then show "truthful (ro_roster_log r') (roster_snapshot_msg r)"
    using snapshot_view [OF assms(1)] assms(2)
    by (auto simp: truthful_def roster_snapshot_msg_def Let_def wire_roster_snapshot_def room_roster_snapshot_def
        intro!: exI [of _ "length (ro_roster_log r)"])
  show "truthful (ro_roster_log r') (roster_delta_msg d)" if d: "d \<in> set (ro_roster_log r)"
  proof -
    obtain n where n: "n < length (ro_roster_log r)" "d = ro_roster_log r ! n"
      using d unfolding in_set_conv_nth by blast
    then have "rd_revision d = of_nat (Suc n)"
      using arg_cong [OF rost(2), of "\<lambda>l. l ! n"] by simp
    with n assms(2) show ?thesis
      by (auto simp: truthful_def roster_delta_msg_def nth_append intro!: exI [of _ n])
  qed
qed


subsection \<open>Control streams\<close>

lemma peer_ids_unchanged [simp]:
  "map fst (ro_peers (broadcast_control j r)) = map fst (ro_peers r)" "map fst (ro_peers (map_peer i f r)) = map fst (ro_peers r)"
  by (auto simp: broadcast_control_def map_peer_def)

lemma peer_ids_remove [simp]: "map fst (ro_peers (remove_peer i r)) = filter (\<lambda>k. k \<noteq> i) (map fst (ro_peers r))"
proof (cases "map_of (ro_peers r) i")
  case None
  then have "i \<notin> set (map fst (ro_peers r))" by (simp add: map_of_eq_None_iff)
  then have "filter (\<lambda>k. k \<noteq> i) (map fst (ro_peers r)) = map fst (ro_peers r)" by (auto simp: filter_id_conv)
  with None show ?thesis by (simp add: remove_peer_def)
next
  case (Some p)
  have "map fst (AList.delete i xs) = filter (\<lambda>k. k \<noteq> i) (map fst xs)" for xs :: "(uuid \<times> audio_peer) list"
    by (induction xs) auto
  with Some show ?thesis by (simp add: remove_peer_def)
qed

lemma peer_ids_drop [simp]:
  "map fst (ro_peers (drop_remote_peer lib k i r)) = filter (\<lambda>x. x \<noteq> i) (map fst (ro_peers r))"
  by (simp add: drop_remote_peer_def Let_def split: option.split)

lemma peer_ids_drop_all:
  "map fst (ro_peers (fold (\<lambda>(k, i). drop_remote_peer lib k i) xs r)) =
    filter (\<lambda>x. x \<notin> snd ` set xs) (map fst (ro_peers r))"
  by (induction xs arbitrary: r) (simp_all add: case_prod_unfold conj_commute)

lemma teardown_store:
  assumes "stream_room (fe_session_id fenced) cs m = Some a" and "a < length (ar_store m)"
  shows "ar_store (snd (teardown lib env fenced reason cs m)) ! a =
    fold (\<lambda>(k, i). drop_remote_peer lib k i) (cs_registered cs) (ar_store m ! a)"
  using assms by (simp add: teardown_def on_room_def)

lemma send_control_ok:
  assumes "encode_control lib msg = Inr payload"
  shows "send_control lib env fenced msg fail cs =
    (case le_send env of Inl e \<Rightarrow> (fail e, cs) | Inr _ \<Rightarrow> (Continue, cs\<lparr>cs_sent := cs_sent cs @ [Data fenced payload]\<rparr>))"
  using assms by (simp add: send_control_def)

subsection \<open>Ambiguous channels\<close>

lemma unambiguousD:
  assumes "get_unambiguous_by_channel h m = Some a"
  obtains c where "filter (\<lambda>(k, _). snd k = h) (ar_rooms m) = [((c, h), a)]"
proof -
  have "filter (\<lambda>(k, _). snd k = h) (ar_rooms m) = [] \<or> (\<exists>k a'. filter (\<lambda>(k, _). snd k = h) (ar_rooms m) = [(k, a')]) \<or>
      (\<exists>x y zs. filter (\<lambda>(k, _). snd k = h) (ar_rooms m) = x # y # zs)"
    by (metis list.exhaust surj_pair)
  then obtain k where *: "filter (\<lambda>(k, _). snd k = h) (ar_rooms m) = [(k, a)]"
    using assms by (auto simp: get_unambiguous_by_channel_def)
  then have "snd k = h" by (metis (mono_tags, lifting) case_prodD list.set_intros(1) mem_Collect_eq set_filter)
  with * that show thesis by (metis prod.collapse)
qed

lemma get_or_create_ambiguous:
  assumes "get_unambiguous_by_channel h m = Some a" and "get_room c h m = None" and "get_or_create c h m = (b, m1)"
  shows "get_unambiguous_by_channel h m1 = None"
proof -
  obtain c' where flt: "filter (\<lambda>(k, _). snd k = h) (ar_rooms m) = [((c', h), a)]"
    using unambiguousD [OF assms(1)] .
  have none: "map_of (ar_rooms m) (c, h) = None"
    using assms(2) by (simp add: get_room_def)
  have "AList.update (c, h) n (ar_rooms m) = ar_rooms m @ [((c, h), n)]" for n
    using none by (intro update_fresh) (simp add: map_of_eq_None_iff)
  with none assms(3) have "ar_rooms m1 = ar_rooms m @ [((c, h), b)]"
    by (auto simp: get_or_create_def)
  then show ?thesis
    by (simp add: get_unambiguous_by_channel_def flt)
qed


section \<open>Properties\<close>


definition sample_datagram :: "u64 \<Rightarrow> mesh_datagram" where
  "sample_datagram g = \<lparr>md_fenced = \<lparr>fe_session_id = 9, fe_generation = g, fe_owner_runtime_id = []\<rparr>, md_seq = 0, md_payload = [0, 5]\<rparr>"



text \<open>
  C8. A remote client's roster is never made up. Take a room as it is when a client is registered and as it is
  later, and let the client's relay read any frames whose control messages are deltas the room
  published or snapshots of it from this time, in any order, with gaps, repetitions and resyncs.
  Then what the client shows is the roster after the first so many changes, that number being the
  revision it knows; when this is the room's revision, it shows exactly who is in the room.
\<close>

theorem roster_mirrored:
  assumes "room_reachable r0" and "room_step\<^sup>*\<^sup>* r0 r" and "length (ro_roster_log r) < 2 ^ 64"
    and "st = \<lparr>rd_known = wsn_revision (wire_roster_snapshot r0), rd_forwarded = [], rd_resyncs = 0\<rparr>"
    and "view = map_of (map (\<lambda>p. (re_peer_index p, re_pubkey p)) (wsn_peers (wire_roster_snapshot r0)))"
    and msgs: "\<And>c q f payload msg. (c, q, Inr (Some (Data f payload))) \<in> set frames \<Longrightarrow> decode_control lib payload = Inr msg \<Longrightarrow>
      (\<exists>d \<in> set (ro_roster_log r). msg = roster_delta_msg d) \<or>
      (\<exists>r1. room_step\<^sup>*\<^sup>* r0 r1 \<and> room_step\<^sup>*\<^sup>* r1 r \<and> msg = roster_snapshot_msg r1)"
    and "read_owner_control lib frames st = (None, st')"
  shows "\<exists>n \<le> length (ro_roster_log r). rd_known st' = of_nat n \<and> client_view view st' = roster_at (ro_roster_log r) n \<and>
    (rd_known st' = ag_roster_revision (ro_guard r) \<longrightarrow> client_view view st' = roster_of r)"
proof -
  have inv0: "room_inv r0" using assms(1) by (rule room_reachable_inv)
  have inv: "room_inv r1" if "room_step\<^sup>*\<^sup>* r0 r1" for r1
    using audio.steps_inv [OF that inv0] .
  have truth: "truthful (ro_roster_log r) msg"
    if frame: "(c, q, Inr (Some (Data f payload))) \<in> set frames" "decode_control lib payload = Inr msg" for c q f payload msg
  proof -
    consider d where "d \<in> set (ro_roster_log r)" "msg = roster_delta_msg d"
      | r1 where "room_step\<^sup>*\<^sup>* r0 r1" "room_step\<^sup>*\<^sup>* r1 r" "msg = roster_snapshot_msg r1"
      using msgs [OF frame] by blast
    then show ?thesis
    proof cases
      case 1
      then show ?thesis using room_messages_truthful(2) [OF inv [OF assms(2)], of r "[]"] by simp
    next
      case 2
      then show ?thesis using room_messages_truthful(1) [OF inv] room_log_prefix by blast
    qed
  qed
  obtain zs where zs: "ro_roster_log r = ro_roster_log r0 @ zs"
    using room_log_prefix [OF assms(2)] by blast
  have sync: "in_sync (ro_roster_log r) view st"
    using inv0 snapshot_view [OF inv0] assms(4,5) zs
    by (auto simp: in_sync_def room_inv_def roster_inv_def client_view_def wire_roster_snapshot_def room_roster_snapshot_def
        Let_def roster_at_def intro!: exI [of _ "length (ro_roster_log r0)"])
  have "in_sync (ro_roster_log r) view st'"
    by (rule read_owner_control_sync [OF assms(3) sync _ assms(7)]) (erule (1) truth)
  then obtain n where n: "n \<le> length (ro_roster_log r)" "rd_known st' = of_nat n" "client_view view st' = roster_at (ro_roster_log r) n"
    unfolding in_sync_def by blast
  moreover have "n = length (ro_roster_log r)" if "rd_known st' = ag_roster_revision (ro_guard r)"
    using inv [OF assms(2)] that n(1,2) assms(3)
    by (intro of_nat_u64_inj) (auto simp: room_inv_def roster_inv_def)
  ultimately show ?thesis
    using inv [OF assms(2)] by (auto simp: room_inv_def roster_inv_def)
qed


definition sample_room2 :: room where
  "sample_room2 = run_room (RAdd 4 ''dave'' 2) sample_room"

definition dave_joins :: roster_delta where
  "dave_joins = \<lparr>rd_revision = 4, rd_joined = Some \<lparr>rp_pubkey = ''dave'', rp_peer_index = 3\<rparr>, rd_left = None\<rparr>"

definition sample_control_lib :: control_lib where
  "sample_control_lib = \<lparr>encode_control = (\<lambda>m. Inr [1]), decode_control = (\<lambda>bs. Inr (roster_delta_msg dave_joins)),
    joined_json = (\<lambda>k n. k), left_json = (\<lambda>k n. k), uuid_text = (\<lambda>u. ''id''), runtime_text = (\<lambda>u. ''rt''),
    profile_debug = (\<lambda>p. ''p''), frame_debug = (\<lambda>f. ''f'')\<rparr>"

definition sample_fenced :: fenced_header where
  "sample_fenced = \<lparr>fe_session_id = 9, fe_generation = 5, fe_owner_runtime_id = []\<rparr>"

lemma sample_room2_log: "ro_roster_log sample_room2 = ro_roster_log sample_room @ [dave_joins]"
  "ag_roster_revision (ro_guard sample_room2) = 4"
  by (simp_all add: sample_room2_def sample_room_eq dave_joins_def add_peer_def alloc_def version_ok_def max_peers_per_room_def
      insert_peer_def publish_def pin_version_def Let_def)

lemma sample_room2_step: "room_step\<^sup>*\<^sup>* sample_room sample_room2"
  unfolding sample_room2_def by (rule r_into_rtranclp, rule room_stepI) (simp add: sample_room_eq)

theorem roster_mirrored_witness:
  "\<exists>st st'. rd_known st = 3 \<and>
    read_owner_control sample_control_lib [(True, True, Inr (Some (Data sample_fenced [1])))] st = (None, st') \<and>
    client_view (roster_of sample_room) st' = roster_of sample_room2"
proof -
  define st where "st = \<lparr>rd_known = wsn_revision (wire_roster_snapshot sample_room), rd_forwarded = [], rd_resyncs = 0\<rparr>"
  have known: "rd_known st = 3"
    by (simp add: st_def wire_roster_snapshot_def room_roster_snapshot_def sample_room_eq Let_def)
  define st' where "st' = snd (read_owner_control sample_control_lib [(True, True, Inr (Some (Data sample_fenced [1])))] st)"
  have run: "read_owner_control sample_control_lib [(True, True, Inr (Some (Data sample_fenced [1])))] st = (None, st')"
    and known': "rd_known st' = 4"
    using known by (simp_all add: st'_def read_owner_control_step_def sample_control_lib_def roster_delta_msg_def dave_joins_def
        forward_def)
  have view: "roster_of sample_room =
      map_of (map (\<lambda>p. (re_peer_index p, re_pubkey p)) (wsn_peers (wire_roster_snapshot sample_room)))"
    using snapshot_view [OF room_reachable_inv [OF sample_room_reachable]] by simp
  have len: "length (ro_roster_log sample_room2) < 2 ^ 64"
    by (simp add: sample_room2_log sample_room_eq)
  have "client_view (roster_of sample_room) st' = roster_of sample_room2"
    using roster_mirrored [OF sample_room_reachable sample_room2_step len st_def view _ run] known' sample_room2_log
    by (auto simp: sample_control_lib_def)
  with known run show ?thesis by blast
qed

text \<open>
  A control stream cleans up after itself. However a turn ends the loop, the owner's room afterwards
  holds none of the peers the stream had registered, and every other peer still.
\<close>

theorem control_stream_teardown:
  assumes "serve_step lib me fenced env ev cs m = (Break res reason, cs1, m1)"
    and "stream_room (fe_session_id fenced) cs1 m1 = Some a" and "a < length (ar_store m1)"
  shows "\<exists>cs2 m2. serve_control_loop lib me fenced ((env, ev) # evs) cs m = (Some res, cs2, m2) \<and>
    map fst (ro_peers (ar_store m2 ! a)) =
      filter (\<lambda>i. i \<notin> snd ` set (cs_registered cs1)) (map fst (ro_peers (ar_store m1 ! a)))"
  using assms teardown_store [OF assms(2,3), of lib env reason]
  by (cases "teardown lib env fenced reason cs1 m1") (simp add: peer_ids_drop_all)


definition sample_env :: "mesh_error + unit \<Rightarrow> mesh_error + unit \<Rightarrow> loop_env" where
  "sample_env sent valid = \<lparr>le_send = sent, le_validate = valid, le_is_draining = False, le_peer_id = 5\<rparr>"

definition sample_manager :: audio_rooms where
  "sample_manager = \<lparr>ar_rooms = [((7, 9), 0)], ar_store = [sample_room2]\<rparr>"

definition sample_stream :: control_stream where
  "sample_stream = \<lparr>cs_registered = [(''dave'', 4)], cs_community = Some 7, cs_roster_rx = Some (0, 3), cs_sent = []\<rparr>"

lemma sample_room2_ids: "map fst (ro_peers sample_room2) = [1, 2, 3, 4]"
  by (simp add: sample_room2_def sample_room_eq add_peer_def alloc_def version_ok_def max_peers_per_room_def
      insert_peer_def publish_def pin_version_def Let_def)

theorem control_stream_teardown_witness:
  "\<exists>cs2 m2. serve_control_loop sample_control_lib [] sample_fenced [(sample_env (Inr ()) (Inr ()), DrainFired)]
      sample_stream sample_manager = (Some (Inr ()), cs2, m2) \<and> map fst (ro_peers (ar_store m2 ! 0)) = [1, 2, 3]"
proof -
  have "serve_step sample_control_lib [] sample_fenced (sample_env (Inr ()) (Inr ())) DrainFired sample_stream sample_manager =
      (Break (Inr ()) (Some Draining), sample_stream, sample_manager)"
    by (simp add: serve_step_def)
  moreover have "stream_room (fe_session_id sample_fenced) sample_stream sample_manager = Some 0"
    "0 < length (ar_store sample_manager)"
    by (simp_all add: stream_room_def sample_stream_def get_room_def sample_manager_def sample_fenced_def)
  ultimately show ?thesis
    using control_stream_teardown [where evs = "[]"] sample_room2_ids by (fastforce simp: sample_stream_def sample_manager_def)
qed

text \<open>
  Except when it fails to send. If sending a roster change (or a snapshot the other side asked for) fails, the
  loop is left by \<open>?\<close> and the clean-up never runs: the peers of the broken stream stay in the room,
  with their indices and their places.
\<close>

theorem failed_send_leaks_peers:
  assumes "le_send env = Inl e" and "\<And>msg. \<exists>bs. encode_control lib msg = Inr bs"
    and "stream_room (fe_session_id fenced) cs m = Some a"
    and "ev = RosterReady \<and> cs_roster_rx cs = Some (a, pos) \<and> pos < length (ro_roster_log (ar_store m ! a)) \<or>
      ev = FrameArrived (Inr (Some (Data fenced payload))) \<and> decode_control lib payload = Inr RosterResync"
  shows "\<exists>cs1. serve_control_loop lib me fenced ((env, ev) # evs) cs m = (Some (Inl e), cs1, m) \<and>
    cs_registered cs1 = cs_registered cs"
proof -
  have send: "send_control lib env fenced msg fail cs' = (fail e, cs')" for msg fail cs'
    using assms(1,2) by (metis (no_types) send_control_ok sum.case(1))
  have "\<exists>cs1. serve_step lib me fenced env ev cs m = (Return e, cs1, m) \<and> cs_registered cs1 = cs_registered cs"
    using assms(3,4)
    by (auto simp: serve_step_def handle_roster_event_def recv_roster_def send)
  then show ?thesis by force
qed

theorem failed_send_leaks_peers_witness:
  "\<exists>cs1. serve_control_loop sample_control_lib [] sample_fenced [(sample_env (Inl Disabled) (Inr ()), RosterReady)]
      sample_stream sample_manager = (Some (Inl Disabled), cs1, sample_manager) \<and> cs_registered cs1 = [(''dave'', 4)]"
proof -
  have "\<exists>bs. encode_control sample_control_lib msg = Inr bs" for msg
    by (simp add: sample_control_lib_def)
  moreover have "stream_room (fe_session_id sample_fenced) sample_stream sample_manager = Some 0"
    "cs_roster_rx sample_stream = Some (0, 3)" "3 < length (ro_roster_log (ar_store sample_manager ! 0))"
    by (simp_all add: stream_room_def sample_stream_def get_room_def sample_manager_def sample_fenced_def sample_room2_log
        sample_room_eq)
  ultimately show ?thesis
    using failed_send_leaks_peers [of "sample_env (Inl Disabled) (Inr ())" Disabled sample_control_lib sample_fenced sample_stream
        sample_manager 0 RosterReady 3 "[]" "[]" "[]"]
    by (simp add: sample_env_def sample_stream_def)
qed

text \<open>
  A refused registration can silence a call. A registration that names a community without a lease is
  rejected and admits nobody, but it leaves an empty room of the same channel behind. When another
  community has a call in that channel, the channel has become ambiguous: from then on every media datagram for the
  call is dropped.
\<close>

theorem refused_registration_silences_call:
  assumes "get_unambiguous_by_channel (fe_session_id fenced) m = Some a" and "get_room c (fe_session_id fenced) m = None"
    and "cs_community cs = None" and "\<not> le_is_draining env" and "le_validate env = Inl e"
    and "fence_rejection_from_mesh_error e = Some reason"
    and "encode_control lib (RegisterRejected pubkey (Fenced reason)) = Inr bs" and "le_send env = Inr ()"
    and "mr_rooms router = snd (snd (handle_register lib env fenced c pubkey v cs m))"
    and "fe_session_id (md_fenced d) = fe_session_id fenced"
  shows "fst (handle_register lib env fenced c pubkey v cs m) = Continue \<and>
    (\<exists>b. get_room c (fe_session_id fenced) (mr_rooms router) = Some b \<and> ro_peers (ar_store (mr_rooms router) ! b) = []) \<and>
    mr_rooms (snd (on_media_datagram d router)) = mr_rooms router"
proof -
  obtain b m1 where new: "get_or_create c (fe_session_id fenced) m = (b, m1)" by fastforce
  have reg: "fst (handle_register lib env fenced c pubkey v cs m) = Continue" "mr_rooms router = m1"
    using assms(3-9) by (simp_all add: handle_register_def Let_def new send_control_ok [OF assms(7)])
  have room: "get_room c (fe_session_id fenced) m1 = Some b" "ro_peers (ar_store m1 ! b) = []"
    using new assms(2) by (auto simp: get_or_create_def get_room_def AList.update_conv' room_new_def)
  have "get_unambiguous_by_channel (fe_session_id fenced) m1 = None"
    by (rule get_or_create_ambiguous [OF assms(1,2) new])
  then have "mr_rooms (snd (on_media_datagram d router)) = mr_rooms router"
    using assms(10) reg(2) by (auto simp: on_media_datagram_def Let_def split: prod.split fence_verdict.split)
  with reg room show ?thesis by auto
qed

theorem refused_registration_silences_call_witness:
  "\<exists>m1. fst (handle_register sample_control_lib (sample_env (Inr ()) (Inl (NoActiveLease 9 5 5 []))) sample_fenced 8 ''eve'' 2
      control_stream_new sample_manager) = Continue \<and>
    mr_rooms (snd (on_media_datagram (sample_datagram 5) \<lparr>mr_rooms = m1, mr_fence = [], mr_local_runtime_id = []\<rparr>)) = m1"
proof -
  define m1 where "m1 = snd (snd (handle_register sample_control_lib (sample_env (Inr ()) (Inl (NoActiveLease 9 5 5 []))) sample_fenced 8
      ''eve'' 2 control_stream_new sample_manager))"
  have "get_unambiguous_by_channel (fe_session_id sample_fenced) sample_manager = Some 0"
    "get_room 8 (fe_session_id sample_fenced) sample_manager = None"
    by (simp_all add: get_unambiguous_by_channel_def get_room_def sample_manager_def sample_fenced_def)
  from refused_registration_silences_call [OF this, where cs = control_stream_new and
      env = "sample_env (Inr ()) (Inl (NoActiveLease 9 5 5 []))" and e = "NoActiveLease 9 5 5 []" and lib = sample_control_lib and
      pubkey = "''eve''" and v = 2 and d = "sample_datagram 5" and
      router = "\<lparr>mr_rooms = m1, mr_fence = [], mr_local_runtime_id = []\<rparr>" and reason = NoActiveLeaseFence and bs = "[1]"]
  show ?thesis
    by (auto simp: sample_env_def sample_control_lib_def control_stream_new_def sample_datagram_def sample_fenced_def m1_def)
qed


lemma owner_ready_loop_cases:
  assumes "owner_ready_loop lib s me n answers = Inr res"
  obtains i where "i < owner_ready_max_attempts" "resolve_join (fst (answers i)) s me = Inr res"
    "(\<nexists>g. rj_outcome res = LocalOwner g) \<or> rj_acquired res \<noteq> None \<or> snd (answers i)"
  using assms
proof (induction n arbitrary: thesis)
  case (Suc n)
  let ?i = "owner_ready_max_attempts - Suc n"
  obtain dir live where ans: "answers ?i = (dir, live)" by fastforce
  show ?case
  proof (cases "resolve_join dir s me = Inr res \<and>
      ((\<nexists>g. rj_outcome res = LocalOwner g) \<or> rj_acquired res \<noteq> None \<or> live)")
    case True
    then show ?thesis
      using Suc.prems(1) [of ?i] ans by (auto simp: owner_ready_max_attempts_def)
  next
    case False
    then have "owner_ready_loop lib s me n answers = Inr res"
      using Suc.prems(2) ans by (auto split: sum.splits join_outcome.splits option.splits if_splits)
    then show ?thesis
      by (rule Suc.IH [rotated]) (rule Suc.prems(1))
  qed
qed simp

lemma route_to_owner_remote:
  assumes "route_to_owner dir s me o1 = Inr res" and "rj_outcome res = RemoteOwner ow g"
  shows "ow \<noteq> me \<and> da_validate dir (join_fenced_header (rj_outcome res) s me) = Inr ()"
  using assms by (auto simp: route_to_owner_def Let_def split: if_splits sum.splits)

text \<open>
  Nobody joins an ownerless call. When \<open>resolve_join_owner_ready\<close> lets a client in, one of its at most 25 attempts
  resolved to this; a client admitted as this relay's own either comes with a lease just acquired or
  finds a live renewer in the registry, and a client routed elsewhere goes to another relay whose
  lease the directory confirmed for exactly the header it will use.
\<close>

theorem no_ownerless_join:
  assumes "resolve_join_owner_ready lib s me answers = Inr res"
  shows "\<exists>i < 25. resolve_join (fst (answers i)) s me = Inr res \<and>
    (case rj_outcome res of
       LocalOwner g \<Rightarrow> rj_acquired res \<noteq> None \<or> snd (answers i)
     | RemoteOwner ow g \<Rightarrow> ow \<noteq> me \<and> da_validate (fst (answers i)) (join_fenced_header (rj_outcome res) s me) = Inr ())"
proof -
  obtain i where i: "i < 25" "resolve_join (fst (answers i)) s me = Inr res"
    and ready: "(\<nexists>g. rj_outcome res = LocalOwner g) \<or> rj_acquired res \<noteq> None \<or> snd (answers i)"
    using owner_ready_loop_cases [OF assms [unfolded resolve_join_owner_ready_def]]
    by (auto simp: owner_ready_max_attempts_def)
  have "ow \<noteq> me \<and> da_validate (fst (answers i)) (join_fenced_header (rj_outcome res) s me) = Inr ()"
    if remote: "rj_outcome res = RemoteOwner ow g" for ow g
  proof -
    obtain o1 where "route_to_owner (fst (answers i)) s me o1 = Inr res"
      using i(2) remote by (auto simp: resolve_join_def split: sum.splits option.splits acquire_outcome.splits)
    then show ?thesis using route_to_owner_remote remote by blast
  qed
  with i ready show ?thesis by (auto intro!: exI [of _ i] split: join_outcome.split)
qed

definition sample_answers :: "nat \<Rightarrow> directory_answers \<times> bool" where
  "sample_answers i = (\<lparr>da_owner_of = Inr (Some \<lparr>ow_owner_runtime_id = [1], ow_generation = 3\<rparr>), da_acquire = Inl Disabled,
     da_validate = (\<lambda>_. Inr ())\<rparr>, 2 \<le> i)"

theorem no_ownerless_join_witness:
  "resolve_join_owner_ready sample_control_lib 9 [1] sample_answers = Inr \<lparr>rj_outcome = LocalOwner 3, rj_acquired = None\<rparr> \<and>
    (\<exists>i < 25. snd (sample_answers i))"
proof -
  have loop: "owner_ready_loop sample_control_lib 9 [1] (Suc n) sample_answers =
      (if 2 \<le> owner_ready_max_attempts - Suc n then Inr \<lparr>rj_outcome = LocalOwner 3, rj_acquired = None\<rparr>
       else owner_ready_loop sample_control_lib 9 [1] n sample_answers)" for n
    by (simp add: sample_answers_def resolve_join_def route_to_owner_def)
  have "owner_ready_loop sample_control_lib 9 [1] (Suc (Suc (Suc 22))) sample_answers =
      Inr \<lparr>rj_outcome = LocalOwner 3, rj_acquired = None\<rparr>"
    unfolding loop by (simp add: owner_ready_max_attempts_def)
  then have run: "resolve_join_owner_ready sample_control_lib 9 [1] sample_answers =
      Inr \<lparr>rj_outcome = LocalOwner 3, rj_acquired = None\<rparr>"
    by (simp add: resolve_join_owner_ready_def owner_ready_max_attempts_def numeral_eq_Suc)
  from no_ownerless_join [OF this] run show ?thesis by auto
qed

text \<open>
  No ownership during shutdown. When the shutdown has begun before the new entry would be visible, attaching a lease
  leaves the registry without an entry for the call, gives the caller a drain signal that has
  already fired, and hands the lease to a renewer that is already told to release it.
\<close>

theorem attach_during_shutdown:
  assumes "attach_signals drain_began s lease reg = ((lost, draining), reg')" and "or_draining reg \<or> drain_began"
    and "map_of (or_entries reg) s = None"
  shows "or_draining reg' \<and> map_of (or_entries reg') s = None \<and> or_tokens reg' ! draining \<and>
    (\<exists>cancel l. (lease, cancel, l) \<in> set (or_renewers reg') \<and> or_tokens reg' ! cancel)"
proof -
  define n where "n = length (or_tokens reg)"
  have "draining = Suc (Suc n) \<and> or_draining reg' \<and> map_of (or_entries reg') s = None \<and>
      or_renewers reg' = or_renewers reg @ [(lease, n, Suc n)] \<and>
      (\<exists>ts. or_tokens reg' = or_tokens reg @ True # False # True # ts)"
  proof (cases "or_draining reg")
    case True
    then show ?thesis
      using assms(1,3) by (auto simp: attach_signals_def new_token_def spawn_renewer_def n_def)
  next
    case False
    then show ?thesis
      using assms
      by (simp add: attach_signals_def new_token_def spawn_renewer_def registry_drain_def cancel_token_def Let_def
          AList.update_conv' list_update_append n_def) (auto simp: AList.delete_conv')
  qed
  then have "or_draining reg' \<and> map_of (or_entries reg') s = None \<and> or_tokens reg' ! draining"
    "(lease, n, Suc n) \<in> set (or_renewers reg')" "or_tokens reg' ! n"
    by (auto simp: n_def nth_append)
  then show ?thesis by blast
qed

theorem attach_during_shutdown_witness:
  "\<exists>lost draining reg'. attach_signals True 9 \<lparr>hl_owner_runtime_id = [1], hl_generation = 3\<rparr> owner_registry_new = ((lost, draining), reg') \<and>
    or_tokens reg' ! draining"
proof -
  obtain lost draining reg' where *: "attach_signals True 9 \<lparr>hl_owner_runtime_id = [1], hl_generation = 3\<rparr> owner_registry_new =
      ((lost, draining), reg')"
    by (metis surj_pair)
  from attach_during_shutdown [OF this] * show ?thesis by (auto simp: owner_registry_new_def)
qed

end
