(* ===== verification/Mesh_Membership.thy ===== *)
theory Mesh_Membership
  imports Complex_Main Mesh_Wire "HOL-Library.Multiset" "HOL-Library.List_Lexorder" "HOL-Library.Char_ord"
begin

text \<open>
  Who is in the mesh of relays: \<open>crates/buzz-relay-mesh/src/gossip.rs\<close> (versioned records, digests and deltas,
  the phi detector), \<open>registry.rs\<close> (attested records that bootstrap a relay), \<open>membership.rs\<close> and \<open>status.rs\<close>.

  A hash map is an association list. The text of an id (\<open>to_hex\<close>), the payload encoding and the
  signature library are parameters; clock readings are arguments. A \<open>SystemTime\<close> is a number of
  nanoseconds since the epoch and the floating-point numbers are rational numbers.
\<close>

section \<open>Gossip records and messages\<close>

record gossip_record =
  gr_runtime_id :: runtime_id
  gr_endpoint_addrs :: "string list"
  gr_proto_version :: "16 word"
  gr_load :: rat
  gr_draining :: bool
  gr_capabilities :: "string list"
  gr_version :: u64
  gr_heartbeat_millis :: u64

definition gossip_record_new :: "u64 \<Rightarrow> runtime_id \<Rightarrow> string list \<Rightarrow> 16 word \<Rightarrow> gossip_record" where
  "gossip_record_new now_millis runtime_id endpoint_addrs proto_version =
    \<lparr>gr_runtime_id = runtime_id, gr_endpoint_addrs = endpoint_addrs, gr_proto_version = proto_version, gr_load = 0,
     gr_draining = False, gr_capabilities = [], gr_version = 1, gr_heartbeat_millis = now_millis\<rparr>"

record digest_entry =
  de_runtime_id :: runtime_id
  de_version :: u64

datatype gossip_message = Digest "8 word" "digest_entry list" | Delta "8 word" "gossip_record list"

definition gossip_payload_version :: "8 word" where
  "gossip_payload_version = 1"

definition encode_message :: "(gossip_message \<Rightarrow> string + 8 word list) \<Rightarrow> gossip_message \<Rightarrow> mesh_error + 8 word list" where
  "encode_message postcard message = (case postcard message of Inl e \<Rightarrow> Inl (Encode e) | Inr bytes \<Rightarrow> Inr bytes)"

definition decode_message :: "(8 word list \<Rightarrow> string + gossip_message) \<Rightarrow> 8 word list \<Rightarrow> mesh_error + gossip_message" where
  "decode_message from_postcard bytes =
    (case from_postcard bytes of
       Inl e \<Rightarrow> Inl (Decode e)
     | Inr message \<Rightarrow>
         let version = (case message of Digest version _ \<Rightarrow> version | Delta version _ \<Rightarrow> version)
         in if version \<noteq> gossip_payload_version
            then Inl (Transport (''unknown gossip payload version '' @ decimal (unat version)))
            else Inr message)"

definition saturating_incr :: "u64 \<Rightarrow> u64" where
  "saturating_incr v = (if v = - 1 then v else v + 1)"

section \<open>The scuttlebutt state\<close>

type_synonym gossip_state = "(runtime_id \<times> gossip_record) list"

definition gossip_state_new :: "gossip_record \<Rightarrow> gossip_state" where
  "gossip_state_new local = [(gr_runtime_id local, local)]"

definition gossip_update_local ::
  "u64 \<Rightarrow> runtime_id \<Rightarrow> (gossip_record \<Rightarrow> gossip_record) \<Rightarrow> gossip_state \<Rightarrow> gossip_record option \<times> gossip_state" where
  "gossip_update_local now_millis runtime_id update s =
    (case map_of s runtime_id of
       None \<Rightarrow> (None, s)
     | Some r0 \<Rightarrow>
         let r1 = update r0;
             r2 = r1\<lparr>gr_version := saturating_incr (gr_version r1), gr_heartbeat_millis := now_millis\<rparr>
         in (Some r2, AList.update runtime_id r2 s))"

definition digest_of :: "(runtime_id \<Rightarrow> string) \<Rightarrow> gossip_record list \<Rightarrow> gossip_message" where
  "digest_of hex records =
    Digest gossip_payload_version
      (sort_key (\<lambda>e. hex (de_runtime_id e)) (map (\<lambda>r. \<lparr>de_runtime_id = gr_runtime_id r, de_version = gr_version r\<rparr>) records))"

text \<open>Collecting a list into a hash map keeps the last entry of a key.\<close>

definition remote_versions :: "digest_entry list \<Rightarrow> (runtime_id \<times> u64) list" where
  "remote_versions entries = fold (\<lambda>e. AList.update (de_runtime_id e) (de_version e)) entries []"

definition behind :: "digest_entry list \<Rightarrow> gossip_record \<Rightarrow> bool" where
  "behind entries r =
    (case map_of (remote_versions entries) (gr_runtime_id r) of None \<Rightarrow> True | Some v \<Rightarrow> v < gr_version r)"

definition delta_of :: "(runtime_id \<Rightarrow> string) \<Rightarrow> digest_entry list \<Rightarrow> gossip_record list \<Rightarrow> gossip_message" where
  "delta_of hex entries records =
    Delta gossip_payload_version (sort_key (\<lambda>r. hex (gr_runtime_id r)) (filter (behind entries) records))"

definition gossip_digest :: "(runtime_id \<Rightarrow> string) \<Rightarrow> gossip_state \<Rightarrow> gossip_message" where
  "gossip_digest hex s = digest_of hex (map snd s)"

definition gossip_delta_for :: "(runtime_id \<Rightarrow> string) \<Rightarrow> digest_entry list \<Rightarrow> gossip_state \<Rightarrow> gossip_message" where
  "gossip_delta_for hex entries s = delta_of hex entries (map snd s)"

fun apply_delta :: "gossip_record list \<Rightarrow> gossip_state \<Rightarrow> runtime_id list \<times> gossip_state" where
  "apply_delta [] s = ([], s)"
| "apply_delta (r # rs) s =
    (if (case map_of s (gr_runtime_id r) of None \<Rightarrow> True | Some existing \<Rightarrow> gr_version r > gr_version existing)
     then (case apply_delta rs (AList.update (gr_runtime_id r) r s) of
             (changed, s1) \<Rightarrow> (gr_runtime_id r # changed, s1))
     else apply_delta rs s)"

section \<open>The phi detector\<close>

type_synonym system_time = int

record phi_accrual =
  ph_samples :: "nat list"
  ph_last_heartbeat :: "system_time option"
  ph_max_samples :: nat

definition phi_new :: "nat \<Rightarrow> phi_accrual" where
  "phi_new max_samples = \<lparr>ph_samples = [], ph_last_heartbeat = None, ph_max_samples = max max_samples 1\<rparr>"

definition phi_default :: phi_accrual where
  "phi_default = phi_new 100"

definition duration_since :: "system_time \<Rightarrow> system_time \<Rightarrow> nat option" where
  "duration_since later earlier = (if earlier \<le> later then Some (nat (later - earlier)) else None)"

definition observe :: "system_time \<Rightarrow> phi_accrual \<Rightarrow> phi_accrual" where
  "observe beat p =
    (let p1 = (case ph_last_heartbeat p of
                 None \<Rightarrow> p
               | Some prev \<Rightarrow>
                   (case duration_since beat prev of
                      None \<Rightarrow> p
                    | Some interval \<Rightarrow>
                        if interval = 0 then p
                        else let samples = ph_samples p @ [interval]
                             in p\<lparr>ph_samples := if length samples > ph_max_samples p then tl samples else samples\<rparr>))
     in p1\<lparr>ph_last_heartbeat := Some beat\<rparr>)"

definition secs :: "nat \<Rightarrow> rat" where
  "secs d = of_nat d / 1000000000"

definition mean_secs :: "phi_accrual \<Rightarrow> rat" where
  "mean_secs p = sum_list (map secs (ph_samples p)) / of_nat (length (ph_samples p))"

text \<open>The constants of the standard library, as the numbers a double holds.\<close>

definition f64_epsilon :: rat where
  "f64_epsilon = 1 / 4503599627370496"

definition ln_10 :: rat where
  "ln_10 = 2592480341699211 / 1125899906842624"

definition phi_at :: "system_time \<Rightarrow> phi_accrual \<Rightarrow> rat option" where
  "phi_at now p =
    (case ph_last_heartbeat p of
       None \<Rightarrow> None
     | Some prev \<Rightarrow>
         if ph_samples p = [] then None
         else case duration_since now prev of
           None \<Rightarrow> None
         | Some elapsed \<Rightarrow>
             let mean = mean_secs p
             in if mean \<le> f64_epsilon then None else Some ((secs elapsed / mean) / ln_10))"

definition system_time_from_millis :: "u64 \<Rightarrow> system_time" where
  "system_time_from_millis millis = uint millis * 1000000"

section \<open>The ready registry\<close>

text \<open>
  What the registry uses of the signature library: a public key and a signature are the values their
  parsers return, a message is the digest it is made from.
\<close>

record ('pk, 'sig) attest_lib =
  al_hex :: "8 word list \<Rightarrow> string"
  al_sha256 :: "string \<Rightarrow> 8 word list"
  al_pubkey_from_hex :: "string \<Rightarrow> string + 'pk"
  al_pubkey_to_hex :: "'pk \<Rightarrow> string"
  al_xonly :: "'pk \<Rightarrow> string + 'pk"
  al_signature :: "string \<Rightarrow> string + 'sig"
  al_verify :: "'sig \<Rightarrow> 8 word list \<Rightarrow> 'pk \<Rightarrow> string + unit"

definition attestation_context :: string where
  "attestation_context = ''buzz-relay-mesh-ready-v1''"

definition newline :: string where
  "newline = [CHR 0x0A]"

definition attestation_preimage :: "('pk, 'sig) attest_lib \<Rightarrow> runtime_id \<Rightarrow> string \<Rightarrow> string" where
  "attestation_preimage lib runtime_id relay_pubkey =
    attestation_context @ newline @ ''runtime_pubkey='' @ al_hex lib runtime_id @ newline @ ''relay_pubkey='' @ relay_pubkey"

definition attestation_message :: "('pk, 'sig) attest_lib \<Rightarrow> runtime_id \<Rightarrow> string \<Rightarrow> 8 word list" where
  "attestation_message lib runtime_id relay_pubkey = al_sha256 lib (attestation_preimage lib runtime_id relay_pubkey)"

definition verify_attestation_sig :: "('pk, 'sig) attest_lib \<Rightarrow> runtime_id \<Rightarrow> string \<Rightarrow> string \<Rightarrow> mesh_error + unit" where
  "verify_attestation_sig lib runtime_id relay_pubkey relay_sig =
    (case al_pubkey_from_hex lib relay_pubkey of
       Inl err \<Rightarrow> Inl (Transport (''ready registry attestation invalid relay_pubkey: '' @ err))
     | Inr pk \<Rightarrow>
         (case al_xonly lib pk of
            Inl err \<Rightarrow> Inl (Transport (''ready registry attestation relay_pubkey xonly conversion failed: '' @ err))
          | Inr xonly \<Rightarrow>
              (case al_signature lib relay_sig of
                 Inl err \<Rightarrow> Inl (Transport (''ready registry attestation invalid relay_sig: '' @ err))
               | Inr sig \<Rightarrow>
                   (case al_verify lib sig (attestation_message lib runtime_id (al_pubkey_to_hex lib pk)) xonly of
                      Inl err \<Rightarrow> Inl (Transport (''ready registry attestation signature verification failed: '' @ err))
                    | Inr _ \<Rightarrow> Inr ()))))"

record ready_record =
  rr_runtime_id :: runtime_id
  rr_runtime_pubkey :: string
  rr_relay_pubkey :: string
  rr_relay_sig :: string
  rr_endpoint_addrs :: "string list"
  rr_proto_version :: "16 word"
  rr_capabilities :: "string list"

definition verify_attestation :: "('pk, 'sig) attest_lib \<Rightarrow> ready_record \<Rightarrow> mesh_error + unit" where
  "verify_attestation lib ready =
    (if rr_runtime_pubkey ready \<noteq> al_hex lib (rr_runtime_id ready)
     then Inl (Transport (''ready registry runtime_id/runtime_pubkey mismatch: '' @ al_hex lib (rr_runtime_id ready) @ '' != '' @
                 rr_runtime_pubkey ready))
     else verify_attestation_sig lib (rr_runtime_id ready) (rr_relay_pubkey ready) (rr_relay_sig ready))"

definition ready_key :: "('pk, 'sig) attest_lib \<Rightarrow> runtime_id \<Rightarrow> string" where
  "ready_key lib runtime_id = ''mesh:ready:'' @ al_hex lib runtime_id"

text \<open>A duration in nanoseconds; the largest one has \<open>u64::MAX\<close> seconds.\<close>

definition duration_max :: nat where
  "duration_max = 18446744073709551615 * 1000000000 + 999999999"

definition expiry_for :: "nat \<Rightarrow> nat" where
  "expiry_for refresh = min (refresh * 3) duration_max"


text \<open>
  The registry in Redis: for each key its value and when it expires, in seconds. A command that failed may have
  taken effect before its reply was lost; the flag beside the error tells.
\<close>

type_synonym ready_store = "string \<rightharpoonup> string \<times> nat"
type_synonym redis_reply = "(string \<times> bool) + unit"

definition redis_do :: "redis_reply \<Rightarrow> (ready_store \<Rightarrow> ready_store) \<Rightarrow> ready_store \<Rightarrow> (mesh_error + unit) \<times> ready_store" where
  "redis_do reply cmd store =
    (case reply of
       Inr _ \<Rightarrow> (Inr (), cmd store)
     | Inl (err, applied) \<Rightarrow> (Inl (Redis err), if applied then cmd store else store))"

text \<open>The environment of a registry call: the clock in seconds, the connection, the encoded record and the reply.\<close>

record registry_env =
  re_now :: nat
  re_conn :: "string + unit"
  re_json :: "ready_record \<Rightarrow> string + string"
  re_reply :: redis_reply

definition publish_ready ::
  "('pk, 'sig) attest_lib \<Rightarrow> nat \<Rightarrow> registry_env \<Rightarrow> ready_record \<Rightarrow> ready_store \<Rightarrow> (mesh_error + unit) \<times> ready_store" where
  "publish_ready lib refresh env ready store =
    (case verify_attestation lib ready of
       Inl e \<Rightarrow> (Inl e, store)
     | Inr _ \<Rightarrow>
         (case re_conn env of
            Inl e \<Rightarrow> (Inl (Transport (''redis pool: '' @ e)), store)
          | Inr _ \<Rightarrow>
              (case re_json env ready of
                 Inl e \<Rightarrow> (Inl (Transport (''ready registry encode: '' @ e)), store)
               | Inr payload \<Rightarrow>
                   let ttl_secs = max (expiry_for refresh div 1000000000) 1
                   in redis_do (re_reply env)
                        (\<lambda>st. st(ready_key lib (rr_runtime_id ready) \<mapsto> (payload, re_now env + ttl_secs))) store)))"

definition clear_ready ::
  "('pk, 'sig) attest_lib \<Rightarrow> registry_env \<Rightarrow> runtime_id \<Rightarrow> ready_store \<Rightarrow> (mesh_error + unit) \<times> ready_store" where
  "clear_ready lib env runtime_id store =
    (case re_conn env of
       Inl e \<Rightarrow> (Inl (Transport (''redis pool: '' @ e)), store)
     | Inr _ \<Rightarrow> redis_do (re_reply env) (\<lambda>st. st(ready_key lib runtime_id := None)) store)"

definition scan_value :: "('pk, 'sig) attest_lib \<Rightarrow> (string \<Rightarrow> string + ready_record) \<Rightarrow> string \<Rightarrow> string \<Rightarrow> ready_record list" where
  "scan_value lib from_json key raw =
    (case from_json raw of
       Inl _ \<Rightarrow> []
     | Inr ready \<Rightarrow>
         if ready_key lib (rr_runtime_id ready) = key
         then (case verify_attestation lib ready of Inr _ \<Rightarrow> [ready] | Inl _ \<Rightarrow> [])
         else [])"

fun scan_keys ::
  "('pk, 'sig) attest_lib \<Rightarrow> (string \<Rightarrow> string + ready_record) \<Rightarrow> (string \<Rightarrow> string + string option) \<Rightarrow> string list \<Rightarrow>
    mesh_error + ready_record list" where
  "scan_keys lib from_json get [] = Inr []"
| "scan_keys lib from_json get (key # keys) =
    (case get key of
       Inl e \<Rightarrow> Inl (Redis e)
     | Inr raw \<Rightarrow>
         (case scan_keys lib from_json get keys of
            Inl e \<Rightarrow> Inl e
          | Inr out \<Rightarrow> Inr ((case raw of None \<Rightarrow> [] | Some raw \<Rightarrow> scan_value lib from_json key raw) @ out)))"

text \<open>The replies to the successive \<open>SCAN\<close> commands are given; a next cursor of 0 ends the loop.\<close>

fun scan_pages ::
  "('pk, 'sig) attest_lib \<Rightarrow> (string \<Rightarrow> string + ready_record) \<Rightarrow> (string \<Rightarrow> string + string option) \<Rightarrow>
    (string + u64 \<times> string list) list \<Rightarrow> (mesh_error + ready_record list) option" where
  "scan_pages lib from_json get [] = None"
| "scan_pages lib from_json get (Inl e # pages) = Some (Inl (Redis e))"
| "scan_pages lib from_json get (Inr (cursor, keys) # pages) =
    (case scan_keys lib from_json get keys of
       Inl e \<Rightarrow> Some (Inl e)
     | Inr out \<Rightarrow>
         if cursor = 0 then Some (Inr out)
         else map_option (map_sum id ((@) out)) (scan_pages lib from_json get pages))"

definition scan_ready ::
  "('pk, 'sig) attest_lib \<Rightarrow> (string \<Rightarrow> string + ready_record) \<Rightarrow> string + unit \<Rightarrow> (string \<Rightarrow> string + string option) \<Rightarrow>
    (string + u64 \<times> string list) list \<Rightarrow> (mesh_error + ready_record list) option" where
  "scan_ready lib from_json conn get pages =
    (case conn of Inl e \<Rightarrow> Some (Inl (Transport (''redis pool: '' @ e))) | Inr _ \<Rightarrow> scan_pages lib from_json get pages)"

record ready_heartbeat =
  hb_record :: ready_record
  hb_published :: bool

definition heartbeat_tick ::
  "('pk, 'sig) attest_lib \<Rightarrow> nat \<Rightarrow> registry_env \<Rightarrow> bool \<Rightarrow> ready_heartbeat \<Rightarrow> ready_store \<Rightarrow>
    (mesh_error + unit) \<times> ready_heartbeat \<times> ready_store" where
  "heartbeat_tick lib refresh env ready hb store =
    (if ready then
       (case publish_ready lib refresh env (hb_record hb) store of
          (Inl e, st) \<Rightarrow> (Inl e, hb, st)
        | (Inr _, st) \<Rightarrow> (Inr (), hb\<lparr>hb_published := True\<rparr>, st))
     else if hb_published hb then
       (case clear_ready lib env (rr_runtime_id (hb_record hb)) store of
          (Inl e, st) \<Rightarrow> (Inl e, hb, st)
        | (Inr _, st) \<Rightarrow> (Inr (), hb\<lparr>hb_published := False\<rparr>, st))
     else (Inr (), hb, store))"

definition heartbeat_shutdown ::
  "('pk, 'sig) attest_lib \<Rightarrow> registry_env \<Rightarrow> ready_heartbeat \<Rightarrow> ready_store \<Rightarrow> (mesh_error + unit) \<times> ready_heartbeat \<times> ready_store" where
  "heartbeat_shutdown lib env hb store =
    (if hb_published hb then
       (case clear_ready lib env (rr_runtime_id (hb_record hb)) store of
          (Inl e, st) \<Rightarrow> (Inl e, hb, st)
        | (Inr _, st) \<Rightarrow> (Inr (), hb\<lparr>hb_published := False\<rparr>, st))
     else (Inr (), hb, store))"

section \<open>The membership table\<close>

datatype connection_state = Disconnected | Connecting | Connected | Suspect

record peer_counters =
  pc_runtime_id :: string
  pc_streams_opened :: u64
  pc_streams_received :: u64
  pc_datagrams_sent :: u64
  pc_datagrams_received :: u64
  pc_gossip_frames_sent :: u64
  pc_gossip_frames_received :: u64
  pc_stale_generation_rejections :: u64

definition counters_new :: "string \<Rightarrow> peer_counters" where
  "counters_new runtime_id =
    \<lparr>pc_runtime_id = runtime_id, pc_streams_opened = 0, pc_streams_received = 0, pc_datagrams_sent = 0,
     pc_datagrams_received = 0, pc_gossip_frames_sent = 0, pc_gossip_frames_received = 0, pc_stale_generation_rejections = 0\<rparr>"

record peer_state =
  pr_record :: gossip_record
  pr_phi :: phi_accrual
  pr_connection_state :: connection_state
  pr_counters :: peer_counters

record membership =
  mm_local_runtime_id :: runtime_id
  mm_local_record :: gossip_record
  mm_peers :: "(runtime_id \<times> peer_state) list"
  mm_draining :: bool
  mm_stale_generation_rejections :: u64
  mm_foreign_relay_rejections :: u64
  mm_expected_relay_pubkey :: "string option"
  mm_phi_suspect_threshold :: rat

definition membership_new :: "gossip_record \<Rightarrow> membership" where
  "membership_new local_record =
    \<lparr>mm_local_runtime_id = gr_runtime_id local_record, mm_local_record = local_record, mm_peers = [], mm_draining = False,
     mm_stale_generation_rejections = 0, mm_foreign_relay_rejections = 0, mm_expected_relay_pubkey = None,
     mm_phi_suspect_threshold = 8\<rparr>"

definition with_expected_relay_pubkey :: "string \<Rightarrow> membership \<Rightarrow> membership" where
  "with_expected_relay_pubkey pubkey_hex m = m\<lparr>mm_expected_relay_pubkey := Some pubkey_hex\<rparr>"

definition with_phi_suspect_threshold :: "rat \<Rightarrow> membership \<Rightarrow> membership" where
  "with_phi_suspect_threshold threshold m = m\<lparr>mm_phi_suspect_threshold := threshold\<rparr>"

definition apply_gossip_record :: "(runtime_id \<Rightarrow> string) \<Rightarrow> gossip_record \<Rightarrow> membership \<Rightarrow> bool \<times> membership" where
  "apply_gossip_record hex r m =
    (if gr_runtime_id r = mm_local_runtime_id m then (False, m)
     else let heartbeat = system_time_from_millis (gr_heartbeat_millis r)
       in case map_of (mm_peers m) (gr_runtime_id r) of
         Some peer \<Rightarrow>
           if gr_version r \<le> gr_version (pr_record peer) then (False, m)
           else (True, m\<lparr>mm_peers := AList.update (gr_runtime_id r)
             (peer\<lparr>pr_record := r, pr_connection_state := Connected, pr_phi := observe heartbeat (pr_phi peer)\<rparr>) (mm_peers m)\<rparr>)
       | None \<Rightarrow>
           (True, m\<lparr>mm_peers := AList.update (gr_runtime_id r)
             \<lparr>pr_record = r, pr_phi = observe heartbeat phi_default, pr_connection_state = Connected,
              pr_counters = counters_new (hex (gr_runtime_id r))\<rparr> (mm_peers m)\<rparr>))"

definition apply_ready_record ::
  "('pk, 'sig) attest_lib \<Rightarrow> u64 \<Rightarrow> ready_record \<Rightarrow> membership \<Rightarrow> membership" where
  "apply_ready_record lib now_millis ready m =
    (if rr_runtime_id ready = mm_local_runtime_id m then m
     else if mm_expected_relay_pubkey m \<noteq> Some (rr_relay_pubkey ready)
     then m\<lparr>mm_foreign_relay_rejections := mm_foreign_relay_rejections m + 1\<rparr>
     else case verify_attestation lib ready of
       Inl _ \<Rightarrow> m
     | Inr _ \<Rightarrow>
         let r = gossip_record_new now_millis (rr_runtime_id ready) (rr_endpoint_addrs ready) (rr_proto_version ready)
         in snd (apply_gossip_record (al_hex lib) (r\<lparr>gr_capabilities := rr_capabilities ready\<rparr>) m))"

text \<open>Each record comes with the clock reading at the time it is applied.\<close>

definition apply_ready_records ::
  "('pk, 'sig) attest_lib \<Rightarrow> (u64 \<times> ready_record) list \<Rightarrow> membership \<Rightarrow> membership" where
  "apply_ready_records lib records m = fold (\<lambda>(now_millis, ready). apply_ready_record lib now_millis ready) records m"

definition mark_connection_state :: "runtime_id \<Rightarrow> connection_state \<Rightarrow> membership \<Rightarrow> membership" where
  "mark_connection_state runtime_id state m =
    m\<lparr>mm_peers := AList.map_entry runtime_id (\<lambda>peer. peer\<lparr>pr_connection_state := state\<rparr>) (mm_peers m)\<rparr>"

definition update_local :: "u64 \<Rightarrow> (gossip_record \<Rightarrow> gossip_record) \<Rightarrow> membership \<Rightarrow> gossip_record \<times> membership" where
  "update_local now_millis update m =
    (let r1 = update (mm_local_record m);
         r2 = r1\<lparr>gr_version := saturating_incr (gr_version r1), gr_heartbeat_millis := now_millis\<rparr>
     in (r2, m\<lparr>mm_local_record := r2\<rparr>))"

definition has_peer :: "runtime_id \<Rightarrow> membership \<Rightarrow> bool" where
  "has_peer runtime_id m \<longleftrightarrow> map_of (mm_peers m) runtime_id \<noteq> None"

definition membership_records :: "membership \<Rightarrow> gossip_record list" where
  "membership_records m = map (pr_record \<circ> snd) (mm_peers m) @ [mm_local_record m]"

definition membership_digest :: "(runtime_id \<Rightarrow> string) \<Rightarrow> membership \<Rightarrow> gossip_message" where
  "membership_digest hex m = digest_of hex (membership_records m)"

definition membership_delta_for :: "(runtime_id \<Rightarrow> string) \<Rightarrow> digest_entry list \<Rightarrow> membership \<Rightarrow> gossip_message" where
  "membership_delta_for hex entries m = delta_of hex entries (membership_records m)"

definition update_peer_counters :: "runtime_id \<Rightarrow> (peer_counters \<Rightarrow> peer_counters) \<Rightarrow> membership \<Rightarrow> membership" where
  "update_peer_counters runtime_id update m =
    m\<lparr>mm_peers := AList.map_entry runtime_id (\<lambda>peer. peer\<lparr>pr_counters := update (pr_counters peer)\<rparr>) (mm_peers m)\<rparr>"

definition record_stream_opened :: "runtime_id \<Rightarrow> membership \<Rightarrow> membership" where
  "record_stream_opened runtime_id =
    update_peer_counters runtime_id (\<lambda>c. c\<lparr>pc_streams_opened := saturating_incr (pc_streams_opened c)\<rparr>)"

definition record_stream_received :: "runtime_id \<Rightarrow> membership \<Rightarrow> membership" where
  "record_stream_received runtime_id =
    update_peer_counters runtime_id (\<lambda>c. c\<lparr>pc_streams_received := saturating_incr (pc_streams_received c)\<rparr>)"

definition record_datagram_sent :: "runtime_id \<Rightarrow> membership \<Rightarrow> membership" where
  "record_datagram_sent runtime_id =
    update_peer_counters runtime_id (\<lambda>c. c\<lparr>pc_datagrams_sent := saturating_incr (pc_datagrams_sent c)\<rparr>)"

definition record_datagram_received :: "runtime_id \<Rightarrow> membership \<Rightarrow> membership" where
  "record_datagram_received runtime_id =
    update_peer_counters runtime_id (\<lambda>c. c\<lparr>pc_datagrams_received := saturating_incr (pc_datagrams_received c)\<rparr>)"

definition record_gossip_frame_sent :: "runtime_id \<Rightarrow> membership \<Rightarrow> membership" where
  "record_gossip_frame_sent runtime_id =
    update_peer_counters runtime_id (\<lambda>c. c\<lparr>pc_gossip_frames_sent := saturating_incr (pc_gossip_frames_sent c)\<rparr>)"

definition record_gossip_frame_received :: "runtime_id \<Rightarrow> membership \<Rightarrow> membership" where
  "record_gossip_frame_received runtime_id =
    update_peer_counters runtime_id (\<lambda>c. c\<lparr>pc_gossip_frames_received := saturating_incr (pc_gossip_frames_received c)\<rparr>)"

definition record_stale_generation_rejection :: "runtime_id option \<Rightarrow> membership \<Rightarrow> membership" where
  "record_stale_generation_rejection runtime_id m =
    (let m1 = m\<lparr>mm_stale_generation_rejections := mm_stale_generation_rejections m + 1\<rparr>
     in case runtime_id of
       None \<Rightarrow> m1
     | Some rid \<Rightarrow>
         update_peer_counters rid (\<lambda>c. c\<lparr>pc_stale_generation_rejections := saturating_incr (pc_stale_generation_rejections c)\<rparr>) m1)"

definition begin_drain :: "u64 \<Rightarrow> membership \<Rightarrow> membership" where
  "begin_drain now_millis m = snd (update_local now_millis (\<lambda>r. r\<lparr>gr_draining := True\<rparr>) (m\<lparr>mm_draining := True\<rparr>))"

definition is_suspect :: "system_time \<Rightarrow> membership \<Rightarrow> peer_state \<Rightarrow> bool" where
  "is_suspect now m peer =
    (case phi_at now (pr_phi peer) of None \<Rightarrow> False | Some p \<Rightarrow> p \<ge> mm_phi_suspect_threshold m)"

record peer_info =
  pi_runtime_id :: runtime_id
  pi_draining :: bool
  pi_phi :: "rat option"
  pi_load :: rat

definition peers :: "system_time \<Rightarrow> membership \<Rightarrow> peer_info list" where
  "peers now m =
    List.map_filter (\<lambda>(_, peer).
      if is_suspect now m peer then None
      else Some \<lparr>pi_runtime_id = gr_runtime_id (pr_record peer), pi_draining = gr_draining (pr_record peer),
                 pi_phi = phi_at now (pr_phi peer), pi_load = gr_load (pr_record peer)\<rparr>) (mm_peers m)"

record peer_status =
  st_runtime_id :: string
  st_endpoint_addrs :: "string list"
  st_proto_version :: "16 word"
  st_draining :: bool
  st_connection_state :: connection_state
  st_phi :: "rat option"
  st_load :: rat
  st_record_version :: u64
  st_last_heartbeat_millis :: u64
  st_counters :: peer_counters

definition peer_statuses :: "(runtime_id \<Rightarrow> string) \<Rightarrow> system_time \<Rightarrow> membership \<Rightarrow> peer_status list" where
  "peer_statuses hex now m =
    map (\<lambda>(_, peer).
      \<lparr>st_runtime_id = hex (gr_runtime_id (pr_record peer)),
       st_endpoint_addrs = gr_endpoint_addrs (pr_record peer),
       st_proto_version = gr_proto_version (pr_record peer),
       st_draining = gr_draining (pr_record peer),
       st_connection_state = if is_suspect now m peer then Suspect else pr_connection_state peer,
       st_phi = phi_at now (pr_phi peer),
       st_load = gr_load (pr_record peer),
       st_record_version = gr_version (pr_record peer),
       st_last_heartbeat_millis = gr_heartbeat_millis (pr_record peer),
       st_counters = pr_counters peer\<rparr>) (mm_peers m)"

record mesh_counters =
  mc_stale_generation_rejections :: u64
  mc_foreign_relay_rejections :: u64
  mc_peers :: "peer_counters list"

record mesh_status =
  ms_enabled :: bool
  ms_local_runtime_id :: string
  ms_draining :: bool
  ms_peer_count :: nat
  ms_peers :: "peer_status list"
  ms_counters :: mesh_counters

definition membership_status :: "(runtime_id \<Rightarrow> string) \<Rightarrow> system_time \<Rightarrow> membership \<Rightarrow> mesh_status" where
  "membership_status hex now m =
    (let ps = sort_key st_runtime_id (peer_statuses hex now m)
     in \<lparr>ms_enabled = True, ms_local_runtime_id = hex (gr_runtime_id (mm_local_record m)), ms_draining = mm_draining m,
         ms_peer_count = length ps, ms_peers = ps,
         ms_counters = \<lparr>mc_stale_generation_rejections = mm_stale_generation_rejections m,
                        mc_foreign_relay_rejections = mm_foreign_relay_rejections m,
                        mc_peers = map st_counters ps\<rparr>\<rparr>)"


section \<open>What a relay knows\<close>

definition membership_inv :: "membership \<Rightarrow> bool" where
  "membership_inv m \<longleftrightarrow>
    gr_runtime_id (mm_local_record m) = mm_local_runtime_id m \<and>
    distinct (map fst (mm_peers m)) \<and> mm_local_runtime_id m \<notin> fst ` set (mm_peers m) \<and>
    (\<forall>(i, p) \<in> set (mm_peers m). gr_runtime_id (pr_record p) = i)"

definition known :: "membership \<Rightarrow> runtime_id \<Rightarrow> gossip_record option" where
  "known m i =
    (if i = mm_local_runtime_id m then Some (mm_local_record m) else map_option pr_record (map_of (mm_peers m) i))"

text \<open>What is known after a record arrives: the newer of the two.\<close>

fun newer :: "gossip_record option \<Rightarrow> gossip_record \<Rightarrow> gossip_record" where
  "newer None r = r"
| "newer (Some e) r = (if gr_version r > gr_version e then r else e)"

lemma membership_invD:
  assumes "membership_inv m"
  shows local_id: "gr_runtime_id (mm_local_record m) = mm_local_runtime_id m"
    and peers_distinct: "distinct (map fst (mm_peers m))"
    and local_not_peer: "mm_local_runtime_id m \<notin> fst ` set (mm_peers m)"
    and peer_id: "(i, p) \<in> set (mm_peers m) \<Longrightarrow> gr_runtime_id (pr_record p) = i"
  using assms by (auto simp: membership_inv_def)

lemma known_local [simp]: "known m (mm_local_runtime_id m) = Some (mm_local_record m)"
  by (simp add: known_def)

lemma known_id: "membership_inv m \<Longrightarrow> known m i = Some r \<Longrightarrow> gr_runtime_id r = i"
  by (auto simp: known_def membership_inv_def split: if_splits dest: map_of_SomeD)

lemma apply_gossip_record_local [simp]:
  "mm_local_runtime_id (snd (apply_gossip_record hex r m)) = mm_local_runtime_id m"
  "mm_local_record (snd (apply_gossip_record hex r m)) = mm_local_record m"
  by (auto simp: apply_gossip_record_def Let_def split: option.splits)

lemma known_apply_gossip_record:
  "known (snd (apply_gossip_record hex r m)) =
    (if gr_runtime_id r = mm_local_runtime_id m then known m
     else (known m)(gr_runtime_id r \<mapsto> newer (known m (gr_runtime_id r)) r))"
  by (rule ext) (auto simp: known_def apply_gossip_record_def Let_def update_conv' split: option.splits)

lemma apply_gossip_record_inv [inv_intros]:
  assumes "membership_inv m"
  shows "membership_inv (snd (apply_gossip_record hex r m))"
proof -
  have upd: "membership_inv (m\<lparr>mm_peers := AList.update (gr_runtime_id r) p (mm_peers m)\<rparr>)"
    if "gr_runtime_id r \<noteq> mm_local_runtime_id m" "pr_record p = r" for p
    using assms that
    by (auto simp: membership_inv_def distinct_update dom_update alist_update_set)
  show ?thesis
    using assms upd by (auto simp: apply_gossip_record_def Let_def split: option.splits)
qed

definition apply_records :: "(runtime_id \<Rightarrow> string) \<Rightarrow> gossip_record list \<Rightarrow> membership \<Rightarrow> membership" where
  "apply_records hex rs m = fold (\<lambda>r m. snd (apply_gossip_record hex r m)) rs m"

lemma apply_records_simps [simp]:
  "apply_records hex [] m = m"
  "apply_records hex (r # rs) m = apply_records hex rs (snd (apply_gossip_record hex r m))"
  by (simp_all add: apply_records_def)

lemma apply_records_local [simp]:
  "mm_local_runtime_id (apply_records hex rs m) = mm_local_runtime_id m"
  "mm_local_record (apply_records hex rs m) = mm_local_record m"
  by (induction rs arbitrary: m) simp_all

lemma apply_records_inv [inv_intros]: "membership_inv m \<Longrightarrow> membership_inv (apply_records hex rs m)"
  by (induction rs arbitrary: m) (simp_all add: apply_gossip_record_inv)

text \<open>A delta with one record per runtime.\<close>

lemma known_apply_records:
  assumes "distinct (map gr_runtime_id rs)"
  shows "known (apply_records hex rs m) i =
    (case find (\<lambda>r. gr_runtime_id r = i) rs of
       None \<Rightarrow> known m i
     | Some r \<Rightarrow> if i = mm_local_runtime_id m then known m i else Some (newer (known m i) r))"
  using assms
proof (induction rs arbitrary: m)
  case (Cons r rs)
  have notin: "find (\<lambda>r'. gr_runtime_id r' = gr_runtime_id r) rs = None"
  proof -
    have "gr_runtime_id x \<noteq> gr_runtime_id r" if "x \<in> set rs" for x
      using Cons.prems imageI [OF that, of gr_runtime_id] by auto
    then show ?thesis by (auto simp: find_None_iff)
  qed
  show ?case
    using Cons notin by (auto simp: known_apply_gossip_record split: option.splits)
qed simp

section \<open>Digests and deltas\<close>

lemma map_of_remote_versions:
  assumes "distinct (map de_runtime_id es)"
  shows "map_of (remote_versions es) i = map_of (map (\<lambda>e. (de_runtime_id e, de_version e)) es) i"
proof -
  have "map_of (fold (\<lambda>e. AList.update (de_runtime_id e) (de_version e)) es al) i =
      (case map_of (map (\<lambda>e. (de_runtime_id e, de_version e)) es) i of None \<Rightarrow> map_of al i | Some v \<Rightarrow> Some v)" for al
    using assms
  proof (induction es arbitrary: al)
    case (Cons e es)
    have "map_of (map (\<lambda>e. (de_runtime_id e, de_version e)) es) (de_runtime_id e) = None"
      using Cons.prems by (force simp: map_of_eq_None_iff)
    then show ?case using Cons by (auto simp: update_conv' split: option.splits)
  qed simp
  then show ?thesis by (auto simp: remote_versions_def split: option.splits)
qed

lemma membership_records_distinct:
  assumes "membership_inv m"
  shows "distinct (map gr_runtime_id (membership_records m))"
proof -
  have "map gr_runtime_id (membership_records m) = map fst (mm_peers m) @ [mm_local_runtime_id m]"
    using peer_id [OF assms] local_id [OF assms] by (auto simp: membership_records_def)
  then show ?thesis using peers_distinct [OF assms] local_not_peer [OF assms] by simp
qed

lemma membership_records_iff:
  assumes "membership_inv m"
  shows "r \<in> set (membership_records m) \<longleftrightarrow> known m (gr_runtime_id r) = Some r"
proof -
  have "known m i = Some r \<longleftrightarrow>
      i = mm_local_runtime_id m \<and> r = mm_local_record m \<or> (\<exists>p. (i, p) \<in> set (mm_peers m) \<and> r = pr_record p)" for i
    using local_not_peer [OF assms]
    by (auto simp: known_def map_of_eq_Some_iff [OF peers_distinct [OF assms]] image_iff)
  moreover have "r \<in> set (membership_records m) \<longleftrightarrow>
      r = mm_local_record m \<or> (\<exists>i p. (i, p) \<in> set (mm_peers m) \<and> r = pr_record p)"
    by (force simp: membership_records_def)
  ultimately show ?thesis using local_id [OF assms] peer_id [OF assms] by blast
qed

lemma find_records:
  assumes "membership_inv m"
  shows "find (\<lambda>r. gr_runtime_id r = i) (membership_records m) = known m i"
proof (cases "find (\<lambda>r. gr_runtime_id r = i) (membership_records m)")
  case None
  then have "\<And>r. r \<in> set (membership_records m) \<Longrightarrow> gr_runtime_id r \<noteq> i" by (auto simp: find_None_iff)
  then have "known m i \<noteq> Some r" for r
    using membership_records_iff [OF assms, of r] known_id [OF assms, of i r] by auto
  then show ?thesis using None by (cases "known m i") auto
next
  case (Some r)
  then have "r \<in> set (membership_records m)" "gr_runtime_id r = i" by (auto simp: find_Some_iff)
  then show ?thesis using Some membership_records_iff [OF assms, of r] by auto
qed

text \<open>What a digest and the delta that answers it say, as functions of what the two sides know.\<close>

definition digest_entries :: "(runtime_id \<Rightarrow> string) \<Rightarrow> membership \<Rightarrow> digest_entry list" where
  "digest_entries hex m = (case membership_digest hex m of Digest _ es \<Rightarrow> es | Delta _ _ \<Rightarrow> [])"

definition delta_records :: "(runtime_id \<Rightarrow> string) \<Rightarrow> digest_entry list \<Rightarrow> membership \<Rightarrow> gossip_record list" where
  "delta_records hex es m = (case membership_delta_for hex es m of Delta _ rs \<Rightarrow> rs | Digest _ _ \<Rightarrow> [])"

lemma digest_message: "membership_digest hex m = Digest gossip_payload_version (digest_entries hex m)"
  by (simp add: digest_entries_def membership_digest_def digest_of_def)

lemma delta_message: "membership_delta_for hex es m = Delta gossip_payload_version (delta_records hex es m)"
  by (simp add: delta_records_def membership_delta_for_def delta_of_def)

lemma set_delta_records: "set (delta_records hex es m) = {r \<in> set (membership_records m). behind es r}"
  by (auto simp: delta_records_def membership_delta_for_def delta_of_def)

lemma delta_records_distinct:
  assumes "membership_inv m"
  shows "distinct (map gr_runtime_id (delta_records hex es m))"
proof -
  have "mset (map gr_runtime_id (delta_records hex es m)) = mset (map gr_runtime_id (filter (behind es) (membership_records m)))"
    by (simp add: delta_records_def membership_delta_for_def delta_of_def)
  moreover have "distinct (map gr_runtime_id (filter (behind es) (membership_records m)))"
    using membership_records_distinct [OF assms] by (simp add: distinct_map_filter)
  ultimately show ?thesis by (metis mset_eq_imp_distinct_iff)
qed

lemma versions_of_digest:
  assumes "membership_inv m"
  shows "map_of (remote_versions (digest_entries hex m)) i = map_option gr_version (known m i)"
proof -
  let ?e = "\<lambda>r. \<lparr>de_runtime_id = gr_runtime_id r, de_version = gr_version r\<rparr>"
  have mset: "mset (digest_entries hex m) = mset (map ?e (membership_records m))"
    by (simp add: digest_entries_def membership_digest_def digest_of_def)
  then have "mset (map de_runtime_id (digest_entries hex m)) = mset (map de_runtime_id (map ?e (membership_records m)))"
    by (metis mset_map)
  also have "map de_runtime_id (map ?e (membership_records m)) = map gr_runtime_id (membership_records m)" by simp
  finally have d: "distinct (map de_runtime_id (digest_entries hex m))"
    using membership_records_distinct [OF assms] by (metis mset_eq_imp_distinct_iff)
  have "map_of (map (\<lambda>e. (de_runtime_id e, de_version e)) (digest_entries hex m)) i = Some v \<longleftrightarrow>
      map_option gr_version (known m i) = Some v" for v
  proof -
    have "map_of (map (\<lambda>e. (de_runtime_id e, de_version e)) (digest_entries hex m)) i = Some v \<longleftrightarrow>
        (i, v) \<in> set (map (\<lambda>e. (de_runtime_id e, de_version e)) (digest_entries hex m))"
      by (rule map_of_eq_Some_iff) (simp add: o_def d)
    also have "\<dots> \<longleftrightarrow> (\<exists>r \<in> set (membership_records m). gr_runtime_id r = i \<and> gr_version r = v)"
      using mset_eq_setD [OF mset] by (auto simp: image_iff)
    also have "\<dots> \<longleftrightarrow> map_option gr_version (known m i) = Some v"
      unfolding map_option_eq_Some using membership_records_iff [OF assms] known_id [OF assms] by blast
    finally show ?thesis .
  qed
  then have "map_of (map (\<lambda>e. (de_runtime_id e, de_version e)) (digest_entries hex m)) i = map_option gr_version (known m i)"
    by (rule option_eqI)
  then show ?thesis by (simp add: map_of_remote_versions [OF d])
qed

lemma behind_digest:
  assumes "membership_inv a"
  shows "behind (digest_entries hex a) r \<longleftrightarrow>
    (case known a (gr_runtime_id r) of None \<Rightarrow> True | Some e \<Rightarrow> gr_version e < gr_version r)"
  by (simp add: behind_def versions_of_digest [OF assms] split: option.splits)

lemma find_delta:
  assumes "membership_inv a" "membership_inv b"
  shows "find (\<lambda>r. gr_runtime_id r = i) (delta_records hex (digest_entries hex a) b) =
    (case known b i of
       None \<Rightarrow> None
     | Some r \<Rightarrow> (case known a i of None \<Rightarrow> Some r | Some e \<Rightarrow> if gr_version e < gr_version r then Some r else None))"
proof -
  let ?rs = "delta_records hex (digest_entries hex a) b"
  have mem: "r \<in> set ?rs \<longleftrightarrow> known b (gr_runtime_id r) = Some r \<and>
      (case known a (gr_runtime_id r) of None \<Rightarrow> True | Some e \<Rightarrow> gr_version e < gr_version r)" for r
    by (simp add: set_delta_records membership_records_iff [OF assms(2)] behind_digest [OF assms(1)])
  show ?thesis
  proof (cases "find (\<lambda>r. gr_runtime_id r = i) ?rs")
    case None
    then have "\<And>r. r \<in> set ?rs \<Longrightarrow> gr_runtime_id r \<noteq> i" by (auto simp: find_None_iff)
    then have "known b i = Some r \<Longrightarrow> \<exists>e. known a i = Some e \<and> \<not> gr_version e < gr_version r" for r
      using mem [of r] known_id [OF assms(2), of i r] by (cases "known a i") auto
    then show ?thesis using None by (auto split: option.splits)
  next
    case (Some r)
    then have "r \<in> set ?rs" "gr_runtime_id r = i" by (auto simp: find_Some_iff)
    then show ?thesis using Some mem by (auto split: option.splits)
  qed
qed

end
