(* ===== verification/Mesh_Gossip.thy ===== *)
theory Mesh_Gossip
  imports Mesh_Membership
begin

text \<open>
  How knowledge of the relays spreads: the exchange of digests and deltas between two membership tables, a network
  of relays whose messages may be lost, repeated and reordered, the refinement of the scuttlebutt state,
  the admission of registry seeds and the suspicion of silent relays.
\<close>

section \<open>Anti-entropy\<close>

text \<open>One side sends its digest, the other answers with a delta, the first applies it.\<close>

definition pull :: "(runtime_id \<Rightarrow> string) \<Rightarrow> membership \<Rightarrow> membership \<Rightarrow> membership" where
  "pull hex a b = apply_records hex (delta_records hex (digest_entries hex a) b) a"

lemma pull_local [simp]:
  "mm_local_runtime_id (pull hex a b) = mm_local_runtime_id a" "mm_local_record (pull hex a b) = mm_local_record a"
  by (simp_all add: pull_def)

lemma pull_inv [inv_intros]: "membership_inv a \<Longrightarrow> membership_inv (pull hex a b)"
  by (simp add: pull_def apply_records_inv)

lemma known_pull:
  assumes "membership_inv a" "membership_inv b"
  shows "known (pull hex a b) i =
    (if i = mm_local_runtime_id a then known a i
     else case known b i of None \<Rightarrow> known a i | Some r \<Rightarrow> Some (newer (known a i) r))"
  by (auto simp: pull_def known_apply_records [OF delta_records_distinct [OF assms(2)]] find_delta [OF assms]
      split: option.splits)

definition version_known :: "membership \<Rightarrow> runtime_id \<Rightarrow> u64 option" where
  "version_known m i = map_option gr_version (known m i)"

text \<open>Neither side has a copy of the other's record that is ahead of the other.\<close>

definition not_ahead :: "membership \<Rightarrow> membership \<Rightarrow> bool" where
  "not_ahead a b \<longleftrightarrow> (\<forall>r. known a (mm_local_runtime_id b) = Some r \<longrightarrow> gr_version r \<le> gr_version (mm_local_record b))"

lemma newer_version: "gr_version (newer o1 r) = (case o1 of None \<Rightarrow> gr_version r | Some e \<Rightarrow> max (gr_version e) (gr_version r))"
  by (cases o1) (auto simp: max_def)

lemma version_pull:
  assumes "membership_inv a" "membership_inv b" "not_ahead b a"
  shows "version_known (pull hex a b) i =
    (case (version_known a i, version_known b i) of
       (None, v) \<Rightarrow> v | (v, None) \<Rightarrow> v | (Some v, Some w) \<Rightarrow> Some (max v w))"
  using assms(3)
  by (auto simp: version_known_def known_pull [OF assms(1,2)] newer_version not_ahead_def max_def
      split: option.splits)

lemma delta_empty_iff:
  assumes "membership_inv a" "membership_inv b"
  shows "delta_records hex (digest_entries hex a) b = [] \<longleftrightarrow>
    (\<forall>i r. known b i = Some r \<longrightarrow> (\<exists>e. known a i = Some e \<and> gr_version r \<le> gr_version e))"
proof -
  have "delta_records hex (digest_entries hex a) b = [] \<longleftrightarrow>
      (\<forall>i. find (\<lambda>r. gr_runtime_id r = i) (delta_records hex (digest_entries hex a) b) = None)"
    by (cases "delta_records hex (digest_entries hex a) b") auto
  also have "\<dots> \<longleftrightarrow> (\<forall>i r. known b i = Some r \<longrightarrow> (\<exists>e. known a i = Some e \<and> gr_version r \<le> gr_version e))"
  proof (intro all_cong1)
    fix i
    show "find (\<lambda>r. gr_runtime_id r = i) (delta_records hex (digest_entries hex a) b) = None \<longleftrightarrow>
        (\<forall>r. known b i = Some r \<longrightarrow> (\<exists>e. known a i = Some e \<and> gr_version r \<le> gr_version e))"
      by (cases "known a i"; cases "known b i") (auto simp: find_delta [OF assms] linorder_not_less)
  qed
  finally show ?thesis .
qed

text \<open>
  Two relays converge by one exchange in each direction. Afterwards both know, of every relay, the
  larger of the two versions, no relay's copy of its own record has changed, and a further
  exchange would carry nothing in either direction.
\<close>

lemma exchange_converges:
  assumes inv: "membership_inv a" "membership_inv b" and own: "not_ahead a b" "not_ahead b a"
    and "a' = pull hex a b" and "b' = pull hex b a'"
  shows "version_known a' i = version_known b' i"
    and "version_known a' i =
      (case (version_known a i, version_known b i) of
         (None, v) \<Rightarrow> v | (v, None) \<Rightarrow> v | (Some v, Some w) \<Rightarrow> Some (max v w))"
    and "mm_local_record a' = mm_local_record a" and "mm_local_record b' = mm_local_record b"
    and "membership_delta_for hex (digest_entries hex a') b' = Delta gossip_payload_version []"
    and "membership_delta_for hex (digest_entries hex b') a' = Delta gossip_payload_version []"
proof -
  have inv': "membership_inv a'" "membership_inv b'" using assms by (simp_all add: inv_intros)
  have own': "not_ahead a' b"
    using own(1) unfolding assms(5) not_ahead_def known_pull [OF inv]
    by (auto simp: newer_version max_def split: option.splits if_splits)
  have va: "version_known a' j = (case (version_known a j, version_known b j) of
         (None, v) \<Rightarrow> v | (v, None) \<Rightarrow> v | (Some v, Some w) \<Rightarrow> Some (max v w))" for j
    unfolding assms(5) by (rule version_pull [OF inv own(2)])
  have vb: "version_known b' j = (case (version_known b j, version_known a' j) of
         (None, v) \<Rightarrow> v | (v, None) \<Rightarrow> v | (Some v, Some w) \<Rightarrow> Some (max v w))" for j
    unfolding assms(6) by (rule version_pull [OF inv(2) inv'(1) own'])
  show same: "version_known a' j = version_known b' j" for j
    unfolding vb va by (auto simp: max_def split: option.splits)
  show "version_known a' i =
      (case (version_known a i, version_known b i) of
         (None, v) \<Rightarrow> v | (v, None) \<Rightarrow> v | (Some v, Some w) \<Rightarrow> Some (max v w))" by (rule va)
  show "mm_local_record a' = mm_local_record a" "mm_local_record b' = mm_local_record b"
    using assms by simp_all
  have "known b' j = Some r \<Longrightarrow> \<exists>e. known a' j = Some e \<and> gr_version r \<le> gr_version e"
    and "known a' j = Some r \<Longrightarrow> \<exists>e. known b' j = Some e \<and> gr_version r \<le> gr_version e" for j r
    using same [of j] by (auto simp: version_known_def map_option_eq_Some dest: sym)
  then show "membership_delta_for hex (digest_entries hex a') b' = Delta gossip_payload_version []"
    and "membership_delta_for hex (digest_entries hex b') a' = Delta gossip_payload_version []"
    using inv' by (simp_all add: delta_message delta_empty_iff)
qed

section \<open>A network of relays\<close>

text \<open>
  All relays together, with every message sent (it may be lost, delayed, repeated and delivered to anyone) and every
  state of a local record. A seed is any record of the registry.
\<close>

record network =
  nw_nodes :: "runtime_id \<Rightarrow> membership option"
  nw_messages :: "gossip_message set"
  nw_published :: "gossip_record set"

abbreviation node_set :: "runtime_id \<Rightarrow> membership \<Rightarrow> network \<Rightarrow> network" where
  "node_set i m nw \<equiv> nw\<lparr>nw_nodes := (nw_nodes nw)(i \<mapsto> m)\<rparr>"

inductive mesh_step :: "('pk, 'sig) attest_lib \<Rightarrow> network \<Rightarrow> network \<Rightarrow> bool" for lib where
  boot: "nw_nodes nw i = None \<Longrightarrow> r = (gossip_record_new now i addrs proto)\<lparr>gr_capabilities := caps\<rparr> \<Longrightarrow>
    mesh_step lib nw (node_set i (with_expected_relay_pubkey pk (membership_new r)) nw\<lparr>nw_published := insert r (nw_published nw)\<rparr>)"
| tick: "nw_nodes nw i = Some m \<Longrightarrow> update_local now (\<lambda>r. r) m = (r, m') \<Longrightarrow>
    mesh_step lib nw (node_set i m' nw\<lparr>nw_published := insert r (nw_published nw)\<rparr>)"
| drain: "nw_nodes nw i = Some m \<Longrightarrow> begin_drain now m = m' \<Longrightarrow>
    mesh_step lib nw (node_set i m' nw\<lparr>nw_published := insert (mm_local_record m') (nw_published nw)\<rparr>)"
| send_digest: "nw_nodes nw i = Some m \<Longrightarrow>
    mesh_step lib nw (nw\<lparr>nw_messages := insert (membership_digest (al_hex lib) m) (nw_messages nw)\<rparr>)"
| answer: "nw_nodes nw i = Some m \<Longrightarrow> Digest v es \<in> nw_messages nw \<Longrightarrow>
    mesh_step lib nw (nw\<lparr>nw_messages := insert (membership_delta_for (al_hex lib) es m) (nw_messages nw)\<rparr>)"
| receive: "nw_nodes nw i = Some m \<Longrightarrow> Delta v rs \<in> nw_messages nw \<Longrightarrow>
    mesh_step lib nw (node_set i (apply_records (al_hex lib) rs m) nw)"
| seed: "nw_nodes nw i = Some m \<Longrightarrow> mesh_step lib nw (node_set i (apply_ready_records lib seeds m) nw)"
| connection: "nw_nodes nw i = Some m \<Longrightarrow> mesh_step lib nw (node_set i (mark_connection_state j cs m) nw)"
| count: "nw_nodes nw i = Some m \<Longrightarrow> mesh_step lib nw (node_set i (update_peer_counters j f m) nw)"

definition empty_network :: network where
  "empty_network = \<lparr>nw_nodes = \<lambda>_. None, nw_messages = {}, nw_published = {}\<rparr>"

text \<open>A record is a hint of the registry, with version 1, or a published state of its relay.\<close>

definition genuine :: "network \<Rightarrow> gossip_record \<Rightarrow> bool" where
  "genuine nw r \<longleftrightarrow> gr_version r = 1 \<or> r \<in> nw_published nw"

definition network_inv :: "network \<Rightarrow> bool" where
  "network_inv nw \<longleftrightarrow>
    (\<forall>i m. nw_nodes nw i = Some m \<longrightarrow>
       membership_inv m \<and> mm_local_runtime_id m = i \<and> mm_local_record m \<in> nw_published nw \<and>
       (\<forall>j r. known m j = Some r \<longrightarrow> genuine nw r)) \<and>
    (\<forall>v rs r. Delta v rs \<in> nw_messages nw \<and> r \<in> set rs \<longrightarrow> genuine nw r) \<and>
    (\<forall>r \<in> nw_published nw. 1 \<le> gr_version r \<and>
       (\<exists>m. nw_nodes nw (gr_runtime_id r) = Some m \<and> gr_version r \<le> gr_version (mm_local_record m))) \<and>
    (\<forall>r \<in> nw_published nw. \<forall>r' \<in> nw_published nw.
       gr_runtime_id r = gr_runtime_id r' \<and> gr_version r = gr_version r' \<and> gr_version r \<noteq> - 1 \<longrightarrow> r = r')"

lemma network_invD:
  assumes "network_inv nw"
  shows node_inv: "nw_nodes nw i = Some m \<Longrightarrow> membership_inv m"
    and node_id: "nw_nodes nw i = Some m \<Longrightarrow> mm_local_runtime_id m = i"
    and node_published: "nw_nodes nw i = Some m \<Longrightarrow> mm_local_record m \<in> nw_published nw"
    and known_genuine: "nw_nodes nw i = Some m \<Longrightarrow> known m j = Some r \<Longrightarrow> genuine nw r"
    and delta_genuine: "Delta v rs \<in> nw_messages nw \<Longrightarrow> r \<in> set rs \<Longrightarrow> genuine nw r"
    and published_pos: "r \<in> nw_published nw \<Longrightarrow> 1 \<le> gr_version r"
    and published_owner: "r \<in> nw_published nw \<Longrightarrow>
       \<exists>m. nw_nodes nw (gr_runtime_id r) = Some m \<and> gr_version r \<le> gr_version (mm_local_record m)"
    and published_unique: "r \<in> nw_published nw \<Longrightarrow> r' \<in> nw_published nw \<Longrightarrow>
       gr_runtime_id r = gr_runtime_id r' \<Longrightarrow> gr_version r = gr_version r' \<Longrightarrow> gr_version r \<noteq> - 1 \<Longrightarrow> r = r'"
  using assms unfolding network_inv_def by blast+

lemma network_invI:
  assumes "\<And>i m. nw_nodes nw i = Some m \<Longrightarrow> membership_inv m"
    and "\<And>i m. nw_nodes nw i = Some m \<Longrightarrow> mm_local_runtime_id m = i"
    and "\<And>i m. nw_nodes nw i = Some m \<Longrightarrow> mm_local_record m \<in> nw_published nw"
    and "\<And>i m j r. nw_nodes nw i = Some m \<Longrightarrow> known m j = Some r \<Longrightarrow> genuine nw r"
    and "\<And>v rs r. Delta v rs \<in> nw_messages nw \<Longrightarrow> r \<in> set rs \<Longrightarrow> genuine nw r"
    and "\<And>r. r \<in> nw_published nw \<Longrightarrow> 1 \<le> gr_version r"
    and "\<And>r. r \<in> nw_published nw \<Longrightarrow>
       \<exists>m. nw_nodes nw (gr_runtime_id r) = Some m \<and> gr_version r \<le> gr_version (mm_local_record m)"
    and "\<And>r r'. r \<in> nw_published nw \<Longrightarrow> r' \<in> nw_published nw \<Longrightarrow>
       gr_runtime_id r = gr_runtime_id r' \<Longrightarrow> gr_version r = gr_version r' \<Longrightarrow> gr_version r \<noteq> - 1 \<Longrightarrow> r = r'"
  shows "network_inv nw"
  unfolding network_inv_def using assms by blast

subsection \<open>What each operation does to what is known\<close>

lemma saturating_incr_less: "v \<noteq> - 1 \<Longrightarrow> v < saturating_incr v"
proof -
  assume "v \<noteq> - 1"
  then have "1 + v \<noteq> 0" by (metis add_eq_0_iff)
  then have "unat (1 + v) = Suc (unat v)" by (rule unatSuc)
  then have "v < v + 1" by (simp add: word_less_nat_alt add.commute)
  then show ?thesis using \<open>v \<noteq> - 1\<close> by (simp add: saturating_incr_def)
qed

lemma saturating_incr_le: "v \<le> saturating_incr v"
  using saturating_incr_less [of v] by (cases "v = - 1") (auto simp: saturating_incr_def)

lemma known_apply_records_cases:
  "known (apply_records hex rs m) j = Some r \<Longrightarrow> known m j = Some r \<or> r \<in> set rs"
proof (induction rs arbitrary: m)
  case (Cons r' rs)
  from Cons.IH [of "snd (apply_gossip_record hex r' m)"] Cons.prems show ?case
    by (cases "known m (gr_runtime_id r')") (auto simp: known_apply_gossip_record split: if_splits)
qed simp

lemma apply_ready_record_local [simp]:
  "mm_local_runtime_id (apply_ready_record lib now ready m) = mm_local_runtime_id m"
  "mm_local_record (apply_ready_record lib now ready m) = mm_local_record m"
  by (auto simp: apply_ready_record_def Let_def split: sum.splits)

lemma known_foreign [simp]: "known (m\<lparr>mm_foreign_relay_rejections := n\<rparr>) = known m"
  by (rule ext) (simp add: known_def)

lemma membership_inv_foreign [simp]: "membership_inv (m\<lparr>mm_foreign_relay_rejections := n\<rparr>) = membership_inv m"
  by (simp add: membership_inv_def)

lemma apply_ready_record_inv [inv_intros]: "membership_inv m \<Longrightarrow> membership_inv (apply_ready_record lib now ready m)"
  by (auto simp: apply_ready_record_def Let_def apply_gossip_record_inv split: sum.splits)

lemma known_apply_ready_record:
  "known (apply_ready_record lib now ready m) j = Some r \<Longrightarrow> known m j = Some r \<or> gr_version r = 1"
  by (cases "known m (rr_runtime_id ready)")
    (auto simp: apply_ready_record_def Let_def known_apply_gossip_record gossip_record_new_def split: sum.splits if_splits)

lemma apply_ready_records_simps [simp]:
  "apply_ready_records lib [] m = m"
  "apply_ready_records lib ((now, ready) # rest) m = apply_ready_records lib rest (apply_ready_record lib now ready m)"
  by (simp_all add: apply_ready_records_def)

lemma apply_ready_records_local [simp]:
  "mm_local_runtime_id (apply_ready_records lib seeds m) = mm_local_runtime_id m"
  "mm_local_record (apply_ready_records lib seeds m) = mm_local_record m"
  by (induction seeds arbitrary: m) auto

lemma apply_ready_records_inv [inv_intros]: "membership_inv m \<Longrightarrow> membership_inv (apply_ready_records lib seeds m)"
  by (induction seeds arbitrary: m) (auto simp: apply_ready_record_inv)

lemma known_apply_ready_records:
  "known (apply_ready_records lib seeds m) j = Some r \<Longrightarrow> known m j = Some r \<or> gr_version r = 1"
proof (induction seeds arbitrary: m)
  case (Cons s seeds)
  obtain now ready where "s = (now, ready)" by (cases s)
  with Cons.IH [of "apply_ready_record lib now ready m"] Cons.prems known_apply_ready_record show ?case by fastforce
qed simp

lemma update_local_known:
  assumes "update_local now f m = (r, m')"
  shows "known m' = (known m)(mm_local_runtime_id m \<mapsto> r)" and "mm_local_record m' = r"
    and "mm_local_runtime_id m' = mm_local_runtime_id m"
    and "gr_version r = saturating_incr (gr_version (f (mm_local_record m)))"
    and "gr_runtime_id r = gr_runtime_id (f (mm_local_record m))"
    and "mm_peers m' = mm_peers m"
  using assms by (auto simp: update_local_def Let_def known_def)

lemma update_local_inv [inv_intros]:
  assumes "membership_inv m" "update_local now f m = (r, m')" "gr_runtime_id (f (mm_local_record m)) = mm_local_runtime_id m"
  shows "membership_inv m'"
  using assms(1,3) update_local_known [OF assms(2)] by (simp add: membership_inv_def)

lemma map_entry_known:
  assumes "\<And>p. pr_record (f p) = pr_record p"
  shows "known (m\<lparr>mm_peers := AList.map_entry j f (mm_peers m)\<rparr>) = known m"
  using assms by (auto simp: known_def map_of_map_entry fun_eq_iff split: option.splits)

lemma map_entry_inv:
  assumes "membership_inv m" "\<And>p. pr_record (f p) = pr_record p"
  shows "membership_inv (m\<lparr>mm_peers := AList.map_entry j f (mm_peers m)\<rparr>)"
proof -
  have "fst ` set (AList.map_entry j f (mm_peers m)) = fst ` set (mm_peers m)" by (rule dom_map_entry)
  moreover have "gr_runtime_id (pr_record p) = i" if "(i, p) \<in> set (AList.map_entry j f (mm_peers m))" for i p
    using that assms peer_id [OF assms(1)] by (auto simp: alist_map_entry_map [OF peers_distinct [OF assms(1)]] split: if_splits)
  ultimately show ?thesis
    using assms(1) by (auto simp: membership_inv_def map_entry_keys)
qed

lemma mark_connection_state_keeps [simp]:
  "known (mark_connection_state j cs m) = known m"
  "mm_local_runtime_id (mark_connection_state j cs m) = mm_local_runtime_id m"
  "mm_local_record (mark_connection_state j cs m) = mm_local_record m"
  "membership_inv m \<Longrightarrow> membership_inv (mark_connection_state j cs m)"
  by (simp_all add: mark_connection_state_def map_entry_known map_entry_inv)

lemma update_peer_counters_keeps [simp]:
  "known (update_peer_counters j f m) = known m"
  "mm_local_runtime_id (update_peer_counters j f m) = mm_local_runtime_id m"
  "mm_local_record (update_peer_counters j f m) = mm_local_record m"
  "membership_inv m \<Longrightarrow> membership_inv (update_peer_counters j f m)"
  by (simp_all add: update_peer_counters_def map_entry_known map_entry_inv)

subsection \<open>The network keeps its invariant\<close>

lemma node_step_inv:
  assumes nw: "network_inv nw" and i: "nw_nodes nw i = Some m"
    and m': "membership_inv m'" "mm_local_runtime_id m' = mm_local_runtime_id m" "mm_local_record m' = mm_local_record m"
    and known: "\<And>j r. known m' j = Some r \<Longrightarrow> known m j = Some r \<or> genuine nw r"
  shows "network_inv (node_set i m' nw)"
proof (rule network_invI, goal_cases)
  case (4 k n j r)
  then have "genuine nw r"
    using known [of j r] known_genuine [OF nw i, of j r] known_genuine [OF nw, of k n j r] by (auto split: if_splits)
  then show ?case by (simp add: genuine_def)
next
  case (5 v rs r)
  then show ?case using delta_genuine [OF nw] by (auto simp: genuine_def)
next
  case (7 r)
  then show ?case using published_owner [OF nw, of r] m' i by auto
qed (use m' i node_inv [OF nw] node_id [OF nw] node_published [OF nw] published_pos [OF nw] published_unique [OF nw]
      in \<open>auto split: if_splits\<close>)

lemma message_step_inv:
  assumes nw: "network_inv nw" and "\<And>v rs r. msg = Delta v rs \<Longrightarrow> r \<in> set rs \<Longrightarrow> genuine nw r"
  shows "network_inv (nw\<lparr>nw_messages := insert msg (nw_messages nw)\<rparr>)"
proof (rule network_invI, goal_cases)
  case (4 i m j r)
  then show ?case using known_genuine [OF nw, of i m j r] by (simp add: genuine_def)
next
  case (5 v rs r)
  then show ?case using assms(2) [of v rs r] delta_genuine [OF nw, of v rs r] by (auto simp: genuine_def)
next
  case (7 r)
  then show ?case using published_owner [OF nw, of r] by simp
next
  case (8 r r')
  then show ?case using published_unique [OF nw, of r r'] by simp
qed (use node_inv [OF nw] node_id [OF nw] node_published [OF nw] published_pos [OF nw] in simp_all)

text \<open>A relay publishes a record newer than all it published before.\<close>

lemma publish_step_inv:
  assumes nw: "network_inv nw"
    and m': "membership_inv m'" "mm_local_runtime_id m' = i" "mm_local_record m' = r" "1 \<le> gr_version r"
    and fresh: "\<And>r'. r' \<in> nw_published nw \<Longrightarrow> gr_runtime_id r' = i \<Longrightarrow>
      gr_version r' < gr_version r \<or> gr_version r' = - 1 \<and> gr_version r = - 1"
    and known: "\<And>j s. known m' j = Some s \<Longrightarrow> s = r \<or> genuine nw s"
  shows "network_inv (node_set i m' nw\<lparr>nw_published := insert r (nw_published nw)\<rparr>)"
proof (rule network_invI, goal_cases)
  case (4 k n j s)
  then show ?case
    using known [of j s] known_genuine [OF nw, of k n j s] by (auto simp: genuine_def split: if_splits)
next
  case (5 v rs s)
  then show ?case using delta_genuine [OF nw] by (auto simp: genuine_def)
next
  case (7 s)
  have "gr_runtime_id r = i" using m' local_id by fastforce
  with 7 show ?case using published_owner [OF nw, of s] m' fresh [of s] by auto
next
  case (8 s s')
  have r: "gr_runtime_id r = i" using m' local_id by fastforce
  have "s = r \<or> s \<in> nw_published nw" "s' = r \<or> s' \<in> nw_published nw" using 8 by auto
  then show ?case
    using r 8(3-5) published_unique [OF nw, of s s'] fresh [of s] fresh [of s'] by (metis order_less_irrefl)
qed (use m' node_inv [OF nw] node_id [OF nw] node_published [OF nw] published_pos [OF nw] in \<open>auto split: if_splits\<close>)

lemma local_update_inv:
  assumes nw: "network_inv nw" and i: "nw_nodes nw i = Some m" and u: "update_local now f m = (r, m')"
    and f: "gr_runtime_id (f (mm_local_record m)) = gr_runtime_id (mm_local_record m)"
      "gr_version (f (mm_local_record m)) = gr_version (mm_local_record m)"
  shows "network_inv (node_set i m' nw\<lparr>nw_published := insert r (nw_published nw)\<rparr>)"
proof (rule publish_step_inv [OF nw])
  note k = update_local_known [OF u]
  note m = node_inv [OF nw i] node_id [OF nw i]
  show "membership_inv m'"
    by (rule update_local_inv [OF m(1) u]) (simp add: f local_id [OF m(1)])
  show "mm_local_runtime_id m' = i" "mm_local_record m' = r" using k m by simp_all
  show "1 \<le> gr_version r"
    using published_pos [OF nw node_published [OF nw i]] saturating_incr_le [of "gr_version (mm_local_record m)"] k(4) f(2)
    by (simp add: order_trans)
  show "gr_version r' < gr_version r \<or> gr_version r' = - 1 \<and> gr_version r = - 1"
    if "r' \<in> nw_published nw" "gr_runtime_id r' = i" for r'
  proof (cases "gr_version (mm_local_record m) = - 1")
    case True
    then have "gr_version r = - 1" using k(4) f(2) by (simp add: saturating_incr_def)
    then show ?thesis using word_order.not_eq_extremum [of "gr_version r'"] by auto
  next
    case False
    have "gr_version r' \<le> gr_version (mm_local_record m)" using published_owner [OF nw that(1)] that(2) i by auto
    then show ?thesis using saturating_incr_less [OF False] k(4) f(2) by auto
  qed
  show "s = r \<or> genuine nw s" if "known m' j = Some s" for j s
    using that known_genuine [OF nw i, of j s] by (auto simp: k(1) split: if_splits)
qed

lemma begin_drain_local_update:
  "begin_drain now m = m' \<Longrightarrow> \<exists>r. update_local now (\<lambda>r. r\<lparr>gr_draining := True\<rparr>) (m\<lparr>mm_draining := True\<rparr>) = (r, m') \<and> mm_local_record m' = r"
  by (auto simp: begin_drain_def update_local_def Let_def)

lemma draining_keeps [simp]:
  "known (m\<lparr>mm_draining := b\<rparr>) = known m" "membership_inv (m\<lparr>mm_draining := b\<rparr>) = membership_inv m"
  by (auto simp: known_def membership_inv_def fun_eq_iff)

lemma boot_membership [simp]:
  "gr_runtime_id r = i \<Longrightarrow> membership_inv (with_expected_relay_pubkey pk (membership_new r))"
  "mm_local_runtime_id (with_expected_relay_pubkey pk (membership_new r)) = gr_runtime_id r"
  "mm_local_record (with_expected_relay_pubkey pk (membership_new r)) = r"
  "known (with_expected_relay_pubkey pk (membership_new r)) = [gr_runtime_id r \<mapsto> r]"
  by (auto simp: with_expected_relay_pubkey_def membership_new_def membership_inv_def known_def fun_eq_iff)

lemma mesh_step_inv:
  assumes "network_inv nw" and "mesh_step lib nw nw'"
  shows "network_inv nw'"
  using assms(2,1)
proof cases
  case (boot i r now addrs proto caps pk)
  have none: "r' \<in> nw_published nw \<Longrightarrow> gr_runtime_id r' \<noteq> i" for r'
    using published_owner [OF assms(1), of r'] boot(2) by auto
  show ?thesis unfolding boot(1)
    by (rule publish_step_inv [OF assms(1)])
      (use boot(3) none in \<open>auto simp: gossip_record_new_def split: if_splits\<close>)
next
  case (tick i m now r m')
  show ?thesis unfolding tick(1) by (rule local_update_inv [OF assms(1) tick(2,3)]) simp_all
next
  case (drain i m now m')
  obtain r where r: "update_local now (\<lambda>r. r\<lparr>gr_draining := True\<rparr>) (m\<lparr>mm_draining := True\<rparr>) = (r, m')" "mm_local_record m' = r"
    using begin_drain_local_update [OF drain(3)] by blast
  have nw: "network_inv (node_set i (m\<lparr>mm_draining := True\<rparr>) nw)"
    by (rule node_step_inv [OF assms(1) drain(2)]) (simp_all add: node_inv [OF assms(1) drain(2)])
  from local_update_inv [OF nw _ r(1), of i] show ?thesis unfolding drain(1) r(2) by simp
next
  case (send_digest i m)
  show ?thesis unfolding send_digest(1) by (rule message_step_inv [OF assms(1)]) (simp add: digest_message)
next
  case (answer i m v es)
  have "genuine nw r" if "r \<in> set (delta_records (al_hex lib) es m)" for r
    using that known_genuine [OF assms(1) answer(2), of "gr_runtime_id r" r]
    by (simp add: set_delta_records membership_records_iff [OF node_inv [OF assms(1) answer(2)]])
  then show ?thesis unfolding answer(1) by (intro message_step_inv [OF assms(1)]) (simp add: delta_message)
next
  case (receive i m v rs)
  show ?thesis unfolding receive(1)
  proof (rule node_step_inv [OF assms(1) receive(2)])
    show "known m j = Some r \<or> genuine nw r" if "known (apply_records (al_hex lib) rs m) j = Some r" for j r
      using known_apply_records_cases [OF that] delta_genuine [OF assms(1) receive(3), of r] by blast
  qed (simp_all add: apply_records_inv node_inv [OF assms(1) receive(2)])
next
  case (seed i m seeds)
  show ?thesis unfolding seed(1)
  proof (rule node_step_inv [OF assms(1) seed(2)])
    show "known m j = Some r \<or> genuine nw r" if "known (apply_ready_records lib seeds m) j = Some r" for j r
      using known_apply_ready_records [OF that] by (auto simp: genuine_def)
  qed (simp_all add: apply_ready_records_inv node_inv [OF assms(1) seed(2)])
next
  case (connection i m j cs)
  show ?thesis unfolding connection(1)
    by (rule node_step_inv [OF assms(1) connection(2)]) (simp_all add: node_inv [OF assms(1) connection(2)])
next
  case (count i m j f)
  show ?thesis unfolding count(1)
    by (rule node_step_inv [OF assms(1) count(2)]) (simp_all add: node_inv [OF assms(1) count(2)])
qed

interpretation mesh: invariant_system "\<lambda>nw. nw = empty_network" "mesh_step lib" network_inv for lib
proof
  show "network_inv nw" if "nw = empty_network" for nw
    by (rule network_invI) (simp_all add: that empty_network_def)
qed (rule mesh_step_inv)


text \<open>
  C16. Gossip converges. In every reachable network one exchange in each direction leaves two relays with the
  same version of every record, the larger of the two they had, with the same record unless it is a
  first hint, with their own records untouched and nothing left to send either way.
\<close>

theorem gossip_converges:
  assumes "(mesh_step lib)\<^sup>*\<^sup>* empty_network nw"
    and i: "nw_nodes nw i = Some a" and j: "nw_nodes nw j = Some b"
    and "a' = pull hex a b" and "b' = pull hex b a'"
  shows "version_known a' k = version_known b' k \<and>
    (version_known a' k =
      (case (version_known a k, version_known b k) of
         (None, v) \<Rightarrow> v | (v, None) \<Rightarrow> v | (Some v, Some w) \<Rightarrow> Some (max v w))) \<and>
    (version_known a' k = Some v \<longrightarrow> v \<noteq> 1 \<longrightarrow> v \<noteq> - 1 \<longrightarrow> known a' k = known b' k) \<and>
    mm_local_record a' = mm_local_record a \<and>
    mm_local_record b' = mm_local_record b \<and>
    membership_delta_for hex (digest_entries hex a') b' = Delta gossip_payload_version [] \<and>
    membership_delta_for hex (digest_entries hex b') a' = Delta gossip_payload_version []"
proof (intro conjI impI)
  have inv: "network_inv nw" by (rule mesh.reachable_inv [OF refl assms(1)])
  note ia = node_inv [OF inv i] and ib = node_inv [OF inv j]
  have ahead: "gr_version r \<le> gr_version (mm_local_record owner)"
    if "nw_nodes nw x = Some m" "known m y = Some r" "nw_nodes nw y = Some owner" for x y m r owner
    using known_genuine [OF inv that(1,2)] published_owner [OF inv, of r] that(3)
      published_pos [OF inv node_published [OF inv that(3)]] known_id [OF node_inv [OF inv that(1)] that(2)]
    by (auto simp: genuine_def)
  have own: "not_ahead a b" "not_ahead b a"
    unfolding not_ahead_def node_id [OF inv i] node_id [OF inv j] using ahead [OF i _ j] ahead [OF j _ i] by blast+
  note ex = exchange_converges [OF ia ib own assms(4,5)]
  show "version_known a' k = version_known b' k" by (rule ex(1))
  show "version_known a' k =
      (case (version_known a k, version_known b k) of
         (None, v) \<Rightarrow> v | (v, None) \<Rightarrow> v | (Some v, Some w) \<Rightarrow> Some (max v w))" by (rule ex(2))
  show "mm_local_record a' = mm_local_record a" "mm_local_record b' = mm_local_record b"
    "membership_delta_for hex (digest_entries hex a') b' = Delta gossip_payload_version []"
    "membership_delta_for hex (digest_entries hex b') a' = Delta gossip_payload_version []"
    by (rule ex)+
  have inv': "membership_inv a'" using ia assms(4) by (simp add: pull_inv)
  have from_a: "known a' k = Some r \<Longrightarrow> genuine nw r" for r
    using known_pull [OF ia ib, of hex k] known_genuine [OF inv i, of k r] known_genuine [OF inv j, of k r] assms(4)
    by (cases "known a k") (auto split: option.splits if_splits)
  have from_b: "known b' k = Some r \<Longrightarrow> genuine nw r" for r
    using known_pull [OF ib inv', of hex k] known_genuine [OF inv j, of k r] from_a [of r] assms(5)
    by (cases "known b k") (auto split: option.splits if_splits)
  show "known a' k = known b' k" if v: "version_known a' k = Some v" "v \<noteq> 1" "v \<noteq> - 1"
  proof -
    obtain r where r: "known a' k = Some r" "gr_version r = v" using v(1) by (auto simp: version_known_def)
    obtain s where s: "known b' k = Some s" "gr_version s = v" using v(1) [unfolded ex(1) [of k]] by (auto simp: version_known_def)
    have "membership_inv b'" using ib assms(5) by (simp add: pull_inv)
    then have "gr_runtime_id r = gr_runtime_id s" using known_id [OF inv' r(1)] known_id [OF _ s(1)] by simp
    then have "r = s"
      using published_unique [OF inv, of r s] from_a [OF r(1)] from_b [OF s(1)] r(2) s(2) v(2,3) by (auto simp: genuine_def)
    then show ?thesis using r s by simp
  qed
qed

definition sample_attest_lib :: "(string, string) attest_lib" where
  "sample_attest_lib =
    \<lparr>al_hex = map (\<lambda>b. char_of (unat b)), al_sha256 = map (\<lambda>c. of_char c),
     al_pubkey_from_hex = Inr, al_pubkey_to_hex = id, al_xonly = Inr, al_signature = Inr,
     al_verify = (\<lambda>sig msg pk. if sig = pk then Inr () else Inl ''bad signature'')\<rparr>"

text \<open>Two relays, of which the second has sent a heartbeat.\<close>

definition sample_node :: "8 word \<Rightarrow> membership" where
  "sample_node b = with_expected_relay_pubkey ''relay'' (membership_new (gossip_record_new 0 [b] [] 1\<lparr>gr_capabilities := []\<rparr>))"

definition sample_network :: network where
  "sample_network =
    (let r = snd (update_local 5 (\<lambda>r. r) (sample_node 2))
     in \<lparr>nw_nodes = [[1] \<mapsto> sample_node 1, [2] \<mapsto> r], nw_messages = {},
         nw_published = {mm_local_record r, mm_local_record (sample_node 2), mm_local_record (sample_node 1)}\<rparr>)"

lemma sample_network_reachable: "(mesh_step lib)\<^sup>*\<^sup>* empty_network sample_network"
proof -
  let ?n1 = "node_set [1] (sample_node 1) empty_network\<lparr>nw_published := {mm_local_record (sample_node 1)}\<rparr>"
  let ?n2 = "node_set [2] (sample_node 2) ?n1\<lparr>nw_published := {mm_local_record (sample_node 2), mm_local_record (sample_node 1)}\<rparr>"
  have "mesh_step lib empty_network ?n1"
    using mesh_step.boot [where nw = empty_network and i = "[1]" and now = 0 and addrs = "[]" and proto = 1 and caps = "[]" and
        pk = "''relay''" and lib = lib, OF _ refl]
    by (simp add: sample_node_def empty_network_def)
  moreover have "mesh_step lib ?n1 ?n2"
    using mesh_step.boot [where nw = ?n1 and i = "[2]" and now = 0 and addrs = "[]" and proto = 1 and caps = "[]" and
        pk = "''relay''" and lib = lib, OF _ refl]
    by (simp add: sample_node_def empty_network_def)
  moreover have "mesh_step lib ?n2 sample_network"
    using mesh_step.tick [where nw = ?n2 and i = "[2]" and m = "sample_node 2" and now = 5 and lib = lib and
        r = "fst (update_local 5 (\<lambda>r. r) (sample_node 2))" and m' = "snd (update_local 5 (\<lambda>r. r) (sample_node 2))"] update_local_known(2) [OF prod.collapse [symmetric], of 5 "\<lambda>r. r" "sample_node 2"]
    by (simp add: sample_network_def Let_def empty_network_def)
  ultimately show ?thesis by (meson converse_rtranclp_into_rtranclp rtranclp.rtrancl_refl)
qed

theorem gossip_converges_witness:
  "\<exists>a b. nw_nodes sample_network [1] = Some a \<and> nw_nodes sample_network [2] = Some b \<and>
    version_known a [2] = None \<and> version_known (pull (\<lambda>_. []) a b) [2] = Some 2 \<and>
    known (pull (\<lambda>_. []) a b) [2] = known (pull (\<lambda>_. []) b (pull (\<lambda>_. []) a b)) [2]"
proof -
  let ?a = "sample_node 1" and ?b = "snd (update_local 5 (\<lambda>r. r) (sample_node 2))"
  have a: "nw_nodes sample_network [1] = Some ?a" and b: "nw_nodes sample_network [2] = Some ?b"
    by (simp_all add: sample_network_def Let_def)
  have va: "version_known ?a [2] = None" and vb: "version_known ?b [2] = Some 2"
    by (simp_all add: version_known_def known_def sample_node_def with_expected_relay_pubkey_def membership_new_def
        gossip_record_new_def update_local_def saturating_incr_def Let_def)
  have v: "version_known (pull (\<lambda>_. []) ?a ?b) [2] = Some 2"
    using gossip_converges [OF sample_network_reachable a b refl refl, where k = "[2]" and hex = "\<lambda>_. []" and v = 2, THEN conjunct2, THEN conjunct1] va vb by simp
  show ?thesis
    using a b va v gossip_converges [OF sample_network_reachable a b refl refl, where k = "[2]" and hex = "\<lambda>_. []" and v = 2]
    by simp
qed


section \<open>Refinement of the scuttlebutt state\<close>

definition scuttlebutt :: "membership \<Rightarrow> gossip_state" where
  "scuttlebutt m = map (\<lambda>(i, p). (i, pr_record p)) (mm_peers m) @ [(mm_local_runtime_id m, mm_local_record m)]"

lemma map_of_scuttlebutt:
  assumes "membership_inv m"
  shows "map_of (scuttlebutt m) i = known m i"
proof -
  have none: "map_of (map (\<lambda>(i, p). (i, pr_record p)) (mm_peers m)) (mm_local_runtime_id m) = None"
    using local_not_peer [OF assms] by (force simp: map_of_eq_None_iff)
  have "map_of (map (\<lambda>(i, p). (i, pr_record p)) (mm_peers m)) i = map_option pr_record (map_of (mm_peers m) i)"
    by (simp add: map_of_map)
  then show ?thesis using none by (auto simp: scuttlebutt_def map_add_def known_def split: option.splits)
qed

lemma apply_delta_known:
  assumes "gr_runtime_id r \<noteq> mm_local_runtime_id m" "\<And>i. map_of s i = known m i"
  shows "fst (apply_delta [r] s) = (if fst (apply_gossip_record hex r m) then [gr_runtime_id r] else [])"
    and "map_of (snd (apply_delta [r] s)) i = known (snd (apply_gossip_record hex r m)) i"
  using assms unfolding known_apply_gossip_record
  by (auto simp: known_def apply_gossip_record_def Let_def update_conv' not_le not_less split: option.splits)

lemma apply_delta_Cons:
  "fst (apply_delta (r # rs) s) = fst (apply_delta [r] s) @ fst (apply_delta rs (snd (apply_delta [r] s)))"
  "snd (apply_delta (r # rs) s) = snd (apply_delta rs (snd (apply_delta [r] s)))"
  by (auto split: prod.splits option.splits)

lemma apply_delta_refines:
  assumes "\<And>i. map_of s i = known m i" and "\<forall>r \<in> set rs. gr_runtime_id r \<noteq> mm_local_runtime_id m"
  shows "map_of (snd (apply_delta rs s)) i = known (apply_records hex rs m) i"
  using assms
proof (induction rs arbitrary: s m)
  case (Cons r rs)
  have "map_of (snd (apply_delta [r] s)) j = known (snd (apply_gossip_record hex r m)) j" for j
    by (rule apply_delta_known(2)) (use Cons.prems in auto)
  then show ?case
    unfolding apply_delta_Cons(2) [of r rs s] apply_records_simps by (rule Cons.IH) (use Cons.prems in simp)
qed simp

lemma records_scuttlebutt: "map snd (scuttlebutt m) = membership_records m"
  by (auto simp: scuttlebutt_def membership_records_def)

text \<open>
  The membership table implements the scuttlebutt state. Applying the records of a delta that are not
  about the relay itself changes what it knows as \<open>apply_delta\<close> changes the state, and its digests and
  deltas are those of the state; records about the relay itself never change anything.
\<close>

theorem membership_refines_scuttlebutt:
  assumes inv: "membership_inv m"
  shows "gossip_digest hex (scuttlebutt m) = membership_digest hex m"
    and "gossip_delta_for hex es (scuttlebutt m) = membership_delta_for hex es m"
    and "map_of (snd (apply_delta [r \<leftarrow> rs. gr_runtime_id r \<noteq> mm_local_runtime_id m] (scuttlebutt m))) =
         map_of (scuttlebutt (apply_records hex rs m))"
    and "map_of (snd (gossip_update_local now (mm_local_runtime_id m) f (scuttlebutt m))) =
         map_of (scuttlebutt (snd (update_local now f m)))"
proof -
  show "gossip_digest hex (scuttlebutt m) = membership_digest hex m"
    "gossip_delta_for hex es (scuttlebutt m) = membership_delta_for hex es m"
    by (simp_all add: gossip_digest_def membership_digest_def gossip_delta_for_def membership_delta_for_def records_scuttlebutt)
  have filter: "apply_records hex rs m = apply_records hex [r \<leftarrow> rs. gr_runtime_id r \<noteq> mm_local_runtime_id m] m"
  proof (induction rs arbitrary: m)
    case (Cons r rs)
    show ?case
    proof (cases "gr_runtime_id r = mm_local_runtime_id m")
      case True
      then have "snd (apply_gossip_record hex r m) = m" by (simp add: apply_gossip_record_def)
      then show ?thesis using True Cons.IH [of m] by simp
    next
      case False
      then show ?thesis using Cons.IH [of "snd (apply_gossip_record hex r m)"] by simp
    qed
  qed simp
  show "map_of (snd (apply_delta [r \<leftarrow> rs. gr_runtime_id r \<noteq> mm_local_runtime_id m] (scuttlebutt m))) =
         map_of (scuttlebutt (apply_records hex rs m))"
  proof
    fix i
    show "map_of (snd (apply_delta [r \<leftarrow> rs. gr_runtime_id r \<noteq> mm_local_runtime_id m] (scuttlebutt m))) i =
         map_of (scuttlebutt (apply_records hex rs m)) i"
      unfolding map_of_scuttlebutt [OF apply_records_inv [OF inv]] filter
      by (rule apply_delta_refines) (simp_all add: map_of_scuttlebutt [OF inv])
  qed
  show "map_of (snd (gossip_update_local now (mm_local_runtime_id m) f (scuttlebutt m))) =
         map_of (scuttlebutt (snd (update_local now f m)))"
  proof
    fix i
    have none: "map_of (map (\<lambda>(i, p). (i, pr_record p)) (mm_peers m)) (mm_local_runtime_id m) = None"
      using local_not_peer [OF inv] by (force simp: map_of_eq_None_iff)
    show "map_of (snd (gossip_update_local now (mm_local_runtime_id m) f (scuttlebutt m))) i =
         map_of (scuttlebutt (snd (update_local now f m))) i"
      using none by (auto simp: gossip_update_local_def map_of_scuttlebutt [OF inv] update_local_def Let_def update_conv'
          scuttlebutt_def map_add_def split: option.splits)
  qed
qed

theorem membership_refines_scuttlebutt_witness:
  "gossip_digest (\<lambda>_. []) (scuttlebutt (sample_node 1)) = membership_digest (\<lambda>_. []) (sample_node 1)"
  by (rule membership_refines_scuttlebutt(1)) (simp add: sample_node_def gossip_record_new_def)

section \<open>Seeds of the registry\<close>

definition attested :: "('pk, 'sig) attest_lib \<Rightarrow> membership \<Rightarrow> ready_record \<Rightarrow> bool" where
  "attested lib m ready \<longleftrightarrow>
    mm_expected_relay_pubkey m = Some (rr_relay_pubkey ready) \<and> verify_attestation lib ready = Inr ()"

lemma apply_ready_record_expected [simp]:
  "mm_expected_relay_pubkey (apply_ready_record lib now ready m) = mm_expected_relay_pubkey m"
  by (auto simp: apply_ready_record_def Let_def apply_gossip_record_def split: sum.splits option.splits)

lemma has_peer_apply_ready_record:
  "has_peer j (apply_ready_record lib now ready m) \<longleftrightarrow>
    has_peer j m \<or> j \<noteq> mm_local_runtime_id m \<and> rr_runtime_id ready = j \<and> attested lib m ready"
  by (auto simp: has_peer_def apply_ready_record_def attested_def Let_def apply_gossip_record_def gossip_record_new_def
      update_conv' split: sum.splits option.splits)

lemma foreign_apply_ready_record:
  "mm_foreign_relay_rejections (apply_ready_record lib now ready m) =
    mm_foreign_relay_rejections m +
    (if rr_runtime_id ready \<noteq> mm_local_runtime_id m \<and> mm_expected_relay_pubkey m \<noteq> Some (rr_relay_pubkey ready) then 1 else 0)"
  by (auto simp: apply_ready_record_def Let_def apply_gossip_record_def split: sum.splits option.splits)

lemma known_apply_ready_record_keeps:
  "known m j = Some r \<Longrightarrow> 1 \<le> gr_version r \<Longrightarrow> known (apply_ready_record lib now ready m) j = Some r"
  by (auto simp: apply_ready_record_def Let_def known_apply_gossip_record gossip_record_new_def split: sum.splits)

text \<open>
  Seeds are admitted by attestation only. Applying the records of the registry adds exactly the other
  relays whose record names the expected relay key and carries its signature, so a table with no
  expected key admits nobody; every record under another key is counted; what gossip already
  taught is kept.
\<close>

theorem ready_seeds_attested:
  shows "(has_peer j (apply_ready_records lib seeds m) \<longleftrightarrow>
      has_peer j m \<or> j \<noteq> mm_local_runtime_id m \<and> (\<exists>(now, ready) \<in> set seeds. rr_runtime_id ready = j \<and> attested lib m ready)) \<and>
    (mm_expected_relay_pubkey m = None \<longrightarrow> known (apply_ready_records lib seeds m) = known m) \<and>
    mm_foreign_relay_rejections (apply_ready_records lib seeds m) = mm_foreign_relay_rejections m +
      of_nat (length [(now, ready) \<leftarrow> seeds. rr_runtime_id ready \<noteq> mm_local_runtime_id m \<and>
        mm_expected_relay_pubkey m \<noteq> Some (rr_relay_pubkey ready)]) \<and>
    (known m j = Some r \<longrightarrow> 1 \<le> gr_version r \<longrightarrow> known (apply_ready_records lib seeds m) j = Some r)"
proof (intro conjI impI)
  show "has_peer j (apply_ready_records lib seeds m) \<longleftrightarrow>
      has_peer j m \<or> j \<noteq> mm_local_runtime_id m \<and> (\<exists>(now, ready) \<in> set seeds. rr_runtime_id ready = j \<and> attested lib m ready)"
  proof (induction seeds arbitrary: m)
    case (Cons s seeds)
    obtain now ready where s: "s = (now, ready)" by (cases s)
    have "attested lib (apply_ready_record lib now ready m) = attested lib m" by (simp add: attested_def fun_eq_iff)
    then show ?case using Cons.IH [of "apply_ready_record lib now ready m"] has_peer_apply_ready_record [of j lib now ready m]
      by (auto simp: s)
  qed simp
  show "known (apply_ready_records lib seeds m) = known m" if "mm_expected_relay_pubkey m = None"
    using that
  proof (induction seeds arbitrary: m)
    case (Cons s seeds)
    obtain now ready where s: "s = (now, ready)" by (cases s)
    have "known (apply_ready_record lib now ready m) = known m"
      using Cons.prems by (simp add: apply_ready_record_def)
    then show ?case using Cons s by simp
  qed simp
  show "mm_foreign_relay_rejections (apply_ready_records lib seeds m) = mm_foreign_relay_rejections m +
      of_nat (length [(now, ready) \<leftarrow> seeds. rr_runtime_id ready \<noteq> mm_local_runtime_id m \<and>
        mm_expected_relay_pubkey m \<noteq> Some (rr_relay_pubkey ready)])"
  proof (induction seeds arbitrary: m)
    case (Cons s seeds)
    obtain now ready where s: "s = (now, ready)" by (cases s)
    show ?case
      using Cons.IH [of "apply_ready_record lib now ready m"] foreign_apply_ready_record [of lib now ready m]
      by (simp add: s)
  qed simp
  show "known (apply_ready_records lib seeds m) j = Some r" if "known m j = Some r" "1 \<le> gr_version r"
    using that by (induction seeds arbitrary: m) (auto simp: known_apply_ready_record_keeps)
qed

text \<open>The signature is over a text from which the relay and the key can be read back.\<close>

lemma attestation_preimage_inject:
  assumes hex: "\<And>i. CHR 0x0A \<notin> set (al_hex lib i)" "inj (al_hex lib)"
  shows "attestation_preimage lib i pk = attestation_preimage lib j pk' \<longleftrightarrow> i = j \<and> pk = pk'"
proof -
  have split: "xs @ CHR 0x0A # us = ys @ CHR 0x0A # vs \<longleftrightarrow> xs = ys \<and> us = vs"
    if "CHR 0x0A \<notin> set xs" "CHR 0x0A \<notin> set ys" for xs ys us vs :: string
    using that by (auto simp: append_eq_append_conv2 Cons_eq_append_conv append_eq_Cons_conv)
  show ?thesis
    using hex by (auto simp: attestation_preimage_def newline_def split dest: injD)
qed

section \<open>Suspicion\<close>

definition phi_ok :: "phi_accrual \<Rightarrow> bool" where
  "phi_ok p \<longleftrightarrow> (\<forall>d \<in> set (ph_samples p). 0 < d) \<and> length (ph_samples p) \<le> ph_max_samples p \<and> 0 < ph_max_samples p"

lemma phi_ok_default [simp]: "phi_ok phi_default"
  by (simp add: phi_ok_def phi_default_def phi_new_def)

lemma phi_ok_observe [inv_intros]: "phi_ok p \<Longrightarrow> phi_ok (observe beat p)"
  by (auto simp: phi_ok_def observe_def Let_def dest!: in_set_tl split: option.splits)

lemma mean_secs_ge:
  assumes "phi_ok p" "ph_samples p \<noteq> []"
  shows "1 / 1000000000 \<le> mean_secs p"
proof -
  have "of_nat (length ds) * (1 / 1000000000) \<le> sum_list (map secs ds)" if "\<forall>d \<in> set ds. 0 < d" for ds
    using that
  proof (induction ds)
    case (Cons d ds)
    have "1 / 1000000000 \<le> secs d" using Cons.prems by (simp add: secs_def)
    then show ?case using Cons by (simp add: algebra_simps)
  qed simp
  from this [of "ph_samples p"] assms show ?thesis
    by (simp add: mean_secs_def phi_ok_def field_simps)
qed

lemma phi_at_eq:
  assumes "phi_ok p"
  shows "phi_at now p =
    (case ph_last_heartbeat p of
       None \<Rightarrow> None
     | Some prev \<Rightarrow>
         if ph_samples p = [] \<or> now < prev then None else Some ((secs (nat (now - prev)) / mean_secs p) / ln_10))"
proof -
  have "mean_secs p > f64_epsilon" if "ph_samples p \<noteq> []"
  proof -
    have "f64_epsilon < 1 / 1000000000" by (simp add: f64_epsilon_def)
    also have "\<dots> \<le> mean_secs p" by (rule mean_secs_ge [OF assms that])
    finally show ?thesis .
  qed
  then show ?thesis by (auto simp: phi_at_def duration_since_def Let_def split: option.splits)
qed

definition suspicion_inv :: "membership \<Rightarrow> bool" where
  "suspicion_inv m \<longleftrightarrow> (\<forall>(i, p) \<in> set (mm_peers m). phi_ok (pr_phi p))"

lemma suspicion_invD: "suspicion_inv m \<Longrightarrow> map_of (mm_peers m) i = Some p \<Longrightarrow> phi_ok (pr_phi p)"
  by (auto simp: suspicion_inv_def dest: map_of_SomeD)

lemma suspicion_inv_apply [inv_intros]:
  assumes "suspicion_inv m"
  shows "suspicion_inv (snd (apply_gossip_record hex r m))"
proof -
  have "suspicion_inv (m\<lparr>mm_peers := AList.update i p (mm_peers m)\<rparr>)" if "phi_ok (pr_phi p)" for i p
    using assms that alist_update_subset [of i p "mm_peers m"] by (fastforce simp: suspicion_inv_def)
  then show ?thesis
    using assms suspicion_invD [OF assms]
    by (auto simp: apply_gossip_record_def Let_def phi_ok_observe split: option.splits)
qed

lemma suspicion_inv_map_entry:
  assumes "suspicion_inv m" "distinct (map fst (mm_peers m))" "\<And>p. pr_phi (f p) = pr_phi p"
  shows "suspicion_inv (m\<lparr>mm_peers := AList.map_entry j f (mm_peers m)\<rparr>)"
  using assms by (auto simp: suspicion_inv_def alist_map_entry_map split: if_splits)

lemma suspicion_inv_records [inv_intros]: "suspicion_inv m \<Longrightarrow> suspicion_inv (apply_records hex rs m)"
  by (induction rs arbitrary: m) (simp_all add: suspicion_inv_apply)

text \<open>A peer whose last heartbeat is older than the threshold times the mean interval (times \<open>ln 10\<close>).\<close>

definition silent :: "system_time \<Rightarrow> membership \<Rightarrow> peer_state \<Rightarrow> bool" where
  "silent now m peer \<longleftrightarrow>
    (case ph_last_heartbeat (pr_phi peer) of
       None \<Rightarrow> False
     | Some prev \<Rightarrow> ph_samples (pr_phi peer) \<noteq> [] \<and> prev \<le> now \<and>
         mm_phi_suspect_threshold m * ln_10 * mean_secs (pr_phi peer) \<le> secs (nat (now - prev)))"

lemma is_suspect_silent:
  assumes "phi_ok (pr_phi peer)"
  shows "is_suspect now m peer \<longleftrightarrow> silent now m peer"
proof -
  have "0 < ln_10" by (simp add: ln_10_def)
  moreover have "0 < mean_secs (pr_phi peer)" if "ph_samples (pr_phi peer) \<noteq> []"
    using mean_secs_ge [OF assms that] by (rule less_le_trans [rotated]) simp
  ultimately have "t \<le> (e / mean_secs (pr_phi peer)) / ln_10 \<longleftrightarrow> t * ln_10 * mean_secs (pr_phi peer) \<le> e"
    if "ph_samples (pr_phi peer) \<noteq> []" for t e
    using that by (simp add: field_simps)
  then show ?thesis
    by (auto simp: is_suspect_def silent_def phi_at_eq [OF assms] not_less split: option.splits)
qed

lemma silent_mono: "silent now m peer \<Longrightarrow> now \<le> later \<Longrightarrow> silent later m peer"
proof -
  assume s: "silent now m peer" and l: "now \<le> later"
  then obtain prev where prev: "ph_last_heartbeat (pr_phi peer) = Some prev" "prev \<le> now"
    by (auto simp: silent_def split: option.splits)
  then have "secs (nat (now - prev)) \<le> secs (nat (later - prev))" using l by (simp add: secs_def divide_right_mono)
  then show ?thesis using s l prev by (auto simp: silent_def)
qed

text \<open>
  Suspicion. The relays offered for routing are exactly the known ones that are not silent; without a new record
  a relay that is left out stays out; a relay whose heartbeat is ahead of the local clock is
  never left out. The detector keeps this up under any records, with at most 100 positive intervals.
\<close>

theorem suspicion_spec:
  assumes inv: "membership_inv m" "suspicion_inv m"
  shows "(pi_runtime_id ` set (peers now m) = {i. \<exists>p. map_of (mm_peers m) i = Some p \<and> \<not> silent now m p}) \<and>
    (now \<le> later \<longrightarrow> pi_runtime_id ` set (peers later m) \<subseteq> pi_runtime_id ` set (peers now m)) \<and>
    (map_of (mm_peers m) i = Some p \<longrightarrow> ph_last_heartbeat (pr_phi p) = Some beat \<longrightarrow> now < beat \<longrightarrow>
         i \<in> pi_runtime_id ` set (peers now m)) \<and>
    suspicion_inv (snd (apply_gossip_record hex r m))"
proof (intro conjI impI)
  have "pi_runtime_id ` set (peers n m) = {i. \<exists>p. (i, p) \<in> set (mm_peers m) \<and> \<not> is_suspect n m p}" for n
    using peer_id [OF inv(1)] by (force simp: peers_def map_filter_def image_iff split: if_splits)
  moreover have "is_suspect n m p \<longleftrightarrow> silent n m p" if "(i, p) \<in> set (mm_peers m)" for n i p
    by (rule is_suspect_silent) (use inv(2) that in \<open>auto simp: suspicion_inv_def\<close>)
  ultimately have set: "pi_runtime_id ` set (peers n m) = {i. \<exists>p. map_of (mm_peers m) i = Some p \<and> \<not> silent n m p}" for n
    by (auto simp: map_of_eq_Some_iff [OF peers_distinct [OF inv(1)]])
  show "pi_runtime_id ` set (peers now m) = {i. \<exists>p. map_of (mm_peers m) i = Some p \<and> \<not> silent now m p}" by (rule set)
  show "pi_runtime_id ` set (peers later m) \<subseteq> pi_runtime_id ` set (peers now m)" if "now \<le> later"
    unfolding set using silent_mono [OF _ that] by blast
  show "i \<in> pi_runtime_id ` set (peers now m)" if "map_of (mm_peers m) i = Some p"
    "ph_last_heartbeat (pr_phi p) = Some beat" "now < beat"
    unfolding set using that by (auto simp: silent_def)
  show "suspicion_inv (snd (apply_gossip_record hex r m))" by (rule suspicion_inv_apply [OF inv(2)])
qed

text \<open>A relay that sent heartbeats at 0, 1 and 2 seconds.\<close>

definition sample_peer :: peer_state where
  "sample_peer =
    \<lparr>pr_record = gossip_record_new 2000 [2] [] 1,
     pr_phi = \<lparr>ph_samples = [1000000000, 1000000000], ph_last_heartbeat = Some 2000000000, ph_max_samples = 100\<rparr>,
     pr_connection_state = Connected, pr_counters = counters_new ''02''\<rparr>"

definition sample_beats :: membership where
  "sample_beats = (sample_node 1)\<lparr>mm_peers := [([2], sample_peer)]\<rparr>"

theorem suspicion_spec_witness:
  "[2] \<in> pi_runtime_id ` set (peers 3000000000 sample_beats) \<and> [2] \<notin> pi_runtime_id ` set (peers 30000000000 sample_beats)"
proof -
  have sus: "suspicion_inv sample_beats" and inv: "membership_inv sample_beats"
    by (simp_all add: sample_beats_def sample_peer_def sample_node_def suspicion_inv_def phi_ok_def membership_inv_def
        with_expected_relay_pubkey_def membership_new_def gossip_record_new_def)
  show ?thesis
    unfolding suspicion_spec [OF inv sus, THEN conjunct1]
    by (simp add: sample_beats_def sample_peer_def sample_node_def silent_def mean_secs_def secs_def ln_10_def
        with_expected_relay_pubkey_def membership_new_def)
qed

definition sample_ready :: ready_record where
  "sample_ready = \<lparr>rr_runtime_id = [2], rr_runtime_pubkey = al_hex sample_attest_lib [2], rr_relay_pubkey = ''relay'',
     rr_relay_sig = ''relay'', rr_endpoint_addrs = [], rr_proto_version = 1, rr_capabilities = []\<rparr>"

theorem ready_seeds_attested_witness:
  "has_peer [2] (apply_ready_records sample_attest_lib [(0, sample_ready)] (sample_node 1)) \<and>
   known (apply_ready_records sample_attest_lib [(0, sample_ready)] (sample_node 1)) [1] = Some (mm_local_record (sample_node 1)) \<and>
   known (apply_ready_records sample_attest_lib [(0, sample_ready)] (membership_new (gossip_record_new 0 [1] [] 1))) =
     known (membership_new (gossip_record_new 0 [1] [] 1))"
proof -
  have "has_peer [2] (apply_ready_records sample_attest_lib [(0, sample_ready)] (sample_node 1))"
    unfolding ready_seeds_attested [THEN conjunct1]
    by (simp add: attested_def verify_attestation_def verify_attestation_sig_def sample_attest_lib_def sample_node_def
        sample_ready_def with_expected_relay_pubkey_def membership_new_def gossip_record_new_def)
  moreover have "known (sample_node 1) [1] = Some (mm_local_record (sample_node 1))" "1 \<le> gr_version (mm_local_record (sample_node 1))"
    by (simp_all add: sample_node_def known_def with_expected_relay_pubkey_def membership_new_def gossip_record_new_def)
  moreover have "mm_expected_relay_pubkey (membership_new (gossip_record_new 0 [1] [] 1)) = None"
    by (simp add: membership_new_def)
  ultimately show ?thesis using ready_seeds_attested by blast
qed

end
