(* ===== verification/Mesh_Runtime.thy ===== *)
theory Mesh_Runtime
  imports Mesh_Gossip
begin

text \<open>
  \<open>crates/buzz-relay-mesh/src/runtime.rs\<close>: the connections of a relay to the others. Each turn of a loop is a function
  of what the awaited call returned. A call that is awaited in the middle of a function is a parameter
  that returns its result and the state the other tasks leave behind.

  A connection is named by a number. The queue between \<open>control_tx\<close> and its writer task is a bounded channel in a
  list of channels. Calls of the inbound handler are recorded in the order they are made.
\<close>

section \<open>State\<close>

record mesh_peer =
  mp_conn :: nat
  mp_runtime_id :: runtime_id

datatype task = DatagramLoop nat | StreamLoop nat | ControlStream nat

record peer_entry =
  en_peer :: mesh_peer
  en_control_tx :: "nat option"
  en_tasks :: "task list"

datatype inbound = OnDatagram runtime_id mesh_datagram | OnSessionStream runtime_id stream_hello

record mesh_runtime =
  rt_local :: runtime_id
  rt_membership :: membership
  rt_registry :: bool
  rt_peers :: "(runtime_id \<times> peer_entry) list"
  rt_handler :: bool
  rt_tasks :: "task list"
  rt_queues :: "mesh_stream_frame channel list"
  rt_inbound :: "inbound list"

definition control_queue_depth :: nat where
  "control_queue_depth = 64"

definition on_membership :: "(membership \<Rightarrow> membership) \<Rightarrow> mesh_runtime \<Rightarrow> mesh_runtime" where
  "on_membership f rt = rt\<lparr>rt_membership := f (rt_membership rt)\<rparr>"

definition abort_entry :: "peer_entry \<Rightarrow> mesh_runtime \<Rightarrow> mesh_runtime" where
  "abort_entry entry rt = rt\<lparr>rt_tasks := filter (\<lambda>t. t \<notin> set (en_tasks entry)) (rt_tasks rt)\<rparr>"

definition runtime_start :: "runtime_id \<Rightarrow> membership \<Rightarrow> bool \<Rightarrow> mesh_runtime" where
  "runtime_start local membership registry =
    \<lparr>rt_local = local, rt_membership = membership, rt_registry = registry, rt_peers = [], rt_handler = False,
     rt_tasks = [], rt_queues = [], rt_inbound = []\<rparr>"

definition connected_peers :: "mesh_runtime \<Rightarrow> runtime_id list" where
  "connected_peers rt = map fst (rt_peers rt)"

definition set_inbound :: "mesh_runtime \<Rightarrow> mesh_runtime" where
  "set_inbound rt = rt\<lparr>rt_handler := True\<rparr>"

definition runtime_shutdown :: "mesh_runtime \<Rightarrow> mesh_runtime" where
  "runtime_shutdown rt = fold (\<lambda>(_, entry). abort_entry entry) (rt_peers rt) rt\<lparr>rt_peers := []\<rparr>"

section \<open>Connections\<close>

definition new_connection_wins :: "runtime_id \<Rightarrow> runtime_id \<Rightarrow> bool \<Rightarrow> bool" where
  "new_connection_wins local remote new_dialed_by_us = (if local < remote then new_dialed_by_us else \<not> new_dialed_by_us)"

definition new_queue :: "mesh_runtime \<Rightarrow> nat \<times> mesh_runtime" where
  "new_queue rt = (length (rt_queues rt), rt\<lparr>rt_queues := rt_queues rt @ [new_channel]\<rparr>)"

definition install_peer :: "mesh_peer \<Rightarrow> bool \<Rightarrow> mesh_runtime \<Rightarrow> bool \<times> mesh_runtime" where
  "install_peer peer dialed_by_us rt =
    (let remote = mp_runtime_id peer;
         existing = map_of (rt_peers rt) remote
     in if existing \<noteq> None \<and> \<not> new_connection_wins (rt_local rt) remote dialed_by_us then (False, rt)
        else
          let rt1 = (case existing of Some entry \<Rightarrow> abort_entry entry rt | None \<Rightarrow> rt);
              tasks = [DatagramLoop (mp_conn peer), StreamLoop (mp_conn peer)] @
                      (if dialed_by_us then [ControlStream (mp_conn peer)] else []);
              (control_tx, rt2) = (if dialed_by_us then map_prod Some id (new_queue rt1) else (None, rt1));
              entry = \<lparr>en_peer = peer, en_control_tx = control_tx, en_tasks = tasks\<rparr>;
              rt3 = rt2\<lparr>rt_peers := AList.update remote entry (rt_peers rt2), rt_tasks := rt_tasks rt2 @ tasks\<rparr>
          in (True, on_membership (mark_connection_state remote Connected) rt3))"

definition rt_remove_peer :: "runtime_id \<Rightarrow> mesh_runtime \<Rightarrow> mesh_runtime" where
  "rt_remove_peer runtime_id rt =
    (case map_of (rt_peers rt) runtime_id of
       None \<Rightarrow> rt
     | Some entry \<Rightarrow>
         on_membership (mark_connection_state runtime_id Disconnected)
           (abort_entry entry (rt\<lparr>rt_peers := AList.delete runtime_id (rt_peers rt)\<rparr>)))"

text \<open>What a scan of the registry returns, each record with the time it is applied at, and the state after the wait.\<close>

type_synonym scan = "mesh_runtime \<Rightarrow> (mesh_error + (u64 \<times> ready_record) list) \<times> mesh_runtime"

definition apply_scan :: "('pk, 'sig) attest_lib \<Rightarrow> scan \<Rightarrow> mesh_runtime \<Rightarrow> mesh_runtime" where
  "apply_scan lib scan rt =
    (if rt_registry rt then
       (case scan rt of
          (Inr seeds, rt) \<Rightarrow> on_membership (apply_ready_records lib seeds) rt
        | (Inl _, rt) \<Rightarrow> rt)
     else rt)"

definition is_known_peer :: "('pk, 'sig) attest_lib \<Rightarrow> scan \<Rightarrow> runtime_id \<Rightarrow> mesh_runtime \<Rightarrow> bool \<times> mesh_runtime" where
  "is_known_peer lib scan runtime_id rt =
    (if has_peer runtime_id (rt_membership rt) then (True, rt)
     else let rt = apply_scan lib scan rt in (has_peer runtime_id (rt_membership rt), rt))"

text \<open>A turn of the accept loop; the flag tells whether the loop goes on.\<close>

definition accept_turn ::
  "('pk, 'sig) attest_lib \<Rightarrow> scan \<Rightarrow> mesh_error + mesh_peer option \<Rightarrow> mesh_runtime \<Rightarrow> bool \<times> mesh_runtime" where
  "accept_turn lib scan accepted rt =
    (case accepted of
       Inr (Some peer) \<Rightarrow>
         (case is_known_peer lib scan (mp_runtime_id peer) rt of
            (False, rt) \<Rightarrow> (True, rt)
          | (True, rt) \<Rightarrow> (True, snd (install_peer peer False rt)))
     | Inr None \<Rightarrow> (False, rt)
     | Inl _ \<Rightarrow> (True, rt))"

text \<open>
  Dialling: the address parser, the conversion of an id to an endpoint address, and the connection attempt.
\<close>

record dialer =
  dl_parse :: "string \<Rightarrow> bool"
  dl_direct :: "runtime_id \<Rightarrow> bool"
  dl_connect :: "runtime_id \<Rightarrow> string \<Rightarrow> mesh_runtime \<Rightarrow> (mesh_error + nat) \<times> mesh_runtime"

fun dial_addrs :: "dialer \<Rightarrow> runtime_id \<Rightarrow> string list \<Rightarrow> mesh_runtime \<Rightarrow> mesh_runtime" where
  "dial_addrs d rid [] rt = on_membership (mark_connection_state rid Disconnected) rt"
| "dial_addrs d rid (addr # addrs) rt =
    (if \<not> dl_parse d addr then dial_addrs d rid addrs rt
     else if \<not> dl_direct d rid then rt
     else case dl_connect d rid addr (on_membership (mark_connection_state rid Connecting) rt) of
       (Inr conn, rt) \<Rightarrow> snd (install_peer \<lparr>mp_conn = conn, mp_runtime_id = rid\<rparr> True rt)
     | (Inl _, rt) \<Rightarrow> dial_addrs d rid addrs rt)"

definition dial_peer :: "dialer \<Rightarrow> gossip_record \<Rightarrow> mesh_runtime \<Rightarrow> mesh_runtime" where
  "dial_peer d r rt = dial_addrs d (gr_runtime_id r) (gr_endpoint_addrs r) rt"

definition dial_candidates :: "mesh_runtime \<Rightarrow> gossip_record list" where
  "dial_candidates rt =
    filter (\<lambda>r. gr_runtime_id r \<noteq> rt_local rt \<and> \<not> gr_draining r) (membership_records (rt_membership rt))"

definition reconcile_once :: "('pk, 'sig) attest_lib \<Rightarrow> scan \<Rightarrow> dialer \<Rightarrow> mesh_runtime \<Rightarrow> mesh_runtime" where
  "reconcile_once lib scan d rt =
    (let rt1 = apply_scan lib scan rt
     in fold (\<lambda>r rt. if gr_runtime_id r \<in> set (connected_peers rt) then rt else dial_peer d r rt) (dial_candidates rt1) rt1)"

section \<open>Traffic\<close>

definition rt_send_datagram :: "(mesh_peer \<Rightarrow> mesh_datagram \<Rightarrow> mesh_error + unit) \<Rightarrow> runtime_id \<Rightarrow> mesh_datagram \<Rightarrow>
    mesh_runtime \<Rightarrow> (mesh_error + unit) \<times> mesh_runtime" where
  "rt_send_datagram send dest dgram rt =
    (case map_of (rt_peers rt) dest of
       None \<Rightarrow> (Inl (PeerNotConnected dest), rt)
     | Some entry \<Rightarrow>
         (case send (en_peer entry) dgram of
            Inl e \<Rightarrow> (Inl e, rt)
          | Inr _ \<Rightarrow> (Inr (), on_membership (record_datagram_sent dest) rt)))"

text \<open>Opening a stream and sending the greeting are given with their results.\<close>

definition open_session_stream :: "mesh_error + unit \<Rightarrow> mesh_error + unit \<Rightarrow> runtime_id \<Rightarrow> mesh_runtime \<Rightarrow>
    (mesh_error + unit) \<times> mesh_runtime" where
  "open_session_stream opened hello dest rt =
    (case map_of (rt_peers rt) dest of
       None \<Rightarrow> (Inl (PeerNotConnected dest), rt)
     | Some entry \<Rightarrow>
         (case opened of
            Inl e \<Rightarrow> (Inl e, rt)
          | Inr _ \<Rightarrow>
              (case hello of
                 Inl e \<Rightarrow> (Inl e, rt)
               | Inr _ \<Rightarrow> (Inr (), on_membership (record_stream_opened dest) rt))))"

definition call_handler :: "inbound \<Rightarrow> mesh_runtime \<Rightarrow> mesh_runtime" where
  "call_handler call rt = (if rt_handler rt then rt\<lparr>rt_inbound := rt_inbound rt @ [call]\<rparr> else rt)"

text \<open>The turns of the two receiving loops of a connection; the flag tells whether the loop goes on.\<close>

definition datagram_turn :: "runtime_id \<Rightarrow> mesh_error + mesh_datagram \<Rightarrow> mesh_runtime \<Rightarrow> bool \<times> mesh_runtime" where
  "datagram_turn remote received rt =
    (case received of
       Inr dgram \<Rightarrow> (True, call_handler (OnDatagram remote dgram) (on_membership (record_datagram_received remote) rt))
     | Inl _ \<Rightarrow> (False, rt_remove_peer remote rt))"

definition stream_turn ::
  "runtime_id \<Rightarrow> mesh_error + unit \<Rightarrow> mesh_error + mesh_stream_frame option \<Rightarrow> mesh_runtime \<Rightarrow> bool \<times> mesh_runtime" where
  "stream_turn remote accepted first rt =
    (case accepted of
       Inl _ \<Rightarrow> (False, rt_remove_peer remote rt)
     | Inr _ \<Rightarrow>
         (case first of
            Inr (Some (Hello hello)) \<Rightarrow>
              (case sh_role hello of
                 Control \<Rightarrow>
                   (case new_queue rt of
                      (tx, rt) \<Rightarrow>
                        (True, rt\<lparr>rt_peers := AList.map_entry remote (\<lambda>e. e\<lparr>en_control_tx := Some tx\<rparr>) (rt_peers rt)\<rparr>))
               | Session _ _ \<Rightarrow>
                   (True, call_handler (OnSessionStream remote hello) (on_membership (record_stream_received remote) rt)))
          | _ \<Rightarrow> (True, rt)))"

section \<open>Gossip over the control streams\<close>

record gossip_lib =
  gl_encode :: "gossip_message \<Rightarrow> string + 8 word list"
  gl_decode :: "8 word list \<Rightarrow> string + gossip_message"

definition send_control_frame :: "runtime_id \<Rightarrow> mesh_stream_frame \<Rightarrow> mesh_runtime \<Rightarrow> mesh_runtime" where
  "send_control_frame remote frame rt =
    (case Option.bind (map_of (rt_peers rt) remote) en_control_tx of
       None \<Rightarrow> rt
     | Some tx \<Rightarrow> rt\<lparr>rt_queues := (rt_queues rt)[tx := snd (try_send control_queue_depth frame (rt_queues rt ! tx))]\<rparr>)"

text \<open>The writer task of a queue ends, and its receiver with it.\<close>

definition close_queue :: "nat \<Rightarrow> mesh_runtime \<Rightarrow> mesh_runtime" where
  "close_queue rx rt = rt\<lparr>rt_queues := (rt_queues rt)[rx := drop_receiver (rt_queues rt ! rx)]\<rparr>"

text \<open>
  A turn of the receiving half of the exchange whose writer reads the queue \<open>rx\<close>; the flag tells whether the
  loop goes on.
\<close>

definition control_turn ::
  "gossip_lib \<Rightarrow> (runtime_id \<Rightarrow> string) \<Rightarrow> runtime_id \<Rightarrow> nat \<Rightarrow> mesh_error + mesh_stream_frame option \<Rightarrow> mesh_runtime \<Rightarrow>
    bool \<times> mesh_runtime" where
  "control_turn gl hex remote rx received rt =
    (case received of
       Inr (Some (Gossip payload)) \<Rightarrow>
         let rt1 = on_membership (record_gossip_frame_received remote) rt
         in (True,
             case decode_message (gl_decode gl) payload of
               Inr (Digest _ entries) \<Rightarrow>
                 (case encode_message (gl_encode gl) (membership_delta_for hex entries (rt_membership rt1)) of
                    Inr payload \<Rightarrow> send_control_frame remote (Gossip payload) rt1
                  | Inl _ \<Rightarrow> rt1)
             | Inr (Delta _ records) \<Rightarrow> on_membership (apply_records hex records) rt1
             | Inl _ \<Rightarrow> rt1)
     | Inr (Some _) \<Rightarrow> (True, rt)
     | _ \<Rightarrow> (False, close_queue rx rt))"

text \<open>A turn of the writer task: it takes the next frame of its queue and sends it.\<close>

definition control_send_turn ::
  "runtime_id \<Rightarrow> nat \<Rightarrow> mesh_error + unit \<Rightarrow> mesh_runtime \<Rightarrow> mesh_stream_frame option \<times> mesh_runtime" where
  "control_send_turn remote rx sent rt =
    (case recv (rt_queues rt ! rx) of
       (None, _) \<Rightarrow> (None, rt)
     | (Some frame, ch) \<Rightarrow>
         let rt1 = rt\<lparr>rt_queues := (rt_queues rt)[rx := ch]\<rparr>
         in (case sent of
               Inl _ \<Rightarrow> (None, close_queue rx rt1)
             | Inr _ \<Rightarrow> (Some frame, on_membership (record_gossip_frame_sent remote) rt1)))"

definition gossip_tick :: "gossip_lib \<Rightarrow> (runtime_id \<Rightarrow> string) \<Rightarrow> u64 \<Rightarrow> mesh_runtime \<Rightarrow> mesh_runtime" where
  "gossip_tick gl hex now_millis rt =
    (let rt1 = on_membership (\<lambda>m. snd (update_local now_millis (\<lambda>r. r) m)) rt
     in case encode_message (gl_encode gl) (membership_digest hex (rt_membership rt1)) of
          Inl _ \<Rightarrow> rt1
        | Inr payload \<Rightarrow>
            fold (\<lambda>remote. send_control_frame remote (Gossip payload))
              [i. (i, e) \<leftarrow> rt_peers rt1, en_control_tx e \<noteq> None] rt1)"


section \<open>Only known relays are connected\<close>

definition runtime_ok :: "mesh_runtime \<Rightarrow> bool" where
  "runtime_ok rt \<longleftrightarrow>
    membership_inv (rt_membership rt) \<and> mm_local_runtime_id (rt_membership rt) = rt_local rt \<and>
    distinct (map fst (rt_peers rt)) \<and>
    (\<forall>(i, e) \<in> set (rt_peers rt). mp_runtime_id (en_peer e) = i \<and> has_peer i (rt_membership rt) \<and>
       (\<forall>q. en_control_tx e = Some q \<longrightarrow> q < length (rt_queues rt))) \<and>
    (\<forall>i e j f q. (i, e) \<in> set (rt_peers rt) \<longrightarrow> (j, f) \<in> set (rt_peers rt) \<longrightarrow>
       en_control_tx e = Some q \<longrightarrow> en_control_tx f = Some q \<longrightarrow> i = j)"

lemma has_peer_known: "membership_inv m \<Longrightarrow> has_peer j m \<longleftrightarrow> j \<noteq> mm_local_runtime_id m \<and> known m j \<noteq> None"
proof -
  assume "membership_inv m"
  then have "map_of (mm_peers m) (mm_local_runtime_id m) = None" using local_not_peer by (simp add: map_of_eq_None_iff)
  then show ?thesis by (auto simp: has_peer_def known_def)
qed

definition grows :: "membership \<Rightarrow> membership \<Rightarrow> bool" where
  "grows m m' \<longleftrightarrow> membership_inv m' \<and> mm_local_runtime_id m' = mm_local_runtime_id m \<and> (\<forall>j. has_peer j m \<longrightarrow> has_peer j m')"

lemma growsI:
  assumes "membership_inv m" "membership_inv m'" "mm_local_runtime_id m' = mm_local_runtime_id m"
    "\<And>j. known m j \<noteq> None \<Longrightarrow> known m' j \<noteq> None"
  shows "grows m m'"
  using assms by (auto simp: grows_def has_peer_known)

lemma known_apply_records_some: "known m j \<noteq> None \<Longrightarrow> known (apply_records hex rs m) j \<noteq> None"
  by (induction rs arbitrary: m) (auto simp: known_apply_gossip_record)

lemma known_apply_ready_records_some: "known m j \<noteq> None \<Longrightarrow> known (apply_ready_records lib seeds m) j \<noteq> None"
proof (induction seeds arbitrary: m)
  case (Cons s seeds)
  obtain now ready where s: "s = (now, ready)" by (cases s)
  have "known (apply_ready_record lib now ready m) j \<noteq> None"
    using Cons.prems by (auto simp: apply_ready_record_def Let_def known_apply_gossip_record split: sum.splits)
  then show ?case using Cons.IH s by simp
qed simp

lemma membership_grows:
  assumes "membership_inv m"
  shows "grows m (apply_records hex rs m)" "grows m (apply_ready_records lib seeds m)"
    "grows m (mark_connection_state j cs m)" "grows m (update_peer_counters j f m)"
    "grows m (snd (update_local now (\<lambda>r. r) m))" "grows m (begin_drain now m)"
proof -
  show "grows m (apply_records hex rs m)"
    by (rule growsI) (use assms known_apply_records_some in \<open>simp_all add: inv_intros del: not_None_eq\<close>)
  show "grows m (apply_ready_records lib seeds m)"
    by (rule growsI) (use assms known_apply_ready_records_some in \<open>simp_all add: inv_intros del: not_None_eq\<close>)
  show "grows m (mark_connection_state j cs m)" "grows m (update_peer_counters j f m)"
    by (rule growsI; use assms in simp)+
  show "grows m (snd (update_local now (\<lambda>r. r) m))"
    using assms local_id [OF assms]
    by (intro growsI) (auto simp: update_local_def Let_def known_def membership_inv_def)
  show "grows m (begin_drain now m)"
    using assms local_id [OF assms]
    by (intro growsI) (auto simp: begin_drain_def update_local_def Let_def known_def membership_inv_def)
qed

lemma counters_grow:
  assumes "membership_inv m"
  shows "grows m (record_stream_opened j m)" "grows m (record_stream_received j m)" "grows m (record_datagram_sent j m)"
    "grows m (record_datagram_received j m)" "grows m (record_gossip_frame_sent j m)" "grows m (record_gossip_frame_received j m)"
  using membership_grows(4) [OF assms]
  by (simp_all add: record_stream_opened_def record_stream_received_def record_datagram_sent_def record_datagram_received_def
      record_gossip_frame_sent_def record_gossip_frame_received_def)

lemma runtime_ok_membership: "runtime_ok rt \<Longrightarrow> membership_inv (rt_membership rt)"
  by (simp add: runtime_ok_def)

lemma runtime_ok_on_membership:
  assumes "runtime_ok rt" "grows (rt_membership rt) (f (rt_membership rt))"
  shows "runtime_ok (on_membership f rt)"
  using assms by (auto simp: runtime_ok_def on_membership_def grows_def)

lemma runtime_ok_queues:
  assumes "runtime_ok rt" "length (rt_queues rt) \<le> length qs"
  shows "runtime_ok (rt\<lparr>rt_queues := qs\<rparr>)"
  using assms by (auto simp: runtime_ok_def dest!: less_le_trans [OF _ assms(2)])

lemma runtime_ok_abort [simp]: "runtime_ok (abort_entry e rt) \<longleftrightarrow> runtime_ok rt"
  by (simp add: runtime_ok_def abort_entry_def)

lemma runtime_ok_inbound [simp]: "runtime_ok (call_handler c rt) \<longleftrightarrow> runtime_ok rt"
  by (simp add: runtime_ok_def call_handler_def)

lemma runtime_ok_insert:
  assumes "runtime_ok rt" "has_peer i (rt_membership rt)" "mp_runtime_id (en_peer e) = i"
    "\<And>q. en_control_tx e = Some q \<Longrightarrow> q < length (rt_queues rt) \<and> (\<forall>(j, f) \<in> set (rt_peers rt). en_control_tx f \<noteq> Some q)"
  shows "runtime_ok (rt\<lparr>rt_peers := AList.update i e (rt_peers rt), rt_tasks := ts\<rparr>)"
  using assms by (cases "en_control_tx e") (auto simp: runtime_ok_def distinct_update alist_update_set)

lemma abort_simps [simp]:
  "rt_membership (abort_entry e rt) = rt_membership rt" "rt_queues (abort_entry e rt) = rt_queues rt" "rt_peers (abort_entry e rt) = rt_peers rt"
  "rt_local (abort_entry e rt) = rt_local rt"
  by (simp_all add: abort_entry_def)

lemma install_peer_ok [inv_intros]:
  assumes ok: "runtime_ok rt" and known: "has_peer (mp_runtime_id peer) (rt_membership rt)"
  shows "runtime_ok (snd (install_peer peer dialed rt))"
proof -
  have ins: "runtime_ok (on_membership (mark_connection_state (mp_runtime_id peer) Connected)
      (rt'\<lparr>rt_peers := AList.update (mp_runtime_id peer) \<lparr>en_peer = peer, en_control_tx = tx, en_tasks = ts\<rparr> (rt_peers rt'), rt_tasks := ts'\<rparr>))"
    if "runtime_ok rt'" "rt_membership rt' = rt_membership rt" "\<And>q. tx = Some q \<Longrightarrow> q < length (rt_queues rt') \<and> (\<forall>(j, f) \<in> set (rt_peers rt'). en_control_tx f \<noteq> Some q)" for rt' tx ts ts'
    by (intro runtime_ok_on_membership runtime_ok_insert)
      (use that known membership_grows(3) [OF runtime_ok_membership [OF ok]] in simp_all)
  have "runtime_ok (snd (install_peer peer dialed rt))"
    if base: "runtime_ok rt1" "rt_membership rt1 = rt_membership rt"
      and eq: "rt1 = (case map_of (rt_peers rt) (mp_runtime_id peer) of Some entry \<Rightarrow> abort_entry entry rt | None \<Rightarrow> rt)" for rt1
  proof (cases dialed)
    case True
    have "runtime_ok (snd (new_queue rt1))" using base by (simp add: new_queue_def runtime_ok_queues)
    moreover have "\<forall>(j, f) \<in> set (rt_peers rt1). en_control_tx f \<noteq> Some (length (rt_queues rt1))"
      using base(1) by (auto simp: runtime_ok_def)
    ultimately show ?thesis
      using True ok base ins [of "snd (new_queue rt1)" "Some (length (rt_queues rt1))"]
      by (simp add: install_peer_def Let_def eq [symmetric] new_queue_def)
  next
    case False
    then show ?thesis
      using ok base ins [of rt1 None] by (simp add: install_peer_def Let_def eq [symmetric])
  qed
  then show ?thesis using ok by (cases "map_of (rt_peers rt) (mp_runtime_id peer)") auto
qed

lemma runtime_ok_delete:
  assumes "runtime_ok rt"
  shows "runtime_ok (rt\<lparr>rt_peers := AList.delete i (rt_peers rt)\<rparr>)"
proof -
  have "distinct (map fst (AList.delete i (rt_peers rt)))" using assms by (simp add: runtime_ok_def distinct_delete)
  moreover have "set (AList.delete i (rt_peers rt)) \<subseteq> set (rt_peers rt)" by (auto simp: AList.delete_eq)
  ultimately show ?thesis using assms unfolding runtime_ok_def by (simp add: subset_iff) blast
qed

lemma rt_remove_peer_ok [inv_intros]: "runtime_ok rt \<Longrightarrow> runtime_ok (rt_remove_peer i rt)"
  unfolding rt_remove_peer_def
  by (auto intro!: runtime_ok_on_membership runtime_ok_delete membership_grows simp: runtime_ok_membership split: option.splits)

text \<open>What other tasks do while a call is awaited keeps the invariant, as each of their turns does.\<close>

definition scan_ok :: "scan \<Rightarrow> bool" where
  "scan_ok scan \<longleftrightarrow> (\<forall>rt. runtime_ok rt \<longrightarrow> runtime_ok (snd (scan rt)))"

text \<open>A relay stays in the table while it is dialled, and the transport connects to the relay whose key was dialled.\<close>

definition dialer_ok :: "dialer \<Rightarrow> bool" where
  "dialer_ok d \<longleftrightarrow> (\<forall>rid addr rt. runtime_ok rt \<longrightarrow>
     runtime_ok (snd (dl_connect d rid addr rt)) \<and>
     (\<forall>j. has_peer j (rt_membership rt) \<longrightarrow> has_peer j (rt_membership (snd (dl_connect d rid addr rt)))))"

lemma apply_scan_ok [inv_intros]:
  assumes "scan_ok scan" "runtime_ok rt"
  shows "runtime_ok (apply_scan lib scan rt)"
proof -
  have "runtime_ok (snd (scan rt))" using assms by (simp add: scan_ok_def)
  then show ?thesis using assms
    by (auto simp: apply_scan_def runtime_ok_on_membership membership_grows runtime_ok_membership split: prod.splits sum.splits)
qed

lemma accept_turn_ok [inv_intros]:
  assumes "scan_ok scan" "runtime_ok rt"
  shows "runtime_ok (snd (accept_turn lib scan accepted rt))"
  using assms apply_scan_ok [OF assms]
  by (auto simp: accept_turn_def is_known_peer_def Let_def install_peer_ok split: sum.splits option.splits prod.splits bool.splits if_splits)

lemma dial_addrs_ok:
  assumes "dialer_ok d" "runtime_ok rt" "has_peer rid (rt_membership rt)"
  shows "runtime_ok (dial_addrs d rid addrs rt)"
  using assms
proof (induction addrs arbitrary: rt)
  case Nil
  then show ?case by (simp add: runtime_ok_on_membership membership_grows runtime_ok_membership)
next
  case (Cons addr addrs)
  let ?rt = "on_membership (mark_connection_state rid Connecting) rt"
  have g: "grows (rt_membership rt) (mark_connection_state rid Connecting (rt_membership rt))"
    using Cons.prems by (simp add: membership_grows runtime_ok_membership)
  then have "runtime_ok ?rt" "has_peer rid (rt_membership ?rt)"
    using Cons.prems by (simp_all add: runtime_ok_on_membership, simp add: on_membership_def grows_def)
  then have "runtime_ok (snd (dl_connect d rid addr ?rt))" "has_peer rid (rt_membership (snd (dl_connect d rid addr ?rt)))"
    using Cons.prems(1) by (auto simp: dialer_ok_def)
  then show ?case
    using Cons by (auto simp: install_peer_ok split: prod.splits sum.splits)
qed

lemma dial_addrs_has_peer:
  assumes "dialer_ok d" "runtime_ok rt" "has_peer rid (rt_membership rt)" "has_peer j (rt_membership rt)"
  shows "has_peer j (rt_membership (dial_addrs d rid addrs rt))"
  using assms
proof (induction addrs arbitrary: rt)
  case Nil
  then show ?case
    using membership_grows(3) [OF runtime_ok_membership [OF Nil(2)], of rid Disconnected] by (simp add: on_membership_def grows_def)
next
  case (Cons addr addrs)
  let ?rt = "on_membership (mark_connection_state rid Connecting) rt"
  have g: "grows (rt_membership rt) (mark_connection_state rid Connecting (rt_membership rt))"
    using Cons.prems by (simp add: membership_grows runtime_ok_membership)
  then have "runtime_ok ?rt" "has_peer rid (rt_membership ?rt)" "has_peer j (rt_membership ?rt)"
    using Cons.prems by (simp_all add: runtime_ok_on_membership) (simp_all add: on_membership_def grows_def)
  then have c: "runtime_ok (snd (dl_connect d rid addr ?rt))" "has_peer rid (rt_membership (snd (dl_connect d rid addr ?rt)))"
    "has_peer j (rt_membership (snd (dl_connect d rid addr ?rt)))"
    using Cons.prems(1) by (auto simp: dialer_ok_def)
  have "has_peer j (rt_membership (snd (install_peer p b rt')))" if "runtime_ok rt'" "has_peer j (rt_membership rt')" for p b rt'
    using that membership_grows(3) [OF runtime_ok_membership [OF that(1)], of "mp_runtime_id p" Connected]
    by (auto simp: install_peer_def Let_def on_membership_def grows_def new_queue_def split: option.splits if_splits)
  then show ?case
    using Cons c by (auto split: prod.splits sum.splits)
qed

lemma reconcile_once_ok [inv_intros]:
  assumes "scan_ok scan" "dialer_ok d" "runtime_ok rt"
  shows "runtime_ok (reconcile_once lib scan d rt)"
proof -
  let ?step = "\<lambda>r rt. if gr_runtime_id r \<in> set (connected_peers rt) then rt else dial_peer d r rt"
  have "runtime_ok (fold ?step rs rt')"
    if "runtime_ok rt'" "\<forall>r \<in> set rs. has_peer (gr_runtime_id r) (rt_membership rt')" for rs rt'
    using that
  proof (induction rs arbitrary: rt')
    case (Cons r rs)
    have "runtime_ok (?step r rt')" "\<And>j. has_peer j (rt_membership rt') \<Longrightarrow> has_peer j (rt_membership (?step r rt'))"
      using Cons.prems dial_addrs_ok [OF assms(2)] dial_addrs_has_peer [OF assms(2)] by (auto simp: dial_peer_def)
    then show ?case using Cons by simp
  qed simp
  moreover have ok: "runtime_ok (apply_scan lib scan rt)" using assms by (simp add: apply_scan_ok)
  moreover have "has_peer (gr_runtime_id r) (rt_membership (apply_scan lib scan rt))"
    if "r \<in> set (dial_candidates (apply_scan lib scan rt))" for r
    using that ok membership_records_iff [OF runtime_ok_membership [OF ok], of r] has_peer_known [OF runtime_ok_membership [OF ok]]
    by (auto simp: dial_candidates_def runtime_ok_def)
  ultimately show ?thesis by (simp add: reconcile_once_def Let_def)
qed

lemma send_control_frame_ok [inv_intros]: "runtime_ok rt \<Longrightarrow> runtime_ok (send_control_frame remote frame rt)"
  by (auto simp: send_control_frame_def runtime_ok_queues split: option.splits)

lemma close_queue_ok [inv_intros]: "runtime_ok rt \<Longrightarrow> runtime_ok (close_queue rx rt)"
  by (simp add: close_queue_def runtime_ok_queues)

lemma traffic_ok [inv_intros]:
  assumes "runtime_ok rt"
  shows "runtime_ok (snd (rt_send_datagram send dest dgram rt))" "runtime_ok (snd (open_session_stream opened hello dest rt))"
    "runtime_ok (snd (datagram_turn remote received rt))"
  using assms
  by (auto simp: rt_send_datagram_def open_session_stream_def datagram_turn_def runtime_ok_on_membership counters_grow
      runtime_ok_membership rt_remove_peer_ok split: option.splits sum.splits)

lemma stream_turn_ok [inv_intros]:
  assumes "runtime_ok rt"
  shows "runtime_ok (snd (stream_turn remote accepted first rt))"
proof -
  have "runtime_ok (rt\<lparr>rt_queues := rt_queues rt @ [new_channel],
      rt_peers := AList.map_entry remote (\<lambda>e. e\<lparr>en_control_tx := Some (length (rt_queues rt))\<rparr>) (rt_peers rt)\<rparr>)"
  proof -
    have d: "distinct (map fst (rt_peers rt))" using assms by (simp add: runtime_ok_def)
    have "distinct (map fst (AList.map_entry remote (\<lambda>e. e\<lparr>en_control_tx := Some (length (rt_queues rt))\<rparr>) (rt_peers rt)))"
      using d by (simp add: map_entry_keys)
    moreover have "en_control_tx f \<noteq> Some (length (rt_queues rt))" if "(j, f) \<in> set (rt_peers rt)" for j f
      using assms that by (auto simp: runtime_ok_def)
    ultimately show ?thesis
      using assms by (auto simp: runtime_ok_def alist_map_entry_map [OF d] less_Suc_eq split: if_splits)
  qed
  then show ?thesis
    using assms
    by (auto simp: stream_turn_def rt_remove_peer_ok runtime_ok_on_membership counters_grow runtime_ok_membership new_queue_def
        split: sum.splits option.splits mesh_stream_frame.splits stream_role.splits)
qed

lemma control_ok [inv_intros]:
  assumes "runtime_ok rt"
  shows "runtime_ok (snd (control_turn gl hex remote rx received rt))" "runtime_ok (snd (control_send_turn remote rx sent rt))"
proof -
  have r: "runtime_ok (on_membership (record_gossip_frame_received remote) rt)"
    using assms by (simp add: runtime_ok_on_membership counters_grow runtime_ok_membership)
  show "runtime_ok (snd (control_turn gl hex remote rx received rt))"
    using assms r runtime_ok_membership [OF r]
    by (auto simp: control_turn_def Let_def send_control_frame_ok close_queue_ok runtime_ok_on_membership membership_grows
        split: sum.splits option.splits mesh_stream_frame.splits gossip_message.splits)
  have q: "runtime_ok (rt\<lparr>rt_queues := (rt_queues rt)[rx := ch]\<rparr>)" for ch using assms by (simp add: runtime_ok_queues)
  have "runtime_ok (on_membership (record_gossip_frame_sent remote) (rt\<lparr>rt_queues := (rt_queues rt)[rx := ch]\<rparr>))" for ch
    using q [of ch] by (rule runtime_ok_on_membership) (simp add: counters_grow runtime_ok_membership [OF assms])
  then show "runtime_ok (snd (control_send_turn remote rx sent rt))"
    using assms q by (auto simp: control_send_turn_def Let_def close_queue_ok split: prod.splits option.splits sum.splits)
qed

lemma gossip_tick_ok [inv_intros]:
  assumes "runtime_ok rt"
  shows "runtime_ok (gossip_tick gl hex now rt)"
proof -
  have "runtime_ok (fold (\<lambda>remote. send_control_frame remote frame) is rt')" if "runtime_ok rt'" for "is" frame rt'
    using that by (induction "is" arbitrary: rt') (simp_all add: send_control_frame_ok)
  moreover have "runtime_ok (on_membership (\<lambda>m. snd (update_local now (\<lambda>r. r) m)) rt)"
    using assms by (simp add: runtime_ok_on_membership membership_grows runtime_ok_membership)
  ultimately show ?thesis by (simp add: gossip_tick_def Let_def split: sum.splits)
qed

lemma shutdown_ok [inv_intros]: "runtime_ok rt \<Longrightarrow> runtime_ok (runtime_shutdown rt)"
proof -
  assume ok: "runtime_ok rt"
  have "runtime_ok (fold (\<lambda>(_, entry). abort_entry entry) es rt') = runtime_ok rt'"
    for es :: "(runtime_id \<times> peer_entry) list" and rt'
    by (induction es arbitrary: rt') (auto split: prod.splits)
  then have "runtime_ok (fold (\<lambda>(_, entry). abort_entry entry) (rt_peers rt) rt)" using ok by simp
  then show ?thesis by (simp add: runtime_shutdown_def runtime_ok_def)
qed

inductive runtime_turn :: "('pk, 'sig) attest_lib \<Rightarrow> gossip_lib \<Rightarrow> mesh_runtime \<Rightarrow> mesh_runtime \<Rightarrow> bool" for lib gl where
  accept: "scan_ok scan \<Longrightarrow> runtime_turn lib gl rt (snd (accept_turn lib scan accepted rt))"
| reconcile: "scan_ok scan \<Longrightarrow> dialer_ok d \<Longrightarrow> runtime_turn lib gl rt (reconcile_once lib scan d rt)"
| datagram: "runtime_turn lib gl rt (snd (datagram_turn remote received rt))"
| stream: "runtime_turn lib gl rt (snd (stream_turn remote accepted' first rt))"
| control: "runtime_turn lib gl rt (snd (control_turn gl (al_hex lib) remote rx frame rt))"
| control_send: "runtime_turn lib gl rt (snd (control_send_turn remote rx sent rt))"
| tick: "runtime_turn lib gl rt (gossip_tick gl (al_hex lib) now rt)"
| send: "runtime_turn lib gl rt (snd (rt_send_datagram send dest dgram rt))"
| "open": "runtime_turn lib gl rt (snd (open_session_stream opened hello dest rt))"
| handler: "runtime_turn lib gl rt (set_inbound rt)"
| drain: "runtime_turn lib gl rt (on_membership (begin_drain now) rt)"
| shutdown: "runtime_turn lib gl rt (runtime_shutdown rt)"

lemma runtime_turn_ok: "runtime_ok rt \<Longrightarrow> runtime_turn lib gl rt rt' \<Longrightarrow> runtime_ok rt'"
proof (erule runtime_turn.cases)
  show "runtime_ok rt'" if "runtime_ok rt" "rt' = set_inbound rt0" "rt = rt0" for rt0
    using that by (simp add: runtime_ok_def set_inbound_def)
  show "runtime_ok rt'" if "runtime_ok rt" "rt' = on_membership (begin_drain now) rt0" "rt = rt0" for now rt0
    using that by (simp add: runtime_ok_on_membership membership_grows runtime_ok_membership)
qed (auto intro: inv_intros)

definition runtime_init :: "mesh_runtime \<Rightarrow> bool" where
  "runtime_init rt \<longleftrightarrow> (\<exists>r registry pk. rt = runtime_start (gr_runtime_id r) (with_expected_relay_pubkey pk (membership_new r)) registry)"

interpretation relay: invariant_system runtime_init "runtime_turn lib gl" runtime_ok for lib gl
proof
  show "runtime_ok rt" if "runtime_init rt" for rt
    using that by (auto simp: runtime_init_def runtime_start_def runtime_ok_def)
qed (rule runtime_turn_ok)

text \<open>
  A relay is connected to known relays only. However the loops of a relay interleave and whatever is accepted,
  dialled, received or lost, every connection is filed under the relay it leads to, which is in
  the membership table; the relay is never connected to itself and has one connection per relay.
\<close>

theorem connected_peers_known:
  assumes "runtime_init rt0" and "(runtime_turn lib gl)\<^sup>*\<^sup>* rt0 rt"
  shows "distinct (connected_peers rt) \<and>
    rt_local rt \<notin> set (connected_peers rt) \<and>
    (i \<in> set (connected_peers rt) \<longrightarrow> has_peer i (rt_membership rt)) \<and>
    (map_of (rt_peers rt) i = Some e \<longrightarrow> mp_runtime_id (en_peer e) = i)"
proof (intro conjI impI)
  have ok: "runtime_ok rt" by (rule relay.reachable_inv [OF assms])
  show "distinct (connected_peers rt)" using ok by (simp add: connected_peers_def runtime_ok_def)
  show has: "has_peer i (rt_membership rt)" if "i \<in> set (connected_peers rt)" for i
    using ok that by (auto simp: connected_peers_def runtime_ok_def)
  show "rt_local rt \<notin> set (connected_peers rt)"
    using has [of "rt_local rt"] has_peer_known [OF runtime_ok_membership [OF ok]] ok by (auto simp: runtime_ok_def)
  show "mp_runtime_id (en_peer e) = i" if "map_of (rt_peers rt) i = Some e"
    using ok map_of_SomeD [OF that] by (auto simp: runtime_ok_def)
qed

section \<open>Simultaneous dials\<close>

definition conn_of :: "mesh_runtime \<Rightarrow> runtime_id \<Rightarrow> nat option" where
  "conn_of rt i = map_option (mp_conn \<circ> en_peer) (map_of (rt_peers rt) i)"

text \<open>Connections to one relay, each with whether this side dialled it, installed one after the other.\<close>

definition install_all :: "runtime_id \<Rightarrow> (nat \<times> bool) list \<Rightarrow> mesh_runtime \<Rightarrow> mesh_runtime" where
  "install_all remote cs rt =
    fold (\<lambda>(c, dialed) rt. snd (install_peer \<lparr>mp_conn = c, mp_runtime_id = remote\<rparr> dialed rt)) cs rt"

lemma rt_local_install [simp]: "rt_local (snd (install_peer p d rt)) = rt_local rt"
  by (auto simp: install_peer_def Let_def on_membership_def new_queue_def split: option.splits)

lemma conn_of_install:
  "conn_of (snd (install_peer p d rt)) i =
    (if i = mp_runtime_id p \<and> (conn_of rt i = None \<or> new_connection_wins (rt_local rt) i d) then Some (mp_conn p) else conn_of rt i)"
  by (auto simp: conn_of_def install_peer_def Let_def on_membership_def new_queue_def update_conv' split: option.splits)

text \<open>The last connection that wins the tie-break, else the first.\<close>

lemma conn_of_install_all:
  "conn_of (install_all remote cs rt) remote =
    (case filter (\<lambda>(c, d). new_connection_wins (rt_local rt) remote d) cs of
       [] \<Rightarrow> (case conn_of rt remote of Some c \<Rightarrow> Some c | None \<Rightarrow> (case cs of [] \<Rightarrow> None | (c, _) # _ \<Rightarrow> Some c))
     | ws \<Rightarrow> Some (fst (last ws)))"
proof (induction cs arbitrary: rt)
  case (Cons x cs)
  obtain c d where x: "x = (c, d)" by (cases x)
  let ?rt = "snd (install_peer \<lparr>mp_conn = c, mp_runtime_id = remote\<rparr> d rt)"
  have "install_all remote (x # cs) rt = install_all remote cs ?rt" by (simp add: install_all_def x)
  then show ?case
    using Cons.IH [of ?rt]
    by (auto simp: x conn_of_install split: option.splits list.splits)
qed (auto simp: install_all_def split: option.splits)

definition conn_tasks :: "nat \<Rightarrow> task set" where
  "conn_tasks c = {DatagramLoop c, StreamLoop c, ControlStream c}"

definition tasks_of_entry :: "runtime_id \<Rightarrow> task set \<Rightarrow> mesh_runtime \<Rightarrow> bool" where
  "tasks_of_entry remote others rt \<longleftrightarrow>
    (case map_of (rt_peers rt) remote of
       None \<Rightarrow> set (rt_tasks rt) \<subseteq> others
     | Some e \<Rightarrow> set (rt_tasks rt) \<subseteq> others \<union> set (en_tasks e) \<and> set (en_tasks e) \<subseteq> conn_tasks (mp_conn (en_peer e)))"

lemma tasks_of_entry_install:
  "tasks_of_entry (mp_runtime_id p) others rt \<Longrightarrow> tasks_of_entry (mp_runtime_id p) others (snd (install_peer p d rt))"
  by (auto simp: tasks_of_entry_def install_peer_def Let_def on_membership_def new_queue_def update_conv' abort_entry_def conn_tasks_def
      split: option.splits)

lemma tasks_of_entry_install_all:
  "tasks_of_entry remote others rt \<Longrightarrow> tasks_of_entry remote others (install_all remote cs rt)"
proof (induction cs arbitrary: rt)
  case (Cons x cs)
  then show ?case
    using tasks_of_entry_install [of "\<lparr>mp_conn = fst x, mp_runtime_id = remote\<rparr>" others rt "snd x"]
    by (cases x) (simp add: install_all_def)
qed (simp add: install_all_def)

text \<open>
  C17. Both ends of a simultaneous dial keep the same connection. When two relays install the same
  connections, each in its own order, and the relay with the smaller id dialled one of them, both
  end with that one, and the receiving loops of the others are stopped.
\<close>

theorem tie_break_agreement:
  assumes distinct: "rt_local a \<noteq> rt_local b"
    and fresh: "map_of (rt_peers a) (rt_local b) = None" "map_of (rt_peers b) (rt_local a) = None"
    and same: "set ys = (\<lambda>(c, d). (c, \<not> d)) ` set xs"
    and dialed: "\<And>c. (c, rt_local a < rt_local b) \<in> set xs \<longleftrightarrow> c = c0"
  shows "conn_of (install_all (rt_local b) xs a) (rt_local b) = Some c0 \<and>
    conn_of (install_all (rt_local a) ys b) (rt_local a) = Some c0 \<and>
    (set (rt_tasks (install_all (rt_local b) xs a)) \<subseteq> set (rt_tasks a) \<union> conn_tasks c0) \<and>
    (set (rt_tasks (install_all (rt_local a) ys b)) \<subseteq> set (rt_tasks b) \<union> conn_tasks c0)"
proof (intro conjI impI)
  have only: "conn_of (install_all remote cs rt) remote = Some c0"
    if win: "\<And>c d. new_connection_wins (rt_local rt) remote d \<Longrightarrow> (c, d) \<in> set cs \<longleftrightarrow> c = c0"
      and some: "new_connection_wins (rt_local rt) remote dw" for remote cs rt dw
  proof -
    let ?ws = "filter (\<lambda>(c, d). new_connection_wins (rt_local rt) remote d) cs"
    have "(c0, dw) \<in> set ?ws" using win some by simp
    then have ne: "?ws \<noteq> []" by (metis list.distinct(1) list.set_cases)
    moreover have "fst (last ?ws) = c0" using last_in_set [OF ne] win by (auto split: prod.splits)
    ultimately show ?thesis by (auto simp: conn_of_install_all split: list.splits)
  qed
  show ca: "conn_of (install_all (rt_local b) xs a) (rt_local b) = Some c0"
    by (rule only [where dw = "rt_local a < rt_local b"])
      (use dialed in \<open>auto simp: new_connection_wins_def split: if_splits\<close>)
  have less: "rt_local b < rt_local a \<longleftrightarrow> \<not> rt_local a < rt_local b" using distinct by auto
  have ys: "(c, d) \<in> set ys \<longleftrightarrow> (c, \<not> d) \<in> set xs" for c d unfolding same by force
  show cb: "conn_of (install_all (rt_local a) ys b) (rt_local a) = Some c0"
    by (rule only [where dw = "rt_local b < rt_local a"]) (use dialed less in \<open>auto simp: new_connection_wins_def ys split: if_splits\<close>)
  have "set (rt_tasks rt) \<subseteq> others \<union> conn_tasks c0" if "tasks_of_entry remote others rt" "conn_of rt remote = Some c0" for remote others rt
    using that by (auto simp: tasks_of_entry_def conn_of_def split: option.splits)
  from this [OF tasks_of_entry_install_all ca] this [OF tasks_of_entry_install_all cb]
  show "set (rt_tasks (install_all (rt_local b) xs a)) \<subseteq> set (rt_tasks a) \<union> conn_tasks c0"
    and "set (rt_tasks (install_all (rt_local a) ys b)) \<subseteq> set (rt_tasks b) \<union> conn_tasks c0"
    using fresh by (auto simp: tasks_of_entry_def)
qed

section \<open>A late loss\<close>

text \<open>One datagram that does not decode, say of another wire version, ends the connection.\<close>

lemma undecodable_datagram_disconnects:
  assumes "v \<noteq> wire_version" and "map_of (rt_peers rt) remote = Some e"
    and "recv_datagram from_postcard (Inr (v # bytes)) c = (received, c1)" and "datagram_turn remote received rt = (goes_on, rt1)"
  shows "received = Inl (UnknownWireVersion v)" and "c1 = c" and "\<not> goes_on" and "conn_of rt1 remote = None"
  using assms
  by (auto simp: recv_datagram_def decode_def datagram_turn_def rt_remove_peer_def conn_of_def on_membership_def abort_entry_def delete_conv')

text \<open>
  The end of a replaced connection removes its replacement. The loops of a connection remove the relay's entry by the
  relay's id. A loop that has seen its connection fail, but runs after the winning connection
  was installed, therefore removes that one: the relay counts as disconnected, its loops are stopped and
  datagrams to it are refused, although the new connection never failed.
\<close>

theorem stale_loop_drops_new_connection:
  assumes "map_of (rt_peers rt) (mp_runtime_id p) = Some old" and "mp_conn (en_peer old) \<noteq> mp_conn p"
    and "new_connection_wins (rt_local rt) (mp_runtime_id p) dialed"
    and "install_peer p dialed rt = (ok, rt1)" and "datagram_turn (mp_runtime_id p) (Inl err) rt1 = (goes_on, rt2)"
  shows "conn_of rt1 (mp_runtime_id p) = Some (mp_conn p) \<and>
    conn_of rt2 (mp_runtime_id p) = None \<and>
    DatagramLoop (mp_conn p) \<in> set (rt_tasks rt1) \<and>
    DatagramLoop (mp_conn p) \<notin> set (rt_tasks rt2) \<and>
    rt_send_datagram send (mp_runtime_id p) dgram rt2 = (Inl (PeerNotConnected (mp_runtime_id p)), rt2)"
proof (intro conjI impI)
  have rt1: "rt1 = snd (install_peer p dialed rt)" using assms(4) by simp
  have entry: "\<exists>e. map_of (rt_peers rt1) (mp_runtime_id p) = Some e \<and> en_peer e = p \<and> DatagramLoop (mp_conn p) \<in> set (en_tasks e)"
    and task: "DatagramLoop (mp_conn p) \<in> set (rt_tasks rt1)"
    unfolding rt1 using assms(1,3)
    by (auto simp: install_peer_def Let_def on_membership_def new_queue_def update_conv')
  then obtain e where e: "map_of (rt_peers rt1) (mp_runtime_id p) = Some e" "en_peer e = p" "DatagramLoop (mp_conn p) \<in> set (en_tasks e)"
    by blast
  have rt2: "rt2 = rt_remove_peer (mp_runtime_id p) rt1" using assms(5) by (auto simp: datagram_turn_def)
  have gone: "map_of (rt_peers rt2) (mp_runtime_id p) = None"
    unfolding rt2 using e by (simp add: rt_remove_peer_def on_membership_def abort_entry_def delete_conv')
  show "conn_of rt1 (mp_runtime_id p) = Some (mp_conn p)" using e by (simp add: conn_of_def)
  show "conn_of rt2 (mp_runtime_id p) = None" using gone by (simp add: conn_of_def)
  show "DatagramLoop (mp_conn p) \<in> set (rt_tasks rt1)" by (rule task)
  show "DatagramLoop (mp_conn p) \<notin> set (rt_tasks rt2)"
    unfolding rt2 using e by (simp add: rt_remove_peer_def on_membership_def abort_entry_def)
  show "rt_send_datagram send (mp_runtime_id p) dgram rt2 = (Inl (PeerNotConnected (mp_runtime_id p)), rt2)"
    using gone by (simp add: rt_send_datagram_def)
qed

section \<open>A round of gossip over the wire\<close>

lemma membership_records_counters [simp]: "membership_records (update_peer_counters j f m) = membership_records m"
proof -
  have "map (pr_record \<circ> snd) (AList.map_entry j (\<lambda>p. p\<lparr>pr_counters := f (pr_counters p)\<rparr>) al) = map (pr_record \<circ> snd) al" for al
    by (induction al) auto
  then show ?thesis by (simp add: membership_records_def update_peer_counters_def)
qed

lemma digest_counters [simp]:
  "membership_digest hex (record_gossip_frame_sent j m) = membership_digest hex m"
  "membership_digest hex (record_gossip_frame_received j m) = membership_digest hex m"
  "membership_delta_for hex es (record_gossip_frame_sent j m) = membership_delta_for hex es m"
  "membership_delta_for hex es (record_gossip_frame_received j m) = membership_delta_for hex es m"
  by (simp_all add: membership_digest_def membership_delta_for_def record_gossip_frame_sent_def record_gossip_frame_received_def)

lemma known_counters [simp]:
  "known (record_gossip_frame_sent j m) = known m" "known (record_gossip_frame_received j m) = known m"
  "mm_local_runtime_id (record_gossip_frame_sent j m) = mm_local_runtime_id m"
  "mm_local_runtime_id (record_gossip_frame_received j m) = mm_local_runtime_id m"
  by (simp_all add: record_gossip_frame_sent_def record_gossip_frame_received_def)

lemma known_apply_records_cong:
  assumes "known m = known m'" "mm_local_runtime_id m = mm_local_runtime_id m'"
  shows "known (apply_records hex rs m) = known (apply_records hex rs m')"
  using assms
proof (induction rs arbitrary: m m')
  case (Cons r rs)
  have "known (snd (apply_gossip_record hex r m)) = known (snd (apply_gossip_record hex r m'))"
    using Cons.prems by (simp add: known_apply_gossip_record)
  then show ?case
    unfolding apply_records_simps by (rule Cons.IH) (simp only: apply_gossip_record_local Cons.prems(2))
qed simp

text \<open>The queue of the control stream to a relay is open and empty.\<close>

definition idle_queue :: "runtime_id \<Rightarrow> nat \<Rightarrow> mesh_runtime \<Rightarrow> bool" where
  "idle_queue remote q rt \<longleftrightarrow>
    Option.bind (map_of (rt_peers rt) remote) en_control_tx = Some q \<and> q < length (rt_queues rt) \<and>
    rt_queues rt ! q = \<lparr>ch_buf = [], ch_open = True\<rparr>"

lemma send_control_frame_idle:
  assumes "idle_queue remote q rt"
  shows "rt_queues (send_control_frame remote frame rt) ! q = \<lparr>ch_buf = [frame], ch_open = True\<rparr>"
    and "rt_membership (send_control_frame remote frame rt) = rt_membership rt"
  using assms by (auto simp: send_control_frame_def idle_queue_def try_send_def control_queue_depth_def)

lemma send_control_frame_other:
  assumes "Option.bind (map_of (rt_peers rt) remote) en_control_tx \<noteq> Some q"
  shows "rt_queues (send_control_frame remote frame rt) ! q = rt_queues rt ! q"
  using assms by (auto simp: send_control_frame_def split: option.splits)

lemma send_control_frame_simps [simp]:
  "rt_peers (send_control_frame remote frame rt) = rt_peers rt"
  "rt_membership (send_control_frame remote frame rt) = rt_membership rt"
  "length (rt_queues (send_control_frame remote frame rt)) = length (rt_queues rt)"
  by (simp_all add: send_control_frame_def split: option.splits)

lemma broadcast_idle:
  assumes "runtime_ok rt" "idle_queue remote q rt" "distinct targets" "remote \<in> set targets"
  shows "rt_queues (fold (\<lambda>i. send_control_frame i frame) targets rt) ! q = \<lparr>ch_buf = [frame], ch_open = True\<rparr>"
    and "rt_membership (fold (\<lambda>i. send_control_frame i frame) targets rt) = rt_membership rt"
proof -
  have only: "Option.bind (map_of (rt_peers rt) i) en_control_tx = Some q \<Longrightarrow> i = remote" for i
    using assms(1,2) unfolding idle_queue_def runtime_ok_def by (auto simp: Option.bind_eq_Some_conv dest!: map_of_SomeD)
  have keep: "rt_queues (fold (\<lambda>i. send_control_frame i frame) ts rt') ! q = rt_queues rt' ! q"
    if "remote \<notin> set ts" "rt_peers rt' = rt_peers rt" for ts rt'
    using that
  proof (induction ts arbitrary: rt')
    case (Cons i ts)
    have "rt_queues (send_control_frame i frame rt') ! q = rt_queues rt' ! q"
      by (rule send_control_frame_other) (use Cons.prems only [of i] in auto)
    then show ?case using Cons by simp
  qed simp
  obtain us vs where split: "targets = us @ remote # vs" "remote \<notin> set us" "remote \<notin> set vs"
    using assms(3,4) by (metis distinct.simps(2) distinct_append in_set_conv_decomp_first)
  have peers: "rt_peers (fold (\<lambda>i. send_control_frame i frame) ts rt') = rt_peers rt'"
    and len: "length (rt_queues (fold (\<lambda>i. send_control_frame i frame) ts rt')) = length (rt_queues rt')" for ts rt'
    by (induction ts arbitrary: rt') simp_all
  have mem: "rt_membership (fold (\<lambda>i. send_control_frame i frame) ts rt') = rt_membership rt'" for ts rt'
    by (induction ts arbitrary: rt') simp_all
  let ?r = "fold (\<lambda>i. send_control_frame i frame) us rt"
  have "idle_queue remote q ?r"
    using assms(2) keep [OF split(2) refl] peers [of us rt] len [of us rt] by (simp add: idle_queue_def)
  from send_control_frame_idle(1) [OF this]
  show "rt_queues (fold (\<lambda>i. send_control_frame i frame) targets rt) ! q = \<lparr>ch_buf = [frame], ch_open = True\<rparr>"
    using keep [OF split(3), of "send_control_frame remote frame ?r"] peers [of us rt] by (simp add: split(1))
  show "rt_membership (fold (\<lambda>i. send_control_frame i frame) targets rt) = rt_membership rt" by (rule mem)
qed

lemma gossip_tick_idle:
  assumes ok: "runtime_ok rt" and idle: "idle_queue remote q rt"
    and m: "m = snd (update_local now (\<lambda>r. r) (rt_membership rt))"
    and enc: "encode_message (gl_encode gl) (membership_digest hex m) = Inr payload"
  shows "rt_queues (gossip_tick gl hex now rt) ! q = \<lparr>ch_buf = [Gossip payload], ch_open = True\<rparr>"
    and "rt_membership (gossip_tick gl hex now rt) = m"
proof -
  let ?rt = "on_membership (\<lambda>m. snd (update_local now (\<lambda>r. r) m)) rt"
  let ?ts = "[i. (i, e) \<leftarrow> rt_peers ?rt, en_control_tx e \<noteq> None]"
  have ok': "runtime_ok ?rt"
    using ok by (simp add: runtime_ok_on_membership membership_grows runtime_ok_membership)
  have idle': "idle_queue remote q ?rt" using idle by (simp add: idle_queue_def on_membership_def)
  have d: "distinct (map fst (rt_peers ?rt))" using ok' by (simp add: runtime_ok_def)
  have "[i. (i, e) \<leftarrow> es, en_control_tx e \<noteq> None] = map fst (filter (\<lambda>(i, e). en_control_tx e \<noteq> None) es)"
    for es :: "(runtime_id \<times> peer_entry) list" by (induction es) auto
  then have ts: "?ts = map fst (filter (\<lambda>(i, e). en_control_tx e \<noteq> None) (rt_peers ?rt))" .
  have "distinct ?ts" unfolding ts by (rule distinct_map_filter [OF d])
  moreover have "remote \<in> set ?ts" unfolding ts using idle' by (force simp: idle_queue_def Option.bind_eq_Some_conv dest: map_of_SomeD)
  ultimately have "rt_queues (fold (\<lambda>i. send_control_frame i (Gossip payload)) ?ts ?rt) ! q = \<lparr>ch_buf = [Gossip payload], ch_open = True\<rparr>"
    "rt_membership (fold (\<lambda>i. send_control_frame i (Gossip payload)) ?ts ?rt) = rt_membership ?rt"
    using broadcast_idle [OF ok' idle'] by simp_all
  then show "rt_queues (gossip_tick gl hex now rt) ! q = \<lparr>ch_buf = [Gossip payload], ch_open = True\<rparr>"
    and "rt_membership (gossip_tick gl hex now rt) = m"
    using enc by (simp_all add: gossip_tick_def Let_def m on_membership_def)
qed

lemma decode_encode_message:
  assumes "\<And>msg bs. gl_encode gl msg = Inr bs \<Longrightarrow> gl_decode gl bs = Inr msg"
    and "encode_message (gl_encode gl) msg = Inr bs"
    and "(case msg of Digest v _ \<Rightarrow> v | Delta v _ \<Rightarrow> v) = gossip_payload_version"
  shows "decode_message (gl_decode gl) bs = Inr msg"
  using assms by (auto simp: encode_message_def decode_message_def Let_def split: sum.splits gossip_message.splits)

text \<open>
  A round: one relay ticks, its writer sends the frame in its queue, the other handles it, its writer sends the answer,
  the first handles that.
\<close>

definition gossip_round ::
  "gossip_lib \<Rightarrow> (runtime_id \<Rightarrow> string) \<Rightarrow> u64 \<Rightarrow> runtime_id \<Rightarrow> nat \<Rightarrow> runtime_id \<Rightarrow> nat \<Rightarrow> mesh_runtime \<Rightarrow> mesh_runtime \<Rightarrow>
    mesh_runtime \<times> mesh_runtime" where
  "gossip_round gl hex now i qa j qb a b =
    (case control_send_turn j qa (Inr ()) (gossip_tick gl hex now a) of
       (None, a1) \<Rightarrow> (a1, b)
     | (Some frame, a1) \<Rightarrow>
         (case control_send_turn i qb (Inr ()) (snd (control_turn gl hex i qb (Inr (Some frame)) b)) of
            (None, b2) \<Rightarrow> (a1, b2)
          | (Some answer, b2) \<Rightarrow> (snd (control_turn gl hex j qa (Inr (Some answer)) a1), b2)))"

text \<open>
  A round of gossip over the control streams is an exchange. With idle queues and messages that can be encoded, the
  relay that ticked knows afterwards what it would know from pulling the other's state directly,
  and the other knows what it knew.
\<close>

theorem gossip_round_is_pull:
  assumes codec: "\<And>msg bs. gl_encode gl msg = Inr bs \<Longrightarrow> gl_decode gl bs = Inr msg"
    and a: "runtime_ok a" "idle_queue j qa a" and b: "runtime_ok b" "idle_queue i qb b"
    and m: "m = snd (update_local now (\<lambda>r. r) (rt_membership a))"
    and enc: "gl_encode gl (membership_digest hex m) = Inr p1"
      "gl_encode gl (membership_delta_for hex (digest_entries hex m) (rt_membership b)) = Inr p2"
    and round: "gossip_round gl hex now i qa j qb a b = (a2, b2)"
  shows "known (rt_membership a2) = known (pull hex m (rt_membership b)) \<and>
    known (rt_membership b2) = known (rt_membership b)"
proof (intro conjI impI)
  have p1: "encode_message (gl_encode gl) (membership_digest hex m) = Inr p1" using enc(1) by (simp add: encode_message_def)
  note tick = gossip_tick_idle [OF a m p1]
  obtain a1 where a1: "control_send_turn j qa (Inr ()) (gossip_tick gl hex now a) = (Some (Gossip p1), a1)"
    "rt_membership a1 = record_gossip_frame_sent j m"
    using tick by (simp add: control_send_turn_def recv_def Let_def on_membership_def)
  have d1: "decode_message (gl_decode gl) p1 = Inr (Digest gossip_payload_version (digest_entries hex m))"
    using decode_encode_message [OF codec p1] by (simp add: digest_message)
  let ?b = "on_membership (record_gossip_frame_received i) b"
  have mb: "membership_delta_for hex (digest_entries hex m) (rt_membership ?b) =
      membership_delta_for hex (digest_entries hex m) (rt_membership b)" by (simp add: on_membership_def)
  have p2: "encode_message (gl_encode gl) (membership_delta_for hex (digest_entries hex m) (rt_membership b)) = Inr p2"
    using enc(2) by (simp add: encode_message_def)
  have b1: "snd (control_turn gl hex i qb (Inr (Some (Gossip p1))) b) = send_control_frame i (Gossip p2) ?b"
    using d1 p2 by (simp add: control_turn_def Let_def mb)
  have "idle_queue i qb ?b" using b(2) by (simp add: idle_queue_def on_membership_def)
  note sent = send_control_frame_idle [OF this, of "Gossip p2"]
  obtain b' where b': "control_send_turn i qb (Inr ()) (send_control_frame i (Gossip p2) ?b) = (Some (Gossip p2), b')"
    "rt_membership b' = record_gossip_frame_sent i (rt_membership ?b)"
    using sent by (simp add: control_send_turn_def recv_def Let_def on_membership_def)
  have d2: "decode_message (gl_decode gl) p2 = Inr (Delta gossip_payload_version (delta_records hex (digest_entries hex m) (rt_membership b)))"
    using decode_encode_message [OF codec p2] by (simp add: delta_message)
  have res: "a2 = snd (control_turn gl hex j qa (Inr (Some (Gossip p2))) a1)" "b2 = b'"
    using round by (simp_all add: gossip_round_def a1(1) b1 b'(1))
  show "known (rt_membership b2) = known (rt_membership b)" by (simp add: res b' on_membership_def)
  have "rt_membership a2 = apply_records hex (delta_records hex (digest_entries hex m) (rt_membership b))
      (record_gossip_frame_received j (rt_membership a1))"
    using d2 by (simp add: res control_turn_def Let_def on_membership_def)
  then show "known (rt_membership a2) = known (pull hex m (rt_membership b))"
    using known_apply_records_cong [of "record_gossip_frame_received j (rt_membership a1)" m] by (simp add: pull_def a1)
qed

section \<open>Examples\<close>

text \<open>Two relays connected to each other, each knowing the other from the registry.\<close>

definition sample_hint :: "8 word \<Rightarrow> peer_state" where
  "sample_hint b = \<lparr>pr_record = gossip_record_new 0 [b] [] 1, pr_phi = phi_default, pr_connection_state = Connected,
     pr_counters = counters_new []\<rparr>"

definition sample_relay :: "8 word \<Rightarrow> 8 word \<Rightarrow> mesh_runtime" where
  "sample_relay b other =
    \<lparr>rt_local = [b], rt_membership = (sample_node b)\<lparr>mm_peers := [([other], sample_hint other)]\<rparr>, rt_registry = False,
     rt_peers = [([other], \<lparr>en_peer = \<lparr>mp_conn = 0, mp_runtime_id = [other]\<rparr>, en_control_tx = Some 0, en_tasks = [DatagramLoop 0]\<rparr>)],
     rt_handler = True, rt_tasks = [DatagramLoop 0], rt_queues = [new_channel], rt_inbound = []\<rparr>"

lemma sample_relay_ok: "b \<noteq> other \<Longrightarrow> runtime_ok (sample_relay b other)"
  by (simp add: runtime_ok_def sample_relay_def sample_node_def sample_hint_def membership_inv_def with_expected_relay_pubkey_def
      membership_new_def gossip_record_new_def has_peer_def)

lemma sample_relay_idle: "idle_queue [other] 0 (sample_relay b other)"
  by (simp add: idle_queue_def sample_relay_def new_channel_def)

definition sample_digest :: gossip_message where
  "sample_digest = membership_digest (\<lambda>_. []) (snd (update_local 7 (\<lambda>r. r) (rt_membership (sample_relay 1 2))))"

definition sample_delta :: gossip_message where
  "sample_delta = membership_delta_for (\<lambda>_. [])
     (digest_entries (\<lambda>_. []) (snd (update_local 7 (\<lambda>r. r) (rt_membership (sample_relay 1 2))))) (rt_membership (sample_relay 2 1))"

definition sample_gossip_lib :: gossip_lib where
  "sample_gossip_lib =
    \<lparr>gl_encode = (\<lambda>msg. if msg = sample_digest then Inr [0] else if msg = sample_delta then Inr [1] else Inl ''unsupported''),
     gl_decode = (\<lambda>bs. if bs = [0] then Inr sample_digest else Inr sample_delta)\<rparr>"

theorem gossip_round_is_pull_witness:
  "\<exists>a2 b2. gossip_round sample_gossip_lib (\<lambda>_. []) 7 [1] 0 [2] 0 (sample_relay 1 2) (sample_relay 2 1) = (a2, b2) \<and>
    known (rt_membership a2) = known (pull (\<lambda>_. []) (snd (update_local 7 (\<lambda>r. r) (rt_membership (sample_relay 1 2))))
      (rt_membership (sample_relay 2 1)))"
proof -
  obtain a2 b2 where r: "gossip_round sample_gossip_lib (\<lambda>_. []) 7 [1] 0 [2] 0 (sample_relay 1 2) (sample_relay 2 1) = (a2, b2)"
    by (cases "gossip_round sample_gossip_lib (\<lambda>_. []) 7 [1] 0 [2] 0 (sample_relay 1 2) (sample_relay 2 1)")
  have ne: "sample_delta \<noteq> sample_digest" by (simp add: sample_delta_def sample_digest_def digest_message delta_message)
  have codec: "gl_decode sample_gossip_lib bs = Inr msg" if "gl_encode sample_gossip_lib msg = Inr bs" for msg bs
    using that by (auto simp: sample_gossip_lib_def split: if_splits)
  have enc: "gl_encode sample_gossip_lib (membership_digest (\<lambda>_. []) (snd (update_local 7 (\<lambda>r. r) (rt_membership (sample_relay 1 2))))) = Inr [0]"
    "gl_encode sample_gossip_lib (membership_delta_for (\<lambda>_. [])
       (digest_entries (\<lambda>_. []) (snd (update_local 7 (\<lambda>r. r) (rt_membership (sample_relay 1 2))))) (rt_membership (sample_relay 2 1))) = Inr [1]"
    using ne by (simp_all add: sample_gossip_lib_def sample_digest_def [symmetric] sample_delta_def [symmetric])
  from gossip_round_is_pull [OF codec sample_relay_ok sample_relay_idle sample_relay_ok sample_relay_idle refl enc r] r
  show ?thesis by simp
qed

theorem tie_break_agreement_witness:
  "conn_of (install_all [2] [(5, True), (6, False)] (runtime_start [1] (sample_node 1) False)) [2] = Some 5 \<and>
   conn_of (install_all [1] [(6, True), (5, False)] (runtime_start [2] (sample_node 2) False)) [1] = Some 5"
proof -
  let ?a = "runtime_start [1] (sample_node 1) False" and ?b = "runtime_start [2] (sample_node 2) False"
  have l: "rt_local ?a = [1]" "rt_local ?b = [2]" by (simp_all add: runtime_start_def)
  have less: "[1 :: 8 word] < [2]" by simp
  have d: "rt_local ?a \<noteq> rt_local ?b" by (simp add: l)
  have f: "map_of (rt_peers ?a) (rt_local ?b) = None" "map_of (rt_peers ?b) (rt_local ?a) = None"
    by (simp_all add: runtime_start_def)
  have s: "set [(6, True), (5, False)] = (\<lambda>(c, d). (c, \<not> d)) ` set [(5 :: nat, True), (6, False)]" by auto
  have c: "(c, rt_local ?a < rt_local ?b) \<in> set [(5 :: nat, True), (6, False)] \<longleftrightarrow> c = 5" for c
    using less by (simp add: l)
  show ?thesis using tie_break_agreement [OF d f s c] by (simp add: l)
qed

theorem stale_loop_drops_new_connection_witness:
  "\<exists>rt1 rt2. snd (install_peer \<lparr>mp_conn = 9, mp_runtime_id = [2]\<rparr> True (sample_relay 1 2)) = rt1 \<and>
     snd (datagram_turn [2] (Inl EmptyFrame) rt1) = rt2 \<and> conn_of rt1 [2] = Some 9 \<and> conn_of rt2 [2] = None"
proof -
  let ?p = "\<lparr>mp_conn = 9, mp_runtime_id = [2 :: 8 word]\<rparr>" and ?rt = "sample_relay 1 2"
  obtain ok rt1 where rt1: "install_peer ?p True ?rt = (ok, rt1)" by (cases "install_peer ?p True ?rt")
  obtain g rt2 where rt2: "datagram_turn (mp_runtime_id ?p) (Inl EmptyFrame) rt1 = (g, rt2)"
    by (cases "datagram_turn (mp_runtime_id ?p) (Inl EmptyFrame) rt1")
  have less: "[1 :: 8 word] < [2]" by simp
  have old: "map_of (rt_peers ?rt) (mp_runtime_id ?p) = Some
      \<lparr>en_peer = \<lparr>mp_conn = 0, mp_runtime_id = [2]\<rparr>, en_control_tx = Some 0, en_tasks = [DatagramLoop 0]\<rparr>"
    by (simp add: sample_relay_def)
  have wins: "new_connection_wins (rt_local ?rt) (mp_runtime_id ?p) True"
    using less by (simp add: new_connection_wins_def sample_relay_def)
  show ?thesis
    using stale_loop_drops_new_connection [OF old _ wins rt1 rt2] rt1 rt2 by simp
qed

text \<open>A relay with an attested record in the registry connects.\<close>

definition sample_accepted :: mesh_runtime where
  "sample_accepted = snd (accept_turn sample_attest_lib (\<lambda>rt. (Inr [(0, sample_ready)], rt))
     (Inr (Some \<lparr>mp_conn = 3, mp_runtime_id = [2]\<rparr>)) (runtime_start [1] (sample_node 1) True))"

lemma sample_accepted_connected: "connected_peers sample_accepted = [[2]]"
  by (simp add: sample_accepted_def accept_turn_def is_known_peer_def apply_scan_def runtime_start_def has_peer_def sample_node_def
      with_expected_relay_pubkey_def membership_new_def gossip_record_new_def on_membership_def apply_ready_record_def
      sample_ready_def verify_attestation_def verify_attestation_sig_def sample_attest_lib_def apply_gossip_record_def Let_def
      install_peer_def connected_peers_def)

theorem connected_peers_known_witness:
  "connected_peers sample_accepted = [[2]] \<and> has_peer [2] (rt_membership sample_accepted)"
proof -
  have init: "runtime_init (runtime_start [1] (sample_node 1) True)"
    unfolding runtime_init_def sample_node_def
    by (intro exI [of _ "gossip_record_new 0 [1] [] 1\<lparr>gr_capabilities := []\<rparr>"] exI [of _ True] exI [of _ "''relay''"])
      (simp add: gossip_record_new_def)
  have "runtime_turn sample_attest_lib sample_gossip_lib (runtime_start [1] (sample_node 1) True) sample_accepted"
    unfolding sample_accepted_def by (rule runtime_turn.accept) (simp add: scan_ok_def)
  then have "(runtime_turn sample_attest_lib sample_gossip_lib)\<^sup>*\<^sup>* (runtime_start [1] (sample_node 1) True) sample_accepted" by blast
  from connected_peers_known [OF init this, of "[2]"] show ?thesis by (simp add: sample_accepted_connected)
qed

end
