(* ===== verification/Audit_Log.thy ===== *)
theory Audit_Log
  imports Prelude "HOL-Library.List_Lexorder" "HOL-Library.Char_ord" "HOL-Library.Multiset"
begin

text \<open>
  The audit log (\<open>crates/buzz-audit\<close>): a hash chain per community in one table. Entries and their hash
  (\<open>action.rs\<close>, \<open>entry.rs\<close>, \<open>error.rs\<close>, \<open>hash.rs\<close>), the operations of the service (\<open>service.rs\<close>), and the
  service as a system of concurrent writers that hold an advisory lock while they read the head and
  append. SHA-256, the text of times and of JSON scalars and what the database returns for a stored JSON value are
  the record \<open>audit_lib\<close>. Shown: the chain verifies on every range in every reachable state, a chain that still
  verifies up to a known hash has the hashed content it had, what one call of \<open>log\<close> does, and that what it logged is read back.
\<close>

section \<open>Entries\<close>

datatype audit_action =
    EventCreated | EventDeleted | ChannelCreated | ChannelUpdated | ChannelDeleted | MemberAdded | MemberRemoved
  | AuthSuccess | AuthFailure | RateLimitExceeded | MediaUploaded

fun action_as_str :: "audit_action \<Rightarrow> string" where
  "action_as_str EventCreated = ''event_created''"
| "action_as_str EventDeleted = ''event_deleted''"
| "action_as_str ChannelCreated = ''channel_created''"
| "action_as_str ChannelUpdated = ''channel_updated''"
| "action_as_str ChannelDeleted = ''channel_deleted''"
| "action_as_str MemberAdded = ''member_added''"
| "action_as_str MemberRemoved = ''member_removed''"
| "action_as_str AuthSuccess = ''auth_success''"
| "action_as_str AuthFailure = ''auth_failure''"
| "action_as_str RateLimitExceeded = ''rate_limit_exceeded''"
| "action_as_str MediaUploaded = ''media_uploaded''"

definition action_all :: "audit_action list" where
  "action_all = [EventCreated, EventDeleted, ChannelCreated, ChannelUpdated, ChannelDeleted, MemberAdded, MemberRemoved,
     AuthSuccess, AuthFailure, RateLimitExceeded, MediaUploaded]"

definition action_from_str :: "string \<Rightarrow> audit_action option" where
  "action_from_str s = find (\<lambda>a. action_as_str a = s) action_all"

record audit_entry =
  ae_community_id :: uuid
  ae_seq :: i64
  ae_hash :: "8 word list"
  ae_prev_hash :: "8 word list option"
  ae_action :: audit_action
  ae_actor_pubkey :: "8 word list option"
  ae_object_id :: "string option"
  ae_detail :: json
  ae_created_at :: timestamp

record new_audit_entry =
  na_community_id :: uuid
  na_action :: audit_action
  na_actor_pubkey :: "8 word list option"
  na_object_id :: "string option"
  na_detail :: json

datatype audit_error =
    Database string
  | ChainViolation i64
  | HashMismatch i64
  | UnknownAction
  | Serialization string

text \<open>The hash function, the text of a time and of a JSON scalar or string, and what the database makes of a JSON value.\<close>

record audit_lib =
  ad_sha256 :: "8 word list \<Rightarrow> 8 word list"
  ad_rfc3339 :: "timestamp \<Rightarrow> string"
  ad_to_string :: "json \<Rightarrow> string + string"
  ad_jsonb :: "json \<Rightarrow> json"

section \<open>The hash of an entry\<close>

fun commas :: "string list \<Rightarrow> string" where
  "commas [] = []"
| "commas [x] = x"
| "commas (x # y # ys) = x @ '','' @ commas (y # ys)"

definition json_member :: "string + string \<Rightarrow> string + string \<Rightarrow> string + string" where
  "json_member key value =
    (case key of Inl e \<Rightarrow> Inl e | Inr k \<Rightarrow> (case value of Inl e \<Rightarrow> Inl e | Inr v \<Rightarrow> Inr (k @ '':'' @ v)))"

fun canonical_json :: "audit_lib \<Rightarrow> json \<Rightarrow> string + string" where
  "canonical_json lib (JObject members) =
    (case collect (map snd (sort_key fst
             (map (\<lambda>(k, v). (k, json_member (ad_to_string lib (JString k)) (canonical_json lib v))) members))) of
       Inl e \<Rightarrow> Inl e
     | Inr parts \<Rightarrow> Inr (''{'' @ commas parts @ ''}''))"
| "canonical_json lib (JArray elems) =
    (case collect (map (canonical_json lib) elems) of Inl e \<Rightarrow> Inl e | Inr parts \<Rightarrow> Inr (''['' @ commas parts @ '']''))"
| "canonical_json lib v = ad_to_string lib v"

text \<open>Times are in nanoseconds; the database keeps microseconds.\<close>

definition to_storage_precision :: "timestamp \<Rightarrow> timestamp" where
  "to_storage_precision created_at = created_at div 1000 * 1000"

definition genesis_hash :: "8 word list" where
  "genesis_hash = replicate 32 0"

definition be_bytes :: "nat \<Rightarrow> 'a::len word \<Rightarrow> 8 word list" where
  "be_bytes n w = map (\<lambda>k. ucast (drop_bit (8 * k) w)) (rev [0..<n])"

definition str_bytes :: "string \<Rightarrow> 8 word list" where
  "str_bytes s = map of_char s"

definition tagged :: "8 word list option \<Rightarrow> 8 word list" where
  "tagged x = (case x of Some bs \<Rightarrow> 1 # bs | None \<Rightarrow> [0])"

definition preimage :: "audit_lib \<Rightarrow> audit_entry \<Rightarrow> string \<Rightarrow> 8 word list" where
  "preimage lib e detail =
    be_bytes 16 (ae_community_id e) @ be_bytes 8 (word_of_int (ae_seq e) :: 64 word) @
    str_bytes (ad_rfc3339 lib (to_storage_precision (ae_created_at e))) @ str_bytes (action_as_str (ae_action e)) @
    tagged (ae_actor_pubkey e) @ tagged (map_option str_bytes (ae_object_id e)) @ str_bytes detail @
    (case ae_prev_hash e of Some h \<Rightarrow> h | None \<Rightarrow> genesis_hash)"

definition compute_hash :: "audit_lib \<Rightarrow> audit_entry \<Rightarrow> audit_error + 8 word list" where
  "compute_hash lib e =
    (case canonical_json lib (ae_detail e) of
       Inl err \<Rightarrow> Inl (Serialization err)
     | Inr detail \<Rightarrow> Inr (ad_sha256 lib (preimage lib e detail)))"

section \<open>The log in the database\<close>

record audit_row =
  ar_community_id :: uuid
  ar_seq :: i64
  ar_hash :: "8 word list"
  ar_prev_hash :: "8 word list option"
  ar_action :: string
  ar_actor_pubkey :: "8 word list option"
  ar_object_id :: "string option"
  ar_detail :: json
  ar_created_at :: timestamp

text \<open>A community is active or has a lifecycle that forbids writes.\<close>

record audit_db =
  au_communities :: "(uuid \<times> bool) list"
  au_rows :: "audit_row list"

definition rows_of :: "uuid \<Rightarrow> audit_db \<Rightarrow> audit_row list" where
  "rows_of c db = sort_key ar_seq (filter (\<lambda>r. ar_community_id r = c) (au_rows db))"

definition chain_head :: "uuid \<Rightarrow> audit_db \<Rightarrow> audit_row option" where
  "chain_head c db = (case rows_of c db of [] \<Rightarrow> None | rs \<Rightarrow> Some (last rs))"

text \<open>A \<open>TIMESTAMPTZ\<close> is sent and kept in microseconds.\<close>

definition timestamptz :: "timestamp \<Rightarrow> timestamp" where
  "timestamptz t = t div 1000 * 1000"

text \<open>The row of an entry: the action as its text, the detail as \<open>JSONB\<close>, the time in microseconds.\<close>

definition entry_to_row :: "audit_lib \<Rightarrow> audit_entry \<Rightarrow> audit_row" where
  "entry_to_row lib e =
    \<lparr>ar_community_id = ae_community_id e, ar_seq = ae_seq e, ar_hash = ae_hash e, ar_prev_hash = ae_prev_hash e,
     ar_action = action_as_str (ae_action e), ar_actor_pubkey = ae_actor_pubkey e, ar_object_id = ae_object_id e,
     ar_detail = ad_jsonb lib (ae_detail e), ar_created_at = timestamptz (ae_created_at e)\<rparr>"

text \<open>
  The trigger of the write fence (migration \<open>0029\<close>), then the unique indexes. The session settings of the deletion executor and
  of serving leases, which the trigger also accepts, are never made by this service.
\<close>

definition assert_community_write_allowed :: "uuid \<Rightarrow> audit_db \<Rightarrow> string option" where
  "assert_community_write_allowed target db =
    (case map_of (au_communities db) target of
       None \<Rightarrow> Some ''community is missing''
     | Some active \<Rightarrow> if active then None else Some ''community write fenced'')"

definition insert_row :: "audit_row \<Rightarrow> audit_db \<Rightarrow> audit_error + audit_db" where
  "insert_row row db =
    (case assert_community_write_allowed (ar_community_id row) db of
       Some e \<Rightarrow> Inl (Database e)
     | None \<Rightarrow>
         if \<exists>r \<in> set (au_rows db). ar_community_id r = ar_community_id row \<and> ar_seq r = ar_seq row
         then Inl (Database ''audit_log_pkey'')
         else if \<exists>r \<in> set (au_rows db). ar_community_id r = ar_community_id row \<and> ar_hash r = ar_hash row
         then Inl (Database ''idx_audit_log_hash'')
         else Inr (db\<lparr>au_rows := au_rows db @ [row]\<rparr>))"

text \<open>The second half of \<open>log_inner\<close>: the entry after a head that was read, its hash and the insertion.\<close>

definition append_after ::
  "audit_lib \<Rightarrow> timestamp \<Rightarrow> audit_row option \<Rightarrow> new_audit_entry \<Rightarrow> audit_db \<Rightarrow> audit_error + audit_entry \<times> audit_db" where
  "append_after lib now head entry db =
    (let (prev_seq, prev_hash) = (case head of Some row \<Rightarrow> (ar_seq row, Some (ar_hash row)) | None \<Rightarrow> (0, None));
         e = \<lparr>ae_community_id = na_community_id entry, ae_seq = prev_seq + 1, ae_hash = [], ae_prev_hash = prev_hash,
              ae_action = na_action entry, ae_actor_pubkey = na_actor_pubkey entry, ae_object_id = na_object_id entry,
              ae_detail = na_detail entry, ae_created_at = to_storage_precision now\<rparr>
     in case compute_hash lib e of
          Inl err \<Rightarrow> Inl err
        | Inr h \<Rightarrow>
            let e = e\<lparr>ae_hash := h\<rparr>
            in (case insert_row (entry_to_row lib e) db of Inl err \<Rightarrow> Inl err | Inr db \<Rightarrow> Inr (e, db)))"

text \<open>
  What can fail around the statements: connecting, taking the lock, beginning, reading the head, committing. A commit
  whose reply is lost may have taken effect.
\<close>

record log_env =
  le_acquire :: "string option"
  le_lock :: "string option"
  le_begin :: "string option"
  le_fetch :: "string option"
  le_commit :: "(string \<times> bool) option"

definition log_inner :: "audit_lib \<Rightarrow> log_env \<Rightarrow> timestamp \<Rightarrow> new_audit_entry \<Rightarrow> audit_db \<Rightarrow> (audit_error + audit_entry) \<times> audit_db" where
  "log_inner lib env now entry db =
    (case le_begin env of Some e \<Rightarrow> (Inl (Database e), db) | None \<Rightarrow>
    (case le_fetch env of Some e \<Rightarrow> (Inl (Database e), db) | None \<Rightarrow>
    (case append_after lib now (chain_head (na_community_id entry) db) entry db of
       Inl err \<Rightarrow> (Inl err, db)
     | Inr (e, db') \<Rightarrow>
         (case le_commit env of
            Some (err, committed) \<Rightarrow> (Inl (Database err), if committed then db' else db)
          | None \<Rightarrow> (Inr e, db')))))"

text \<open>The lock is held during \<open>log_inner\<close>; releasing it has no result.\<close>

definition audit_log :: "audit_lib \<Rightarrow> log_env \<Rightarrow> timestamp \<Rightarrow> new_audit_entry \<Rightarrow> audit_db \<Rightarrow> (audit_error + audit_entry) \<times> audit_db" where
  "audit_log lib env now entry db =
    (case le_acquire env of Some e \<Rightarrow> (Inl (Database e), db) | None \<Rightarrow>
    (case le_lock env of Some e \<Rightarrow> (Inl (Database e), db) | None \<Rightarrow> log_inner lib env now entry db))"

definition row_to_audit_entry :: "audit_row \<Rightarrow> audit_error + audit_entry" where
  "row_to_audit_entry row =
    (case action_from_str (ar_action row) of
       None \<Rightarrow> Inl UnknownAction
     | Some action \<Rightarrow>
         Inr \<lparr>ae_community_id = ar_community_id row, ae_seq = ar_seq row, ae_hash = ar_hash row, ae_prev_hash = ar_prev_hash row,
              ae_action = action, ae_actor_pubkey = ar_actor_pubkey row, ae_object_id = ar_object_id row,
              ae_detail = ar_detail row, ae_created_at = ar_created_at row\<rparr>)"

fun verify_rows :: "audit_lib \<Rightarrow> 8 word list option \<Rightarrow> audit_row list \<Rightarrow> audit_error + bool" where
  "verify_rows lib expected_prev [] = Inr True"
| "verify_rows lib expected_prev (row # rows) =
    (case row_to_audit_entry row of
       Inl e \<Rightarrow> Inl e
     | Inr entry \<Rightarrow>
         if expected_prev \<noteq> None \<and> ae_prev_hash entry \<noteq> expected_prev then Inl (ChainViolation (ae_seq entry))
         else case compute_hash lib entry of
           Inl e \<Rightarrow> Inl e
         | Inr computed \<Rightarrow>
             if computed \<noteq> ae_hash entry then Inl (HashMismatch (ae_seq entry))
             else verify_rows lib (Some (ae_hash entry)) rows)"

definition verify_chain :: "audit_lib \<Rightarrow> uuid \<Rightarrow> i64 \<Rightarrow> i64 \<Rightarrow> audit_db \<Rightarrow> audit_error + bool" where
  "verify_chain lib community from_seq to_seq db =
    (let rows = filter (\<lambda>r. from_seq \<le> ar_seq r \<and> ar_seq r \<le> to_seq) (rows_of community db)
     in if rows = [] then Inr False else verify_rows lib None rows)"

definition get_entries :: "uuid \<Rightarrow> i64 \<Rightarrow> i64 \<Rightarrow> audit_db \<Rightarrow> audit_error + audit_entry list" where
  "get_entries community from_seq limit db =
    (if limit < 0 then Inl (Database ''LIMIT must not be negative'')
     else collect (map row_to_audit_entry
            (take (nat limit) (filter (\<lambda>r. from_seq \<le> ar_seq r) (rows_of community db)))))"

section \<open>Actions and JSON text\<close>

lemma action_cases: "a \<in> set action_all"
  by (cases a) (simp_all add: action_all_def)

interpretation action_codec: string_codec action_as_str action_from_str
proof
  show "action_from_str (action_as_str e) = Some e" for e
    by (cases e) (simp_all add: action_from_str_def action_all_def)
  show "s = action_as_str e" if "action_from_str s = Some e" for s e
    using that by (auto simp: action_from_str_def find_Some_iff)
qed

text \<open>Two values that differ in the order of object members only.\<close>

inductive json_same :: "json \<Rightarrow> json \<Rightarrow> bool" where
  scalar: "json_same v v"
| array: "list_all2 json_same xs ys \<Longrightarrow> json_same (JArray xs) (JArray ys)"
| object: "distinct (map fst xs) \<Longrightarrow> list_all2 (\<lambda>x z. fst x = fst z \<and> json_same (snd x) (snd z)) xs zs \<Longrightarrow> mset zs = mset ys \<Longrightarrow>
    json_same (JObject xs) (JObject ys)"

lemma sort_key_mset:
  assumes "mset xs = mset ys" "distinct (map f xs)"
  shows "sort_key f xs = sort_key f ys"
proof (rule sort_key_inj_key_eq)
  show "mset xs = mset (sort_key f ys)" using assms(1) by simp
  show "inj_on f (set xs)" using assms(2) by (simp add: distinct_map)
qed simp

lemma canonical_json_same: "json_same a b \<Longrightarrow> canonical_json lib a = canonical_json lib b"
proof (induction rule: json_same.induct)
  case (array xs ys)
  have "map (canonical_json lib) xs = map (canonical_json lib) ys"
    using array by (induction rule: list_all2_induct) auto
  then show ?case by simp
next
  case (object xs zs ys)
  let ?f = "\<lambda>(k, v). (k, json_member (ad_to_string lib (JString k)) (canonical_json lib v))"
  have "?f x = ?f z" if "fst x = fst z" "canonical_json lib (snd x) = canonical_json lib (snd z)" for x z
    using that by (simp add: case_prod_beta)
  then have eq: "map ?f xs = map ?f zs"
    using object.IH by (simp add: list_all2_conv_all_nth list_eq_iff_nth_eq)
  have "mset (map ?f xs) = mset (map ?f ys)" by (simp only: eq mset_map object.hyps(2))
  moreover have "distinct (map fst (map ?f xs))"
    using object.hyps(1) by (simp add: comp_def case_prod_beta)
  ultimately have "sort_key fst (map ?f xs) = sort_key fst (map ?f ys)" by (rule sort_key_mset)
  then show ?case by (simp only: canonical_json.simps)
qed simp

section \<open>The rows of a community\<close>

lemma insort_key_last: "f y \<le> f x \<Longrightarrow> \<forall>z \<in> set zs. f z \<le> f x \<Longrightarrow> insort_key f y (zs @ [x]) = insort_key f y zs @ [x]"
  by (induction zs) auto

lemma sort_key_snoc: "\<forall>y \<in> set xs. f y \<le> f x \<Longrightarrow> sort_key f (xs @ [x]) = sort_key f xs @ [x]"
proof (induction xs)
  case (Cons y ys)
  then have "sort_key f (ys @ [x]) = sort_key f ys @ [x]" by simp
  then show ?case using Cons.prems by (simp add: insort_key_last)
qed simp

lemma set_rows_of [simp]: "set (rows_of c db) = {r \<in> set (au_rows db). ar_community_id r = c}"
  by (auto simp: rows_of_def)

lemma sorted_rows_of: "sorted (map ar_seq (rows_of c db))"
  by (simp add: rows_of_def)

lemma rows_of_append:
  assumes "\<forall>r \<in> set (rows_of (ar_community_id row) db). ar_seq r \<le> ar_seq row"
  shows "rows_of c (db\<lparr>au_rows := au_rows db @ [row]\<rparr>) = (if c = ar_community_id row then rows_of c db @ [row] else rows_of c db)"
  using assms by (auto simp: rows_of_def sort_key_snoc)

lemma chain_head_eq: "chain_head c db = (if rows_of c db = [] then None else Some (last (rows_of c db)))"
  by (auto simp: chain_head_def split: list.splits)

lemma sorted_le_last: "sorted xs \<Longrightarrow> x \<in> set xs \<Longrightarrow> x \<le> last xs"
  by (induction xs) auto

lemma chain_head_max:
  assumes "chain_head c db = Some h" "r \<in> set (rows_of c db)"
  shows "ar_seq r \<le> ar_seq h"
  using assms sorted_le_last [OF sorted_rows_of [of c db], of "ar_seq r"]
  by (auto simp: chain_head_eq last_map simp del: set_rows_of split: if_splits)

section \<open>Chains\<close>

definition row_hash :: "audit_lib \<Rightarrow> audit_row \<Rightarrow> audit_error + 8 word list" where
  "row_hash lib r = (case row_to_audit_entry r of Inl e \<Rightarrow> Inl e | Inr entry \<Rightarrow> compute_hash lib entry)"

text \<open>Each row names the hash of the one before it and carries its own.\<close>

fun chained :: "audit_lib \<Rightarrow> 8 word list option \<Rightarrow> audit_row list \<Rightarrow> bool" where
  "chained lib prev [] = True"
| "chained lib prev (r # rs) \<longleftrightarrow> ar_prev_hash r = prev \<and> row_hash lib r = Inr (ar_hash r) \<and> chained lib (Some (ar_hash r)) rs"

fun end_hash :: "8 word list option \<Rightarrow> audit_row list \<Rightarrow> 8 word list option" where
  "end_hash prev [] = prev"
| "end_hash prev (r # rs) = end_hash (Some (ar_hash r)) rs"

lemma end_hash_eq: "end_hash prev rs = (if rs = [] then prev else Some (ar_hash (last rs)))"
  by (induction rs arbitrary: prev) auto

lemma chained_append: "chained lib prev (xs @ ys) \<longleftrightarrow> chained lib prev xs \<and> chained lib (end_hash prev xs) ys"
  by (induction xs arbitrary: prev) auto

lemma verify_rows_iff:
  "verify_rows lib prev rs = Inr True \<longleftrightarrow>
    (case rs of [] \<Rightarrow> True
     | r # _ \<Rightarrow> (prev = None \<or> ar_prev_hash r = prev) \<and> chained lib (ar_prev_hash r) rs)"
proof (induction rs arbitrary: prev)
  case (Cons r rs)
  have row: "row_to_audit_entry r = Inr e \<Longrightarrow> ae_prev_hash e = ar_prev_hash r \<and> ae_hash e = ar_hash r" for e
    by (auto simp: row_to_audit_entry_def split: option.splits)
  show ?case
    using Cons.IH [of "Some (ar_hash r)"] row
    by (cases rs) (auto simp: row_hash_def split: sum.splits if_splits)
qed simp

lemma verify_rows_result: "verify_rows lib prev rs = Inr b \<Longrightarrow> b"
  by (induction rs arbitrary: prev) (auto split: sum.splits if_splits)

section \<open>Storing an entry keeps its hash\<close>

lemma to_storage_precision_stored [simp]:
  "to_storage_precision (timestamptz t) = to_storage_precision t" "timestamptz (to_storage_precision t) = to_storage_precision t"
  "to_storage_precision (to_storage_precision t) = to_storage_precision t"
  by (simp_all add: to_storage_precision_def timestamptz_def)

lemma compute_hash_stored:
  assumes "json_same (ad_jsonb lib (ae_detail e)) (ae_detail e)"
  shows "row_hash lib (entry_to_row lib (e\<lparr>ae_hash := h\<rparr>)) = compute_hash lib e"
  using canonical_json_same [OF assms]
  by (simp add: row_hash_def entry_to_row_def row_to_audit_entry_def action_codec.parse_as_str compute_hash_def preimage_def
      cong: sum.case_cong)

text \<open>On the details that are logged, the database may reorder the members of an object and changes nothing else.\<close>

definition jsonb_faithful :: "audit_lib \<Rightarrow> json set \<Rightarrow> bool" where
  "jsonb_faithful lib details \<longleftrightarrow> (\<forall>v \<in> details. json_same (ad_jsonb lib v) v)"

definition audit_inv :: "audit_lib \<Rightarrow> audit_db \<Rightarrow> bool" where
  "audit_inv lib db \<longleftrightarrow> (\<forall>c. contiguous (map ar_seq (rows_of c db)) \<and> chained lib None (rows_of c db))"

lemma append_afterE:
  assumes "append_after lib now head entry db = Inr (e, db')"
  obtains "ae_community_id e = na_community_id entry"
    "ae_seq e = (case head of None \<Rightarrow> 0 | Some row \<Rightarrow> ar_seq row) + 1"
    "ae_prev_hash e = map_option ar_hash head" "compute_hash lib e = Inr (ae_hash e)"
    "ae_action e = na_action entry" "ae_actor_pubkey e = na_actor_pubkey entry" "ae_object_id e = na_object_id entry"
    "ae_detail e = na_detail entry" "ae_created_at e = to_storage_precision now"
    "insert_row (entry_to_row lib e) db = Inr db'"
  using assms
  by (auto simp: append_after_def Let_def compute_hash_def preimage_def split: option.splits sum.splits)

lemma max_seq_sorted: "sorted xs \<Longrightarrow> xs \<noteq> [] \<Longrightarrow> max_seq xs = last xs"
  by (auto simp: max_seq_def sorted_le_last intro!: Max_eqI)

lemma append_rows:
  assumes app: "append_after lib now (chain_head c db) entry db = Inr (e, db')" and c: "c = na_community_id entry"
  shows "rows_of c' db' = (if c' = c then rows_of c db @ [entry_to_row lib e] else rows_of c' db)"
    and "ar_seq (entry_to_row lib e) = max_seq (map ar_seq (rows_of c db)) + 1"
proof -
  obtain f: "ae_community_id e = c" "ae_seq e = (case chain_head c db of None \<Rightarrow> 0 | Some row \<Rightarrow> ar_seq row) + 1"
    "insert_row (entry_to_row lib e) db = Inr db'"
    using append_afterE [OF app] c by metis
  have db': "db' = db\<lparr>au_rows := au_rows db @ [entry_to_row lib e]\<rparr>" using f(3) by (auto simp: insert_row_def split: if_splits option.splits)
  have "ar_seq r \<le> ar_seq (entry_to_row lib e)" if "r \<in> set (rows_of c db)" for r
  proof (cases "chain_head c db")
    case None
    then show ?thesis using that by (simp add: chain_head_eq del: set_rows_of split: if_splits)
  next
    case (Some h)
    then show ?thesis using chain_head_max [OF Some that] f(2) by (simp add: entry_to_row_def)
  qed
  then show "rows_of c' db' = (if c' = c then rows_of c db @ [entry_to_row lib e] else rows_of c' db)"
    unfolding db' using rows_of_append [of "entry_to_row lib e" db c'] f(1) by (simp add: entry_to_row_def)
  show "ar_seq (entry_to_row lib e) = max_seq (map ar_seq (rows_of c db)) + 1"
    using f(2) max_seq_sorted [OF sorted_rows_of [of c db]]
    by (auto simp: entry_to_row_def chain_head_eq max_seq_def last_map)
qed

interpretation audit_chain: seq_log "\<lambda>db c. map ar_seq (rows_of c db)"
  "\<lambda>c db db'. \<exists>lib now entry e. c = na_community_id entry \<and> append_after lib now (chain_head c db) entry db = Inr (e, db')"
proof unfold_locales
  fix c c' db db'
  assume "\<exists>lib now entry e. c = na_community_id entry \<and> append_after lib now (chain_head c db) entry db = Inr (e, db')"
  then obtain lib now entry e where app: "append_after lib now (chain_head c db) entry db = Inr (e, db')" "c = na_community_id entry" by blast
  show "map ar_seq (rows_of c db') = map ar_seq (rows_of c db) @ [max_seq (map ar_seq (rows_of c db)) + 1]"
    using append_rows [OF app] by simp
  show "map ar_seq (rows_of c' db') = map ar_seq (rows_of c' db)" if "c' \<noteq> c"
    using append_rows(1) [OF app, of c'] that by simp
qed

lemma append_after_inv [inv_intros]:
  assumes inv: "audit_inv lib db" and app: "append_after lib now (chain_head (na_community_id entry) db) entry db = Inr (e, db')"
    and jsonb: "jsonb_faithful lib details" "na_detail entry \<in> details"
  shows "audit_inv lib db'"
proof -
  let ?c = "na_community_id entry"
  have cont: "contiguous (map ar_seq (rows_of c db'))" for c
    by (rule audit_chain.contiguous_app [of ?c db]) (use app inv in \<open>auto simp: audit_inv_def\<close>)
  obtain e': "ae_prev_hash e = map_option ar_hash (chain_head ?c db)" "compute_hash lib e = Inr (ae_hash e)"
      "ae_detail e = na_detail entry"
    using append_afterE [OF app] by metis
  have "row_hash lib (entry_to_row lib (e\<lparr>ae_hash := ae_hash e\<rparr>)) = compute_hash lib e"
    by (rule compute_hash_stored) (use jsonb e'(3) in \<open>simp add: jsonb_faithful_def\<close>)
  then have hash: "row_hash lib (entry_to_row lib e) = Inr (ar_hash (entry_to_row lib e))"
    using e'(2) by (simp add: entry_to_row_def)
  have "chained lib None (rows_of c db')" for c
    using inv hash e'(1) append_rows(1) [OF app refl, of c]
    by (auto simp: audit_inv_def chained_append end_hash_eq chain_head_eq entry_to_row_def)
  with cont show ?thesis by (simp add: audit_inv_def)
qed


section \<open>Ranges of a chain\<close>

lemma sorted_filter_prefix:
  fixes f :: "'a \<Rightarrow> 'b::linorder"
  assumes "sorted (map f xs)" "\<forall>x \<in> set xs. a \<le> f x"
  shows "\<exists>zs. xs = filter (\<lambda>x. a \<le> f x \<and> f x \<le> b) xs @ zs"
  using assms
proof (induction xs)
  case (Cons x xs)
  show ?case
  proof (cases "f x \<le> b")
    case True
    then show ?thesis using Cons by auto
  next
    case False
    then have "filter (\<lambda>y. a \<le> f y \<and> f y \<le> b) (x # xs) = []" using Cons.prems(1) by (auto simp: filter_empty_conv)
    then show ?thesis by simp
  qed
qed simp

lemma sorted_filter_segment:
  fixes f :: "'a \<Rightarrow> 'b::linorder"
  assumes "sorted (map f xs)"
  shows "\<exists>ys zs. xs = ys @ filter (\<lambda>x. a \<le> f x \<and> f x \<le> b) xs @ zs"
  using assms
proof (induction xs)
  case (Cons x xs)
  show ?case
  proof (cases "a \<le> f x")
    case True
    then have "\<forall>y \<in> set (x # xs). a \<le> f y" using Cons.prems by auto
    then show ?thesis using sorted_filter_prefix [OF Cons.prems, of a b] by (metis append_Nil)
  next
    case False
    obtain ys zs where "xs = ys @ filter (\<lambda>x. a \<le> f x \<and> f x \<le> b) xs @ zs" using Cons by auto
    then have "x # xs = (x # ys) @ filter (\<lambda>x. a \<le> f x \<and> f x \<le> b) (x # xs) @ zs" using False by simp
    then show ?thesis by blast
  qed
qed simp

lemma chained_verifies: "chained lib prev rs \<Longrightarrow> verify_rows lib None rs = Inr True"
  unfolding verify_rows_iff by (cases rs) auto

lemma verify_chain_inv:
  assumes "audit_inv lib db"
  shows "verify_chain lib c from_seq to_seq db = Inr (\<exists>r \<in> set (rows_of c db). from_seq \<le> ar_seq r \<and> ar_seq r \<le> to_seq)"
proof -
  let ?seg = "filter (\<lambda>r. from_seq \<le> ar_seq r \<and> ar_seq r \<le> to_seq) (rows_of c db)"
  obtain ys zs where "rows_of c db = ys @ ?seg @ zs"
    using sorted_filter_segment [OF sorted_rows_of] by metis
  then have "chained lib (end_hash None ys) ?seg" using assms by (metis audit_inv_def chained_append)
  then show ?thesis by (auto simp: verify_chain_def Let_def chained_verifies filter_empty_conv simp del: set_rows_of)
qed

section \<open>One call\<close>



lemma insert_row_fresh:
  assumes "insert_row row db = Inl err" "\<forall>r \<in> set (rows_of (ar_community_id row) db). ar_seq r < ar_seq row"
    and "map_of (au_communities db) (ar_community_id row) = Some True"
  shows "err = Database ''idx_audit_log_hash''"
  using assms by (fastforce simp: insert_row_def assert_community_write_allowed_def split: if_splits)

lemma head_bound: "r \<in> set (rows_of c db) \<Longrightarrow> ar_seq r < (case chain_head c db of None \<Rightarrow> 0 | Some row \<Rightarrow> ar_seq row) + 1"
  using chain_head_max [of c db _ r]
  by (cases "chain_head c db") (auto simp: chain_head_eq simp del: set_rows_of split: if_splits)

lemma append_after_error:
  assumes err: "append_after lib now (chain_head c db) entry db = Inl err" and c: "c = na_community_id entry"
    and canon: "canonical_json lib (na_detail entry) = Inr text" and active: "map_of (au_communities db) c = Some True"
  shows "err = Database ''idx_audit_log_hash''"
proof -
  obtain row where row: "insert_row row db = Inl err" "ar_community_id row = c"
    "ar_seq row = (case chain_head c db of None \<Rightarrow> 0 | Some row \<Rightarrow> ar_seq row) + 1"
    using err canon c
    by (auto simp: append_after_def Let_def compute_hash_def entry_to_row_def split: option.splits sum.splits)
  show ?thesis
    by (rule insert_row_fresh [OF row(1)]) (use head_bound active row(2,3) in \<open>auto simp del: set_rows_of\<close>)
qed

lemma append_after_no_pkey:
  "append_after lib now (chain_head (na_community_id entry) db) entry db \<noteq> Inl (Database ''audit_log_pkey'')"
proof
  let ?c = "na_community_id entry"
  assume "append_after lib now (chain_head ?c db) entry db = Inl (Database ''audit_log_pkey'')"
  then obtain row where "insert_row row db = Inl (Database ''audit_log_pkey'')" "ar_community_id row = ?c"
    "ar_seq row = (case chain_head ?c db of None \<Rightarrow> 0 | Some row \<Rightarrow> ar_seq row) + 1"
    by (auto simp: append_after_def Let_def compute_hash_def entry_to_row_def split: option.splits sum.splits)
  then show False
    using head_bound [of _ ?c db]
    by (fastforce simp: insert_row_def assert_community_write_allowed_def split: if_splits option.splits)
qed

lemma audit_log_cases:
  assumes "audit_log lib env now entry db = (res, db')"
  obtains (ok) e where "append_after lib now (chain_head (na_community_id entry) db) entry db = Inr (e, db')" "res = Inr e"
  | (lost) e err where "append_after lib now (chain_head (na_community_id entry) db) entry db = Inr (e, db')"
      "res = Inl err" "le_commit env \<noteq> None"
  | (failed) err where "res = Inl err" "db' = db"
  using assms by (auto simp: audit_log_def log_inner_def split: option.splits sum.splits prod.splits if_splits)

text \<open>Nothing fails around the statements.\<close>

definition no_failures :: log_env where
  "no_failures = \<lparr>le_acquire = None, le_lock = None, le_begin = None, le_fetch = None, le_commit = None\<rparr>"

text \<open>The entry that belongs after a head.\<close>

definition entry_after :: "audit_lib \<Rightarrow> timestamp \<Rightarrow> audit_row option \<Rightarrow> new_audit_entry \<Rightarrow> audit_entry \<Rightarrow> bool" where
  "entry_after lib now head entry e \<longleftrightarrow>
    ae_community_id e = na_community_id entry \<and>
    ae_seq e = (case head of None \<Rightarrow> 0 | Some row \<Rightarrow> ar_seq row) + 1 \<and> ae_prev_hash e = map_option ar_hash head \<and>
    ae_action e = na_action entry \<and> ae_actor_pubkey e = na_actor_pubkey entry \<and> ae_object_id e = na_object_id entry \<and>
    ae_detail e = na_detail entry \<and> ae_created_at e = to_storage_precision now \<and> compute_hash lib e = Inr (ae_hash e)"

lemma append_after_entry: "append_after lib now head entry db = Inr (e, db') \<Longrightarrow> entry_after lib now head entry e"
  by (erule append_afterE) (simp add: entry_after_def)

lemma row_of_logged:
  assumes "append_after lib now head entry db = Inr (e, db')" "ad_jsonb lib (na_detail entry) = na_detail entry"
  shows "row_to_audit_entry (entry_to_row lib e) = Inr e"
proof -
  have "timestamptz (ae_created_at e) = ae_created_at e" "ad_jsonb lib (ae_detail e) = ae_detail e"
    using append_after_entry [OF assms(1)] assms(2) by (simp_all add: entry_after_def)
  then show ?thesis by (simp add: row_to_audit_entry_def entry_to_row_def action_codec.parse_as_str)
qed

text \<open>
  A call of \<open>log\<close> that succeeds appends exactly one row to the chain of its community: numbered after the head, naming
  the head's hash, with the submitted fields, the time in microseconds and its own hash. Rows of other communities never change,
  an error changes nothing unless the reply to the commit was lost, and when nothing fails around the statements only a
  collision of hashes can refuse a detail that has a text in an active community.
\<close>

theorem audit_log_spec:
  assumes "audit_log lib env now entry db = (res, db')" and "c = na_community_id entry"
  shows "(\<forall>e. res = Inr e \<longrightarrow>
      entry_after lib now (chain_head c db) entry e \<and> rows_of c db' = rows_of c db @ [entry_to_row lib e]) \<and>
    (c' \<noteq> c \<longrightarrow> rows_of c' db' = rows_of c' db) \<and>
    (\<forall>err. res = Inl err \<longrightarrow> le_commit env = None \<longrightarrow> db' = db) \<and>
    (env = no_failures \<longrightarrow> canonical_json lib (na_detail entry) = Inr text \<longrightarrow> map_of (au_communities db) c = Some True \<longrightarrow>
      (\<exists>e. res = Inr e) \<or> res = Inl (Database ''idx_audit_log_hash''))"
proof (intro conjI allI impI)
  show "rows_of c' db' = rows_of c' db" if "c' \<noteq> c"
    using assms(1)
  proof (cases rule: audit_log_cases)
    case (ok e)
    then show ?thesis using append_rows(1) [OF ok(1) refl, of c'] that assms(2) by simp
  next
    case (lost e err)
    then show ?thesis using append_rows(1) [OF lost(1) refl, of c'] that assms(2) by simp
  qed simp
  show "db' = db" if "res = Inl err" "le_commit env = None" for err
    using assms(1) by (cases rule: audit_log_cases) (use that in auto)
  show "(\<exists>e. res = Inr e) \<or> res = Inl (Database ''idx_audit_log_hash'')"
    if "env = no_failures" "canonical_json lib (na_detail entry) = Inr text" "map_of (au_communities db) c = Some True"
    using assms(1) append_after_error [of lib now c db entry, OF _ assms(2) that(2,3)] assms(2)
    by (auto simp: audit_log_def log_inner_def that(1) no_failures_def split: sum.splits prod.splits)
  fix e assume "res = Inr e"
  then have app: "append_after lib now (chain_head c db) entry db = Inr (e, db')"
    using assms by (auto elim: audit_log_cases)
  show "entry_after lib now (chain_head c db) entry e" by (rule append_after_entry [OF app])
  show "rows_of c db' = rows_of c db @ [entry_to_row lib e]" using append_rows(1) [OF app assms(2), of c] by simp
qed

text \<open>
  What was logged is read back: where the database returns the detail unchanged, a page of \<open>get_entries\<close> that was not full
  and starts at or before the new entry becomes the same page with the returned entry at its end.
\<close>

theorem logged_entry_read_back:
  assumes log: "audit_log lib env now entry db = (Inr e, db')" and c: "c = na_community_id entry"
    and jsonb: "ad_jsonb lib (na_detail entry) = na_detail entry"
    and page: "get_entries c from_seq limit db = Inr es" "int (length es) < limit" "from_seq \<le> ae_seq e"
  shows "get_entries c from_seq limit db' = Inr (es @ [e])"
proof -
  have app: "append_after lib now (chain_head c db) entry db = Inr (e, db')"
    using log c by (auto elim: audit_log_cases)
  let ?rs = "filter (\<lambda>r. from_seq \<le> ar_seq r) (rows_of c db)"
  have rows: "filter (\<lambda>r. from_seq \<le> ar_seq r) (rows_of c db') = ?rs @ [entry_to_row lib e]"
    using append_rows(1) [OF app c, of c] page(3) by (simp add: entry_to_row_def)
  have es: "collect (map row_to_audit_entry (take (nat limit) ?rs)) = Inr es"
    using page(1) by (auto simp: get_entries_def split: if_splits)
  then have "length (take (nat limit) ?rs) = length es" using collect_length by fastforce
  then have "length ?rs < nat limit" using page(2) by (auto simp: min_def split: if_splits)
  then show ?thesis using es page(2) row_of_logged [OF app jsonb] by (simp add: get_entries_def rows collect_append)
qed


section \<open>Concurrent writers\<close>

text \<open>
  A writer is a database session running \<open>log\<close>: it takes the advisory lock of the community, reads the head, inserts and commits,
  and releases the lock. A session may take a lock it already holds. A call that is dropped, or whose unlock fails, leaves the lock
  with the session; a session that dies loses all its locks and rolls back. \<open>lock_key\<close> is \<open>hashtextextended\<close> of the lock's
  name, which may collide.
\<close>

datatype writer = Unlocked | Locked new_audit_entry | HeadRead new_audit_entry "audit_row option" | Finished new_audit_entry

record audit_system =
  as_db :: audit_db
  as_locks :: "(i64 \<times> nat) list"
  as_writers :: "nat \<Rightarrow> writer"

definition set_writer :: "nat \<Rightarrow> writer \<Rightarrow> audit_system \<Rightarrow> audit_system" where
  "set_writer w x s = s\<lparr>as_writers := (as_writers s)(w := x)\<rparr>"

inductive audit_step :: "audit_lib \<Rightarrow> (uuid \<Rightarrow> i64) \<Rightarrow> json set \<Rightarrow> audit_system \<Rightarrow> audit_system \<Rightarrow> bool"
  for lib lock_key details where
  lock: "as_writers s w = Unlocked \<Longrightarrow> na_detail entry \<in> details \<Longrightarrow>
    \<forall>(k, w') \<in> set (as_locks s). k = lock_key (na_community_id entry) \<longrightarrow> w' = w \<Longrightarrow>
    audit_step lib lock_key details s
      (set_writer w (Locked entry) s\<lparr>as_locks := (lock_key (na_community_id entry), w) # as_locks s\<rparr>)"
| fetch: "as_writers s w = Locked entry \<Longrightarrow>
    audit_step lib lock_key details s (set_writer w (HeadRead entry (chain_head (na_community_id entry) (as_db s))) s)"
| append: "as_writers s w = HeadRead entry head \<Longrightarrow> append_after lib now head entry (as_db s) = Inr (e, db') \<Longrightarrow>
    audit_step lib lock_key details s (set_writer w (Finished entry) s\<lparr>as_db := db'\<rparr>)"
| fail: "as_writers s w \<in> {Locked entry, HeadRead entry head} \<Longrightarrow>
    audit_step lib lock_key details s (set_writer w (Finished entry) s)"
| unlock: "as_writers s w = Finished entry \<Longrightarrow>
    audit_step lib lock_key details s
      (set_writer w Unlocked s\<lparr>as_locks := remove1 (lock_key (na_community_id entry), w) (as_locks s)\<rparr>)"
| abandon: "audit_step lib lock_key details s (set_writer w Unlocked s)"
| disconnect: "audit_step lib lock_key details s
    (set_writer w Unlocked s\<lparr>as_locks := filter (\<lambda>(k, w'). w' \<noteq> w) (as_locks s)\<rparr>)"
| lifecycle: "audit_step lib lock_key details s (s\<lparr>as_db := (as_db s)\<lparr>au_communities := communities\<rparr>\<rparr>)"

definition audit_init :: "audit_system \<Rightarrow> bool" where
  "audit_init s \<longleftrightarrow> au_rows (as_db s) = [] \<and> as_locks s = [] \<and> (\<forall>w. as_writers s w = Unlocked)"

fun writer_entry :: "writer \<Rightarrow> new_audit_entry option" where
  "writer_entry Unlocked = None"
| "writer_entry (Locked entry) = Some entry"
| "writer_entry (HeadRead entry _) = Some entry"
| "writer_entry (Finished entry) = Some entry"

definition system_inv :: "audit_lib \<Rightarrow> (uuid \<Rightarrow> i64) \<Rightarrow> json set \<Rightarrow> audit_system \<Rightarrow> bool" where
  "system_inv lib lock_key details s \<longleftrightarrow>
    (jsonb_faithful lib details \<longrightarrow> audit_inv lib (as_db s)) \<and>
    (\<forall>k w w'. (k, w) \<in> set (as_locks s) \<longrightarrow> (k, w') \<in> set (as_locks s) \<longrightarrow> w = w') \<and>
    (\<forall>w entry. writer_entry (as_writers s w) = Some entry \<longrightarrow>
      (lock_key (na_community_id entry), w) \<in> set (as_locks s) \<and> na_detail entry \<in> details) \<and>
    (\<forall>w entry head. as_writers s w = HeadRead entry head \<longrightarrow> head = chain_head (na_community_id entry) (as_db s))"

lemma chain_head_communities [simp]: "chain_head c (db\<lparr>au_communities := cs\<rparr>) = chain_head c db"
  "rows_of c (db\<lparr>au_communities := cs\<rparr>) = rows_of c db"
  by (simp_all add: chain_head_def rows_of_def)

lemma audit_inv_communities [simp]: "audit_inv lib (db\<lparr>au_communities := cs\<rparr>) = audit_inv lib db"
  by (simp add: audit_inv_def)

lemma append_step_inv:
  assumes inv: "system_inv lib lock_key details s" and w: "as_writers s w = HeadRead entry head"
    and app: "append_after lib now head entry (as_db s) = Inr (e, db')"
  shows "system_inv lib lock_key details (set_writer w (Finished entry) s\<lparr>as_db := db'\<rparr>)"
proof -
  let ?c = "na_community_id entry"
  have head: "head = chain_head ?c (as_db s)" and mine: "(lock_key ?c, w) \<in> set (as_locks s)" "na_detail entry \<in> details"
    using inv w unfolding system_inv_def by (metis writer_entry.simps(3))+
  have "audit_inv lib db'" if "jsonb_faithful lib details"
    using inv append_after_inv [of lib "as_db s" now entry e db' details] app head mine(2) that by (simp add: system_inv_def)
  moreover have "head' = chain_head (na_community_id entry') db'"
    if other: "w' \<noteq> w" "as_writers s w' = HeadRead entry' head'" for w' entry' head'
  proof -
    have "(lock_key (na_community_id entry'), w') \<in> set (as_locks s)" "head' = chain_head (na_community_id entry') (as_db s)"
      using inv other(2) unfolding system_inv_def by (metis writer_entry.simps(3))+
    then have "na_community_id entry' \<noteq> ?c" using inv mine(1) other(1) unfolding system_inv_def by metis
    then show ?thesis
      using append_rows(1) [OF app [unfolded head] refl, of "na_community_id entry'"] \<open>head' = _\<close> by (simp add: chain_head_def)
  qed
  ultimately show ?thesis using inv w unfolding system_inv_def set_writer_def
    by (simp split: if_splits) (metis writer_entry.simps(3))
qed


lemma set_writer_simps [simp]: "as_writers (set_writer w x s) = (as_writers s)(w := x)"
  "as_db (set_writer w x s) = as_db s" "as_locks (set_writer w x s) = as_locks s"
  by (simp_all add: set_writer_def)

lemma system_invD:
  assumes "system_inv lib lock_key details s"
  shows "jsonb_faithful lib details \<Longrightarrow> audit_inv lib (as_db s)"
    and "(k, w) \<in> set (as_locks s) \<Longrightarrow> (k, w') \<in> set (as_locks s) \<Longrightarrow> w = w'"
    and "writer_entry (as_writers s w) = Some entry \<Longrightarrow>
      (lock_key (na_community_id entry), w) \<in> set (as_locks s) \<and> na_detail entry \<in> details"
    and "as_writers s w = HeadRead entry head \<Longrightarrow> head = chain_head (na_community_id entry) (as_db s)"
  using assms unfolding system_inv_def by blast+

text \<open>A step of one writer that leaves the rows alone: what the others rely on stays, and so must what the writer itself needs.\<close>

lemma system_inv_writer:
  assumes inv: "system_inv lib lock_key details s"
    and s': "as_db s' = as_db s" "as_writers s' = (as_writers s)(w := x)"
    and locks: "\<And>k w'. w' \<noteq> w \<Longrightarrow> (k, w') \<in> set (as_locks s') \<longleftrightarrow> (k, w') \<in> set (as_locks s)"
      "\<And>k w'. (k, w) \<in> set (as_locks s') \<Longrightarrow> (k, w') \<in> set (as_locks s') \<Longrightarrow> w' = w"
    and own: "\<And>entry. writer_entry x = Some entry \<Longrightarrow> (lock_key (na_community_id entry), w) \<in> set (as_locks s') \<and> na_detail entry \<in> details"
      "\<And>entry head. x = HeadRead entry head \<Longrightarrow> head = chain_head (na_community_id entry) (as_db s)"
  shows "system_inv lib lock_key details s'"
  unfolding system_inv_def
proof (intro conjI allI impI)
  show "audit_inv lib (as_db s')" if "jsonb_faithful lib details" using system_invD(1) [OF inv that] s'(1) by simp
  show "v = v'" if "(k, v) \<in> set (as_locks s')" "(k, v') \<in> set (as_locks s')" for k v v'
    using that locks system_invD(2) [OF inv] by (cases "v = w"; cases "v' = w") blast+
  show "(lock_key (na_community_id entry), v) \<in> set (as_locks s')" "na_detail entry \<in> details"
    if "writer_entry (as_writers s' v) = Some entry" for v entry
    using that own(1) [of entry] system_invD(3) [OF inv, of v entry] locks(1) [of v] s'(2) by (auto split: if_splits)
  show "head = chain_head (na_community_id entry) (as_db s')" if "as_writers s' v = HeadRead entry head" for v entry head
    using that own(2) [of entry head] system_invD(4) [OF inv, of v entry head] s' by (auto split: if_splits)
qed

lemma audit_step_inv:
  assumes inv: "system_inv lib lock_key details s" and step: "audit_step lib lock_key details s t"
  shows "system_inv lib lock_key details t"
  using step
proof cases
  case (lock w entry)
  show ?thesis
    by (rule system_inv_writer [OF inv, of _ w "Locked entry"]) (use lock system_invD(2) [OF inv] in \<open>auto\<close>)
next
  case (fetch w entry)
  show ?thesis
    by (rule system_inv_writer [OF inv, of _ w "HeadRead entry (chain_head (na_community_id entry) (as_db s))"])
      (use fetch system_invD(2) [OF inv] system_invD(3) [OF inv, of w] in \<open>auto\<close>)
next
  case (append w entry head now e db')
  then show ?thesis using append_step_inv [OF inv] by simp
next
  case (fail w entry head)
  show ?thesis
    by (rule system_inv_writer [OF inv, of _ w "Finished entry"])
      (use fail system_invD(2) [OF inv] system_invD(3) [OF inv, of w] in \<open>auto\<close>)
next
  case (unlock w entry)
  show ?thesis
    by (rule system_inv_writer [OF inv, of _ w Unlocked])
      (use unlock system_invD(2) [OF inv] in \<open>auto dest: in_set_remove1 notin_set_remove1\<close>)
next
  case (abandon w)
  show ?thesis by (rule system_inv_writer [OF inv, of _ w Unlocked]) (use abandon system_invD(2) [OF inv] in auto)
next
  case (disconnect w)
  show ?thesis by (rule system_inv_writer [OF inv, of _ w Unlocked]) (use disconnect system_invD(2) [OF inv] in auto)
next
  case (lifecycle communities)
  then show ?thesis using inv by (simp add: system_inv_def)
qed

lemma audit_inv_empty: "au_rows db = [] \<Longrightarrow> audit_inv lib db"
  by (simp add: audit_inv_def rows_of_def contiguous_def)

interpretation audit_writers: invariant_system audit_init "audit_step lib lock_key details" "system_inv lib lock_key details"
  for lib lock_key details
proof
  show "system_inv lib lock_key details s" if "audit_init s" for s
    using that by (auto simp: audit_init_def system_inv_def audit_inv_empty)
qed (rule audit_step_inv)

text \<open>
  C9. The chain is sound in every interleaving of writers, whatever fails and whatever lock keys collide: in every reachable state
  the entries of a community are numbered from one without gaps, \<open>verify_chain\<close> accepts every range and says false only on an
  empty one, and no writer that has read the head is refused by the primary key.
\<close>

theorem audit_chain_sound:
  assumes "audit_init s0" and "(audit_step lib lock_key details)\<^sup>*\<^sup>* s0 s" and "jsonb_faithful lib details"
  shows "map ar_seq (rows_of c (as_db s)) = map int [1..<Suc (length (rows_of c (as_db s)))] \<and>
    verify_chain lib c from_seq to_seq (as_db s) =
      Inr (\<exists>r \<in> set (rows_of c (as_db s)). from_seq \<le> ar_seq r \<and> ar_seq r \<le> to_seq) \<and>
    (as_writers s w = HeadRead entry head \<longrightarrow> append_after lib now head entry (as_db s) \<noteq> Inl (Database ''audit_log_pkey''))"
proof (intro conjI impI)
  have inv: "system_inv lib lock_key details s" by (rule audit_writers.reachable_inv [OF assms(1,2)])
  note ainv = system_invD(1) [OF inv assms(3)]
  show "map ar_seq (rows_of c (as_db s)) = map int [1..<Suc (length (rows_of c (as_db s)))]"
    using ainv by (simp add: audit_inv_def contiguous_def)
  show "verify_chain lib c from_seq to_seq (as_db s) =
      Inr (\<exists>r \<in> set (rows_of c (as_db s)). from_seq \<le> ar_seq r \<and> ar_seq r \<le> to_seq)"
    by (rule verify_chain_inv [OF ainv])
  show "append_after lib now head entry (as_db s) \<noteq> Inl (Database ''audit_log_pkey'')" if "as_writers s w = HeadRead entry head"
    unfolding system_invD(4) [OF inv that] by (rule append_after_no_pkey)
qed


lemma step_to: "audit_step lib lock_key details s t \<Longrightarrow> t = t' \<Longrightarrow> audit_step lib lock_key details s t'"
  by simp

text \<open>One call of \<open>log\<close>, run alone, is a sequence of these steps.\<close>

lemma audit_log_steps:
  assumes "audit_log lib env now entry (as_db s) = (res, db')" and idle: "as_writers s w = Unlocked" "na_detail entry \<in> details"
    and free: "\<forall>(k, w') \<in> set (as_locks s). k = lock_key (na_community_id entry) \<longrightarrow> w' = w"
  shows "(audit_step lib lock_key details)\<^sup>*\<^sup>* s (s\<lparr>as_db := db'\<rparr>)"
proof -
  let ?step = "audit_step lib lock_key details" and ?k = "lock_key (na_community_id entry)"
  let ?head = "chain_head (na_community_id entry) (as_db s)"
  let ?held = "\<lambda>x db. s\<lparr>as_db := db, as_locks := (?k, w) # as_locks s, as_writers := (as_writers s)(w := x)\<rparr>"
  have upd: "(as_writers s)(w := Unlocked) = as_writers s" using idle(1) by auto
  have lock: "?step s (?held (Locked entry) (as_db s))"
    by (rule step_to [OF audit_step.lock [of s w entry details lock_key lib, OF idle free]]) (simp add: set_writer_def)
  have fetch: "?step (?held (Locked entry) (as_db s)) (?held (HeadRead entry ?head) (as_db s))"
    by (rule step_to [OF audit_step.fetch [of "?held (Locked entry) (as_db s)" w entry lib lock_key details]])
      (simp_all add: set_writer_def)
  have finish: "?step (?held (Finished entry) db) (s\<lparr>as_db := db\<rparr>)" for db
    by (rule step_to [OF audit_step.unlock [of "?held (Finished entry) db" w entry lib lock_key details]])
      (simp_all add: set_writer_def upd)
  have to_head: "?step\<^sup>*\<^sup>* s (?held (HeadRead entry ?head) (as_db s))"
    using lock fetch by (meson converse_rtranclp_into_rtranclp rtranclp.rtrancl_refl)
  have appended: ?thesis if "append_after lib now ?head entry (as_db s) = Inr (e, db')" for e
  proof -
    have "?step (?held (HeadRead entry ?head) (as_db s)) (?held (Finished entry) db')"
      by (rule step_to [OF audit_step.append [of "?held (HeadRead entry ?head) (as_db s)" w entry ?head lib now e db' lock_key details]])
        (use that in \<open>simp_all add: set_writer_def\<close>)
    then show ?thesis using to_head finish [of db'] by (meson rtranclp.rtrancl_into_rtrancl)
  qed
  from assms(1) show ?thesis
    by (cases rule: audit_log_cases) (use appended in auto)
qed

section \<open>Tampering\<close>

lemma length_be_bytes [simp]: "length (be_bytes n w) = n"
  by (simp add: be_bytes_def)

lemma be_bytes_inject:
  fixes a b :: "'a::len word"
  assumes "LENGTH('a) \<le> 8 * n" "be_bytes n a = be_bytes n b"
  shows "a = b"
proof (rule bit_word_eqI)
  fix i assume i: "i < LENGTH('a)"
  have "i div 8 \<in> set (rev [0..<n])" using i assms(1) by (auto simp: less_mult_imp_div_less)
  then have "(ucast (drop_bit (8 * (i div 8)) a) :: 8 word) = ucast (drop_bit (8 * (i div 8)) b)"
    using assms(2) by (simp add: be_bytes_def)
  then have "bit (ucast (drop_bit (8 * (i div 8)) a) :: 8 word) (i mod 8) = bit (ucast (drop_bit (8 * (i div 8)) b) :: 8 word) (i mod 8)"
    by simp
  then show "bit a i \<longleftrightarrow> bit b i" by (simp add: bit_ucast_iff bit_drop_bit_eq)
qed

text \<open>The bytes that are hashed for a row, if it can be read and its detail written.\<close>

definition row_preimage :: "audit_lib \<Rightarrow> audit_row \<Rightarrow> 8 word list" where
  "row_preimage lib r =
    (case row_to_audit_entry r of Inl e \<Rightarrow> []
     | Inr entry \<Rightarrow> (case canonical_json lib (ae_detail entry) of Inl e \<Rightarrow> [] | Inr detail \<Rightarrow> preimage lib entry detail))"

lemma row_hash_preimage:
  assumes "row_hash lib r = Inr h"
  obtains mid where "h = ad_sha256 lib (row_preimage lib r)"
    and "row_preimage lib r = be_bytes 16 (ar_community_id r) @ be_bytes 8 (word_of_int (ar_seq r) :: 64 word) @ mid @
      (case ar_prev_hash r of Some h \<Rightarrow> h | None \<Rightarrow> genesis_hash)"
proof -
  have sha: "h = ad_sha256 lib (row_preimage lib r)"
    using assms by (auto simp: row_hash_def row_preimage_def compute_hash_def split: sum.splits)
  obtain entry detail where e: "row_to_audit_entry r = Inr entry" "canonical_json lib (ae_detail entry) = Inr detail"
    using assms by (auto simp: row_hash_def compute_hash_def split: sum.splits)
  have "ae_community_id entry = ar_community_id r" "ae_seq entry = ar_seq r" "ae_prev_hash entry = ar_prev_hash r"
    using e(1) by (auto simp: row_to_audit_entry_def split: option.splits)
  then have "row_preimage lib r = be_bytes 16 (ar_community_id r) @ be_bytes 8 (word_of_int (ar_seq r) :: 64 word) @
      (str_bytes (ad_rfc3339 lib (to_storage_precision (ae_created_at entry))) @ str_bytes (action_as_str (ae_action entry)) @
       tagged (ae_actor_pubkey entry) @ tagged (map_option str_bytes (ae_object_id entry)) @ str_bytes detail) @
      (case ar_prev_hash r of Some h \<Rightarrow> h | None \<Rightarrow> genesis_hash)"
    using e by (simp add: row_preimage_def preimage_def)
  then show thesis using that [OF sha] by blast
qed

lemma chained_same_end:
  assumes sha: "\<And>p. length (ad_sha256 lib p) = 32"
    and "inj_on (ad_sha256 lib) (row_preimage lib ` (set xs \<union> set ys))"
    and "chained lib p xs" "chained lib q ys" "length xs = length ys" "end_hash None xs = end_hash None ys"
  shows "map (row_preimage lib) xs = map (row_preimage lib) ys \<and> map ar_hash xs = map ar_hash ys"
  using assms(2-)
proof (induction ys arbitrary: xs rule: rev_induct)
  case (snoc y ys)
  obtain xs' x where xs: "xs = xs' @ [x]" using snoc.prems(4) by (metis append_butlast_last_id length_0_conv snoc_eq_iff_butlast)
  have x: "ar_prev_hash x = end_hash p xs'" "row_hash lib x = Inr (ar_hash x)" and y: "ar_prev_hash y = end_hash q ys" "row_hash lib y = Inr (ar_hash y)"
    using snoc.prems(2,3) by (simp_all add: xs chained_append)
  have hash: "ar_hash x = ar_hash y" using snoc.prems(5) by (simp add: xs end_hash_eq)
  obtain mx where mx: "ar_hash x = ad_sha256 lib (row_preimage lib x)"
      "row_preimage lib x = be_bytes 16 (ar_community_id x) @ be_bytes 8 (word_of_int (ar_seq x) :: 64 word) @ mx @
        (case ar_prev_hash x of Some h \<Rightarrow> h | None \<Rightarrow> genesis_hash)"
    by (rule row_hash_preimage [OF x(2)])
  obtain my where my: "ar_hash y = ad_sha256 lib (row_preimage lib y)"
      "row_preimage lib y = be_bytes 16 (ar_community_id y) @ be_bytes 8 (word_of_int (ar_seq y) :: 64 word) @ my @
        (case ar_prev_hash y of Some h \<Rightarrow> h | None \<Rightarrow> genesis_hash)"
    by (rule row_hash_preimage [OF y(2)])
  have pre: "row_preimage lib x = row_preimage lib y"
    by (rule inj_onD [OF snoc.prems(1)]) (use hash mx(1) my(1) in \<open>simp_all add: xs\<close>)
  show ?case
  proof (cases ys)
    case Nil
    then show ?thesis using snoc.prems(4) hash pre by (simp add: xs)
  next
    case (Cons y0 ys0)
    then have ne: "ys \<noteq> []" "xs' \<noteq> []" using snoc.prems(4) by (auto simp: xs)
    have len: "length (ar_hash (last rs)) = 32" if "chained lib p' rs" "rs \<noteq> []" for p' rs
    proof -
      have "row_hash lib (last rs) = Inr (ar_hash (last rs))" using that by (induction lib p' rs rule: chained.induct) auto
      then show ?thesis using sha by (metis row_hash_preimage)
    qed
    have "chained lib p xs'" "chained lib q ys" using snoc.prems(2,3) by (simp_all add: xs chained_append)
    then have "length (ar_hash (last xs')) = 32" "length (ar_hash (last ys)) = 32" using ne len by blast+
    then have "ar_hash (last xs') = ar_hash (last ys)"
      using pre [unfolded mx(2) my(2)] ne by (simp add: x(1) y(1) end_hash_eq)
    then show ?thesis
      using snoc.IH [of xs'] snoc.prems \<open>chained lib p xs'\<close> \<open>chained lib q ys\<close> hash pre ne by (auto simp: xs end_hash_eq inj_on_def)
  qed
qed simp


lemma word_of_i64_inject:
  assumes "a \<in> {i64_min..i64_max}" "b \<in> {i64_min..i64_max}" "(word_of_int a :: 64 word) = word_of_int b"
  shows "a = b"
proof -
  have "a mod 18446744073709551616 = b mod 18446744073709551616"
    using assms(3) by (simp add: word_of_int_eq_iff take_bit_eq_mod)
  then have "18446744073709551616 dvd a - b" by (simp add: mod_eq_dvd_iff)
  then obtain k where k: "a - b = 18446744073709551616 * k" by (elim dvdE)
  have "i64_min \<le> a" "a \<le> i64_max" "i64_min \<le> b" "b \<le> i64_max" using assms(1,2) by simp_all
  then have "- 1 < k" "k < 1" using k by linarith+
  then show ?thesis using k by simp
qed

lemma preimage_identity:
  assumes "row_hash lib r = Inr h" "row_hash lib r' = Inr h'" "row_preimage lib r = row_preimage lib r'"
    and "ar_seq r \<in> {i64_min..i64_max}" "ar_seq r' \<in> {i64_min..i64_max}"
  shows "ar_community_id r = ar_community_id r' \<and> ar_seq r = ar_seq r'"
proof -
  obtain m where m: "row_preimage lib r = be_bytes 16 (ar_community_id r) @ be_bytes 8 (word_of_int (ar_seq r) :: 64 word) @ m"
    by (metis row_hash_preimage [OF assms(1)])
  obtain m' where m': "row_preimage lib r' = be_bytes 16 (ar_community_id r') @ be_bytes 8 (word_of_int (ar_seq r') :: 64 word) @ m'"
    by (metis row_hash_preimage [OF assms(2)])
  have "be_bytes 16 (ar_community_id r) = be_bytes 16 (ar_community_id r')"
    "be_bytes 8 (word_of_int (ar_seq r) :: 64 word) = be_bytes 8 (word_of_int (ar_seq r') :: 64 word)"
    using assms(3) [unfolded m m'] by simp_all
  then have "ar_community_id r = ar_community_id r'" "(word_of_int (ar_seq r) :: 64 word) = word_of_int (ar_seq r')"
    by (auto dest: be_bytes_inject [rotated])
  then show ?thesis using word_of_i64_inject [OF assms(4,5)] by simp
qed

lemma chained_hash: "chained lib p rs \<Longrightarrow> r \<in> set rs \<Longrightarrow> row_hash lib r = Inr (ar_hash r)"
  by (induction lib p rs rule: chained.induct) auto

text \<open>The rows \<open>verify_chain\<close> reads.\<close>

definition segment :: "uuid \<Rightarrow> i64 \<Rightarrow> i64 \<Rightarrow> audit_db \<Rightarrow> audit_row list" where
  "segment c from_seq to_seq db = filter (\<lambda>r. from_seq \<le> ar_seq r \<and> ar_seq r \<le> to_seq) (rows_of c db)"

lemma verify_chain_segment:
  "verify_chain lib c a b db = Inr True \<longleftrightarrow> segment c a b db \<noteq> [] \<and> (\<exists>p. chained lib p (segment c a b db))"
  unfolding verify_chain_def Let_def segment_def [symmetric]
  by (auto simp: verify_rows_iff intro: chained_verifies split: list.splits)

lemma chained_drop: "chained lib p rs \<Longrightarrow> \<exists>q. chained lib q (drop n rs)"
  by (metis append_take_drop_id chained_append)

text \<open>
  C10. Tampering shows. Take two states of the table whose chains over a range both verify and end in the same hash, and let no two
  rows at hand collide under the hash function. Then, as far back as both chains go, row by row from the end, the hashed bytes are
  the same, and so are the hashes, the communities and the sequence numbers.
\<close>

theorem audit_tamper_evident:
  assumes sha: "\<And>p. length (ad_sha256 lib p) = 32"
    and range: "\<And>r. r \<in> set (au_rows db) \<union> set (au_rows db') \<Longrightarrow> ar_seq r \<in> {i64_min..i64_max}"
    and collision_free: "inj_on (ad_sha256 lib) (row_preimage lib ` (set (au_rows db) \<union> set (au_rows db')))"
    and verified: "verify_chain lib c a b db = Inr True" "verify_chain lib c' a' b' db' = Inr True"
    and segments: "xs = segment c a b db" "ys = segment c' a' b' db'" and anchor: "ar_hash (last xs) = ar_hash (last ys)"
    and n: "n = min (length xs) (length ys)"
    and ends: "us = drop (length xs - n) xs" "vs = drop (length ys - n) ys"
  shows "map (row_preimage lib) us = map (row_preimage lib) vs \<and> map ar_hash us = map ar_hash vs \<and>
    map ar_community_id us = map ar_community_id vs \<and> map ar_seq us = map ar_seq vs"
proof -
  have ne: "xs \<noteq> []" "ys \<noteq> []" and ch: "\<exists>p. chained lib p xs" "\<exists>p. chained lib p ys"
    using verified by (simp_all add: verify_chain_segment segments)
  obtain p q where pq: "chained lib p us" "chained lib q vs" unfolding ends using ch chained_drop by meson
  have len: "length us = length vs" "us \<noteq> []" "vs \<noteq> []"
  proof -
    have "length us = n" "length vs = n" "0 < n" using n ends ne by simp_all
    then show "length us = length vs" "us \<noteq> []" "vs \<noteq> []" by auto
  qed
  have last_eq: "end_hash None us = end_hash None vs" using len anchor ends by (simp add: end_hash_eq)
  have sub: "set us \<subseteq> set (au_rows db)" "set vs \<subseteq> set (au_rows db')"
    unfolding ends segments segment_def by (auto dest!: in_set_dropD)
  then have inj: "inj_on (ad_sha256 lib) (row_preimage lib ` (set us \<union> set vs))"
    by (intro inj_on_subset [OF collision_free]) blast
  note same = chained_same_end [OF sha inj pq len(1) last_eq]
  have id: "ar_community_id (us ! i) = ar_community_id (vs ! i) \<and> ar_seq (us ! i) = ar_seq (vs ! i)" if i: "i < length us" for i
  proof (rule preimage_identity)
    show "row_preimage lib (us ! i) = row_preimage lib (vs ! i)" using same i len(1) by (metis nth_map)
    have "us ! i \<in> set us" "vs ! i \<in> set vs" using i len(1) by simp_all
    then show "row_hash lib (us ! i) = Inr (ar_hash (us ! i))" "row_hash lib (vs ! i) = Inr (ar_hash (vs ! i))"
      and "ar_seq (us ! i) \<in> {i64_min..i64_max}" "ar_seq (vs ! i) \<in> {i64_min..i64_max}"
      using chained_hash pq sub range by blast+
  qed
  then have "map ar_community_id us = map ar_community_id vs" "map ar_seq us = map ar_seq vs"
    using len(1) by (simp_all add: list_eq_iff_nth_eq)
  then show ?thesis using same by blast
qed


subsection \<open>What the hash does not fix\<close>

text \<open>The last digit of the object's identifier moved to the front of a numeric detail.\<close>

definition shift_digit :: "audit_row \<Rightarrow> audit_row" where
  "shift_digit r =
    (case (ar_object_id r, ar_detail r) of
       (Some obj, JNumber n) \<Rightarrow>
         if obj \<noteq> [] \<and> last obj \<in> set ''123456789'' \<and> n \<noteq> [] \<and> hd n \<in> set ''0123456789''
         then r\<lparr>ar_object_id := Some (butlast obj), ar_detail := JNumber (last obj # n)\<rparr> else r
     | _ \<Rightarrow> r)"

lemma shift_digit_fields [simp]:
  "ar_seq (shift_digit r) = ar_seq r" "ar_community_id (shift_digit r) = ar_community_id r"
  by (simp_all add: shift_digit_def split: option.splits json.splits)

lemma shift_digit_entry:
  assumes "\<And>n. ad_to_string lib (JNumber n) = Inr n"
  shows "(case row_to_audit_entry r of Inl e \<Rightarrow> row_to_audit_entry (shift_digit r) = Inl e
     | Inr e \<Rightarrow> \<exists>e'. row_to_audit_entry (shift_digit r) = Inr e' \<and> ae_prev_hash e' = ae_prev_hash e \<and> ae_seq e' = ae_seq e \<and>
         ae_hash e' = ae_hash e \<and> compute_hash lib e' = compute_hash lib e)"
proof (cases "shift_digit r = r")
  case True
  then show ?thesis by (simp split: sum.splits)
next
  case False
  then obtain obj n where r: "ar_object_id r = Some obj" "ar_detail r = JNumber n" "obj \<noteq> []"
    "shift_digit r = r\<lparr>ar_object_id := Some (butlast obj), ar_detail := JNumber (last obj # n)\<rparr>"
    by (auto simp: shift_digit_def split: option.splits json.splits if_splits)
  have moved: "str_bytes obj @ str_bytes n @ xs = str_bytes (butlast obj) @ str_bytes (last obj # n) @ xs" for xs
    using arg_cong [OF append_butlast_last_id [OF r(3)], of "\<lambda>s. str_bytes s @ str_bytes n @ xs"] by (simp add: str_bytes_def)
  show ?thesis
    unfolding r(4) by (simp add: moved row_to_audit_entry_def compute_hash_def preimage_def tagged_def assms r(1,2) split: option.splits)
qed

lemma verify_rows_shift:
  assumes "\<And>n. ad_to_string lib (JNumber n) = Inr n"
  shows "verify_rows lib prev (map shift_digit rs) = verify_rows lib prev rs"
proof (induction rs arbitrary: prev)
  case (Cons r rs)
  show ?case using shift_digit_entry [of lib r, OF assms] by (cases "row_to_audit_entry r") (auto simp: Cons.IH split: sum.splits)
qed simp

lemma sort_key_map: "(\<And>x. f (g x) = f x) \<Longrightarrow> sort_key f (map g xs) = map g (sort_key f xs)"
proof (induction xs)
  case (Cons x xs)
  have "insort_key f (g x) (map g ys) = map g (insort_key f x ys)" for ys
    by (induction ys) (simp_all add: Cons.prems)
  then show ?case using Cons by simp
qed simp

text \<open>
  The hashed bytes do not mark where the object's identifier ends: where numbers are written as their digits, moving the last
  digit of the identifiers to the front of numeric details changes both fields of every such row, and \<open>verify_chain\<close>
  answers as before on every range.
\<close>

theorem shifted_digit_undetected:
  assumes "\<And>n. ad_to_string lib (JNumber n) = Inr n"
  shows "verify_chain lib c from_seq to_seq (db\<lparr>au_rows := map shift_digit (au_rows db)\<rparr>) = verify_chain lib c from_seq to_seq db"
proof -
  have "rows_of c (db\<lparr>au_rows := map shift_digit (au_rows db)\<rparr>) = map shift_digit (rows_of c db)"
    by (simp add: rows_of_def filter_map comp_def sort_key_map)
  then show ?thesis by (simp add: verify_chain_def Let_def filter_map comp_def verify_rows_shift [OF assms])
qed


section \<open>An example\<close>

definition sample_audit_lib :: audit_lib where
  "sample_audit_lib =
    \<lparr>ad_sha256 = \<lambda>p. replicate 31 0 @ [if 23 < length p then p ! 23 else 0],
     ad_rfc3339 = \<lambda>t. ''1970-01-01T00:00:00Z'',
     ad_to_string = \<lambda>v. (case v of JNumber n \<Rightarrow> Inr n | JNull \<Rightarrow> Inr ''null'' | _ \<Rightarrow> Inl ''unsupported''),
     ad_jsonb = \<lambda>v. v\<rparr>"

definition sample_new_entry :: "string \<Rightarrow> string \<Rightarrow> new_audit_entry" where
  "sample_new_entry obj n =
    \<lparr>na_community_id = 1, na_action = EventCreated, na_actor_pubkey = None, na_object_id = Some obj, na_detail = JNumber n\<rparr>"

definition sample_audit_db0 :: audit_db where
  "sample_audit_db0 = \<lparr>au_communities = [(1, True)], au_rows = []\<rparr>"

definition sample_audit_row :: "i64 \<Rightarrow> string \<Rightarrow> string \<Rightarrow> audit_row" where
  "sample_audit_row n obj d =
    \<lparr>ar_community_id = 1, ar_seq = n, ar_hash = replicate 31 0 @ [word_of_int n],
     ar_prev_hash = (if n = 1 then None else Some (replicate 31 0 @ [word_of_int (n - 1)])),
     ar_action = ''event_created'', ar_actor_pubkey = None, ar_object_id = Some obj, ar_detail = JNumber d, ar_created_at = 3000\<rparr>"

definition sample_audit_db :: "nat \<Rightarrow> audit_db" where
  "sample_audit_db n = sample_audit_db0\<lparr>au_rows := take n [sample_audit_row 1 ''a1'' ''2'', sample_audit_row 2 ''b3'' ''4'']\<rparr>"

definition sample_audit_system :: "audit_db \<Rightarrow> audit_system" where
  "sample_audit_system db = \<lparr>as_db = db, as_locks = [], as_writers = \<lambda>_. Unlocked\<rparr>"

lemma sample_first_log:
  "audit_log sample_audit_lib no_failures 3141 (sample_new_entry ''a1'' ''2'') sample_audit_db0 =
   (row_to_audit_entry (sample_audit_row 1 ''a1'' ''2''), sample_audit_db 1)"
  by code_simp

lemma sample_second_log:
  "audit_log sample_audit_lib no_failures 3592 (sample_new_entry ''b3'' ''4'') (sample_audit_db 1) =
   (row_to_audit_entry (sample_audit_row 2 ''b3'' ''4''), sample_audit_db 2)"
  by code_simp

lemma sample_audit_reachable:
  "(audit_step sample_audit_lib (\<lambda>_. 0) UNIV)\<^sup>*\<^sup>* (sample_audit_system sample_audit_db0) (sample_audit_system (sample_audit_db 2))"
proof -
  have log: "(audit_step sample_audit_lib (\<lambda>_. 0) UNIV)\<^sup>*\<^sup>* (sample_audit_system db) (sample_audit_system db')"
    if "audit_log sample_audit_lib no_failures now entry db = (res, db')" for now entry db res db'
    using audit_log_steps [of sample_audit_lib no_failures now entry "sample_audit_system db" res db' 0 UNIV "\<lambda>_. 0"] that
    by (simp add: sample_audit_system_def)
  show ?thesis using log [OF sample_first_log] log [OF sample_second_log] by (rule rtranclp_trans)
qed

lemma sample_json_same: "jsonb_faithful sample_audit_lib UNIV"
  by (simp add: jsonb_faithful_def sample_audit_lib_def json_same.scalar)

theorem audit_chain_sound_witness: "verify_chain sample_audit_lib 1 1 2 (sample_audit_db 2) = Inr True"
proof -
  have init: "audit_init (sample_audit_system sample_audit_db0)" by (simp add: audit_init_def sample_audit_system_def sample_audit_db0_def)
  have "\<exists>r \<in> set (rows_of 1 (sample_audit_db 2)). 1 \<le> ar_seq r \<and> ar_seq r \<le> 2" by code_simp
  then show ?thesis
    using audit_chain_sound [OF init sample_audit_reachable sample_json_same, of 1 1 2] by (simp add: sample_audit_system_def)
qed

theorem audit_log_spec_witness:
  "\<exists>e db'. audit_log sample_audit_lib no_failures 3592 (sample_new_entry ''b3'' ''4'') (sample_audit_db 1) = (Inr e, db') \<and>
    entry_after sample_audit_lib 3592 (Some (sample_audit_row 1 ''a1'' ''2'')) (sample_new_entry ''b3'' ''4'') e \<and> rows_of 2 db' = []"
proof -
  have ids: "1 = na_community_id (sample_new_entry ''b3'' ''4'')" by (simp add: sample_new_entry_def)
  have head: "chain_head 1 (sample_audit_db 1) = Some (sample_audit_row 1 ''a1'' ''2'')" and other: "rows_of 2 (sample_audit_db 1) = []"
    by code_simp+
  obtain e where e: "row_to_audit_entry (sample_audit_row 2 ''b3'' ''4'') = Inr e"
    by (auto simp: row_to_audit_entry_def sample_audit_row_def action_codec.parse_as_str [of EventCreated, simplified])
  show ?thesis
    using audit_log_spec [OF sample_second_log [unfolded e] ids, of 2] head other e sample_second_log by (simp add: sample_second_log)
qed

theorem logged_entry_read_back_witness:
  "\<exists>e. audit_log sample_audit_lib no_failures 3592 (sample_new_entry ''b3'' ''4'') (sample_audit_db 1) = (Inr e, sample_audit_db 2) \<and>
    get_entries 1 2 5 (sample_audit_db 2) = Inr [e]"
proof -
  have ids: "1 = na_community_id (sample_new_entry ''b3'' ''4'')" by (simp add: sample_new_entry_def)
  have jsonb: "ad_jsonb sample_audit_lib (na_detail (sample_new_entry ''b3'' ''4'')) = na_detail (sample_new_entry ''b3'' ''4'')"
    by (simp add: sample_audit_lib_def)
  have page: "get_entries 1 2 5 (sample_audit_db 1) = Inr []" by code_simp
  obtain e where e: "row_to_audit_entry (sample_audit_row 2 ''b3'' ''4'') = Inr e" "ae_seq e = 2"
    by (auto simp: row_to_audit_entry_def sample_audit_row_def action_codec.parse_as_str [of EventCreated, simplified])
  show ?thesis
    using logged_entry_read_back [OF sample_second_log [unfolded e(1)] ids jsonb page] e sample_second_log by simp
qed

lemma sample_rows: "au_rows (sample_audit_db 2) = [sample_audit_row 1 ''a1'' ''2'', sample_audit_row 2 ''b3'' ''4'']"
  by (simp add: sample_audit_db_def)

theorem audit_tamper_evident_witness:
  "segment 1 2 2 (sample_audit_db 2) = [sample_audit_row 2 ''b3'' ''4''] \<and>
   map ar_seq (drop 1 (segment 1 1 2 (sample_audit_db 2))) = map ar_seq (segment 1 2 2 (sample_audit_db 2))"
proof -
  let ?r = "sample_audit_row 1 ''a1'' ''2''" and ?r' = "sample_audit_row 2 ''b3'' ''4''"
  have segs: "segment 1 1 2 (sample_audit_db 2) = [?r, ?r']" "segment 1 2 2 (sample_audit_db 2) = [?r']" by code_simp+
  have sha: "length (ad_sha256 sample_audit_lib p) = 32" for p by (simp add: sample_audit_lib_def)
  have range: "ar_seq r \<in> {i64_min..i64_max}" if "r \<in> set (au_rows (sample_audit_db 2)) \<union> set (au_rows (sample_audit_db 2))" for r
    using that by (auto simp: sample_rows sample_audit_row_def)
  have "ad_sha256 sample_audit_lib (row_preimage sample_audit_lib ?r) \<noteq> ad_sha256 sample_audit_lib (row_preimage sample_audit_lib ?r')"
    by code_simp
  then have inj: "inj_on (ad_sha256 sample_audit_lib)
      (row_preimage sample_audit_lib ` (set (au_rows (sample_audit_db 2)) \<union> set (au_rows (sample_audit_db 2))))"
    by (auto simp: sample_rows inj_on_def)
  have "verify_chain sample_audit_lib 1 1 2 (sample_audit_db 2) = Inr True" "verify_chain sample_audit_lib 1 2 2 (sample_audit_db 2) = Inr True"
    by code_simp+
  from audit_tamper_evident [OF sha range inj this refl refl _ refl refl refl] segs show ?thesis by simp
qed

theorem shifted_digit_undetected_witness:
  "verify_chain sample_audit_lib 1 1 2 (sample_audit_db 2\<lparr>au_rows := map shift_digit (au_rows (sample_audit_db 2))\<rparr>) = Inr True \<and>
   map ar_detail (map shift_digit (au_rows (sample_audit_db 2))) = [JNumber ''12'', JNumber ''34'']"
proof
  have num: "ad_to_string sample_audit_lib (JNumber n) = Inr n" for n by (simp add: sample_audit_lib_def)
  have "verify_chain sample_audit_lib 1 1 2 (sample_audit_db 2) = Inr True" by code_simp
  then show "verify_chain sample_audit_lib 1 1 2 (sample_audit_db 2\<lparr>au_rows := map shift_digit (au_rows (sample_audit_db 2))\<rparr>) = Inr True"
    unfolding shifted_digit_undetected [OF num] .
  show "map ar_detail (map shift_digit (au_rows (sample_audit_db 2))) = [JNumber ''12'', JNumber ''34'']"
    by (simp add: sample_rows sample_audit_row_def shift_digit_def)
qed

end
