(* ===== verification/Workflow_Store.thy ===== *)
theory Workflow_Store
  imports Rust_Text
begin

text \<open>
  The tables of the workflow engine (\<open>crates/buzz-db/src/workflow.rs\<close>, the tables of the initial migration): workflows, runs,
  approvals and claims of scheduled fires, every row under the community that owns it. A statement is one update of the record
  of tables; a violated key, a missing reference or the write fence of a community is an error that changes nothing. The
  answer of the fence trigger for each community (\<open>wd_fence\<close>) is part of the state, since other components change it.
  Shown: the references of the tables stay intact, no statement touches another community, a scheduled instant is claimed
  once and an approval is decided once.
\<close>

section \<open>Status values and records\<close>

datatype workflow_status = Active | Disabled | Archived

fun workflow_status_as_str :: "workflow_status \<Rightarrow> string" where
  "workflow_status_as_str Active = ''active''"
| "workflow_status_as_str Disabled = ''disabled''"
| "workflow_status_as_str Archived = ''archived''"

definition workflow_status_from_str :: "string \<Rightarrow> workflow_status option" where
  "workflow_status_from_str s =
    (if s = ''active'' then Some Active else if s = ''disabled'' then Some Disabled
     else if s = ''archived'' then Some Archived else None)"

datatype workflow_run_status = Pending | Running | WaitingApproval | Completed | Failed | Cancelled

fun run_status_as_str :: "workflow_run_status \<Rightarrow> string" where
  "run_status_as_str Pending = ''pending''"
| "run_status_as_str Running = ''running''"
| "run_status_as_str WaitingApproval = ''waiting_approval''"
| "run_status_as_str Completed = ''completed''"
| "run_status_as_str Failed = ''failed''"
| "run_status_as_str Cancelled = ''cancelled''"

definition run_status_from_str :: "string \<Rightarrow> workflow_run_status option" where
  "run_status_from_str s =
    (if s = ''pending'' then Some Pending else if s = ''running'' then Some Running
     else if s = ''waiting_approval'' then Some WaitingApproval else if s = ''completed'' then Some Completed
     else if s = ''failed'' then Some Failed else if s = ''cancelled'' then Some Cancelled else None)"

datatype approval_status = ApprovalPending | Granted | Denied | Expired

fun approval_status_as_str :: "approval_status \<Rightarrow> string" where
  "approval_status_as_str ApprovalPending = ''pending''"
| "approval_status_as_str Granted = ''granted''"
| "approval_status_as_str Denied = ''denied''"
| "approval_status_as_str Expired = ''expired''"

definition approval_status_from_str :: "string \<Rightarrow> approval_status option" where
  "approval_status_from_str s =
    (if s = ''pending'' then Some ApprovalPending else if s = ''granted'' then Some Granted
     else if s = ''denied'' then Some Denied else if s = ''expired'' then Some Expired else None)"

datatype workflow_db_error =
    Sqlx string
  | NotFound string
  | AccessDenied string
  | InvalidData string

type_synonym bytes = "8 word list"

record workflow_record =
  wk_id :: uuid
  wk_community_id :: uuid
  wk_name :: string
  wk_owner_pubkey :: bytes
  wk_channel_id :: "uuid option"
  wk_definition :: json
  wk_definition_hash :: bytes
  wk_status :: workflow_status
  wk_enabled :: bool
  wk_created_at :: timestamp
  wk_updated_at :: timestamp

record workflow_run_record =
  rr_id :: uuid
  rr_community_id :: uuid
  rr_workflow_id :: uuid
  rr_status :: workflow_run_status
  rr_trigger_event_id :: "bytes option"
  rr_current_step :: int
  rr_execution_trace :: json
  rr_trigger_context :: "json option"
  rr_started_at :: "timestamp option"
  rr_completed_at :: "timestamp option"
  rr_error_message :: "string option"
  rr_created_at :: timestamp

record scheduled_workflow_fire_claim =
  fc_community_id :: uuid
  fc_workflow_id :: uuid
  fc_scheduled_for :: timestamp
  fc_claimed_at :: timestamp

record approval_record =
  ap_token :: bytes
  ap_workflow_id :: uuid
  ap_run_id :: uuid
  ap_step_id :: string
  ap_step_index :: int
  ap_approver_spec :: string
  ap_status :: approval_status
  ap_approver_pubkey :: "bytes option"
  ap_note :: "string option"
  ap_expires_at :: timestamp
  ap_created_at :: timestamp

section \<open>Tables\<close>

record workflow_row =
  wr_community_id :: uuid
  wr_id :: uuid
  wr_name :: string
  wr_owner_pubkey :: bytes
  wr_channel_id :: "uuid option"
  wr_definition :: json
  wr_definition_hash :: bytes
  wr_status :: string
  wr_enabled :: bool
  wr_created_at :: timestamp
  wr_updated_at :: timestamp

record workflow_run_row =
  wu_community_id :: uuid
  wu_id :: uuid
  wu_workflow_id :: uuid
  wu_status :: string
  wu_trigger_event_id :: "bytes option"
  wu_current_step :: int
  wu_execution_trace :: json
  wu_trigger_context :: "json option"
  wu_started_at :: "timestamp option"
  wu_completed_at :: "timestamp option"
  wu_error_message :: "string option"
  wu_created_at :: timestamp

record approval_row =
  wa_community_id :: uuid
  wa_token :: bytes
  wa_workflow_id :: uuid
  wa_run_id :: uuid
  wa_step_id :: string
  wa_step_index :: int
  wa_approver_spec :: string
  wa_status :: string
  wa_approver_pubkey :: "bytes option"
  wa_note :: "string option"
  wa_granted_at :: "timestamp option"
  wa_denied_at :: "timestamp option"
  wa_expires_at :: timestamp
  wa_created_at :: timestamp

record fire_row =
  fi_community_id :: uuid
  fi_workflow_id :: uuid
  fi_scheduled_for :: timestamp
  fi_claimed_at :: timestamp
  fi_run_id :: "uuid option"

record workflow_db =
  wd_workflows :: "workflow_row list"
  wd_runs :: "workflow_run_row list"
  wd_approvals :: "approval_row list"
  wd_fires :: "fire_row list"
  wd_users :: "(uuid \<times> bytes) list"
  wd_channels :: "(uuid \<times> uuid) list"
  wd_archived :: "uuid list"
  wd_fence :: "uuid \<Rightarrow> string option"

abbreviation workflow_key :: "workflow_row \<Rightarrow> uuid \<times> uuid" where
  "workflow_key w \<equiv> (wr_community_id w, wr_id w)"

abbreviation run_key :: "workflow_run_row \<Rightarrow> uuid \<times> uuid" where
  "run_key r \<equiv> (wu_community_id r, wu_id r)"

abbreviation approval_key :: "approval_row \<Rightarrow> uuid \<times> bytes" where
  "approval_key a \<equiv> (wa_community_id a, wa_token a)"

abbreviation fire_key :: "fire_row \<Rightarrow> uuid \<times> uuid \<times> timestamp" where
  "fire_key f \<equiv> (fi_community_id f, fi_workflow_id f, fi_scheduled_for f)"

text \<open>The fence is a trigger on every row written; a \<open>VARCHAR\<close> is bounded in characters.\<close>

definition guarded :: "uuid \<Rightarrow> workflow_db \<Rightarrow> workflow_db_error + 'a \<Rightarrow> workflow_db_error + 'a" where
  "guarded c db r = (case wd_fence db c of Some e \<Rightarrow> Inl (Sqlx e) | None \<Rightarrow> r)"

definition too_long :: "nat \<Rightarrow> string \<Rightarrow> bool" where
  "too_long n s \<longleftrightarrow> n < length (filter (\<lambda>c. \<not> continuation c) s)"

section \<open>Row mappers\<close>

definition row_to_workflow_record :: "workflow_row \<Rightarrow> workflow_db_error + workflow_record" where
  "row_to_workflow_record row =
    (case workflow_status_from_str (wr_status row) of
       None \<Rightarrow> Inl (InvalidData (''unknown workflow status: '' @ wr_status row))
     | Some status \<Rightarrow>
         Inr \<lparr>wk_id = wr_id row, wk_community_id = wr_community_id row, wk_name = wr_name row,
              wk_owner_pubkey = wr_owner_pubkey row, wk_channel_id = wr_channel_id row, wk_definition = wr_definition row,
              wk_definition_hash = wr_definition_hash row, wk_status = status, wk_enabled = wr_enabled row,
              wk_created_at = wr_created_at row, wk_updated_at = wr_updated_at row\<rparr>)"

definition row_to_run_record :: "workflow_run_row \<Rightarrow> workflow_db_error + workflow_run_record" where
  "row_to_run_record row =
    (case run_status_from_str (wu_status row) of
       None \<Rightarrow> Inl (InvalidData (''unknown run status: '' @ wu_status row))
     | Some status \<Rightarrow>
         Inr \<lparr>rr_id = wu_id row, rr_community_id = wu_community_id row, rr_workflow_id = wu_workflow_id row, rr_status = status,
              rr_trigger_event_id = wu_trigger_event_id row, rr_current_step = wu_current_step row,
              rr_execution_trace = wu_execution_trace row, rr_trigger_context = wu_trigger_context row,
              rr_started_at = wu_started_at row, rr_completed_at = wu_completed_at row,
              rr_error_message = wu_error_message row, rr_created_at = wu_created_at row\<rparr>)"

definition row_to_approval_record :: "approval_row \<Rightarrow> workflow_db_error + approval_record" where
  "row_to_approval_record row =
    (case approval_status_from_str (wa_status row) of
       None \<Rightarrow> Inl (InvalidData (''unknown approval status: '' @ wa_status row))
     | Some status \<Rightarrow>
         Inr \<lparr>ap_token = wa_token row, ap_workflow_id = wa_workflow_id row, ap_run_id = wa_run_id row, ap_step_id = wa_step_id row,
              ap_step_index = wa_step_index row, ap_approver_spec = wa_approver_spec row, ap_status = status,
              ap_approver_pubkey = wa_approver_pubkey row, ap_note = wa_note row, ap_expires_at = wa_expires_at row,
              ap_created_at = wa_created_at row\<rparr>)"

section \<open>Workflows\<close>

text \<open>
  \<open>jsonb\<close> is the cast of a text to \<open>JSONB\<close>; the identifiers drawn by the code and the database's \<open>NOW()\<close> are arguments. An
  insertion checks the primary key and the references to the owner and the channel.
\<close>

definition insert_workflow :: "workflow_row \<Rightarrow> workflow_db \<Rightarrow> workflow_db_error + workflow_db" where
  "insert_workflow row db =
    (if (wr_community_id row, wr_owner_pubkey row) \<notin> set (wd_users db) then Inl (Sqlx ''workflows_community_id_owner_pubkey_fkey'')
     else if (case wr_channel_id row of None \<Rightarrow> False | Some ch \<Rightarrow> (wr_community_id row, ch) \<notin> set (wd_channels db))
     then Inl (Sqlx ''workflows_community_id_channel_id_fkey'')
     else Inr (db\<lparr>wd_workflows := wd_workflows db @ [row]\<rparr>))"

definition create_workflow ::
  "(string \<Rightarrow> string + json) \<Rightarrow> timestamp \<Rightarrow> uuid \<Rightarrow> uuid \<Rightarrow> uuid option \<Rightarrow> bytes \<Rightarrow> string \<Rightarrow> string \<Rightarrow> bytes \<Rightarrow>
   workflow_db \<Rightarrow> workflow_db_error + uuid \<times> workflow_db" where
  "create_workflow jsonb now ident community_id channel_id owner_pubkey name definition_json definition_hash db =
    (case jsonb definition_json of Inl e \<Rightarrow> Inl (Sqlx e) | Inr definition \<Rightarrow>
     guarded community_id db
      (if too_long 255 name then Inl (Sqlx ''value too long for type character varying(255)'')
       else if (community_id, ident) \<in> workflow_key ` set (wd_workflows db) then Inl (Sqlx ''workflows_pkey'')
       else case insert_workflow
           \<lparr>wr_community_id = community_id, wr_id = ident, wr_name = name, wr_owner_pubkey = owner_pubkey, wr_channel_id = channel_id,
            wr_definition = definition, wr_definition_hash = definition_hash, wr_status = ''active'', wr_enabled = True,
            wr_created_at = now, wr_updated_at = now\<rparr> db of
         Inl e \<Rightarrow> Inl e | Inr db' \<Rightarrow> Inr (ident, db')))"

definition upsert_workflow ::
  "(string \<Rightarrow> string + json) \<Rightarrow> timestamp \<Rightarrow> uuid \<Rightarrow> uuid \<Rightarrow> uuid option \<Rightarrow> bytes \<Rightarrow> string \<Rightarrow> string \<Rightarrow> bytes \<Rightarrow>
   workflow_db \<Rightarrow> workflow_db_error + workflow_db" where
  "upsert_workflow jsonb now community_id ident channel_id owner_pubkey name definition_json definition_hash db =
    (case jsonb definition_json of Inl e \<Rightarrow> Inl (Sqlx e) | Inr definition \<Rightarrow>
     guarded community_id db
      (if too_long 255 name then Inl (Sqlx ''value too long for type character varying(255)'')
       else case row_get workflow_key (community_id, ident) (wd_workflows db) of
         None \<Rightarrow> insert_workflow
           \<lparr>wr_community_id = community_id, wr_id = ident, wr_name = name, wr_owner_pubkey = owner_pubkey, wr_channel_id = channel_id,
            wr_definition = definition, wr_definition_hash = definition_hash, wr_status = ''active'', wr_enabled = True,
            wr_created_at = now, wr_updated_at = now\<rparr> db
       | Some row \<Rightarrow>
           if wr_owner_pubkey row = owner_pubkey \<and> wr_channel_id row = channel_id
           then Inr (db\<lparr>wd_workflows := row_upd workflow_key (community_id, ident)
                  (\<lambda>w. w\<lparr>wr_name := name, wr_definition := definition, wr_definition_hash := definition_hash, wr_updated_at := now\<rparr>)
                  (wd_workflows db)\<rparr>)
           else Inl (AccessDenied ''workflow belongs to a different owner or channel'')))"

definition get_workflow :: "uuid \<Rightarrow> uuid \<Rightarrow> workflow_db \<Rightarrow> workflow_db_error + workflow_record" where
  "get_workflow community_id ident db =
    (case row_get workflow_key (community_id, ident) (wd_workflows db) of
       None \<Rightarrow> Inl (NotFound ''workflow'') | Some row \<Rightarrow> row_to_workflow_record row)"

definition list_default_limit :: int where
  "list_default_limit = 100"

definition list_max_limit :: int where
  "list_max_limit = 1000"

text \<open>\<open>ORDER BY created_at DESC LIMIT \<dots> OFFSET \<dots>\<close>; rows of one time keep the order of the table.\<close>

definition page_desc :: "('r \<Rightarrow> timestamp) \<Rightarrow> int \<Rightarrow> int \<Rightarrow> 'r list \<Rightarrow> 'r list" where
  "page_desc created limit offset rows = take (nat limit) (drop (nat offset) (sort_key (\<lambda>r. - created r) rows))"

definition list_channel_workflows ::
  "uuid \<Rightarrow> uuid \<Rightarrow> int option \<Rightarrow> int option \<Rightarrow> workflow_db \<Rightarrow> workflow_db_error + workflow_record list" where
  "list_channel_workflows community_id channel_id limit offset db =
    (let limit = max 1 (min list_max_limit (case limit of Some n \<Rightarrow> n | None \<Rightarrow> list_default_limit));
         offset = max 0 (case offset of Some n \<Rightarrow> n | None \<Rightarrow> 0)
     in collect (map row_to_workflow_record (page_desc wr_created_at limit offset
          (filter (\<lambda>w. wr_community_id w = community_id \<and> wr_channel_id w = Some channel_id) (wd_workflows db)))))"

definition list_enabled_channel_workflows :: "uuid \<Rightarrow> uuid \<Rightarrow> workflow_db \<Rightarrow> workflow_db_error + workflow_record list" where
  "list_enabled_channel_workflows community_id channel_id db =
    collect (map row_to_workflow_record (page_desc wr_created_at list_max_limit 0
      (filter (\<lambda>w. wr_community_id w = community_id \<and> wr_channel_id w = Some channel_id \<and> wr_status w = ''active'' \<and> wr_enabled w)
        (wd_workflows db))))"

definition json_field :: "string \<Rightarrow> json \<Rightarrow> json option" where
  "json_field k v = (case v of JObject members \<Rightarrow> map_of members k | _ \<Rightarrow> None)"

definition scheduled_definition :: "json \<Rightarrow> bool" where
  "scheduled_definition d \<longleftrightarrow> Option.bind (json_field ''trigger'' d) (json_field ''on'') = Some (JString ''schedule'')"

definition list_all_enabled_workflows :: "workflow_db \<Rightarrow> workflow_db_error + workflow_record list" where
  "list_all_enabled_workflows db =
    collect (map row_to_workflow_record (take (nat list_max_limit) (sort_key wr_created_at
      (filter (\<lambda>w. wr_status w = ''active'' \<and> wr_enabled w \<and> scheduled_definition (wr_definition w) \<and>
                    wr_community_id w \<notin> set (wd_archived db)) (wd_workflows db)))))"

section \<open>Claims of scheduled fires\<close>

definition claim_scheduled_workflow_fire ::
  "timestamp \<Rightarrow> uuid \<Rightarrow> uuid \<Rightarrow> timestamp \<Rightarrow> workflow_db \<Rightarrow>
   workflow_db_error + scheduled_workflow_fire_claim option \<times> workflow_db" where
  "claim_scheduled_workflow_fire now community_id workflow_id scheduled_for db =
    (case row_get workflow_key (community_id, workflow_id) (wd_workflows db) of
       None \<Rightarrow> Inr (None, db)
     | Some w \<Rightarrow> guarded community_id db
         (if (community_id, workflow_id, scheduled_for) \<in> fire_key ` set (wd_fires db) then Inr (None, db)
          else Inr (Some \<lparr>fc_community_id = community_id, fc_workflow_id = workflow_id, fc_scheduled_for = scheduled_for,
                         fc_claimed_at = now\<rparr>,
                    db\<lparr>wd_fires := wd_fires db @ [\<lparr>fi_community_id = community_id, fi_workflow_id = workflow_id,
                         fi_scheduled_for = scheduled_for, fi_claimed_at = now, fi_run_id = None\<rparr>]\<rparr>)))"

definition latest_scheduled_workflow_fire :: "uuid \<Rightarrow> uuid \<Rightarrow> workflow_db \<Rightarrow> timestamp option" where
  "latest_scheduled_workflow_fire community_id workflow_id db =
    (case filter (\<lambda>f. fi_community_id f = community_id \<and> fi_workflow_id f = workflow_id) (wd_fires db) of
       [] \<Rightarrow> None | fs \<Rightarrow> Some (Max (set (map fi_scheduled_for fs))))"

definition attach_scheduled_workflow_run ::
  "uuid \<Rightarrow> uuid \<Rightarrow> timestamp \<Rightarrow> uuid \<Rightarrow> workflow_db \<Rightarrow> workflow_db_error + bool \<times> workflow_db" where
  "attach_scheduled_workflow_run community_id workflow_id scheduled_for run_id db =
    (let key = (community_id, workflow_id, scheduled_for)
     in if \<exists>f \<in> set (wd_fires db). fire_key f = key \<and> fi_run_id f = None
        then guarded community_id db
          (if (community_id, run_id) \<notin> run_key ` set (wd_runs db)
           then Inl (Sqlx ''scheduled_workflow_fires_community_id_workflow_run_id_fkey'')
           else Inr (True, db\<lparr>wd_fires := map (\<lambda>f. if fire_key f = key \<and> fi_run_id f = None
                                             then f\<lparr>fi_run_id := Some run_id\<rparr> else f) (wd_fires db)\<rparr>))
        else Inr (False, db))"

definition prune_scheduled_workflow_fires_before :: "timestamp \<Rightarrow> workflow_db \<Rightarrow> nat \<times> workflow_db" where
  "prune_scheduled_workflow_fires_before older_than db =
    (let old = (\<lambda>f. fi_claimed_at f < older_than \<and> wd_fence db (fi_community_id f) = None)
     in (length (filter old (wd_fires db)), db\<lparr>wd_fires := filter (\<lambda>f. \<not> old f) (wd_fires db)\<rparr>))"

section \<open>Changes of a workflow\<close>

definition modify_workflow :: "uuid \<Rightarrow> uuid \<Rightarrow> (workflow_row \<Rightarrow> workflow_row) \<Rightarrow> workflow_db \<Rightarrow> workflow_db_error + workflow_db" where
  "modify_workflow community_id ident f db =
    (if (community_id, ident) \<in> workflow_key ` set (wd_workflows db)
     then guarded community_id db (Inr (db\<lparr>wd_workflows := row_upd workflow_key (community_id, ident) f (wd_workflows db)\<rparr>))
     else Inl (NotFound ''workflow''))"

definition update_workflow ::
  "(string \<Rightarrow> string + json) \<Rightarrow> uuid \<Rightarrow> uuid \<Rightarrow> string \<Rightarrow> string \<Rightarrow> bytes \<Rightarrow> workflow_db \<Rightarrow> workflow_db_error + workflow_db" where
  "update_workflow jsonb community_id ident name definition_json definition_hash db =
    (case jsonb definition_json of Inl e \<Rightarrow> Inl (Sqlx e) | Inr definition \<Rightarrow>
      if too_long 255 name \<and> (community_id, ident) \<in> workflow_key ` set (wd_workflows db)
      then Inl (Sqlx ''value too long for type character varying(255)'')
      else modify_workflow community_id ident
        (\<lambda>w. w\<lparr>wr_name := name, wr_definition := definition, wr_definition_hash := definition_hash\<rparr>) db)"

definition update_workflow_status :: "uuid \<Rightarrow> uuid \<Rightarrow> workflow_status \<Rightarrow> workflow_db \<Rightarrow> workflow_db_error + workflow_db" where
  "update_workflow_status community_id ident status =
    modify_workflow community_id ident (\<lambda>w. w\<lparr>wr_status := workflow_status_as_str status\<rparr>)"

definition set_workflow_enabled :: "uuid \<Rightarrow> uuid \<Rightarrow> bool \<Rightarrow> workflow_db \<Rightarrow> workflow_db_error + workflow_db" where
  "set_workflow_enabled community_id ident enabled = modify_workflow community_id ident (\<lambda>w. w\<lparr>wr_enabled := enabled\<rparr>)"

definition owned_enabled :: "uuid \<Rightarrow> uuid \<Rightarrow> bytes \<Rightarrow> workflow_row \<Rightarrow> bool" where
  "owned_enabled community_id channel_id owner_pubkey w \<longleftrightarrow>
    wr_community_id w = community_id \<and> wr_channel_id w = Some channel_id \<and> wr_owner_pubkey w = owner_pubkey \<and> wr_enabled w"

definition disable_workflows_for_owner_in_channel ::
  "uuid \<Rightarrow> uuid \<Rightarrow> bytes \<Rightarrow> workflow_db \<Rightarrow> workflow_db_error + nat \<times> workflow_db" where
  "disable_workflows_for_owner_in_channel community_id channel_id owner_pubkey db =
    (let hit = owned_enabled community_id channel_id owner_pubkey;
         n = length (filter hit (wd_workflows db))
     in if n = 0 then Inr (0, db)
        else guarded community_id db
          (Inr (n, db\<lparr>wd_workflows := map (\<lambda>w. if hit w then w\<lparr>wr_enabled := False\<rparr> else w) (wd_workflows db)\<rparr>)))"

text \<open>Deleting a workflow deletes its runs, approvals and claims.\<close>

definition cascade :: "uuid \<Rightarrow> uuid \<Rightarrow> workflow_db \<Rightarrow> workflow_db" where
  "cascade c ident db =
    db\<lparr>wd_workflows := filter (\<lambda>w. workflow_key w \<noteq> (c, ident)) (wd_workflows db),
       wd_runs := filter (\<lambda>r. (wu_community_id r, wu_workflow_id r) \<noteq> (c, ident)) (wd_runs db),
       wd_approvals := filter (\<lambda>a. (wa_community_id a, wa_workflow_id a) \<noteq> (c, ident) \<and>
         (\<forall>r \<in> set (wd_runs db). run_key r = (wa_community_id a, wa_run_id a) \<longrightarrow> (wu_community_id r, wu_workflow_id r) \<noteq> (c, ident)))
         (wd_approvals db),
       wd_fires := filter (\<lambda>f. (fi_community_id f, fi_workflow_id f) \<noteq> (c, ident)) (wd_fires db)\<rparr>"

text \<open>A claim of another workflow that points to a run that would go makes the deletion fail (\<open>NO ACTION\<close>).\<close>

definition cascade_delete :: "uuid \<Rightarrow> uuid \<Rightarrow> workflow_db \<Rightarrow> workflow_db_error + workflow_db" where
  "cascade_delete c ident db =
    (let db' = cascade c ident db
     in if \<forall>f \<in> set (wd_fires db'). case fi_run_id f of None \<Rightarrow> True
          | Some run \<Rightarrow> (fi_community_id f, run) \<in> run_key ` set (wd_runs db')
        then Inr db' else Inl (Sqlx ''scheduled_workflow_fires_community_id_workflow_run_id_fkey''))"

definition delete_workflow :: "uuid \<Rightarrow> uuid \<Rightarrow> workflow_db \<Rightarrow> workflow_db_error + workflow_db" where
  "delete_workflow community_id ident db =
    (if (community_id, ident) \<in> workflow_key ` set (wd_workflows db)
     then guarded community_id db (cascade_delete community_id ident db)
     else Inl (NotFound ''workflow''))"

definition delete_workflow_for_owner ::
  "uuid \<Rightarrow> uuid \<Rightarrow> bytes \<Rightarrow> workflow_db \<Rightarrow> workflow_db_error + uuid option \<times> workflow_db" where
  "delete_workflow_for_owner community_id ident owner_pubkey db =
    (case row_get workflow_key (community_id, ident) (wd_workflows db) of
       None \<Rightarrow> Inl (NotFound ''workflow'')
     | Some row \<Rightarrow>
         if wr_owner_pubkey row = owner_pubkey
         then guarded community_id db
           (case cascade_delete community_id ident db of Inl e \<Rightarrow> Inl e | Inr db' \<Rightarrow> Inr (wr_channel_id row, db'))
         else Inl (NotFound ''workflow''))"

definition find_by_owner_and_name :: "uuid \<Rightarrow> bytes \<Rightarrow> string \<Rightarrow> workflow_db \<Rightarrow> workflow_db_error + workflow_record option" where
  "find_by_owner_and_name community_id owner_pubkey name db =
    (case find (\<lambda>w. wr_community_id w = community_id \<and> wr_owner_pubkey w = owner_pubkey \<and> wr_name w = name) (wd_workflows db) of
       None \<Rightarrow> Inr None
     | Some row \<Rightarrow> (case row_to_workflow_record row of Inl e \<Rightarrow> Inl e | Inr r \<Rightarrow> Inr (Some r)))"

section \<open>Runs\<close>

definition create_workflow_run ::
  "timestamp \<Rightarrow> uuid \<Rightarrow> uuid \<Rightarrow> uuid \<Rightarrow> bytes option \<Rightarrow> json option \<Rightarrow> workflow_db \<Rightarrow> workflow_db_error + uuid \<times> workflow_db" where
  "create_workflow_run now ident community_id workflow_id trigger_event_id trigger_context db =
    guarded community_id db
      (if (community_id, ident) \<in> run_key ` set (wd_runs db) then Inl (Sqlx ''workflow_runs_pkey'')
       else if (community_id, workflow_id) \<notin> workflow_key ` set (wd_workflows db)
       then Inl (Sqlx ''workflow_runs_community_id_workflow_id_fkey'')
       else Inr (ident, db\<lparr>wd_runs := wd_runs db @
         [\<lparr>wu_community_id = community_id, wu_id = ident, wu_workflow_id = workflow_id, wu_status = ''pending'',
           wu_trigger_event_id = trigger_event_id, wu_current_step = 0, wu_execution_trace = JArray [],
           wu_trigger_context = trigger_context, wu_started_at = None, wu_completed_at = None, wu_error_message = None,
           wu_created_at = now\<rparr>]\<rparr>))"

definition get_workflow_run :: "uuid \<Rightarrow> uuid \<Rightarrow> workflow_db \<Rightarrow> workflow_db_error + workflow_run_record" where
  "get_workflow_run community_id ident db =
    (case row_get run_key (community_id, ident) (wd_runs db) of
       None \<Rightarrow> Inl (NotFound ''workflow_run'') | Some row \<Rightarrow> row_to_run_record row)"

definition list_workflow_runs :: "uuid \<Rightarrow> uuid \<Rightarrow> int \<Rightarrow> workflow_db \<Rightarrow> workflow_db_error + workflow_run_record list" where
  "list_workflow_runs community_id workflow_id limit db =
    (let limit = min limit 1000
     in if limit < 0 then Inl (Sqlx ''LIMIT must not be negative'')
        else collect (map row_to_run_record (page_desc wu_created_at limit 0
          (filter (\<lambda>r. wu_community_id r = community_id \<and> wu_workflow_id r = workflow_id) (wd_runs db)))))"

definition update_workflow_run ::
  "timestamp \<Rightarrow> uuid \<Rightarrow> uuid \<Rightarrow> workflow_run_status \<Rightarrow> int \<Rightarrow> json \<Rightarrow> string option \<Rightarrow> workflow_db \<Rightarrow>
   workflow_db_error + workflow_db" where
  "update_workflow_run now community_id ident status current_step trace error db =
    (let status_str = run_status_as_str status
     in if (community_id, ident) \<in> run_key ` set (wd_runs db)
        then guarded community_id db (Inr (db\<lparr>wd_runs := row_upd run_key (community_id, ident)
          (\<lambda>r. r\<lparr>wu_status := status_str, wu_current_step := current_step, wu_execution_trace := trace, wu_error_message := error,
                 wu_started_at := (if status_str = ''running'' \<and> wu_started_at r = None then Some now else wu_started_at r),
                 wu_completed_at := (if status_str \<in> {''completed'', ''failed'', ''cancelled''} then Some now else wu_completed_at r)\<rparr>)
          (wd_runs db)\<rparr>))
        else Inl (NotFound ''workflow_run''))"

section \<open>Approvals\<close>

text \<open>\<open>sha256\<close> of the library hashes the token.\<close>

record create_approval_params =
  cp_community_id :: uuid
  cp_token :: string
  cp_workflow_id :: uuid
  cp_run_id :: uuid
  cp_step_id :: string
  cp_step_index :: int
  cp_approver_spec :: string
  cp_expires_at :: timestamp

definition create_approval ::
  "(string \<Rightarrow> bytes) \<Rightarrow> timestamp \<Rightarrow> create_approval_params \<Rightarrow> workflow_db \<Rightarrow> workflow_db_error + workflow_db" where
  "create_approval hash_approval_token now p db =
    guarded (cp_community_id p) db
      (let token_hash = hash_approval_token (cp_token p) in
       if too_long 64 (cp_step_id p) then Inl (Sqlx ''value too long for type character varying(64)'')
       else if (cp_community_id p, token_hash) \<in> approval_key ` set (wd_approvals db) then Inl (Sqlx ''workflow_approvals_pkey'')
       else if (cp_community_id p, cp_workflow_id p) \<notin> workflow_key ` set (wd_workflows db)
       then Inl (Sqlx ''workflow_approvals_community_id_workflow_id_fkey'')
       else if (cp_community_id p, cp_run_id p) \<notin> run_key ` set (wd_runs db)
       then Inl (Sqlx ''workflow_approvals_community_id_run_id_fkey'')
       else Inr (db\<lparr>wd_approvals := wd_approvals db @
         [\<lparr>wa_community_id = cp_community_id p, wa_token = token_hash, wa_workflow_id = cp_workflow_id p, wa_run_id = cp_run_id p,
           wa_step_id = cp_step_id p, wa_step_index = cp_step_index p, wa_approver_spec = cp_approver_spec p,
           wa_status = ''pending'', wa_approver_pubkey = None, wa_note = None, wa_granted_at = None, wa_denied_at = None,
           wa_expires_at = cp_expires_at p, wa_created_at = now\<rparr>]\<rparr>))"

definition get_approval_by_stored_hash :: "uuid \<Rightarrow> bytes \<Rightarrow> workflow_db \<Rightarrow> workflow_db_error + approval_record" where
  "get_approval_by_stored_hash community_id token_hash db =
    (case row_get approval_key (community_id, token_hash) (wd_approvals db) of
       None \<Rightarrow> Inl (NotFound ''approval token (hashed)'') | Some row \<Rightarrow> row_to_approval_record row)"

definition get_approval :: "(string \<Rightarrow> bytes) \<Rightarrow> uuid \<Rightarrow> string \<Rightarrow> workflow_db \<Rightarrow> workflow_db_error + approval_record" where
  "get_approval hash_approval_token community_id token =
    get_approval_by_stored_hash community_id (hash_approval_token token)"

definition get_run_approvals :: "uuid \<Rightarrow> uuid \<Rightarrow> uuid \<Rightarrow> workflow_db \<Rightarrow> workflow_db_error + approval_record list" where
  "get_run_approvals community_id workflow_id run_id db =
    collect (map row_to_approval_record (sort_key wa_step_index (sort_key wa_created_at
      (filter (\<lambda>a. wa_community_id a = community_id \<and> wa_run_id a = run_id \<and> wa_workflow_id a = workflow_id) (wd_approvals db)))))"

definition update_approval_by_stored_hash ::
  "timestamp \<Rightarrow> uuid \<Rightarrow> bytes \<Rightarrow> approval_status \<Rightarrow> bytes option \<Rightarrow> string option \<Rightarrow> workflow_db \<Rightarrow>
   workflow_db_error + bool \<times> workflow_db" where
  "update_approval_by_stored_hash now community_id token_hash status approver_pubkey note db =
    (let status_str = approval_status_as_str status;
         hit = (\<lambda>a. approval_key a = (community_id, token_hash) \<and> wa_status a = ''pending'')
     in if \<exists>a \<in> set (wd_approvals db). hit a
        then guarded community_id db (Inr (True, db\<lparr>wd_approvals := map (\<lambda>a. if hit a
          then a\<lparr>wa_status := status_str, wa_approver_pubkey := approver_pubkey, wa_note := note,
                 wa_granted_at := (if status_str = ''granted'' then Some now else wa_granted_at a),
                 wa_denied_at := (if status_str = ''denied'' then Some now else wa_denied_at a)\<rparr>
          else a) (wd_approvals db)\<rparr>))
        else Inr (False, db))"

definition update_approval ::
  "(string \<Rightarrow> bytes) \<Rightarrow> timestamp \<Rightarrow> uuid \<Rightarrow> string \<Rightarrow> approval_status \<Rightarrow> bytes option \<Rightarrow> string option \<Rightarrow> workflow_db \<Rightarrow>
   workflow_db_error + bool \<times> workflow_db" where
  "update_approval hash_approval_token now community_id token =
    update_approval_by_stored_hash now community_id (hash_approval_token token)"


section \<open>The statements as calls of a community\<close>

datatype store_call =
    CreateWorkflow uuid "uuid option" bytes string string bytes
  | UpsertWorkflow uuid "uuid option" bytes string string bytes
  | ClaimFire uuid timestamp
  | AttachRun uuid timestamp uuid
  | UpdateWorkflow uuid string string bytes
  | UpdateStatus uuid workflow_status
  | SetEnabled uuid bool
  | DisableForOwner uuid bytes
  | DeleteWorkflow uuid
  | DeleteForOwner uuid bytes
  | CreateRun uuid uuid "bytes option" "json option"
  | UpdateRun uuid workflow_run_status int json "string option"
  | CreateApproval create_approval_params
  | UpdateApproval bytes approval_status "bytes option" "string option"

definition state_after :: "('a \<Rightarrow> workflow_db) \<Rightarrow> workflow_db \<Rightarrow> workflow_db_error + 'a \<Rightarrow> workflow_db" where
  "state_after f db r = (case r of Inl e \<Rightarrow> db | Inr x \<Rightarrow> f x)"

fun store_apply ::
  "(string \<Rightarrow> string + json) \<Rightarrow> (string \<Rightarrow> bytes) \<Rightarrow> timestamp \<Rightarrow> uuid \<Rightarrow> store_call \<Rightarrow> workflow_db \<Rightarrow> workflow_db" where
  "store_apply jsonb sha now c (CreateWorkflow i ch owner name d h) db =
    state_after snd db (create_workflow jsonb now i c ch owner name d h db)"
| "store_apply jsonb sha now c (UpsertWorkflow i ch owner name d h) db =
    state_after (\<lambda>x. x) db (upsert_workflow jsonb now c i ch owner name d h db)"
| "store_apply jsonb sha now c (ClaimFire w t) db = state_after snd db (claim_scheduled_workflow_fire now c w t db)"
| "store_apply jsonb sha now c (AttachRun w t run) db = state_after snd db (attach_scheduled_workflow_run c w t run db)"
| "store_apply jsonb sha now c (UpdateWorkflow i name d h) db = state_after (\<lambda>x. x) db (update_workflow jsonb c i name d h db)"
| "store_apply jsonb sha now c (UpdateStatus i st) db = state_after (\<lambda>x. x) db (update_workflow_status c i st db)"
| "store_apply jsonb sha now c (SetEnabled i b) db = state_after (\<lambda>x. x) db (set_workflow_enabled c i b db)"
| "store_apply jsonb sha now c (DisableForOwner ch owner) db =
    state_after snd db (disable_workflows_for_owner_in_channel c ch owner db)"
| "store_apply jsonb sha now c (DeleteWorkflow i) db = state_after (\<lambda>x. x) db (delete_workflow c i db)"
| "store_apply jsonb sha now c (DeleteForOwner i owner) db = state_after snd db (delete_workflow_for_owner c i owner db)"
| "store_apply jsonb sha now c (CreateRun run w ev ctx) db = state_after snd db (create_workflow_run now run c w ev ctx db)"
| "store_apply jsonb sha now c (UpdateRun run st n trace err) db =
    state_after (\<lambda>x. x) db (update_workflow_run now c run st n trace err db)"
| "store_apply jsonb sha now c (CreateApproval p) db = state_after (\<lambda>x. x) db (create_approval sha now (p\<lparr>cp_community_id := c\<rparr>) db)"
| "store_apply jsonb sha now c (UpdateApproval h st pk note) db =
    state_after snd db (update_approval_by_stored_hash now c h st pk note db)"

section \<open>What a statement can do\<close>

text \<open>
  An abstract reading of the statements of one community: a fresh row of the community with its references, an edit that keeps
  keys and references, or a deletion with everything that depends on it.
\<close>

definition workflow_refs :: "workflow_db \<Rightarrow> workflow_row \<Rightarrow> bool" where
  "workflow_refs db w \<longleftrightarrow> (wr_community_id w, wr_owner_pubkey w) \<in> set (wd_users db) \<and>
    (\<forall>ch. wr_channel_id w = Some ch \<longrightarrow> (wr_community_id w, ch) \<in> set (wd_channels db)) \<and>
    wr_status w \<in> range workflow_status_as_str"

definition run_refs :: "workflow_db \<Rightarrow> workflow_run_row \<Rightarrow> bool" where
  "run_refs db r \<longleftrightarrow> (wu_community_id r, wu_workflow_id r) \<in> workflow_key ` set (wd_workflows db) \<and>
    wu_status r \<in> range run_status_as_str"

definition approval_refs :: "workflow_db \<Rightarrow> approval_row \<Rightarrow> bool" where
  "approval_refs db a \<longleftrightarrow> (wa_community_id a, wa_workflow_id a) \<in> workflow_key ` set (wd_workflows db) \<and>
    (wa_community_id a, wa_run_id a) \<in> run_key ` set (wd_runs db) \<and> wa_status a \<in> range approval_status_as_str"

definition fire_refs :: "workflow_db \<Rightarrow> fire_row \<Rightarrow> bool" where
  "fire_refs db f \<longleftrightarrow> (fi_community_id f, fi_workflow_id f) \<in> workflow_key ` set (wd_workflows db) \<and>
    (\<forall>run. fi_run_id f = Some run \<longrightarrow> (fi_community_id f, run) \<in> run_key ` set (wd_runs db))"

inductive store_change :: "uuid \<Rightarrow> workflow_db \<Rightarrow> workflow_db \<Rightarrow> bool" for c where
  same: "store_change c db db"
| new_workflow: "wr_community_id w = c \<Longrightarrow> workflow_key w \<notin> workflow_key ` set (wd_workflows db) \<Longrightarrow> workflow_refs db w \<Longrightarrow>
    store_change c db (db\<lparr>wd_workflows := wd_workflows db @ [w]\<rparr>)"
| edit_workflows: "\<forall>w. wr_community_id w \<noteq> c \<longrightarrow> f w = w \<Longrightarrow> \<forall>w. workflow_key (f w) = workflow_key w \<Longrightarrow>
    \<forall>w. workflow_refs db w \<longrightarrow> workflow_refs db (f w) \<Longrightarrow>
    store_change c db (db\<lparr>wd_workflows := map f (wd_workflows db)\<rparr>)"
| delete: "\<forall>f \<in> set (wd_fires (cascade c i db)). \<forall>run. fi_run_id f = Some run \<longrightarrow>
      (fi_community_id f, run) \<in> run_key ` set (wd_runs (cascade c i db)) \<Longrightarrow>
    store_change c db (cascade c i db)"
| new_run: "wu_community_id r = c \<Longrightarrow> run_key r \<notin> run_key ` set (wd_runs db) \<Longrightarrow> run_refs db r \<Longrightarrow>
    store_change c db (db\<lparr>wd_runs := wd_runs db @ [r]\<rparr>)"
| edit_runs: "\<forall>r. wu_community_id r \<noteq> c \<longrightarrow> f r = r \<Longrightarrow> \<forall>r. run_key (f r) = run_key r \<Longrightarrow>
    \<forall>r. run_refs db r \<longrightarrow> run_refs db (f r) \<Longrightarrow>
    store_change c db (db\<lparr>wd_runs := map f (wd_runs db)\<rparr>)"
| new_approval: "wa_community_id a = c \<Longrightarrow> approval_key a \<notin> approval_key ` set (wd_approvals db) \<Longrightarrow> approval_refs db a \<Longrightarrow>
    store_change c db (db\<lparr>wd_approvals := wd_approvals db @ [a]\<rparr>)"
| edit_approvals: "\<forall>a. wa_community_id a \<noteq> c \<or> wa_status a \<noteq> ''pending'' \<longrightarrow> f a = a \<Longrightarrow>
    \<forall>a. approval_key (f a) = approval_key a \<Longrightarrow> \<forall>a. approval_refs db a \<longrightarrow> approval_refs db (f a) \<Longrightarrow>
    store_change c db (db\<lparr>wd_approvals := map f (wd_approvals db)\<rparr>)"
| new_fire: "fi_community_id f = c \<Longrightarrow> fire_key f \<notin> fire_key ` set (wd_fires db) \<Longrightarrow> fire_refs db f \<Longrightarrow>
    store_change c db (db\<lparr>wd_fires := wd_fires db @ [f]\<rparr>)"
| edit_fires: "\<forall>x. fi_community_id x \<noteq> c \<longrightarrow> f x = x \<Longrightarrow> \<forall>x. fire_key (f x) = fire_key x \<and> fi_claimed_at (f x) = fi_claimed_at x \<Longrightarrow>
    \<forall>x. fire_refs db x \<longrightarrow> fire_refs db (f x) \<Longrightarrow>
    store_change c db (db\<lparr>wd_fires := map f (wd_fires db)\<rparr>)"


interpretation workflow_status_codec: string_codec workflow_status_as_str workflow_status_from_str
proof
  show "workflow_status_from_str (workflow_status_as_str e) = Some e" for e by (cases e) (simp_all add: workflow_status_from_str_def)
  show "s = workflow_status_as_str e" if "workflow_status_from_str s = Some e" for s e
    using that by (auto simp: workflow_status_from_str_def split: if_splits)
qed

interpretation run_status_codec: string_codec run_status_as_str run_status_from_str
proof
  show "run_status_from_str (run_status_as_str e) = Some e" for e by (cases e) (simp_all add: run_status_from_str_def)
  show "s = run_status_as_str e" if "run_status_from_str s = Some e" for s e
    using that by (auto simp: run_status_from_str_def split: if_splits)
qed

interpretation approval_status_codec: string_codec approval_status_as_str approval_status_from_str
proof
  show "approval_status_from_str (approval_status_as_str e) = Some e" for e by (cases e) (simp_all add: approval_status_from_str_def)
  show "s = approval_status_as_str e" if "approval_status_from_str s = Some e" for s e
    using that by (auto simp: approval_status_from_str_def split: if_splits)
qed

lemma state_after_simps [simp]: "state_after f db (Inl e) = db" "state_after f db (Inr x) = f x"
  by (simp_all add: state_after_def)

lemma state_after_guarded: "P db \<Longrightarrow> P (state_after f db r) \<Longrightarrow> P (state_after f db (guarded c db r))"
  by (simp add: guarded_def split: option.splits)

lemma state_after_split: "P (state_after f db r) \<longleftrightarrow> (\<forall>e. r = Inl e \<longrightarrow> P db) \<and> (\<forall>x. r = Inr x \<longrightarrow> P (f x))"
  by (simp add: state_after_def split: sum.splits)

lemma active_status: "''active'' \<in> range workflow_status_as_str"
  by (rule image_eqI [of _ _ Active]) simp_all

lemma insert_workflow_change:
  assumes "insert_workflow w db = Inr db'" "wr_community_id w = c" "wr_status w = ''active''"
    and "workflow_key w \<notin> workflow_key ` set (wd_workflows db)"
  shows "store_change c db db'"
proof -
  have "workflow_refs db w" "db' = db\<lparr>wd_workflows := wd_workflows db @ [w]\<rparr>"
    using assms(1,3) by (auto simp: insert_workflow_def workflow_refs_def active_status split: if_splits option.splits)
  then show ?thesis using store_change.new_workflow [of w c db] assms(2,4) by simp
qed

lemma modify_workflow_change:
  assumes "modify_workflow c i f db = Inr db'" and "\<And>w. workflow_key (f w) = workflow_key w"
    and "\<And>w. workflow_refs db w \<Longrightarrow> workflow_refs db (f w)"
  shows "store_change c db db'"
proof -
  have "db' = db\<lparr>wd_workflows := map (\<lambda>w. if workflow_key w = (c, i) then f w else w) (wd_workflows db)\<rparr>"
    using assms(1) by (auto simp: modify_workflow_def guarded_def row_upd_def split: if_splits option.splits)
  then show ?thesis
    using store_change.edit_workflows [of c "\<lambda>w. if workflow_key w = (c, i) then f w else w" db] assms(2,3) by auto
qed

lemma cascade_delete_change: "cascade_delete c i db = Inr db' \<Longrightarrow> store_change c db db'"
  using store_change.delete [of c i db] by (auto simp: cascade_delete_def Let_def split: if_splits option.splits)

lemma create_workflow_change: "create_workflow jsonb now i c ch owner name d h db = Inr (j, db') \<Longrightarrow> store_change c db db'"
  by (auto simp: create_workflow_def guarded_def elim: insert_workflow_change split: sum.splits option.splits if_splits)

lemma upsert_workflow_change:
  assumes "upsert_workflow jsonb now c i ch owner name d h db = Inr db'"
  shows "store_change c db db'"
proof (cases "row_get workflow_key (c, i) (wd_workflows db)")
  case None
  then have "(c, i) \<notin> workflow_key ` set (wd_workflows db)" by (simp add: row_get_None_iff)
  with None show ?thesis using assms
    by (auto simp: upsert_workflow_def guarded_def elim!: insert_workflow_change split: sum.splits option.splits if_splits)
next
  case (Some row)
  then obtain v where "db' = db\<lparr>wd_workflows := map (\<lambda>w. if workflow_key w = (c, i)
      then w\<lparr>wr_name := name, wr_definition := v, wr_definition_hash := h, wr_updated_at := now\<rparr> else w) (wd_workflows db)\<rparr>"
    using assms by (auto simp: upsert_workflow_def guarded_def row_upd_def split: sum.splits option.splits if_splits)
  then show ?thesis
    using store_change.edit_workflows [of c "\<lambda>w. if workflow_key w = (c, i)
      then w\<lparr>wr_name := name, wr_definition := v, wr_definition_hash := h, wr_updated_at := now\<rparr> else w" db]
    by (simp add: workflow_refs_def)
qed

lemma claim_change: "claim_scheduled_workflow_fire now c w t db = Inr (res, db') \<Longrightarrow> store_change c db db'"
  by (auto simp: claim_scheduled_workflow_fire_def guarded_def fire_refs_def dest!: row_get_SomeD
      intro!: store_change.same store_change.new_fire split: option.splits if_splits)

lemma attach_change: "attach_scheduled_workflow_run c w t run db = Inr (res, db') \<Longrightarrow> store_change c db db'"
  by (auto simp: attach_scheduled_workflow_run_def Let_def guarded_def fire_refs_def
      intro!: store_change.same store_change.edit_fires split: option.splits if_splits)

lemma disable_change: "disable_workflows_for_owner_in_channel c ch owner db = Inr (n, db') \<Longrightarrow> store_change c db db'"
  by (auto simp: disable_workflows_for_owner_in_channel_def Let_def guarded_def owned_enabled_def workflow_refs_def
      intro!: store_change.same store_change.edit_workflows split: option.splits if_splits)

lemma create_run_change: "create_workflow_run now run c w ev ctx db = Inr (j, db') \<Longrightarrow> store_change c db db'"
  by (auto simp: create_workflow_run_def guarded_def run_refs_def intro!: store_change.new_run image_eqI [of _ _ Pending]
      split: option.splits if_splits)

lemma update_run_change:
  assumes "update_workflow_run now c run st n trace err db = Inr db'"
  shows "store_change c db db'"
  using assms
  by (auto simp: update_workflow_run_def Let_def guarded_def row_upd_def run_refs_def intro!: store_change.edit_runs
      split: option.splits if_splits)

lemma create_approval_change:
  "create_approval sha now p db = Inr db' \<Longrightarrow> store_change (cp_community_id p) db db'"
  by (auto simp: create_approval_def Let_def guarded_def approval_refs_def intro!: store_change.new_approval image_eqI [of _ _ ApprovalPending]
      del: imageE split: option.splits if_splits)

lemma update_approval_change: "update_approval_by_stored_hash now c h st pk note db = Inr (b, db') \<Longrightarrow> store_change c db db'"
  by (auto simp: update_approval_by_stored_hash_def Let_def guarded_def approval_refs_def
      intro!: store_change.same store_change.edit_approvals del: imageE split: option.splits if_splits)

lemma store_apply_change: "store_change c db (store_apply jsonb sha now c call db)"
proof (cases call)
  case (UpdateWorkflow i name d h)
  then show ?thesis
    by (auto simp: state_after_split update_workflow_def workflow_refs_def intro: store_change.same
        elim!: modify_workflow_change split: sum.splits if_splits)
next
  case (DeleteWorkflow i)
  then show ?thesis
    by (auto simp: state_after_split delete_workflow_def guarded_def intro: store_change.same cascade_delete_change
        split: option.splits if_splits)
next
  case (DeleteForOwner i owner)
  then show ?thesis
    by (auto simp: state_after_split delete_workflow_for_owner_def guarded_def intro: store_change.same cascade_delete_change
        split: option.splits if_splits sum.splits)
next
  case (CreateApproval p)
  then show ?thesis
    using create_approval_change [of sha now "p\<lparr>cp_community_id := c\<rparr>" db] by (auto simp: state_after_split intro: store_change.same)
qed (auto simp: state_after_split update_workflow_status_def set_workflow_enabled_def workflow_refs_def
    intro: store_change.same create_workflow_change upsert_workflow_change claim_change attach_change disable_change
      create_run_change update_run_change update_approval_change elim!: modify_workflow_change)


section \<open>Integrity\<close>

definition store_inv :: "workflow_db \<Rightarrow> bool" where
  "store_inv db \<longleftrightarrow>
    distinct (map workflow_key (wd_workflows db)) \<and> distinct (map run_key (wd_runs db)) \<and>
    distinct (map approval_key (wd_approvals db)) \<and> distinct (map fire_key (wd_fires db)) \<and>
    (\<forall>w \<in> set (wd_workflows db). workflow_refs db w) \<and> (\<forall>r \<in> set (wd_runs db). run_refs db r) \<and>
    (\<forall>a \<in> set (wd_approvals db). approval_refs db a) \<and> (\<forall>f \<in> set (wd_fires db). fire_refs db f)"

lemma cascade_inv:
  assumes inv: "store_inv db"
    and runs: "\<forall>f \<in> set (wd_fires (cascade c i db)). \<forall>run. fi_run_id f = Some run \<longrightarrow>
      (fi_community_id f, run) \<in> run_key ` set (wd_runs (cascade c i db))"
  shows "store_inv (cascade c i db)"
proof -
  have wf: "k \<in> workflow_key ` set (wd_workflows (cascade c i db))" if "k \<in> workflow_key ` set (wd_workflows db)" "k \<noteq> (c, i)" for k
    using that by (auto simp: cascade_def)
  have "approval_refs (cascade c i db) a" if a: "a \<in> set (wd_approvals (cascade c i db))" for a
  proof -
    have "a \<in> set (wd_approvals db)" using a by (simp add: cascade_def)
    then have refs: "approval_refs db a" using inv by (simp add: store_inv_def)
    then obtain r where r: "r \<in> set (wd_runs db)" "run_key r = (wa_community_id a, wa_run_id a)" by (auto simp: approval_refs_def)
    then have "r \<in> set (wd_runs (cascade c i db))" using a by (auto simp: cascade_def)
    then have "(wa_community_id a, wa_run_id a) \<in> run_key ` set (wd_runs (cascade c i db))" by (rule rev_image_eqI) (rule r(2) [symmetric])
    moreover have "(wa_community_id a, wa_workflow_id a) \<noteq> (c, i)" using a by (simp add: cascade_def)
    ultimately show ?thesis using refs wf by (simp add: approval_refs_def)
  qed
  moreover have "run_refs (cascade c i db) r" if "r \<in> set (wd_runs (cascade c i db))" for r
    using that inv wf by (auto simp: store_inv_def run_refs_def cascade_def)
  moreover have "fire_refs (cascade c i db) f" if f: "f \<in> set (wd_fires (cascade c i db))" for f
    using f inv wf [of "(fi_community_id f, fi_workflow_id f)"] runs by (auto simp: store_inv_def fire_refs_def cascade_def del: imageE)
  moreover have "workflow_refs (cascade c i db) w" if "w \<in> set (wd_workflows (cascade c i db))" for w
    using that inv by (simp add: store_inv_def workflow_refs_def cascade_def)
  ultimately show ?thesis using inv by (simp add: store_inv_def cascade_def distinct_map_filter)
qed

lemma store_change_inv [inv_intros]:
  assumes inv: "store_inv db" and change: "store_change c db db'"
  shows "store_inv db'"
  using change
proof cases
  case same
  then show ?thesis using inv by simp
next
  case (new_workflow w)
  then show ?thesis using inv by (auto simp: store_inv_def workflow_refs_def run_refs_def approval_refs_def fire_refs_def del: imageE)
next
  case (edit_workflows f)
  have comp: "workflow_key \<circ> f = workflow_key" using edit_workflows(3) by (simp add: fun_eq_iff)
  then have keys: "workflow_key ` set (map f (wd_workflows db)) = workflow_key ` set (wd_workflows db)" by (simp add: image_comp)
  have "workflow_refs db' w \<longleftrightarrow> workflow_refs db w" "run_refs db' r \<longleftrightarrow> run_refs db r" "approval_refs db' a \<longleftrightarrow> approval_refs db a"
    "fire_refs db' x \<longleftrightarrow> fire_refs db x" for w r a x
    using keys by (simp_all add: edit_workflows(1) workflow_refs_def run_refs_def approval_refs_def fire_refs_def del: set_map list.set_map)
  then show ?thesis using inv comp edit_workflows(4) by (simp add: store_inv_def edit_workflows(1))
next
  case (delete i)
  then show ?thesis using cascade_inv [OF inv] by simp
next
  case (new_run r)
  then show ?thesis using inv by (auto simp: store_inv_def workflow_refs_def run_refs_def approval_refs_def fire_refs_def del: imageE)
next
  case (edit_runs f)
  have comp: "run_key \<circ> f = run_key" using edit_runs(3) by (simp add: fun_eq_iff)
  then have keys: "run_key ` set (map f (wd_runs db)) = run_key ` set (wd_runs db)" by (simp add: image_comp)
  have "workflow_refs db' w \<longleftrightarrow> workflow_refs db w" "run_refs db' r \<longleftrightarrow> run_refs db r" "approval_refs db' a \<longleftrightarrow> approval_refs db a"
    "fire_refs db' x \<longleftrightarrow> fire_refs db x" for w r a x
    using keys by (simp_all add: edit_runs(1) workflow_refs_def run_refs_def approval_refs_def fire_refs_def del: set_map list.set_map)
  then show ?thesis using inv comp edit_runs(4) by (simp add: store_inv_def edit_runs(1))
next
  case (new_approval a)
  then show ?thesis using inv by (auto simp: store_inv_def workflow_refs_def run_refs_def approval_refs_def fire_refs_def del: imageE)
next
  case (edit_approvals f)
  have "approval_key \<circ> f = approval_key" using edit_approvals(3) by (simp add: fun_eq_iff)
  then show ?thesis using inv edit_approvals(1,4)
    by (simp add: store_inv_def workflow_refs_def run_refs_def approval_refs_def fire_refs_def)
next
  case (new_fire f)
  then show ?thesis using inv by (auto simp: store_inv_def workflow_refs_def run_refs_def approval_refs_def fire_refs_def del: imageE)
next
  case (edit_fires f)
  have "fire_key \<circ> f = fire_key" using edit_fires(3) by (simp add: fun_eq_iff)
  then show ?thesis using inv edit_fires(1,4)
    by (simp add: store_inv_def workflow_refs_def run_refs_def approval_refs_def fire_refs_def)
qed


text \<open>Other components change the fence and the archive, and add users and channels; the janitor prunes old claims.\<close>

inductive store_step :: "(string \<Rightarrow> string + json) \<Rightarrow> (string \<Rightarrow> bytes) \<Rightarrow> workflow_db \<Rightarrow> workflow_db \<Rightarrow> bool" for jsonb sha where
  call: "store_step jsonb sha db (store_apply jsonb sha now c cl db)"
| prune: "store_step jsonb sha db (snd (prune_scheduled_workflow_fires_before t db))"
| environment: "set (wd_users db) \<subseteq> set us \<Longrightarrow> set (wd_channels db) \<subseteq> set chs \<Longrightarrow>
    store_step jsonb sha db (db\<lparr>wd_users := us, wd_channels := chs, wd_archived := archived, wd_fence := fence\<rparr>)"

definition store_init :: "workflow_db \<Rightarrow> bool" where
  "store_init db \<longleftrightarrow> wd_workflows db = [] \<and> wd_runs db = [] \<and> wd_approvals db = [] \<and> wd_fires db = []"

lemma store_step_inv:
  assumes inv: "store_inv db" and "store_step jsonb sha db db'"
  shows "store_inv db'"
  using assms(2)
proof cases
  case (call now c cl)
  then show ?thesis using store_change_inv [OF inv] store_apply_change by blast
next
  case (prune t)
  then show ?thesis using inv
    by (auto simp: prune_scheduled_workflow_fires_before_def Let_def store_inv_def workflow_refs_def run_refs_def approval_refs_def
        fire_refs_def distinct_map_filter del: imageE)
next
  case (environment us chs archived fence)
  then show ?thesis using inv
    by (auto simp: store_inv_def workflow_refs_def run_refs_def approval_refs_def fire_refs_def del: imageE)
qed

interpretation workflow_store: invariant_system store_init "store_step jsonb sha" store_inv for jsonb sha
proof
  show "store_inv db" if "store_init db" for db using that by (simp add: store_init_def store_inv_def)
qed (rule store_step_inv)

section \<open>Isolation of communities\<close>

definition community_view :: "workflow_db \<Rightarrow> uuid \<Rightarrow> workflow_row list \<times> workflow_run_row list \<times> approval_row list \<times> fire_row list" where
  "community_view db c =
    (filter (\<lambda>w. wr_community_id w = c) (wd_workflows db), filter (\<lambda>r. wu_community_id r = c) (wd_runs db),
     filter (\<lambda>a. wa_community_id a = c) (wd_approvals db), filter (\<lambda>f. fi_community_id f = c) (wd_fires db))"

lemma filter_map_other:
  assumes "\<And>x. key (f x) = key x" "\<And>x. key x = k' \<Longrightarrow> f x = x"
  shows "filter (\<lambda>x. key x = k') (map f xs) = filter (\<lambda>x. key x = k') xs"
  using assms by (induction xs) auto

lemma store_change_view:
  assumes "store_change c db db'" "c' \<noteq> c"
  shows "community_view db' c' = community_view db c'"
  using assms(1)
proof cases
  case (edit_workflows f)
  then show ?thesis using assms(2) filter_map_other [of wr_community_id f c'] by (auto simp: community_view_def)
next
  case (edit_runs f)
  then show ?thesis using assms(2) filter_map_other [of wu_community_id f c'] by (auto simp: community_view_def)
next
  case (edit_approvals f)
  then show ?thesis using assms(2) filter_map_other [of wa_community_id f c'] by (auto simp: community_view_def)
next
  case (edit_fires f)
  then show ?thesis using assms(2) filter_map_other [of fi_community_id f c'] by (auto simp: community_view_def)
next
  case (delete i)
  then show ?thesis using assms(2) by (auto simp: community_view_def cascade_def intro!: filter_cong)
qed (use assms(2) in \<open>auto simp: community_view_def\<close>)

interpretation workflow_tenants: tenant_isolation community_view "\<lambda>c db db'. \<exists>jsonb sha now cl. db' = store_apply jsonb sha now c cl db"
  by unfold_locales (use store_change_view store_apply_change in blast)


section \<open>Claims and decisions are final\<close>



lemma store_change_fire:
  assumes "store_change c db db'" "x \<in> set (wd_fires db)"
    and "(fi_community_id x, fi_workflow_id x) \<in> workflow_key ` set (wd_workflows db')"
  shows "\<exists>y \<in> set (wd_fires db'). fire_key y = fire_key x \<and> fi_claimed_at y = fi_claimed_at x"
  using assms(1)
proof cases
  case (delete i)
  then have "x \<in> set (wd_fires db')" using assms(2,3) by (auto simp: cascade_def)
  then show ?thesis by blast
next
  case (edit_fires f)
  then show ?thesis using assms(2) by simp blast
qed (use assms(2) in auto)

lemma store_change_approval:
  assumes "store_change c db db'" "row_get approval_key k (wd_approvals db) = Some a" "wa_status a \<noteq> ''pending''"
    and "k \<in> approval_key ` set (wd_approvals db')" and inv: "store_inv db"
  shows "row_get approval_key k (wd_approvals db') = Some a"
proof -
  have a: "a \<in> set (wd_approvals db)" "approval_key a = k" using row_get_SomeD [OF assms(2)] by auto
  have dist: "distinct (map approval_key (wd_approvals db'))" using store_change_inv [OF inv assms(1)] by (simp add: store_inv_def)
  have "a \<in> set (wd_approvals db')" using assms(1)
  proof cases
    case (edit_approvals f)
    then have "f a = a" using assms(3) by blast
    then show ?thesis using a edit_approvals(1) by (auto intro: rev_image_eqI)
  next
    case (delete i)
    then obtain b where b: "b \<in> set (wd_approvals db)" "b \<in> set (wd_approvals db')" "approval_key b = k"
      using assms(4) by (auto simp: cascade_def)
    have "distinct (map approval_key (wd_approvals db))" using inv by (simp add: store_inv_def)
    then have "b = a" using row_get_mem [of approval_key, OF _ b(1)] b(3) assms(2) by simp
    then show ?thesis using b(2) by simp
  qed (use a in auto)
  then show ?thesis using row_get_mem [of approval_key, OF dist] a(2) by blast
qed

lemma map_hit: "x \<in> set xs \<Longrightarrow> P x \<Longrightarrow> f x \<in> set (map (\<lambda>x. if P x then f x else x) xs)"
  by (induction xs) auto

lemma update_approval_row:
  assumes "update_approval_by_stored_hash now c h status pk note db = Inr (True, db')"
  shows "\<exists>a \<in> set (wd_approvals db'). approval_key a = (c, h) \<and> wa_status a = approval_status_as_str status"
proof -
  let ?hit = "\<lambda>a. approval_key a = (c, h) \<and> wa_status a = ''pending''"
  let ?s = "approval_status_as_str status"
  let ?f = "\<lambda>a. a\<lparr>wa_status := ?s, wa_approver_pubkey := pk, wa_note := note,
    wa_granted_at := (if ?s = ''granted'' then Some now else wa_granted_at a),
    wa_denied_at := (if ?s = ''denied'' then Some now else wa_denied_at a)\<rparr>"
  have hit: "\<exists>a \<in> set (wd_approvals db). ?hit a" and db': "wd_approvals db' = map (\<lambda>a. if ?hit a then ?f a else a) (wd_approvals db)"
    using assms by (auto simp: update_approval_by_stored_hash_def Let_def guarded_def split: if_splits option.splits)
  then obtain a where a: "a \<in> set (wd_approvals db)" "?hit a" by blast
  have "?f a \<in> set (wd_approvals db')" using map_hit [where P = ?hit and f = ?f, OF a] by (simp only: db')
  then show ?thesis by (rule rev_bexI) (simp add: a(2))
qed

definition claim_held :: "uuid \<Rightarrow> uuid \<Rightarrow> timestamp \<Rightarrow> timestamp \<Rightarrow> workflow_db \<Rightarrow> bool" where
  "claim_held c w t now db \<longleftrightarrow> (\<exists>x \<in> set (wd_fires db). fire_key x = (c, w, t) \<and> fi_claimed_at x = now)"

definition decided :: "uuid \<Rightarrow> bytes \<Rightarrow> approval_row \<Rightarrow> workflow_db \<Rightarrow> bool" where
  "decided c h a db \<longleftrightarrow> store_inv db \<and> row_get approval_key (c, h) (wd_approvals db) = Some a \<and> wa_status a \<noteq> ''pending''"

text \<open>Steps that keep a workflow, and the claims taken at \<open>now\<close>; steps that keep an approval.\<close>

inductive claim_step ::
  "(string \<Rightarrow> string + json) \<Rightarrow> (string \<Rightarrow> bytes) \<Rightarrow> uuid \<Rightarrow> uuid \<Rightarrow> timestamp \<Rightarrow> workflow_db \<Rightarrow> workflow_db \<Rightarrow> bool"
  for jsonb sha c w now where
  call: "(c, w) \<in> workflow_key ` set (wd_workflows (store_apply jsonb sha now' c' cl db)) \<Longrightarrow>
    claim_step jsonb sha c w now db (store_apply jsonb sha now' c' cl db)"
| prune: "t \<le> now \<Longrightarrow> claim_step jsonb sha c w now db (snd (prune_scheduled_workflow_fires_before t db))"
| environment: "claim_step jsonb sha c w now db (db\<lparr>wd_users := us, wd_channels := chs, wd_archived := archived, wd_fence := fence\<rparr>)"

definition approval_step ::
  "(string \<Rightarrow> string + json) \<Rightarrow> (string \<Rightarrow> bytes) \<Rightarrow> uuid \<Rightarrow> bytes \<Rightarrow> workflow_db \<Rightarrow> workflow_db \<Rightarrow> bool" where
  "approval_step jsonb sha c h db db' \<longleftrightarrow> store_step jsonb sha db db' \<and> (c, h) \<in> approval_key ` set (wd_approvals db')"

interpretation held_claims: invariant_system "claim_held c w t now" "claim_step jsonb sha c w now" "claim_held c w t now" for jsonb sha c w t now
proof
  show "claim_held c w t now db'" if held: "claim_held c w t now db" and step: "claim_step jsonb sha c w now db db'" for db db'
    using step
  proof cases
    case (call now' c' cl)
    obtain x where "x \<in> set (wd_fires db)" "fire_key x = (c, w, t)" "fi_claimed_at x = now" using held by (auto simp: claim_held_def)
    then show ?thesis using store_change_fire [OF store_apply_change [of c' db jsonb sha now' cl], of x] call
      by (auto simp: claim_held_def)
  qed (use held in \<open>auto simp: claim_held_def prune_scheduled_workflow_fires_before_def Let_def\<close>)
qed

interpretation decisions: invariant_system "decided c h a" "approval_step jsonb sha c h" "decided c h a" for jsonb sha c h a
proof
  show "decided c h a db'" if dec: "decided c h a db" and step: "approval_step jsonb sha c h db db'" for db db'
  proof -
    have st: "store_step jsonb sha db db'" and here: "(c, h) \<in> approval_key ` set (wd_approvals db')"
      using step by (simp_all add: approval_step_def)
    have inv: "store_inv db'" using store_step_inv dec st by (auto simp: decided_def)
    from st show ?thesis
    proof cases
      case (call now c' cl)
      then show ?thesis using store_change_approval [OF store_apply_change [of c' db jsonb sha now cl]] dec here inv
        by (simp add: decided_def)
    qed (use dec inv in \<open>auto simp: decided_def prune_scheduled_workflow_fires_before_def Let_def\<close>)
  qed
qed


lemma row_get_filter: "(\<And>r. key r = k \<Longrightarrow> P r) \<Longrightarrow> row_get key k (filter P rows) = row_get key k rows"
  by (induction rows) auto

lemma view_reads:
  assumes "community_view db c = community_view db' c"
  shows "get_workflow c i db = get_workflow c i db'" "get_workflow_run c i db = get_workflow_run c i db'"
    "get_approval_by_stored_hash c h db = get_approval_by_stored_hash c h db'"
    "latest_scheduled_workflow_fire c i db = latest_scheduled_workflow_fire c i db'"
    "list_channel_workflows c ch limit offset db = list_channel_workflows c ch limit offset db'"
proof -
  have views: "filter (\<lambda>w. wr_community_id w = c) (wd_workflows db) = filter (\<lambda>w. wr_community_id w = c) (wd_workflows db')"
    "filter (\<lambda>r. wu_community_id r = c) (wd_runs db) = filter (\<lambda>r. wu_community_id r = c) (wd_runs db')"
    "filter (\<lambda>a. wa_community_id a = c) (wd_approvals db) = filter (\<lambda>a. wa_community_id a = c) (wd_approvals db')"
    "filter (\<lambda>f. fi_community_id f = c) (wd_fires db) = filter (\<lambda>f. fi_community_id f = c) (wd_fires db')"
    using assms by (simp_all add: community_view_def)
  show "get_workflow c i db = get_workflow c i db'"
    using row_get_filter [of workflow_key "(c, i)" "\<lambda>w. wr_community_id w = c"] views(1) by (simp add: get_workflow_def) (metis (lifting))
  show "get_workflow_run c i db = get_workflow_run c i db'"
    using row_get_filter [of run_key "(c, i)" "\<lambda>w. wu_community_id w = c"] views(2) by (simp add: get_workflow_run_def) (metis (lifting))
  show "get_approval_by_stored_hash c h db = get_approval_by_stored_hash c h db'"
    using row_get_filter [of approval_key "(c, h)" "\<lambda>w. wa_community_id w = c"] views(3)
    by (simp add: get_approval_by_stored_hash_def) (metis (lifting))
  have split: "filter (\<lambda>x. P x \<and> Q x) xs = filter Q (filter P xs)" for P Q and xs :: "'x list" by (simp add: conj_commute)
  show "latest_scheduled_workflow_fire c i db = latest_scheduled_workflow_fire c i db'"
    by (simp only: latest_scheduled_workflow_fire_def split views)
  show "list_channel_workflows c ch limit offset db = list_channel_workflows c ch limit offset db'"
    by (simp only: list_channel_workflows_def split views)
qed

section \<open>Properties\<close>

text \<open>
  C19. In every state that statements, pruning and the other components lead to, the keys of the four tables are unique, every
  reference finds its row in the same community, and every row decodes: no read fails on an unknown status.
\<close>

theorem workflow_tables_intact:
  assumes "store_init db0" "(store_step jsonb sha)\<^sup>*\<^sup>* db0 db"
  shows "store_inv db \<and> (\<forall>w \<in> set (wd_workflows db). \<exists>r. row_to_workflow_record w = Inr r) \<and>
    (\<forall>u \<in> set (wd_runs db). \<exists>r. row_to_run_record u = Inr r) \<and> (\<forall>a \<in> set (wd_approvals db). \<exists>r. row_to_approval_record a = Inr r)"
proof -
  have inv: "store_inv db" using workflow_store.reachable_inv assms by blast
  then have "\<forall>w \<in> set (wd_workflows db). wr_status w \<in> range workflow_status_as_str" "\<forall>u \<in> set (wd_runs db). wu_status u \<in> range run_status_as_str"
    "\<forall>a \<in> set (wd_approvals db). wa_status a \<in> range approval_status_as_str"
    by (simp_all add: store_inv_def workflow_refs_def run_refs_def approval_refs_def)
  then have "\<forall>w \<in> set (wd_workflows db). workflow_status_from_str (wr_status w) \<noteq> None" "\<forall>u \<in> set (wd_runs db). run_status_from_str (wu_status u) \<noteq> None"
    "\<forall>a \<in> set (wd_approvals db). approval_status_from_str (wa_status a) \<noteq> None"
    by (simp_all add: workflow_status_codec.parse_None_iff run_status_codec.parse_None_iff approval_status_codec.parse_None_iff)
  with inv show ?thesis
    by (fastforce simp: row_to_workflow_record_def row_to_run_record_def row_to_approval_record_def split: option.splits)
qed

text \<open>
  C21. Whatever statements the communities of \<open>K\<close> run, in whatever order, nothing of another community changes, and what it
  reads is what it read before.
\<close>

theorem workflow_communities_isolated:
  assumes "(\<lambda>s s'. \<exists>c \<in> K. \<exists>jsonb sha now cl. s' = store_apply jsonb sha now c cl s)\<^sup>*\<^sup>* db db'" "c' \<notin> K"
  shows "community_view db' c' = community_view db c' \<and> get_workflow c' i db' = get_workflow c' i db \<and>
    get_workflow_run c' i db' = get_workflow_run c' i db \<and>
    get_approval_by_stored_hash c' h db' = get_approval_by_stored_hash c' h db \<and>
    latest_scheduled_workflow_fire c' i db' = latest_scheduled_workflow_fire c' i db \<and>
    list_channel_workflows c' ch limit offset db' = list_channel_workflows c' ch limit offset db"
  using workflow_tenants.others_unseen [OF assms] view_reads [of db' c' db] by simp

text \<open>
  C34. A scheduled instant is claimed once: after a claim, no sequence of statements of any community that leaves the workflow in
  place, of changes by other components and of prunings up to the time of the claim, makes a second claim of the instant
  succeed.
\<close>

theorem scheduled_fire_claimed_once:
  assumes "claim_scheduled_workflow_fire now c w t db = Inr (Some fire, db1)" "(claim_step jsonb sha c w now)\<^sup>*\<^sup>* db1 db2"
  shows "\<not> (\<exists>fire' db3. claim_scheduled_workflow_fire now' c w t db2 = Inr (Some fire', db3))"
proof -
  have "claim_held c w t now db1"
    using assms(1) by (auto simp: claim_scheduled_workflow_fire_def claim_held_def guarded_def split: option.splits if_splits)
  then have "claim_held c w t now db2" using held_claims.reachable_inv assms(2) by blast
  then have "(c, w, t) \<in> fire_key ` set (wd_fires db2)" by (force simp: claim_held_def)
  then show ?thesis by (auto simp: claim_scheduled_workflow_fire_def guarded_def split: option.splits if_splits)
qed

text \<open>
  C20. An approval is decided once: after a decision, as long as the approval is in the table, its row stays as the decision left
  it and every further decision reports that it found nothing to decide.
\<close>

theorem approval_decided_once:
  assumes "store_inv db" "status \<noteq> ApprovalPending"
    and "update_approval sha now c token status pk note db = Inr (True, db1)"
    and "(approval_step jsonb sha c (sha token))\<^sup>*\<^sup>* db1 db2"
  shows "get_approval sha c token db2 = get_approval sha c token db1 \<and>
    update_approval sha now' c token status' pk' note' db2 = Inr (False, db2)"
proof -
  let ?k = "(c, sha token)"
  have change: "store_change c db db1" using update_approval_change assms(3) by (auto simp: update_approval_def)
  then have inv: "store_inv db1" using store_change_inv assms(1) by blast
  have not_pending: "approval_status_as_str status \<noteq> ''pending''" using assms(2) by (cases status) simp_all
  have "\<exists>a \<in> set (wd_approvals db1). approval_key a = ?k \<and> wa_status a \<noteq> ''pending''"
    using update_approval_row [OF assms(3) [unfolded update_approval_def]] not_pending by metis
  then obtain a where a: "a \<in> set (wd_approvals db1)" "approval_key a = ?k" "wa_status a \<noteq> ''pending''" by blast
  have "row_get approval_key ?k (wd_approvals db1) = Some a"
    using row_get_mem [of approval_key "wd_approvals db1" a] a(1,2) inv by (simp add: store_inv_def)
  then have dec: "decided c (sha token) a db1" using a(3) inv by (simp add: decided_def)
  then have dec2: "decided c (sha token) a db2" using decisions.reachable_inv assms(4) by blast
  have "b = a" if "b \<in> set (wd_approvals db2)" "approval_key b = ?k" for b
    using row_get_mem [of approval_key "wd_approvals db2" b] that dec2 by (simp add: decided_def store_inv_def)
  then show ?thesis using dec dec2 a(3)
    by (auto simp: decided_def get_approval_def get_approval_by_stored_hash_def update_approval_def update_approval_by_stored_hash_def Let_def)
qed


section \<open>Witnesses\<close>

definition sample_store :: workflow_db where
  "sample_store = \<lparr>wd_workflows = [], wd_runs = [], wd_approvals = [], wd_fires = [], wd_users = [(1, [7]), (2, [7])],
    wd_channels = [(1, 9)], wd_archived = [], wd_fence = (\<lambda>_. None)\<rparr>"

definition sample_jsonb :: "string \<Rightarrow> string + json" where
  "sample_jsonb s = Inr (JString s)"

definition sample_token_hash :: "string \<Rightarrow> bytes" where
  "sample_token_hash s = [of_nat (length s)]"

definition sample_calls :: "store_call list" where
  "sample_calls =
    [CreateWorkflow 5 (Some 9) [7] ''ci'' ''d'' [1], CreateRun 6 5 None None,
     CreateApproval \<lparr>cp_community_id = 1, cp_token = ''tok'', cp_workflow_id = 5, cp_run_id = 6, cp_step_id = ''s'', cp_step_index = 0,
       cp_approver_spec = ''any'', cp_expires_at = 90\<rparr>]"

abbreviation sample_apply :: "uuid \<Rightarrow> store_call \<Rightarrow> workflow_db \<Rightarrow> workflow_db" where
  "sample_apply \<equiv> store_apply sample_jsonb sample_token_hash 10"

definition sample_filled :: workflow_db where
  "sample_filled = foldl (\<lambda>db cl. sample_apply 1 cl db) sample_store sample_calls"

lemma sample_filled_steps: "(store_step sample_jsonb sample_token_hash)\<^sup>*\<^sup>* sample_store sample_filled"
proof -
  have "(store_step sample_jsonb sample_token_hash)\<^sup>*\<^sup>* db (foldl (\<lambda>db cl. sample_apply 1 cl db) db cls)" for db cls
  proof (induction cls arbitrary: db)
    case (Cons cl cls)
    show ?case using converse_rtranclp_into_rtranclp [OF store_step.call Cons.IH] by simp
  qed simp
  then show ?thesis by (simp add: sample_filled_def)
qed

lemma sample_filled_inv: "store_inv sample_filled"
  using workflow_store.reachable_inv [OF _ sample_filled_steps] by (simp add: store_init_def sample_store_def)

theorem workflow_tables_intact_witness:
  "length (wd_approvals sample_filled) = 1 \<and> store_inv sample_filled \<and> (\<exists>r. row_to_run_record (hd (wd_runs sample_filled)) = Inr r)"
proof -
  have "length (wd_approvals sample_filled) = 1" "wd_runs sample_filled \<noteq> []" by code_simp+
  then show ?thesis using workflow_tables_intact [OF _ sample_filled_steps] by (simp add: store_init_def sample_store_def)
qed

theorem workflow_communities_isolated_witness:
  "wd_workflows (sample_apply 2 (CreateWorkflow 5 None [7] ''other'' ''d'' [2]) sample_filled) \<noteq> wd_workflows sample_filled \<and>
   get_workflow 1 5 (sample_apply 2 (CreateWorkflow 5 None [7] ''other'' ''d'' [2]) sample_filled) = get_workflow 1 5 sample_filled"
proof -
  let ?db = "sample_apply 2 (CreateWorkflow 5 None [7] ''other'' ''d'' [2]) sample_filled"
  have "(\<lambda>s s'. \<exists>c \<in> {2}. \<exists>jsonb sha now cl. s' = store_apply jsonb sha now c cl s)\<^sup>*\<^sup>* sample_filled ?db" by (rule r_into_rtranclp) blast
  from workflow_communities_isolated [OF this, of 1 5] have "get_workflow 1 5 ?db = get_workflow 1 5 sample_filled" by simp
  moreover have "length (wd_workflows ?db) = 2" "length (wd_workflows sample_filled) = 1" by code_simp+
  then have "wd_workflows ?db \<noteq> wd_workflows sample_filled" by (metis numeral_eq_one_iff semiring_norm(85))
  ultimately show ?thesis by blast
qed

theorem scheduled_fire_claimed_once_witness:
  "\<exists>fire db1. claim_scheduled_workflow_fire 50 1 5 40 sample_filled = Inr (Some fire, db1) \<and>
    \<not> (\<exists>fire' db3. claim_scheduled_workflow_fire 51 1 5 40 (sample_apply 1 (AttachRun 5 40 6) db1) = Inr (Some fire', db3))"
proof -
  let ?f = "\<lparr>fi_community_id = 1, fi_workflow_id = 5, fi_scheduled_for = 40, fi_claimed_at = 50, fi_run_id = None\<rparr>"
  let ?db = "sample_filled\<lparr>wd_fires := [?f]\<rparr>"
  have wf: "row_get workflow_key (1, 5) (wd_workflows sample_filled) \<noteq> None" "wd_fires sample_filled = []" "wd_fence sample_filled 1 = None"
    by code_simp+
  then have claim: "claim_scheduled_workflow_fire 50 1 5 40 sample_filled =
      Inr (Some \<lparr>fc_community_id = 1, fc_workflow_id = 5, fc_scheduled_for = 40, fc_claimed_at = 50\<rparr>, ?db)"
    by (auto simp: claim_scheduled_workflow_fire_def guarded_def)
  have "(1, 5) \<in> workflow_key ` set (wd_workflows (sample_apply 1 (AttachRun 5 40 6) ?db))" by code_simp
  then have "(claim_step sample_jsonb sample_token_hash 1 5 50)\<^sup>*\<^sup>* ?db (sample_apply 1 (AttachRun 5 40 6) ?db)"
    by (intro r_into_rtranclp claim_step.call)
  from scheduled_fire_claimed_once [OF claim this, of 51] claim show ?thesis by blast
qed

theorem approval_decided_once_witness:
  "\<exists>db1. update_approval sample_token_hash 60 1 ''tok'' Granted (Some [7]) None sample_filled = Inr (True, db1) \<and>
    update_approval sample_token_hash 61 1 ''tok'' Denied (Some [8]) None db1 = Inr (False, db1)"
proof -
  let ?hit = "\<lambda>a. approval_key a = (1, sample_token_hash ''tok'') \<and> wa_status a = ''pending''"
  have "\<exists>a \<in> set (wd_approvals sample_filled). ?hit a" "wd_fence sample_filled 1 = None" by code_simp+
  then obtain db1 where db1: "update_approval sample_token_hash 60 1 ''tok'' Granted (Some [7]) None sample_filled = Inr (True, db1)"
    by (simp add: update_approval_def update_approval_by_stored_hash_def guarded_def Let_def)
  from approval_decided_once [OF sample_filled_inv _ this rtranclp.rtrancl_refl, of 61 Denied "Some [8]" None] db1 show ?thesis by simp
qed

end
