(* ===== verification/Workflow_Def.thy ===== *)
theory Workflow_Def
  imports Workflow_Store "HOL-Library.Multiset"
begin

text \<open>
  Workflow definitions (\<open>crates/buzz-workflow/src/schema.rs\<close>, \<open>error.rs\<close>) and the evaluation of their texts
  (\<open>executor.rs\<close>): validation, durations, placeholders with their filters, and the variables of a condition. The parsers of
  YAML, JSON and cron expressions, the expression evaluator, and the encodings of keys and JSON texts are parameters
  (\<open>workflow_lib\<close>). Maps are association lists in the order in which the hash map is iterated. Shown: placeholders are found in the
  template alone, so a value is never expanded again; no webhook field stands for a field of the trigger; durations are exact
  or rejected.
\<close>

section \<open>Definitions\<close>

datatype trigger_def =
    MessagePosted "string option"
  | ReactionAdded "string option"
  | DiffPosted "string option"
  | Schedule "string option" "string option"
  | Webhook

datatype action_def =
    SendMessage string "string option"
  | SendDm string string
  | SetChannelTopic string
  | AddReaction string
  | CallWebhook string "string option" "(string \<times> string) list option" "string option"
  | RequestApproval string string "string option"
  | Delay string

record wf_step =
  st_id :: string
  st_name :: "string option"
  st_if_expr :: "string option"
  st_timeout_secs :: "nat option"
  st_action :: action_def

record workflow_def =
  df_name :: string
  df_description :: "string option"
  df_trigger :: trigger_def
  df_steps :: "wf_step list"
  df_enabled :: bool

datatype workflow_error =
    InvalidYaml string
  | InvalidDefinition string
  | ConditionError string
  | TemplateError string
  | StepTimeout string nat
  | WebhookError string
  | CapacityExceeded
  | Database string
  | Unauthorized string
  | NotImplemented string

fun workflow_error_to_string :: "workflow_error \<Rightarrow> string" where
  "workflow_error_to_string (InvalidYaml e) = ''invalid YAML: '' @ e"
| "workflow_error_to_string (InvalidDefinition e) = ''invalid definition: '' @ e"
| "workflow_error_to_string (ConditionError e) = ''condition evaluation error: '' @ e"
| "workflow_error_to_string (TemplateError e) = ''template error: '' @ e"
| "workflow_error_to_string (StepTimeout step_id secs) = ''step '' @ [CHR 0x27] @ step_id @ [CHR 0x27] @ '' timed out after '' @ decimal secs @ ''s''"
| "workflow_error_to_string (WebhookError e) = ''webhook error: '' @ e"
| "workflow_error_to_string CapacityExceeded = ''capacity exceeded''"
| "workflow_error_to_string (Database e) = ''database error: '' @ e"
| "workflow_error_to_string (Unauthorized e) = ''unauthorized: '' @ e"
| "workflow_error_to_string (NotImplemented e) = ''action not implemented: '' @ e"

fun db_error_to_string :: "workflow_db_error \<Rightarrow> string" where
  "db_error_to_string (Sqlx e) = ''database error: '' @ e"
| "db_error_to_string (NotFound e) = ''not found: '' @ e"
| "db_error_to_string (AccessDenied e) = ''access denied: '' @ e"
| "db_error_to_string (InvalidData e) = ''invalid data: '' @ e"

definition workflow_error_from :: "workflow_db_error \<Rightarrow> workflow_error" where
  "workflow_error_from e = Database (db_error_to_string e)"

text \<open>The values of the expression evaluator; a float is kept as its text.\<close>

datatype eval_value = EString string | EInt int | EFloat string | EBoolean bool | EEmpty

type_synonym eval_ctx = "string \<rightharpoonup> eval_value"

datatype eval_outcome = EvalBool bool | EvalError string | EvalPanicked string | EvalTimedOut

type_synonym cron_schedule = "timestamp \<Rightarrow> timestamp option"

record workflow_lib =
  wl_from_yaml :: "string \<Rightarrow> string + workflow_def"
  wl_to_json :: "workflow_def \<Rightarrow> string + string"
  wl_from_value :: "json \<Rightarrow> string + workflow_def"
  wl_json_text :: "json \<Rightarrow> string"
  wl_from_str :: "string \<Rightarrow> json option"
  wl_parse_cron :: "string \<Rightarrow> string + cron_schedule"
  wl_pubkey_from_hex :: "string \<Rightarrow> bytes option"
  wl_to_bech32 :: "bytes \<Rightarrow> string option"
  wl_as_i64 :: "string \<Rightarrow> int option"
  wl_as_f64 :: "string \<Rightarrow> string option"
  wl_set_value :: "string \<Rightarrow> eval_value \<Rightarrow> eval_ctx \<Rightarrow> string + eval_ctx"
  wl_parse_uuid :: "string \<Rightarrow> string + uuid"
  wl_uuid_str :: "uuid \<Rightarrow> string"
  wl_hex :: "bytes \<Rightarrow> string"
  wl_utf8_lossy :: "bytes \<Rightarrow> string"
  wl_parse_url :: "string \<Rightarrow> string + string option \<times> nat option"
  wl_method_error :: "string \<Rightarrow> string option"
  wl_status_text :: "nat \<Rightarrow> string"

definition is_call_webhook :: "action_def \<Rightarrow> bool" where
  "is_call_webhook a = (case a of CallWebhook _ _ _ _ \<Rightarrow> True | _ \<Rightarrow> False)"

definition requires_elevated_authority :: "workflow_def \<Rightarrow> bool" where
  "requires_elevated_authority def = list_ex (\<lambda>s. is_call_webhook (st_action s)) (df_steps def)"

section \<open>Durations\<close>

definition quoted :: "string \<Rightarrow> string" where
  "quoted s = [CHR 0x27] @ s @ [CHR 0x27]"

definition scaled_duration :: "string \<Rightarrow> string \<Rightarrow> nat \<Rightarrow> workflow_error + nat" where
  "scaled_duration duration n factor =
    (case parse_uint u64_max (str_trim n) of
       None \<Rightarrow> Inl (InvalidDefinition (''invalid duration: '' @ duration))
     | Some k \<Rightarrow> if k * factor > u64_max then Inl (InvalidDefinition (''duration overflow: '' @ duration)) else Inr (k * factor))"

definition parse_duration_secs :: "string \<Rightarrow> workflow_error + nat" where
  "parse_duration_secs duration0 =
    (let duration = str_trim duration0
     in case strip_suffix ''h'' duration of Some n \<Rightarrow> scaled_duration duration n 3600
        | None \<Rightarrow> (case strip_suffix ''m'' duration of Some n \<Rightarrow> scaled_duration duration n 60
        | None \<Rightarrow> (case strip_suffix ''s'' duration of Some n \<Rightarrow> scaled_duration duration n 1
        | None \<Rightarrow> (case parse_uint u64_max duration of
                     None \<Rightarrow> Inl (InvalidDefinition (''invalid duration: '' @ duration)) | Some k \<Rightarrow> Inr k))))"

section \<open>Validation\<close>

definition normalize_cron :: "string \<Rightarrow> string" where
  "normalize_cron expr =
    (let field_count = count_words expr
     in if field_count = 5 then ''0 '' @ expr @ '' *'' else if field_count = 6 then expr @ '' *'' else expr)"

definition validate_cron :: "workflow_lib \<Rightarrow> string \<Rightarrow> workflow_error + unit" where
  "validate_cron lib expr =
    (case wl_parse_cron lib (normalize_cron expr) of
       Inl e \<Rightarrow> Inl (InvalidDefinition (''invalid cron expression '' @ quoted expr @ '': '' @ e)) | Inr _ \<Rightarrow> Inr ())"

definition ascii_alphanumeric :: "char \<Rightarrow> bool" where
  "ascii_alphanumeric c = (let n = (of_char c :: nat) in 48 \<le> n \<and> n \<le> 57 \<or> 65 \<le> n \<and> n \<le> 90 \<or> 97 \<le> n \<and> n \<le> 122)"

definition valid_step_id :: "string \<Rightarrow> bool" where
  "valid_step_id s \<longleftrightarrow> s \<noteq> [] \<and> length s \<le> 64 \<and> list_all (\<lambda>c. ascii_alphanumeric c \<or> c = CHR ''_'') s"

fun validate_ids :: "string set \<Rightarrow> wf_step list \<Rightarrow> workflow_error + unit" where
  "validate_ids seen [] = Inr ()"
| "validate_ids seen (step # steps) =
    (if str_trim (st_id step) = [] then Inl (InvalidDefinition ''step id must not be empty'')
     else if \<not> valid_step_id (st_id step)
     then Inl (InvalidDefinition (''step id '' @ quoted (st_id step) @
       '' is invalid: must contain only alphanumeric characters and underscores''))
     else if st_id step \<in> seen then Inl (InvalidDefinition (''duplicate step id: '' @ st_id step))
     else validate_ids (insert (st_id step) seen) steps)"

definition validate_trigger :: "workflow_lib \<Rightarrow> trigger_def \<Rightarrow> workflow_error + unit" where
  "validate_trigger lib trigger =
    (case trigger of
       Schedule None None \<Rightarrow> Inl (InvalidDefinition
         (''schedule trigger requires either '' @ quoted ''cron'' @ '' or '' @ quoted ''interval''))
     | Schedule (Some _) (Some _) \<Rightarrow> Inl (InvalidDefinition (''schedule trigger cannot specify both '' @ quoted ''cron'' @ '' and '' @
         quoted ''interval'' @ ''; use one or the other''))
     | Schedule (Some expr) None \<Rightarrow> validate_cron lib expr
     | Schedule None (Some dur) \<Rightarrow>
         (case parse_duration_secs dur of
            Inl _ \<Rightarrow> Inl (InvalidDefinition (''invalid interval '' @ quoted dur @ '': expected a duration like '' @ quoted ''30m'' @ '', '' @
              quoted ''1h'' @ '', or '' @ quoted ''60s''))
          | Inr secs \<Rightarrow> if secs < 60
              then Inl (InvalidDefinition ''interval must be at least 60s (cron loop ticks every 60 seconds)'') else Inr ())
     | _ \<Rightarrow> Inr ())"

definition validate :: "workflow_lib \<Rightarrow> workflow_def \<Rightarrow> workflow_error + unit" where
  "validate lib def =
    (if str_trim (df_name def) = [] then Inl (InvalidDefinition ''name is required and must not be empty'')
     else if df_steps def = [] then Inl (InvalidDefinition ''at least one step is required'')
     else case validate_ids {} (df_steps def) of Inl e \<Rightarrow> Inl e | Inr _ \<Rightarrow> validate_trigger lib (df_trigger def))"

definition parse_yaml :: "workflow_lib \<Rightarrow> string \<Rightarrow> workflow_error + workflow_def \<times> string" where
  "parse_yaml lib yaml =
    (case wl_from_yaml lib yaml of Inl e \<Rightarrow> Inl (InvalidYaml e)
     | Inr def \<Rightarrow> (case validate lib def of Inl e \<Rightarrow> Inl e
     | Inr _ \<Rightarrow> (case wl_to_json lib def of Inl e \<Rightarrow> Inl (InvalidDefinition e) | Inr json \<Rightarrow> Inr (def, json))))"


section \<open>Placeholders\<close>

record trigger_context =
  tc_text :: string
  tc_author :: string
  tc_channel_id :: string
  tc_timestamp :: string
  tc_emoji :: string
  tc_message_id :: string
  tc_webhook_fields :: "(string \<times> string) list"

definition get_field :: "trigger_context \<Rightarrow> string \<Rightarrow> string option" where
  "get_field ctx name =
    (if name = ''text'' then Some (tc_text ctx)
     else if name = ''author'' then Some (tc_author ctx)
     else if name = ''channel_id'' then Some (tc_channel_id ctx)
     else if name = ''timestamp'' then Some (tc_timestamp ctx)
     else if name = ''emoji'' then Some (tc_emoji ctx)
     else if name = ''message_id'' then Some (tc_message_id ctx)
     else map_of (tc_webhook_fields ctx) name)"

type_synonym step_outputs = "(string \<times> json) list"

definition json_to_string :: "workflow_lib \<Rightarrow> json \<Rightarrow> string" where
  "json_to_string lib v =
    (case v of JString s \<Rightarrow> s | JBool b \<Rightarrow> if b then ''true'' else ''false'' | JNumber n \<Rightarrow> n | JNull \<Rightarrow> [] | _ \<Rightarrow> wl_json_text lib v)"

definition json_get_str :: "workflow_lib \<Rightarrow> json \<Rightarrow> string \<Rightarrow> string option" where
  "json_get_str lib value key = map_option (json_to_string lib) (json_field key value)"

text \<open>\<open>splitn(3, '.')\<close> with its three parts present.\<close>

definition split_three :: "string \<Rightarrow> (string \<times> string \<times> string) option" where
  "split_three s =
    (case split_once CHR ''.'' s of None \<Rightarrow> None
     | Some (a, r) \<Rightarrow> (case split_once CHR ''.'' r of None \<Rightarrow> None | Some (b, c) \<Rightarrow> Some (a, b, c)))"

definition resolve_variable :: "workflow_lib \<Rightarrow> string \<Rightarrow> trigger_context \<Rightarrow> step_outputs \<Rightarrow> string option" where
  "resolve_variable lib path ctx outs =
    (case strip_prefix ''trigger.'' path of
       Some field \<Rightarrow> get_field ctx field
     | None \<Rightarrow>
        (case strip_prefix ''steps.'' path of
           None \<Rightarrow> None
         | Some rest \<Rightarrow>
            (case split_three rest of
               None \<Rightarrow> None
             | Some (step_id, middle, field) \<Rightarrow>
                 if middle \<noteq> ''output'' then None
                 else Option.bind (map_of outs step_id) (\<lambda>output. json_get_str lib output field))))"

definition apply_filter :: "workflow_lib \<Rightarrow> string \<Rightarrow> string \<Rightarrow> workflow_error + string" where
  "apply_filter lib value filter0 =
    (let flt = str_trim filter0
     in case Option.bind (strip_prefix ''truncate('' flt) (strip_suffix '')'') of
          Some inner \<Rightarrow>
            (case parse_uint u64_max (str_trim inner) of
               None \<Rightarrow> Inl (TemplateError (''truncate() requires a number, got: '' @ inner))
             | Some n \<Rightarrow> Inr (take_chars n value))
        | None \<Rightarrow>
            if flt = ''npub'' \<or> flt = ''truncate_pubkey''
            then Inr (case wl_pubkey_from_hex lib value of None \<Rightarrow> value
                      | Some pk \<Rightarrow> (case wl_to_bech32 lib pk of None \<Rightarrow> value | Some s \<Rightarrow> s))
            else Inl (TemplateError (''unknown filter: '' @ flt)))"

text \<open>The text a placeholder becomes; \<open>expr\<close> is what stands between the braces, trimmed.\<close>

definition resolve_expr :: "workflow_lib \<Rightarrow> trigger_context \<Rightarrow> step_outputs \<Rightarrow> string \<Rightarrow> workflow_error + string" where
  "resolve_expr lib ctx outs expr =
    (let (var_path, flt) = (case split_once CHR ''|'' expr of None \<Rightarrow> (str_trim expr, None) | Some (a, b) \<Rightarrow> (str_trim a, Some (str_trim b)))
     in case resolve_variable lib var_path ctx outs of
          None \<Rightarrow> Inr (''{{'' @ expr @ ''}}'')
        | Some v \<Rightarrow> (case flt of Some f \<Rightarrow> apply_filter lib v f | None \<Rightarrow> Inr v))"

lemma split_at_str_shorter: "split_at_str p s = Some (a, b) \<Longrightarrow> p \<noteq> [] \<Longrightarrow> length b < length s"
  by (drule split_at_str_Some) (cases p, simp_all)

function resolve_loop :: "workflow_lib \<Rightarrow> trigger_context \<Rightarrow> step_outputs \<Rightarrow> string \<Rightarrow> workflow_error + string" where
  "resolve_loop lib ctx outs remaining =
    (case split_at_str ''{{'' remaining of
       None \<Rightarrow> Inr remaining
     | Some (before, rest) \<Rightarrow>
        (case split_at_str ''}}'' rest of
           None \<Rightarrow> Inr (before @ ''{{'' @ rest)
         | Some (inner, rest') \<Rightarrow>
            (case resolve_expr lib ctx outs (str_trim inner) of
               Inl e \<Rightarrow> Inl e
             | Inr value \<Rightarrow> (case resolve_loop lib ctx outs rest' of Inl e \<Rightarrow> Inl e | Inr t \<Rightarrow> Inr (before @ value @ t)))))"
  by pat_completeness auto
termination by (relation "measure (\<lambda>(lib, ctx, outs, s). length s)") (auto dest!: split_at_str_shorter)

declare resolve_loop.simps [simp del]

definition resolve_template :: "workflow_lib \<Rightarrow> string \<Rightarrow> trigger_context \<Rightarrow> step_outputs \<Rightarrow> workflow_error + string" where
  "resolve_template lib template ctx outs =
    (if \<not> sublist ''{{'' template then Inr template else resolve_loop lib ctx outs template)"

section \<open>Conditions\<close>

definition json_value_to_eval :: "workflow_lib \<Rightarrow> json \<Rightarrow> eval_value" where
  "json_value_to_eval lib v =
    (case v of
       JString s \<Rightarrow> EString s
     | JBool b \<Rightarrow> EBoolean b
     | JNumber n \<Rightarrow> (case wl_as_i64 lib n of Some i \<Rightarrow> EInt i
         | None \<Rightarrow> (case wl_as_f64 lib n of Some f \<Rightarrow> EFloat f | None \<Rightarrow> EString n))
     | JNull \<Rightarrow> EEmpty
     | _ \<Rightarrow> EString (wl_json_text lib v))"

fun set_values :: "workflow_lib \<Rightarrow> (string \<times> eval_value) list \<Rightarrow> eval_ctx \<Rightarrow> workflow_error + eval_ctx" where
  "set_values lib [] ctx = Inr ctx"
| "set_values lib ((name, v) # vs) ctx =
    (case wl_set_value lib name v ctx of Inl e \<Rightarrow> Inl (ConditionError e) | Inr ctx' \<Rightarrow> set_values lib vs ctx')"

definition webhook_vars :: "trigger_context \<Rightarrow> (string \<times> eval_value) list" where
  "webhook_vars ctx = map (\<lambda>(key, val). (''trigger_'' @ key, EString val))
    (filter (\<lambda>(key, val). \<not> (prefix ''trigger_'' key \<or> prefix ''steps_'' key)) (tc_webhook_fields ctx))"

definition trigger_fields :: "trigger_context \<Rightarrow> (string \<times> eval_value) list" where
  "trigger_fields ctx =
    [(''trigger_text'', EString (tc_text ctx)), (''trigger_author'', EString (tc_author ctx)),
     (''trigger_channel_id'', EString (tc_channel_id ctx)), (''trigger_timestamp'', EString (tc_timestamp ctx)),
     (''trigger_emoji'', EString (tc_emoji ctx)), (''trigger_message_id'', EString (tc_message_id ctx))]"

definition step_var :: "string \<Rightarrow> string \<Rightarrow> string" where
  "step_var step_id field = ''steps_'' @ step_id @ ''_output_'' @ field"

definition step_vars :: "workflow_lib \<Rightarrow> step_outputs \<Rightarrow> (string \<times> eval_value) list" where
  "step_vars lib outs = concat (map (\<lambda>(step_id, output).
    case output of JObject members \<Rightarrow> map (\<lambda>(field, val). (step_var step_id field, json_value_to_eval lib val)) members | _ \<Rightarrow> []) outs)"

definition build_eval_context :: "workflow_lib \<Rightarrow> trigger_context \<Rightarrow> step_outputs \<Rightarrow> workflow_error + eval_ctx" where
  "build_eval_context lib ctx outs =
    set_values lib (webhook_vars ctx @ trigger_fields ctx @ step_vars lib outs) Map.empty"

definition max_expr_len :: nat where
  "max_expr_len = 4096"

text \<open>\<open>eval\<close> is the evaluation on its own thread within the time limit.\<close>

definition evaluate_condition ::
  "workflow_lib \<Rightarrow> (string \<Rightarrow> eval_ctx \<Rightarrow> eval_outcome) \<Rightarrow> string \<Rightarrow> trigger_context \<Rightarrow> step_outputs \<Rightarrow> workflow_error + bool" where
  "evaluate_condition lib eval expr ctx outs =
    (case build_eval_context lib ctx outs of Inl e \<Rightarrow> Inl e | Inr vars \<Rightarrow>
      if length expr > max_expr_len
      then Inl (ConditionError (''condition expression exceeds '' @ decimal max_expr_len @ '' byte limit''))
      else case eval expr vars of
          EvalTimedOut \<Rightarrow> Inl (ConditionError (quoted expr @ '': evaluation timed out after 100ms''))
        | EvalPanicked e \<Rightarrow> Inl (ConditionError (quoted expr @ '': eval task panicked: '' @ e))
        | EvalError e \<Rightarrow> Inl (ConditionError (quoted expr @ '': '' @ e))
        | EvalBool b \<Rightarrow> Inr b)"

section \<open>Resolving a step\<close>

text \<open>The fields of an action are resolved in turn; the first failure is the result.\<close>

definition resolve_opt :: "('a \<Rightarrow> 'e + 'b) \<Rightarrow> 'a option \<Rightarrow> 'e + 'b option" where
  "resolve_opt t s = (case s of None \<Rightarrow> Inr None | Some v \<Rightarrow> (case t v of Inl e \<Rightarrow> Inl e | Inr r \<Rightarrow> Inr (Some r)))"

definition result_bind :: "'e + 'a \<Rightarrow> ('a \<Rightarrow> 'e + 'b) \<Rightarrow> 'e + 'b" where
  "result_bind r f = (case r of Inl e \<Rightarrow> Inl e | Inr x \<Rightarrow> f x)"

definition resolve_step_templates :: "workflow_lib \<Rightarrow> action_def \<Rightarrow> trigger_context \<Rightarrow> step_outputs \<Rightarrow> workflow_error + action_def" where
  "resolve_step_templates lib action ctx outs =
    (let t = (\<lambda>s. resolve_template lib s ctx outs)
     in case action of
          SendMessage body channel \<Rightarrow> result_bind (t body) (\<lambda>body. result_bind (resolve_opt t channel) (\<lambda>channel. Inr (SendMessage body channel)))
        | SendDm dest body \<Rightarrow> result_bind (t dest) (\<lambda>dest. result_bind (t body) (\<lambda>body. Inr (SendDm dest body)))
        | SetChannelTopic topic \<Rightarrow> result_bind (t topic) (\<lambda>topic. Inr (SetChannelTopic topic))
        | AddReaction emoji \<Rightarrow> result_bind (t emoji) (\<lambda>emoji. Inr (AddReaction emoji))
        | CallWebhook url meth headers body \<Rightarrow>
            result_bind (resolve_opt (\<lambda>hs. collect (map (\<lambda>(k, v). result_bind (t v) (\<lambda>v. Inr (k, v))) hs)) headers) (\<lambda>headers.
            result_bind (t url) (\<lambda>url. result_bind (resolve_opt t body) (\<lambda>body. Inr (CallWebhook url meth headers body))))
        | RequestApproval approver message timeout \<Rightarrow>
            result_bind (t approver) (\<lambda>approver. result_bind (t message) (\<lambda>message. Inr (RequestApproval approver message timeout)))
        | Delay duration \<Rightarrow> Inr (Delay duration))"


section \<open>What is shown of definitions\<close>

lemma result_bind_simps [simp]: "result_bind (Inl e) f = Inl e" "result_bind (Inr x) f = f x"
  by (simp_all add: result_bind_def)

subsection \<open>Templates\<close>

text \<open>A template as literal texts and placeholders, found without looking at any value.\<close>

datatype template_part = Literal string | Placeholder string

function template_parts :: "string \<Rightarrow> template_part list" where
  "template_parts s =
    (case split_at_str ''{{'' s of
       None \<Rightarrow> [Literal s]
     | Some (before, rest) \<Rightarrow>
        (case split_at_str ''}}'' rest of
           None \<Rightarrow> [Literal s]
         | Some (inner, rest') \<Rightarrow> Literal before # Placeholder inner # template_parts rest'))"
  by pat_completeness auto
termination by (relation "measure length") (auto dest!: split_at_str_shorter)

declare template_parts.simps [simp del]

fun part_text :: "template_part \<Rightarrow> string" where
  "part_text (Literal s) = s"
| "part_text (Placeholder s) = ''{{'' @ s @ ''}}''"

fun part_value :: "workflow_lib \<Rightarrow> trigger_context \<Rightarrow> step_outputs \<Rightarrow> template_part \<Rightarrow> workflow_error + string" where
  "part_value lib ctx outs (Literal s) = Inr s"
| "part_value lib ctx outs (Placeholder s) = resolve_expr lib ctx outs (str_trim s)"

lemma template_parts_text: "concat (map part_text (template_parts s)) = s"
proof (induction s rule: template_parts.induct)
  case (1 s)
  show ?case
    by (subst template_parts.simps) (use 1 in \<open>auto split: option.splits dest!: split_at_str_Some\<close>)
qed

lemma resolve_loop_parts:
  "resolve_loop lib ctx outs s = result_bind (collect (map (part_value lib ctx outs) (template_parts s))) (\<lambda>texts. Inr (concat texts))"
proof (induction lib ctx outs s rule: resolve_loop.induct)
  case (1 lib ctx outs s)
  show ?case
    by (subst resolve_loop.simps, subst template_parts.simps)
      (use 1 in \<open>auto split: option.splits sum.splits dest!: split_at_str_Some simp: result_bind_def\<close>)
qed

subsection \<open>Variables\<close>

text \<open>What the context of the evaluator does: a value set is the value of its variable.\<close>

definition set_value_law :: "workflow_lib \<Rightarrow> bool" where
  "set_value_law lib \<longleftrightarrow> (\<forall>k v ctx ctx'. wl_set_value lib k v ctx = Inr ctx' \<longrightarrow> ctx' = ctx(k \<mapsto> v))"

lemma set_values_map:
  assumes "set_value_law lib" "set_values lib vs ctx = Inr ctx'"
  shows "ctx' = ctx ++ map_of (rev vs)"
  using assms(2)
proof (induction vs arbitrary: ctx)
  case (Cons x vs)
  obtain k v where x: "x = (k, v)" by (cases x)
  with Cons.prems have "wl_set_value lib k v ctx = Inr (ctx(k \<mapsto> v))" "set_values lib vs (ctx(k \<mapsto> v)) = Inr ctx'"
    using assms(1) by (auto simp: set_value_law_def split: sum.splits)
  then show ?case using Cons.IH by (simp add: x map_add_assoc map_of_append)
qed simp

lemma webhook_vars_names: "k \<in> fst ` set (webhook_vars ctx) \<Longrightarrow> prefix ''trigger_'' k"
  by (auto simp: webhook_vars_def)

lemma step_vars_names: "k \<in> fst ` set (step_vars lib outs) \<Longrightarrow> \<exists>s f. k = step_var s f"
  by (fastforce simp: step_vars_def split: json.splits)

lemma step_var_not_trigger: "\<not> prefix ''trigger_'' (step_var s f)"
  by (simp add: step_var_def)

lemma map_of_rev_None: "k \<notin> fst ` set vs \<Longrightarrow> map_of (rev vs) k = None"
  by (simp add: map_of_eq_None_iff)

lemma trigger_field_value:
  assumes "(k, v) \<in> set (trigger_fields ctx)"
  shows "map_of (rev (trigger_fields ctx)) k = Some v" "prefix ''trigger_'' k" "map_option EString (get_field ctx (drop 8 k)) = Some v"
proof -
  have "distinct (map fst (rev (trigger_fields ctx)))" by (simp add: trigger_fields_def)
  then show "map_of (rev (trigger_fields ctx)) k = Some v" using assms by simp
  show "prefix ''trigger_'' k" using assms by (auto simp: trigger_fields_def)
  have "list_all (\<lambda>(k, v). map_option EString (get_field ctx (drop 8 k)) = Some v) (trigger_fields ctx)"
    by (simp add: trigger_fields_def get_field_def)
  then show "map_option EString (get_field ctx (drop 8 k)) = Some v" using assms by (auto simp: list_all_iff)
qed

lemma build_context_map:
  assumes "set_value_law lib" "build_eval_context lib ctx outs = Inr vars"
  shows "vars = map_of (rev (webhook_vars ctx)) ++ map_of (rev (trigger_fields ctx)) ++ map_of (rev (step_vars lib outs))"
  using set_values_map [OF assms(1), of "webhook_vars ctx @ trigger_fields ctx @ step_vars lib outs" Map.empty vars] assms(2)
  by (simp add: build_eval_context_def map_of_append)


text \<open>The fields a step can report.\<close>

definition output_fields :: "string list" where
  "output_fields = [''sent'', ''event_id'', ''added'', ''status'', ''response'', ''body'', ''slept_secs'']"

lemma step_var_inject:
  assumes "step_var s f = step_var s' f'" "f \<in> set output_fields" "f' \<in> set output_fields"
  shows "s = s' \<and> f = f'"
proof -
  have "rev (step_var s f) = rev (step_var s' f')" using assms(1) by simp
  with assms(2,3) show ?thesis by (auto simp: step_var_def output_fields_def)
qed

definition plain_output :: "json \<Rightarrow> bool" where
  "plain_output v = (case v of JObject members \<Rightarrow> set (map fst members) \<subseteq> set output_fields \<and> distinct (map fst members) | _ \<Rightarrow> True)"

lemma step_vars_Cons:
  "step_vars lib ((s, v) # outs) =
    (case v of JObject members \<Rightarrow> map (\<lambda>(f, v). (step_var s f, json_value_to_eval lib v)) members | _ \<Rightarrow> []) @ step_vars lib outs"
  by (simp add: step_vars_def)

lemma step_vars_fields:
  assumes "\<forall>(s, v) \<in> set outs. plain_output v" "k \<in> fst ` set (step_vars lib outs)"
  shows "\<exists>s f. k = step_var s f \<and> s \<in> fst ` set outs \<and> f \<in> set output_fields"
  using assms
proof (induction outs)
  case (Cons x outs)
  obtain s v where x: "x = (s, v)" by (cases x)
  show ?case
  proof (cases "k \<in> fst ` set (step_vars lib outs)")
    case True
    then show ?thesis using Cons by auto
  next
    case False
    then obtain ms f w where "v = JObject ms" "(f, w) \<in> set ms" "k = step_var s f"
      using Cons.prems(2) by (auto simp: x step_vars_Cons split: json.splits)
    then have "k = step_var s f" "f \<in> set output_fields" using Cons.prems(1) by (auto simp: x plain_output_def image_subset_iff)
    then show ?thesis by (auto simp: x)
  qed
qed (simp add: step_vars_def)

lemma step_vars_distinct:
  assumes "distinct (map fst outs)" "\<forall>(s, v) \<in> set outs. plain_output v"
  shows "distinct (map fst (step_vars lib outs))"
  using assms
proof (induction outs)
  case (Cons x outs)
  obtain s v where x: "x = (s, v)" by (cases x)
  have IH: "distinct (map fst (step_vars lib outs))" and s: "s \<notin> fst ` set outs" using Cons by (auto simp: x)
  show ?case
  proof (cases v)
    case (JObject ms)
    have ms: "fst ` set ms \<subseteq> set output_fields" "distinct (map fst ms)" using Cons.prems(2) by (auto simp: x JObject plain_output_def)
    have "inj_on (step_var s) (fst ` set ms)" using ms(1) step_var_inject by (blast intro: inj_onI)
    then have "distinct (map (step_var s) (map fst ms))" using ms(2) by (simp add: distinct_map del: map_map)
    then have "distinct (map (fst \<circ> (\<lambda>(f, v). (step_var s f, json_value_to_eval lib v))) ms)" by (simp add: comp_def case_prod_unfold)
    moreover have "step_var s f \<notin> fst ` set (step_vars lib outs)" if "f \<in> fst ` set ms" for f
      
    proof
      assume "step_var s f \<in> fst ` set (step_vars lib outs)"
      then obtain s' f' where "step_var s f = step_var s' f'" "s' \<in> fst ` set outs" "f' \<in> set output_fields"
        using step_vars_fields [of outs "step_var s f" lib] Cons.prems(2) by auto
      then show False using step_var_inject [of s f s' f'] that ms(1) s by blast
    qed
    then have "step_var s ` fst ` set ms \<inter> fst ` set (step_vars lib outs) = {}" by blast
    then have "fst ` (\<lambda>(f, v). (step_var s f, json_value_to_eval lib v)) ` set ms \<inter> fst ` set (step_vars lib outs) = {}"
      by (simp add: image_image case_prod_unfold)
    ultimately show ?thesis using IH by (simp add: x step_vars_Cons JObject image_image)
  qed (use IH in \<open>simp_all add: x step_vars_Cons\<close>)
qed (simp add: step_vars_def)

lemma webhook_vars_distinct: "distinct (map fst (tc_webhook_fields ctx)) \<Longrightarrow> distinct (map fst (webhook_vars ctx))"
proof -
  assume "distinct (map fst (tc_webhook_fields ctx))"
  then have "distinct (map fst (filter (\<lambda>(key, val). \<not> (prefix ''trigger_'' key \<or> prefix ''steps_'' key)) (tc_webhook_fields ctx)))"
    by (rule distinct_map_filter)
  then have "distinct (map ((@) ''trigger_'') (map fst (filter (\<lambda>(key, val). \<not> (prefix ''trigger_'' key \<or> prefix ''steps_'' key)) (tc_webhook_fields ctx))))"
    by (subst distinct_map) (simp add: inj_on_def)
  then show ?thesis by (simp add: webhook_vars_def comp_def case_prod_unfold)
qed

lemma map_of_unordered: "distinct (map fst xs) \<Longrightarrow> distinct (map fst ys) \<Longrightarrow> set xs = set ys \<Longrightarrow> map_of (rev xs) = map_of (rev ys)"
  by (subst map_of_inject_set) (simp_all flip: rev_map)

subsection \<open>Validation\<close>

lemma validate_ids_ok:
  "validate_ids seen steps = Inr () \<longleftrightarrow>
    distinct (map st_id steps) \<and> set (map st_id steps) \<inter> seen = {} \<and> (\<forall>s \<in> set steps. valid_step_id (st_id s) \<and> str_trim (st_id s) \<noteq> [])"
  by (induction seen steps rule: validate_ids.induct) auto

lemma validate_trigger_ok:
  "validate_trigger lib (Schedule cron interval) = Inr () \<longleftrightarrow>
    (\<exists>expr sched. cron = Some expr \<and> interval = None \<and> wl_parse_cron lib (normalize_cron expr) = Inr sched) \<or>
    (\<exists>dur secs. cron = None \<and> interval = Some dur \<and> parse_duration_secs dur = Inr secs \<and> 60 \<le> secs)"
  by (auto simp: validate_trigger_def validate_cron_def split: option.splits sum.splits)


subsection \<open>Durations\<close>

lemma parse_duration_decimal:
  assumes "(unit, factor) \<in> {(''h'', 3600), (''m'', 60), (''s'', 1), ([], 1)}"
  shows "if n * factor \<le> u64_max then parse_duration_secs (decimal n @ unit) = Inr (n * factor)
     else \<exists>e. parse_duration_secs (decimal n @ unit) = Inl e"
proof -
  let ?d = "decimal n @ unit"
  have "c \<in> set ?d \<Longrightarrow> plain_char c" for c using assms plain_decimal [of c n] by (auto simp: plain_char_def)
  then have trim: "str_trim ?d = ?d" "str_trim (decimal n) = decimal n"
    using decimal_not_Nil [of n] by (auto intro!: str_trim_plain simp: last_append)
  have last: "last (decimal n) \<in> set ''0123456789''" by (rule subsetD [OF set_decimal last_in_set [OF decimal_not_Nil]])
  have no_unit: "strip_suffix [u] (decimal n @ [c]) = (if u = c then Some (decimal n) else None)" for u c
    by (simp add: strip_suffix_def)
  have plain: "strip_suffix [u] (decimal n) = None" if "u \<notin> set ''0123456789''" for u
    using that last decimal_not_Nil [of n] by (auto simp: strip_suffix_def suffix_def)
  show ?thesis
    using assms by (auto simp: parse_duration_secs_def scaled_duration_def trim no_unit plain parse_uint_decimal)
qed

section \<open>Properties\<close>

text \<open>
  C31. A template is resolved in one pass: its placeholders are those of the template as written, their texts put together again
  are the template, and each is replaced on its own. What a message or a step put into a value is never read as a placeholder.
\<close>

theorem template_single_pass:
  "concat (map part_text (template_parts template)) = template \<and>
   resolve_template lib template ctx outs =
     result_bind (collect (map (part_value lib ctx outs) (template_parts template))) (\<lambda>texts. Inr (concat texts))"
proof -
  have "split_at_str ''{{'' template = None" if "\<not> sublist ''{{'' template" using that by (simp add: split_at_str_None)
  then have "resolve_template lib template ctx outs = resolve_loop lib ctx outs template"
    by (subst resolve_loop.simps) (simp add: resolve_template_def resolve_loop.simps [of lib ctx outs template])
  then show ?thesis by (simp add: template_parts_text resolve_loop_parts)
qed

text \<open>
  C32. No field of a webhook's body stands for a field of the trigger or an output of a step: the six variables of the trigger have
  the trigger's values, and every variable of the trigger and of the steps is what it is without the body.
\<close>

theorem webhook_fields_cannot_spoof:
  assumes "set_value_law lib" "build_eval_context lib ctx outs = Inr vars"
    and "build_eval_context lib (ctx\<lparr>tc_webhook_fields := []\<rparr>) outs = Inr vars0"
    and "k \<in> fst ` set (trigger_fields ctx) \<or> prefix ''steps_'' k"
  shows "vars k = vars0 k \<and> (\<forall>v. (k, v) \<in> set (trigger_fields ctx) \<longrightarrow> vars k = Some v \<and>
    map_option EString (get_field ctx (drop 8 k)) = Some v)"
proof -
  let ?T = "map_of (rev (trigger_fields ctx))" and ?S = "map_of (rev (step_vars lib outs))"
  have vars: "vars = map_of (rev (webhook_vars ctx)) ++ ?T ++ ?S" using build_context_map assms(1,2) by blast
  have none: "webhook_vars (ctx\<lparr>tc_webhook_fields := []\<rparr>) = []" "trigger_fields (ctx\<lparr>tc_webhook_fields := []\<rparr>) = trigger_fields ctx"
    by (simp_all add: webhook_vars_def trigger_fields_def)
  have vars0: "vars0 = ?T ++ ?S" using build_context_map [OF assms(1,3)] by (simp add: none)
  have trig: "?S k = None" if "prefix ''trigger_'' k" for k
    using that step_vars_names [of k lib outs] step_var_not_trigger by (blast intro: map_of_rev_None)
  have "map_of (rev (webhook_vars ctx)) k = None \<or> ?T k \<noteq> None"
  proof (cases "prefix ''steps_'' k")
    case True
    then have "\<not> prefix ''trigger_'' k" by (cases k) (auto simp: prefix_def)
    then show ?thesis using webhook_vars_names by (blast intro: map_of_rev_None)
  next
    case False
    then show ?thesis using assms(4) by (simp add: map_of_eq_None_iff)
  qed
  then have "vars k = vars0 k" by (auto simp: vars vars0 map_add_def split: option.splits)
  moreover have "vars k = Some v \<and> map_option EString (get_field ctx (drop 8 k)) = Some v" if "(k, v) \<in> set (trigger_fields ctx)" for v
    using trigger_field_value [OF that] trig [of k] by (simp add: vars map_add_def)
  ultimately show ?thesis by blast
qed

text \<open>The order in which the hash maps are iterated does not matter, for outputs with the fields that steps report.\<close>

lemma context_unordered:
  assumes "set_value_law lib" "distinct (map fst outs)" "\<forall>(s, v) \<in> set outs. plain_output v" "distinct (map fst (tc_webhook_fields ctx))"
    and "mset outs' = mset outs" "mset fields' = mset (tc_webhook_fields ctx)"
    and "build_eval_context lib ctx outs = Inr vars" "build_eval_context lib (ctx\<lparr>tc_webhook_fields := fields'\<rparr>) outs' = Inr vars'"
  shows "vars' = vars"
proof -
  let ?ctx = "ctx\<lparr>tc_webhook_fields := fields'\<rparr>"
  have sets: "set outs' = set outs" "set fields' = set (tc_webhook_fields ctx)" using assms(5,6) mset_eq_setD by blast+
  have dist: "distinct (map fst outs')" "distinct (map fst fields')"
    using assms(2,4,5,6) by (metis distinct_map mset_eq_imp_distinct_iff mset_eq_setD)+
  have "map_of (rev (step_vars lib outs')) = map_of (rev (step_vars lib outs))"
  proof (rule map_of_unordered)
    show "distinct (map fst (step_vars lib outs'))" "distinct (map fst (step_vars lib outs))"
      using step_vars_distinct assms(2,3) dist(1) sets(1) by auto
    show "set (step_vars lib outs') = set (step_vars lib outs)" by (simp add: step_vars_def sets)
  qed
  moreover have "map_of (rev (webhook_vars ?ctx)) = map_of (rev (webhook_vars ctx))"
  proof (rule map_of_unordered)
    show "distinct (map fst (webhook_vars ?ctx))" "distinct (map fst (webhook_vars ctx))"
      using webhook_vars_distinct [of ?ctx] webhook_vars_distinct [of ctx] dist(2) assms(4) by auto
    show "set (webhook_vars ?ctx) = set (webhook_vars ctx)" by (simp add: webhook_vars_def sets)
  qed
  moreover have "trigger_fields ?ctx = trigger_fields ctx" by (simp add: trigger_fields_def)
  ultimately show ?thesis using build_context_map [OF assms(1,7)] build_context_map [OF assms(1,8)] by simp
qed

text \<open>
  C39. A duration is exact or rejected: a decimal number of hours, minutes or seconds gives that many seconds when they fit 64 bits
  and an error otherwise; whatever text is accepted, the result fits.
\<close>

theorem parse_duration_exact:
  assumes "(unit, factor) \<in> {(''h'', 3600), (''m'', 60), (''s'', 1), ([], 1)}"
  shows "(if n * factor \<le> u64_max then parse_duration_secs (decimal n @ unit) = Inr (n * factor)
     else \<exists>e. parse_duration_secs (decimal n @ unit) = Inl e) \<and>
   (parse_duration_secs s = Inr k \<longrightarrow> k \<le> u64_max)"
proof
  show "if n * factor \<le> u64_max then parse_duration_secs (decimal n @ unit) = Inr (n * factor)
    else \<exists>e. parse_duration_secs (decimal n @ unit) = Inl e"
    by (rule parse_duration_decimal [OF assms])
  show "parse_duration_secs s = Inr k \<longrightarrow> k \<le> u64_max"
    by (auto simp: parse_duration_secs_def scaled_duration_def Let_def dest: parse_uint_le split: option.splits if_splits)
qed

text \<open>
  A definition that \<open>parse_yaml\<close> returns has a name, at least one step, distinct step identifiers that are safe in the names of
  variables, and a schedule that is either a cron expression or an interval of at least a minute.
\<close>

theorem parsed_workflow_valid:
  assumes "parse_yaml lib yaml = Inr (def, json)"
  shows "str_trim (df_name def) \<noteq> [] \<and> df_steps def \<noteq> [] \<and> distinct (map st_id (df_steps def)) \<and>
    (\<forall>s \<in> set (df_steps def). valid_step_id (st_id s)) \<and>
    (\<forall>cron interval. df_trigger def = Schedule cron interval \<longrightarrow>
      (\<exists>expr sched. cron = Some expr \<and> interval = None \<and> wl_parse_cron lib (normalize_cron expr) = Inr sched) \<or>
      (\<exists>dur secs. cron = None \<and> interval = Some dur \<and> parse_duration_secs dur = Inr secs \<and> 60 \<le> secs))"
proof -
  have "validate lib def = Inr ()" using assms by (auto simp: parse_yaml_def split: sum.splits)
  then have v: "str_trim (df_name def) \<noteq> []" "df_steps def \<noteq> []" "validate_ids {} (df_steps def) = Inr ()"
    "validate_trigger lib (df_trigger def) = Inr ()"
    by (auto simp: validate_def split: if_splits sum.splits)
  show ?thesis using v(1,2) v(3) [unfolded validate_ids_ok] validate_trigger_ok [of lib] v(4) by auto
qed


section \<open>Witnesses\<close>

definition sample_workflow :: workflow_def where
  "sample_workflow = \<lparr>df_name = ''ci'', df_description = None, df_trigger = Schedule None (Some ''2m''),
    df_steps = [\<lparr>st_id = ''s1'', st_name = None, st_if_expr = None, st_timeout_secs = None, st_action = SendMessage ''hi {{trigger.text}}'' None\<rparr>,
      \<lparr>st_id = ''s2'', st_name = None, st_if_expr = Some ''go'', st_timeout_secs = None, st_action = Delay ''5s''\<rparr>,
      \<lparr>st_id = ''s3'', st_name = None, st_if_expr = None, st_timeout_secs = Some 9, st_action = CallWebhook ''u'' None None None\<rparr>],
    df_enabled = True\<rparr>"

definition sample_wf_lib :: workflow_lib where
  "sample_wf_lib = \<lparr>wl_from_yaml = (\<lambda>_. Inr sample_workflow), wl_to_json = (\<lambda>_. Inr ''j''), wl_from_value = (\<lambda>_. Inr sample_workflow),
    wl_json_text = (\<lambda>_. ''j''), wl_from_str = (\<lambda>_. None), wl_parse_cron = (\<lambda>_. Inr (\<lambda>t. Some (t + 1))),
    wl_pubkey_from_hex = (\<lambda>_. None), wl_to_bech32 = (\<lambda>_. None), wl_as_i64 = (\<lambda>_. None), wl_as_f64 = (\<lambda>_. None),
    wl_set_value = (\<lambda>k v ctx. Inr (ctx(k \<mapsto> v))), wl_parse_uuid = (\<lambda>s. Inr (of_nat (length s))),
    wl_uuid_str = (\<lambda>u. replicate (unat u) CHR ''0''), wl_hex = (\<lambda>b. replicate (length b) CHR ''f''), wl_utf8_lossy = (\<lambda>_. ''x''),
    wl_parse_url = (\<lambda>u. Inr (Some u, Some 443)), wl_method_error = (\<lambda>_. None), wl_status_text = decimal\<rparr>"

definition sample_trigger :: "trigger_context" where
  "sample_trigger = \<lparr>tc_text = ''{{trigger.author}}'', tc_author = ''a'', tc_channel_id = ''000000000'', tc_timestamp = ''1'', tc_emoji = [],
    tc_message_id = ''m'', tc_webhook_fields = [(''author'', ''mallory''), (''x'', ''y'')]\<rparr>"

definition sample_outputs :: step_outputs where
  "sample_outputs = [(''s1'', JObject [(''sent'', JBool True), (''event_id'', JString ''e'')]), (''s2'', JObject [(''slept_secs'', JNumber ''5'')])]"

lemma sample_set_value: "set_value_law sample_wf_lib"
  by (simp add: set_value_law_def sample_wf_lib_def)

lemma sample_set_values: "\<exists>vars. set_values sample_wf_lib vs c = Inr vars"
  by (induction vs arbitrary: c) (auto simp: sample_wf_lib_def)

theorem webhook_fields_cannot_spoof_witness:
  "\<exists>vars. build_eval_context sample_wf_lib sample_trigger sample_outputs = Inr vars \<and> vars ''trigger_author'' = Some (EString ''a'')"
proof -
  obtain vars vars0 where "build_eval_context sample_wf_lib sample_trigger sample_outputs = Inr vars"
    "build_eval_context sample_wf_lib (sample_trigger\<lparr>tc_webhook_fields := []\<rparr>) sample_outputs = Inr vars0"
    using sample_set_values unfolding build_eval_context_def by blast
  from this webhook_fields_cannot_spoof [OF sample_set_value this, of "''trigger_author''"] show ?thesis
    by (auto simp: trigger_fields_def sample_trigger_def)
qed

theorem parse_duration_exact_witness: "parse_duration_secs (decimal 5 @ ''m'') = Inr 300"
  using parse_duration_exact [of "''m''" 60 5] by simp

theorem parsed_workflow_valid_witness: "parse_yaml sample_wf_lib ''y'' = Inr (sample_workflow, ''j'') \<and> valid_step_id ''s2''"
proof -
  have "str_trim ''ci'' = ''ci''" "str_trim ''s1'' = ''s1''" "str_trim ''s2'' = ''s2''" "str_trim ''s3'' = ''s3''"
    by (rule str_trim_plain; simp add: plain_char_def)+
  moreover have "parse_duration_secs ''2m'' = Inr 120"
    using parse_duration_decimal [of "''m''" 60 2] by (simp add: decimal.simps digit_def)
  ultimately have yaml: "parse_yaml sample_wf_lib ''y'' = Inr (sample_workflow, ''j'')"
    by (simp add: parse_yaml_def sample_wf_lib_def validate_def sample_workflow_def valid_step_id_def ascii_alphanumeric_def validate_trigger_def)
  then show ?thesis using parsed_workflow_valid [OF yaml] by (simp add: sample_workflow_def)
qed

end
