(* ===== verification/Core_Network.thy ===== *)
theory Core_Network
  imports Prelude
begin

unbundle bit_operations_syntax

text \<open>
  Classification of IP addresses against server-side request forgery (\<open>crates/buzz-core/src/network.rs\<close>): which addresses a
  webhook must not reach. An address is kept at its width, four or sixteen octets in network order. Shown: the test decides
  exactly the documented address blocks, and an IPv6 address that embeds an IPv4 address is blocked whenever the latter is.
\<close>

section \<open>Addresses\<close>

datatype ipv4 = Ipv4 "8 word" "8 word" "8 word" "8 word"

type_synonym ipv6 = "8 word list"

datatype ip_addr = V4 ipv4 | V6 ipv6

text \<open>\<open>segments\<close>: the octets of an IPv6 address in pairs, most significant first.\<close>

definition ipv6_segment :: "ipv6 \<Rightarrow> nat \<Rightarrow> 16 word" where
  "ipv6_segment v6 i = push_bit 8 (ucast (v6 ! (2 * i))) OR ucast (v6 ! (2 * i + 1))"

section \<open>The standard library's classes\<close>

fun is_loopback :: "ipv4 \<Rightarrow> bool" where
  "is_loopback (Ipv4 a b c d) \<longleftrightarrow> a = 127"

fun is_private :: "ipv4 \<Rightarrow> bool" where
  "is_private (Ipv4 a b c d) \<longleftrightarrow> a = 10 \<or> a = 172 \<and> 16 \<le> b \<and> b \<le> 31 \<or> a = 192 \<and> b = 168"

fun is_link_local :: "ipv4 \<Rightarrow> bool" where
  "is_link_local (Ipv4 a b c d) \<longleftrightarrow> a = 169 \<and> b = 254"

fun is_broadcast :: "ipv4 \<Rightarrow> bool" where
  "is_broadcast (Ipv4 a b c d) \<longleftrightarrow> a = 255 \<and> b = 255 \<and> c = 255 \<and> d = 255"

definition last_ipv4 :: "ipv6 \<Rightarrow> ipv4" where
  "last_ipv4 v6 = Ipv4 (v6 ! 12) (v6 ! 13) (v6 ! 14) (v6 ! 15)"

text \<open>\<open>to_ipv4\<close>: IPv4-compatible and IPv4-mapped addresses.\<close>

definition to_ipv4 :: "ipv6 \<Rightarrow> ipv4 option" where
  "to_ipv4 v6 = (if take 12 v6 = replicate 12 0 \<or> take 12 v6 = replicate 10 0 @ [0xff, 0xff] then Some (last_ipv4 v6) else None)"

definition v6_is_loopback :: "ipv6 \<Rightarrow> bool" where
  "v6_is_loopback v6 \<longleftrightarrow> v6 = replicate 15 0 @ [1]"

definition v6_is_unspecified :: "ipv6 \<Rightarrow> bool" where
  "v6_is_unspecified v6 \<longleftrightarrow> v6 = replicate 16 0"

section \<open>The test\<close>

definition nat64_well_known_prefix :: "8 word list" where
  "nat64_well_known_prefix = [0x00, 0x64, 0xff, 0x9b, 0, 0, 0, 0, 0, 0, 0, 0]"

definition ipv4_translated_prefix :: "8 word list" where
  "ipv4_translated_prefix = [0, 0, 0, 0, 0, 0, 0, 0, 0xff, 0xff, 0, 0]"

definition embedded_ipv4 :: "ipv6 \<Rightarrow> 8 word list \<Rightarrow> ipv4 option" where
  "embedded_ipv4 v6 prefix = (if take (length prefix) v6 = prefix then Some (last_ipv4 v6) else None)"

fun is_private_ipv4 :: "ipv4 \<Rightarrow> bool" where
  "is_private_ipv4 (Ipv4 a b c d) \<longleftrightarrow>
    is_loopback (Ipv4 a b c d) \<or> is_private (Ipv4 a b c d) \<or> is_link_local (Ipv4 a b c d) \<or> a = 0 \<or> is_broadcast (Ipv4 a b c d) \<or>
    (a = 100 \<and> b AND 0xC0 = 64) \<or> (a = 198 \<and> b AND 0xFE = 18)"

fun is_private_ip :: "ip_addr \<Rightarrow> bool" where
  "is_private_ip (V4 v4) = is_private_ipv4 v4"
| "is_private_ip (V6 v6) =
    (case to_ipv4 v6 of Some v4 \<Rightarrow> is_private_ipv4 v4 | None \<Rightarrow>
     (case embedded_ipv4 v6 nat64_well_known_prefix of Some v4 \<Rightarrow> is_private_ipv4 v4 | None \<Rightarrow>
      (case embedded_ipv4 v6 ipv4_translated_prefix of Some v4 \<Rightarrow> is_private_ipv4 v4 | None \<Rightarrow>
        v6_is_loopback v6 \<or> v6_is_unspecified v6 \<or> ipv6_segment v6 0 AND 0xfe00 = 0xfc00 \<or> ipv6_segment v6 0 AND 0xffc0 = 0xfe80 \<or>
        ipv6_segment v6 0 AND 0xff00 = 0xff00 \<or> (ipv6_segment v6 0 = 0x0064 \<and> ipv6_segment v6 1 = 0xff9b \<and> ipv6_segment v6 2 = 1) \<or>
        (ipv6_segment v6 0 = 0x2001 \<and> ipv6_segment v6 1 = 0) \<or> ipv6_segment v6 0 = 0x2002 \<or>
        (ipv6_segment v6 0 = 0x2001 \<and> ipv6_segment v6 1 = 0x0db8))))"

section \<open>Address blocks\<close>

text \<open>
  The documented blocks, as network prefixes: the first octets, and the number of bits of the following octet with their
  value. \<open>in_block\<close> is membership in the usual sense: the leading bits of the address are those of the network.
\<close>

definition addr_bits :: "8 word list \<Rightarrow> bool list" where
  "addr_bits octets = concat (map (\<lambda>b. map (bit b) [7, 6, 5, 4, 3, 2, 1, 0]) octets)"

definition in_block :: "8 word list \<Rightarrow> 8 word list \<times> nat \<Rightarrow> bool" where
  "in_block octets block \<longleftrightarrow> take (snd block) (addr_bits octets) = take (snd block) (addr_bits (fst block))"

definition ipv4_blocks :: "(8 word list \<times> nat) list" where
  "ipv4_blocks =
    [([127], 8), ([10], 8), ([172, 16], 12), ([192, 168], 16), ([169, 254], 16), ([0], 8), ([255, 255, 255, 255], 32),
     ([100, 64], 10), ([198, 18], 15)]"

definition ipv6_blocks :: "(8 word list \<times> nat) list" where
  "ipv6_blocks =
    [([0xfc], 7), ([0xfe, 0x80], 10), ([0xff], 8), ([0x00, 0x64, 0xff, 0x9b, 0x00, 0x01], 48), ([0x20, 0x01, 0x00, 0x00], 32),
     ([0x20, 0x02], 16), ([0x20, 0x01, 0x0d, 0xb8], 32)]"

definition embedding_blocks :: "(8 word list \<times> nat) list" where
  "embedding_blocks =
    [(replicate 12 0, 96), (replicate 10 0 @ [0xff, 0xff], 96), (nat64_well_known_prefix, 96), (ipv4_translated_prefix, 96)]"

fun octets_of :: "ipv4 \<Rightarrow> 8 word list" where
  "octets_of (Ipv4 a b c d) = [a, b, c, d]"

fun documented_blocks :: "ip_addr \<Rightarrow> bool" where
  "documented_blocks (V4 v4) \<longleftrightarrow> list_ex (in_block (octets_of v4)) ipv4_blocks"
| "documented_blocks (V6 v6) \<longleftrightarrow>
    (if list_ex (in_block v6) embedding_blocks then list_ex (in_block (drop 12 v6)) ipv4_blocks else list_ex (in_block v6) ipv6_blocks)"


section \<open>Octets and bits\<close>

definition octet_bits :: "8 word \<Rightarrow> bool list" where
  "octet_bits b = map (bit b) [7, 6, 5, 4, 3, 2, 1, 0]"

lemma length_octet_bits [simp]: "length (octet_bits b) = 8"
  by (simp add: octet_bits_def)

lemma octet_bits_inject [simp]: "octet_bits a = octet_bits b \<longleftrightarrow> a = b"
proof
  assume eq: "octet_bits a = octet_bits b"
  show "a = b"
  proof (rule bit_word_eqI)
    fix n :: nat
    assume "n < LENGTH(8)"
    then have "n \<in> {7, 6, 5, 4, 3, 2, 1, 0}" by auto
    then show "bit a n \<longleftrightarrow> bit b n" using eq unfolding octet_bits_def by auto
  qed
qed simp

lemma addr_bits_simps [simp]: "addr_bits [] = []" "addr_bits (b # bs) = octet_bits b @ addr_bits bs"
  by (simp_all add: addr_bits_def octet_bits_def)

lemma length_addr_bits [simp]: "length (addr_bits bs) = 8 * length bs"
  by (induction bs) simp_all

lemma addr_bits_inject: "length xs = length ys \<Longrightarrow> addr_bits xs = addr_bits ys \<longleftrightarrow> xs = ys"
  by (induction xs ys rule: list_induct2) simp_all

lemma take_addr_bits: "take (8 * k) (addr_bits xs) = addr_bits (take k xs)"
proof (induction xs arbitrary: k)
  case (Cons x xs)
  then show ?case by (cases k) simp_all
qed simp

text \<open>A network of whole octets is a common prefix; one of whole octets and some bits is a prefix and a mask.\<close>

lemma in_block_octets:
  assumes "n = 8 * length net" "length net \<le> length octets"
  shows "in_block octets (net, n) \<longleftrightarrow> take (length net) octets = net"
  using assms by (simp add: in_block_def take_addr_bits addr_bits_inject)

lemma in_block_octet: "in_block (a # bs) ([n], 8) \<longleftrightarrow> a = n"
  by (simp add: in_block_def)

lemma in_block_bits: "j \<le> 8 \<Longrightarrow> in_block (a # bs) ([n], j) \<longleftrightarrow> take j (octet_bits a) = take j (octet_bits n)"
  by (simp add: in_block_def)

lemma in_block_two: "j \<le> 8 \<Longrightarrow> in_block (a # b # bs) ([m, n], 8 + j) \<longleftrightarrow> a = m \<and> take j (octet_bits b) = take j (octet_bits n)"
  by (simp add: in_block_def)

lemma octet_eq_iff: "a = b \<longleftrightarrow> octet_bits a = octet_bits b"
  by simp

lemma octet_masks:
  "take 2 (octet_bits b) = take 2 (octet_bits 64) \<longleftrightarrow> b AND 0xC0 = 64"
  "take 7 (octet_bits b) = take 7 (octet_bits 18) \<longleftrightarrow> b AND 0xFE = 18"
  "take 7 (octet_bits b) = take 7 (octet_bits 0xfc) \<longleftrightarrow> b AND 0xFE = 0xfc"
  "take 2 (octet_bits b) = take 2 (octet_bits 0x80) \<longleftrightarrow> b AND 0xC0 = 0x80"
  "b AND 0xff = b"
  unfolding octet_eq_iff by (simp_all add: octet_bits_def bit_and_iff)

lemma bit_unat: "bit b n \<longleftrightarrow> odd (unat (b :: 8 word) div 2 ^ n)"
  by (simp add: bit_unsigned_iff flip: bit_iff_odd)

lemma octet_range: "take 4 (octet_bits b) = take 4 (octet_bits 16) \<longleftrightarrow> 16 \<le> b \<and> b \<le> 31"
proof -
  have "take 4 (octet_bits b) = take 4 (octet_bits 16) \<longleftrightarrow> even (unat b div 128) \<and> even (unat b div 64) \<and> even (unat b div 32) \<and> odd (unat b div 16)"
    by (simp add: octet_bits_def bit_unat)
  also have "\<dots> \<longleftrightarrow> (unat b div 16) \<in> {q. q < 16 \<and> even (q div 8) \<and> even (q div 4) \<and> even (q div 2) \<and> odd q}"
    using unat_byte_less [of b] by (simp add: div_mult2_eq [symmetric] less_mult_imp_div_less)
  also have "{q :: nat. q < 16 \<and> even (q div 8) \<and> even (q div 4) \<and> even (q div 2) \<and> odd q} =
      Set.filter (\<lambda>q. even (q div 8) \<and> even (q div 4) \<and> even (q div 2) \<and> odd q) {..<16}" by auto
  also have "\<dots> = {1}" by code_simp
  also have "unat b div 16 \<in> {1} \<longleftrightarrow> 16 \<le> unat b \<and> unat b \<le> 31" by auto
  finally show ?thesis by (simp add: word_le_nat_alt)
qed

section \<open>Segments\<close>

definition two_octets :: "8 word \<Rightarrow> 8 word \<Rightarrow> 16 word" where
  "two_octets a b = push_bit 8 (ucast a) OR ucast b"

lemma bit_two_octets: "bit (two_octets a b) n \<longleftrightarrow> n < 16 \<and> (if n < 8 then bit b n else bit a (n - 8))"
  by (auto simp: two_octets_def bit_simps dest: bit_imp_le_length)

lemma two_octets_inject: "two_octets a b = two_octets c d \<longleftrightarrow> a = c \<and> b = d"
proof
  assume eq: "two_octets a b = two_octets c d"
  have "bit a n = bit c n" "bit b n = bit d n" if "n < LENGTH(8)" for n
    using arg_cong [OF eq, of "\<lambda>w. bit w (n + 8)"] arg_cong [OF eq, of "\<lambda>w. bit w n"] that by (simp_all add: bit_two_octets)
  then show "a = c \<and> b = d" by (auto intro: bit_word_eqI)
qed simp

lemma two_octets_and: "two_octets a b AND two_octets c d = two_octets (a AND c) (b AND d)"
  by (rule bit_word_eqI) (simp add: bit_two_octets bit_and_iff)

lemma segment_masks:
  "two_octets a b AND 0xfe00 = 0xfc00 \<longleftrightarrow> a AND 0xfe = 0xfc"
  "two_octets a b AND 0xffc0 = 0xfe80 \<longleftrightarrow> a = 0xfe \<and> b AND 0xC0 = 0x80"
  "two_octets a b AND 0xff00 = 0xff00 \<longleftrightarrow> a = 0xff"
  "two_octets a b = 0x0064 \<longleftrightarrow> a = 0 \<and> b = 0x64" "two_octets a b = 0xff9b \<longleftrightarrow> a = 0xff \<and> b = 0x9b"
  "two_octets a b = 1 \<longleftrightarrow> a = 0 \<and> b = 1" "two_octets a b = 0x2001 \<longleftrightarrow> a = 0x20 \<and> b = 1"
  "two_octets a b = 0 \<longleftrightarrow> a = 0 \<and> b = 0" "two_octets a b = 0x2002 \<longleftrightarrow> a = 0x20 \<and> b = 2"
  "two_octets a b = 0x0db8 \<longleftrightarrow> a = 0x0d \<and> b = 0xb8"
proof -
  have ands: "two_octets a b AND two_octets m n = two_octets r s \<longleftrightarrow> a AND m = r \<and> b AND n = s" for m n r s
    by (simp add: two_octets_and two_octets_inject)
  have nums: "(0xfe00 :: 16 word) = two_octets 0xfe 0" "(0xfc00 :: 16 word) = two_octets 0xfc 0" "(0xffc0 :: 16 word) = two_octets 0xff 0xC0"
    "(0xfe80 :: 16 word) = two_octets 0xfe 0x80" "(0xff00 :: 16 word) = two_octets 0xff 0" "(0x0064 :: 16 word) = two_octets 0 0x64"
    "(0xff9b :: 16 word) = two_octets 0xff 0x9b" "(1 :: 16 word) = two_octets 0 1" "(0x2001 :: 16 word) = two_octets 0x20 1"
    "(0 :: 16 word) = two_octets 0 0" "(0x2002 :: 16 word) = two_octets 0x20 2" "(0x0db8 :: 16 word) = two_octets 0x0d 0xb8"
    by code_simp+
  show "two_octets a b AND 0xfe00 = 0xfc00 \<longleftrightarrow> a AND 0xfe = 0xfc" unfolding nums(1,2) ands by simp
  show "two_octets a b AND 0xffc0 = 0xfe80 \<longleftrightarrow> a = 0xfe \<and> b AND 0xC0 = 0x80" unfolding nums(3,4) ands by (simp add: octet_masks)
  show "two_octets a b AND 0xff00 = 0xff00 \<longleftrightarrow> a = 0xff" unfolding nums(5) ands by (simp add: octet_masks)
  show "two_octets a b = 0x0064 \<longleftrightarrow> a = 0 \<and> b = 0x64" "two_octets a b = 0xff9b \<longleftrightarrow> a = 0xff \<and> b = 0x9b"
    "two_octets a b = 1 \<longleftrightarrow> a = 0 \<and> b = 1" "two_octets a b = 0x2001 \<longleftrightarrow> a = 0x20 \<and> b = 1"
    "two_octets a b = 0 \<longleftrightarrow> a = 0 \<and> b = 0" "two_octets a b = 0x2002 \<longleftrightarrow> a = 0x20 \<and> b = 2"
    "two_octets a b = 0x0db8 \<longleftrightarrow> a = 0x0d \<and> b = 0xb8"
    unfolding nums(6-) two_octets_inject by simp_all
qed


lemma is_private_ipv4_blocks: "is_private_ipv4 v4 \<longleftrightarrow> list_ex (in_block (octets_of v4)) ipv4_blocks"
proof (cases v4)
  case (Ipv4 a b c d)
  have two: "in_block [a, b, c, d] ([m, n], 12) \<longleftrightarrow> a = m \<and> take 4 (octet_bits b) = take 4 (octet_bits n)"
    "in_block [a, b, c, d] ([m, n], 10) \<longleftrightarrow> a = m \<and> take 2 (octet_bits b) = take 2 (octet_bits n)"
    "in_block [a, b, c, d] ([m, n], 15) \<longleftrightarrow> a = m \<and> take 7 (octet_bits b) = take 7 (octet_bits n)" for m n
    using in_block_two [of 4 a b "[c, d]" m n] in_block_two [of 2 a b "[c, d]" m n] in_block_two [of 7 a b "[c, d]" m n] by simp_all
  show ?thesis
    by (simp add: Ipv4 ipv4_blocks_def in_block_octet in_block_octets two octet_range octet_masks)
qed

lemma drop_last_ipv4: "length v6 = 16 \<Longrightarrow> drop 12 v6 = octets_of (last_ipv4 v6)"
  by (simp add: last_ipv4_def list_eq_iff_nth_eq nth_Cons' numeral_eq_Suc less_Suc_eq)

lemma embedding_blocks_iff:
  assumes "length v6 = 16"
  shows "list_ex (in_block v6) embedding_blocks \<longleftrightarrow>
    to_ipv4 v6 \<noteq> None \<or> embedded_ipv4 v6 nat64_well_known_prefix \<noteq> None \<or> embedded_ipv4 v6 ipv4_translated_prefix \<noteq> None"
  using assms by (simp add: embedding_blocks_def in_block_octets to_ipv4_def embedded_ipv4_def nat64_well_known_prefix_def ipv4_translated_prefix_def)

lemma not_embedding:
  assumes "to_ipv4 v6 = None" "length v6 = 16"
  shows "\<not> v6_is_loopback v6" "\<not> v6_is_unspecified v6"
proof -
  have zeros: "take 12 v6 \<noteq> replicate 12 0" using assms(1) by (auto simp: to_ipv4_def)
  show "\<not> v6_is_loopback v6" using zeros by (auto simp: v6_is_loopback_def)
  show "\<not> v6_is_unspecified v6" using zeros by (auto simp: v6_is_unspecified_def)
qed

lemma ipv6_blocks_iff:
  assumes "length v6 = 16"
  shows "list_ex (in_block v6) ipv6_blocks \<longleftrightarrow>
    ipv6_segment v6 0 AND 0xfe00 = 0xfc00 \<or> ipv6_segment v6 0 AND 0xffc0 = 0xfe80 \<or> ipv6_segment v6 0 AND 0xff00 = 0xff00 \<or>
    (ipv6_segment v6 0 = 0x0064 \<and> ipv6_segment v6 1 = 0xff9b \<and> ipv6_segment v6 2 = 1) \<or> (ipv6_segment v6 0 = 0x2001 \<and> ipv6_segment v6 1 = 0) \<or>
    ipv6_segment v6 0 = 0x2002 \<or> (ipv6_segment v6 0 = 0x2001 \<and> ipv6_segment v6 1 = 0x0db8)"
proof -
  obtain a b c d e f rest where v6: "v6 = a # b # c # d # e # f # rest" using assms
    by (auto simp: numeral_eq_Suc length_Suc_conv)
  have segs: "ipv6_segment v6 0 = two_octets a b" "ipv6_segment v6 1 = two_octets c d" "ipv6_segment v6 2 = two_octets e f"
    by (simp_all add: v6 ipv6_segment_def two_octets_def)
  have masks: "in_block v6 ([0xfc], 7) \<longleftrightarrow> a AND 0xfe = 0xfc" "in_block v6 ([0xfe, 0x80], 10) \<longleftrightarrow> a = 0xfe \<and> b AND 0xC0 = 0x80"
    using in_block_bits [where j = 7] in_block_two [where j = 2] by (simp_all add: v6 octet_masks)
  have "in_block v6 ([0xff], 8) \<longleftrightarrow> a = 0xff" by (simp add: v6 in_block_octet)
  moreover have "in_block v6 ([0x00, 0x64, 0xff, 0x9b, 0x00, 0x01], 48) \<longleftrightarrow> a = 0 \<and> b = 0x64 \<and> c = 0xff \<and> d = 0x9b \<and> e = 0 \<and> f = 1"
    "in_block v6 ([0x20, 0x01, 0x00, 0x00], 32) \<longleftrightarrow> a = 0x20 \<and> b = 1 \<and> c = 0 \<and> d = 0"
    "in_block v6 ([0x20, 0x02], 16) \<longleftrightarrow> a = 0x20 \<and> b = 2"
    "in_block v6 ([0x20, 0x01, 0x0d, 0xb8], 32) \<longleftrightarrow> a = 0x20 \<and> b = 1 \<and> c = 0x0d \<and> d = 0xb8"
    by (simp_all add: v6 in_block_octets)
  ultimately show ?thesis 
    by (simp add: ipv6_blocks_def masks segs [unfolded One_nat_def] segment_masks)
qed

text \<open>
  C33. The test blocks an address exactly when it lies in one of the documented blocks; an IPv6 address in one of the four
  embedding blocks is judged by the IPv4 address in its last four octets.
\<close>

theorem is_private_ip_documented:
  assumes "\<And>v6. ip = V6 v6 \<Longrightarrow> length v6 = 16"
  shows "is_private_ip ip \<longleftrightarrow> documented_blocks ip"
proof (cases ip)
  case (V4 v4)
  then show ?thesis by (simp add: is_private_ipv4_blocks)
next
  case (V6 v6)
  then have len: "length v6 = 16" using assms by blast
  have emb: "to_ipv4 v6 = Some v4 \<Longrightarrow> v4 = last_ipv4 v6" "embedded_ipv4 v6 p = Some v4 \<Longrightarrow> v4 = last_ipv4 v6" for v4 p
    by (auto simp: to_ipv4_def embedded_ipv4_def split: if_splits)
  show ?thesis
    using embedding_blocks_iff [OF len] ipv6_blocks_iff [OF len] not_embedding [OF _ len] emb
    by (auto simp: V6 is_private_ipv4_blocks drop_last_ipv4 [OF len] split: option.splits)
qed

theorem is_private_ip_documented_witness:
  "is_private_ip (V6 (ipv4_translated_prefix @ [169, 254, 169, 254])) \<longleftrightarrow> documented_blocks (V6 (ipv4_translated_prefix @ [169, 254, 169, 254]))"
  using is_private_ip_documented [of "V6 (ipv4_translated_prefix @ [169, 254, 169, 254])"] by (simp add: ipv4_translated_prefix_def)

end
