(* ===== verification/Workflow_Exec.thy ===== *)
theory Workflow_Exec
  imports Workflow_Def Core_Network "HOL-Library.Code_Target_Nat"
begin

text \<open>
  Execution of a workflow run (\<open>crates/buzz-workflow/src/executor.rs\<close>, \<open>action_sink.rs\<close>, \<open>finalize_run\<close> of \<open>lib.rs\<close>): dispatch of
  an action under the serving-write lease of its community, the outgoing HTTP calls, the loop over the steps, and the record of
  the outcome. What the surroundings answer while a step runs is its environment (\<open>step_env\<close>): the tables at that time, the outcomes of
  the calls on the lease (\<open>crates/buzz-deletion\<close>), on the action sink, on the network and on the clock. Calls that leave the process are
  logged as effects; a deadline or a lost lease may cut a step off after any number of them. Shown: what a run reports, that a
  run continued at a step is the rest of the run, and which effects a run can have.
\<close>

section \<open>Environment and effects\<close>

datatype action_sink_error =
    InvalidInput string
  | ChannelNotFound string
  | ChannelArchived string
  | EventBuild string
  | SinkDatabase string
  | EmptyContent

fun sink_error_to_string :: "action_sink_error \<Rightarrow> string" where
  "sink_error_to_string (InvalidInput e) = ''invalid input: '' @ e"
| "sink_error_to_string (ChannelNotFound e) = ''channel not found: '' @ e"
| "sink_error_to_string (ChannelArchived e) = ''channel is archived: '' @ e"
| "sink_error_to_string (EventBuild e) = ''event construction failed: '' @ e"
| "sink_error_to_string (SinkDatabase e) = ''database error: '' @ e"
| "sink_error_to_string EmptyContent = ''empty message content''"

text \<open>A request, with the address its host is pinned to; a response, with its body in chunks and as a text.\<close>

record http_request =
  rq_method :: string
  rq_url :: string
  rq_headers :: "(string \<times> string) list"
  rq_body :: "string option"
  rq_pinned :: "(string \<times> ip_addr \<times> nat) option"

record http_response =
  hr_status :: nat
  hr_chunks :: "(string + bytes) list"
  hr_text :: "string option"

datatype effect =
    SinkMessage uuid string string string
  | HttpSent http_request
  | Slept nat

datatype dns_outcome = DnsTaskFailed string | DnsFailed string | DnsAddrs "(ip_addr \<times> string) list"

record step_env =
  se_db :: workflow_db
  se_load_run :: "workflow_db_error option"
  se_load_workflow :: "workflow_db_error option"
  se_eval :: "string \<Rightarrow> eval_ctx \<Rightarrow> eval_outcome"
  se_acquire :: "string option"
  se_verify :: "string option"
  se_verify_before :: "string option"
  se_lost_after :: "nat option"
  se_verify_after :: "string option"
  se_finish :: "string option"
  se_sink :: "action_sink_error + string"
  se_dns :: "string \<Rightarrow> dns_outcome"
  se_client :: "string option"
  se_send :: "http_request \<Rightarrow> string + http_response"
  se_vars :: "string \<Rightarrow> string option"
  se_token :: string
  se_deadline :: "nat option"

datatype step_result = StepCompleted json | Suspended string | StepSkipped

definition failing :: "'e option \<Rightarrow> 'e + 'a \<Rightarrow> 'e + 'a" where
  "failing failure r = (case failure of Some e \<Rightarrow> Inl e | None \<Rightarrow> r)"

section \<open>Destinations\<close>

definition resolve_send_message_channel :: "workflow_lib \<Rightarrow> string option \<Rightarrow> string \<Rightarrow> uuid option \<Rightarrow> workflow_error + string" where
  "resolve_send_message_channel lib explicit_channel0 trigger_channel workflow_channel_id =
    (let explicit_channel = (case explicit_channel0 of None \<Rightarrow> None | Some s \<Rightarrow> if str_trim s = [] then None else Some (str_trim s));
         invalid = (\<lambda>e. InvalidDefinition (''SendMessage: invalid channel override UUID: '' @ e))
     in case workflow_channel_id of
          Some wid \<Rightarrow>
            (case explicit_channel of
               None \<Rightarrow> Inr (wl_uuid_str lib wid)
             | Some ch \<Rightarrow>
                (case wl_parse_uuid lib ch of
                   Inl e \<Rightarrow> Inl (invalid e)
                 | Inr override \<Rightarrow>
                    if override \<noteq> wid
                    then Inl (InvalidDefinition (''SendMessage: channel override must match the workflow channel ('' @ wl_uuid_str lib wid @ '')''))
                    else Inr (wl_uuid_str lib wid)))
        | None \<Rightarrow>
            (case explicit_channel of
               Some ch \<Rightarrow> (case wl_parse_uuid lib ch of Inl e \<Rightarrow> Inl (invalid e) | Inr override \<Rightarrow> Inr (wl_uuid_str lib override))
             | None \<Rightarrow>
                if str_trim trigger_channel = []
                then Inl (InvalidDefinition ''SendMessage: no channel_id available (trigger has no channel context and no channel override was specified)'')
                else Inr (str_trim trigger_channel)))"

section \<open>HTTP calls\<close>

definition check_ssrf :: "step_env \<Rightarrow> string \<Rightarrow> nat \<Rightarrow> workflow_error + ip_addr" where
  "check_ssrf env host port =
    (case se_dns env (host @ '':'' @ decimal port) of
       DnsTaskFailed e \<Rightarrow> Inl (WebhookError (''SSRF check task failed: '' @ e))
     | DnsFailed e \<Rightarrow> Inl (WebhookError (''DNS resolution failed: '' @ e))
     | DnsAddrs [] \<Rightarrow> Inl (WebhookError ''DNS resolution returned no addresses'')
     | DnsAddrs (addr # addrs) \<Rightarrow>
        (case find (\<lambda>(ip, _). is_private_ip ip) (addr # addrs) of
           Some (ip, ip_text) \<Rightarrow> Inl (WebhookError (''SSRF blocked: '' @ quoted host @ '' resolved to private/reserved address '' @ ip_text))
         | None \<Rightarrow> Inr (fst addr)))"

definition webhook_max_response_bytes :: nat where
  "webhook_max_response_bytes = 1024 * 1024"

fun read_body :: "bytes \<Rightarrow> (string + bytes) list \<Rightarrow> workflow_error + bytes" where
  "read_body body_bytes [] = Inr body_bytes"
| "read_body body_bytes (Inl e # chunks) = Inl (WebhookError (''reading response body: '' @ e))"
| "read_body body_bytes (Inr chunk # chunks) =
    (if length (body_bytes @ chunk) > webhook_max_response_bytes
     then Inl (WebhookError (''response body exceeds '' @ decimal webhook_max_response_bytes @ '' byte limit''))
     else read_body (body_bytes @ chunk) chunks)"

definition call_webhook_impl ::
  "workflow_lib \<Rightarrow> step_env \<Rightarrow> string \<Rightarrow> string \<Rightarrow> (string \<times> string) list option \<Rightarrow> string option \<Rightarrow>
   (workflow_error + json) \<times> effect list" where
  "call_webhook_impl lib env url meth headers body =
    (case wl_parse_url lib url of
       Inl e \<Rightarrow> (Inl (WebhookError (''invalid URL: '' @ e)), [])
     | Inr (None, _) \<Rightarrow> (Inl (WebhookError ''URL has no host''), [])
     | Inr (Some host, port0) \<Rightarrow>
        (let port = (case port0 of Some p \<Rightarrow> p | None \<Rightarrow> 80)
         in case check_ssrf env host port of
              Inl e \<Rightarrow> (Inl e, [])
            | Inr safe_ip \<Rightarrow>
               (case se_client env of
                  Some e \<Rightarrow> (Inl (WebhookError e), [])
                | None \<Rightarrow>
                   (case wl_method_error lib meth of
                      Some e \<Rightarrow> (Inl (WebhookError e), [])
                    | None \<Rightarrow>
                       (let req = \<lparr>rq_method = meth, rq_url = url, rq_headers = (case headers of Some hs \<Rightarrow> hs | None \<Rightarrow> []), rq_body = body,
                                   rq_pinned = Some (host, safe_ip, port)\<rparr>
                        in (case se_send env req of
                              Inl e \<Rightarrow> Inl (WebhookError e)
                            | Inr resp \<Rightarrow>
                               (case read_body [] (hr_chunks resp) of
                                  Inl e \<Rightarrow> Inl e
                                | Inr body_bytes \<Rightarrow>
                                    Inr (JObject [(''status'', JNumber (decimal (hr_status resp))),
                                                  (''body'', JString (wl_utf8_lossy lib body_bytes))])),
                            [HttpSent req]))))))"

definition add_reaction_impl :: "workflow_lib \<Rightarrow> step_env \<Rightarrow> string \<Rightarrow> string \<Rightarrow> (workflow_error + json) \<times> effect list" where
  "add_reaction_impl lib env message_id emoji =
    (let base_url = (case se_vars env ''BUZZ_RELAY_BASE_URL'' of Some u \<Rightarrow> u | None \<Rightarrow> ''http://localhost:3000'');
         auth = (case se_vars env ''BUZZ_API_TOKEN'' of
             Some token \<Rightarrow> [(''Authorization'', ''Bearer '' @ token)]
           | None \<Rightarrow> (case se_vars env ''BUZZ_RELAY_PUBKEY'' of Some pubkey \<Rightarrow> [(''X-Pubkey'', pubkey)] | None \<Rightarrow> []));
         req = \<lparr>rq_method = ''POST'', rq_url = base_url @ ''/api/messages/'' @ message_id @ ''/reactions'',
                rq_headers = (''Content-Type'', ''application/json'') # auth,
                rq_body = Some (wl_json_text lib (JObject [(''emoji'', JString emoji)])), rq_pinned = None\<rparr>
     in (case se_send env req of
           Inl e \<Rightarrow> Inl (WebhookError (''AddReaction HTTP error: '' @ e))
         | Inr resp \<Rightarrow>
            if \<not> (200 \<le> hr_status resp \<and> hr_status resp < 300)
            then Inl (WebhookError (''AddReaction: relay returned '' @ wl_status_text lib (hr_status resp) @ '' for message '' @ message_id @ '': '' @
              (case hr_text resp of Some t \<Rightarrow> t | None \<Rightarrow> ''<unreadable>'')))
            else (let body_text = (case hr_text resp of Some t \<Rightarrow> t | None \<Rightarrow> []);
                      body_json = (case wl_from_str lib body_text of Some j \<Rightarrow> j | None \<Rightarrow> JObject [(''raw'', JString body_text)])
                  in Inr (JObject [(''added'', JBool True), (''status'', JNumber (decimal (hr_status resp))), (''response'', body_json)])),
         [HttpSent req]))"

section \<open>Dispatch\<close>

definition max_delay_secs :: nat where
  "max_delay_secs = 270"

definition em_dash :: string where
  "em_dash = [CHR 0xE2, CHR 0x80, CHR 0x94]"

text \<open>The action itself, under the lease. \<open>sink_set\<close> tells whether an action sink was installed.\<close>

definition send_message_action ::
  "workflow_lib \<Rightarrow> step_env \<Rightarrow> bool \<Rightarrow> uuid \<Rightarrow> uuid \<Rightarrow> trigger_context \<Rightarrow> string \<Rightarrow> string option \<Rightarrow>
   (workflow_error + step_result) \<times> effect list" where
  "send_message_action lib env sink_set community_id run_id ctx body channel =
    (case failing (se_load_run env) (get_workflow_run community_id run_id (se_db env)) of
       Inl e \<Rightarrow> (Inl (WebhookError (''SendMessage: failed to load workflow run '' @ wl_uuid_str lib run_id @ '': '' @ db_error_to_string e)), [])
     | Inr wf_run \<Rightarrow>
        (case failing (se_load_workflow env) (get_workflow community_id (rr_workflow_id wf_run) (se_db env)) of
           Inl e \<Rightarrow> (Inl (WebhookError (''SendMessage: failed to load workflow '' @ wl_uuid_str lib (rr_workflow_id wf_run) @ '': '' @ db_error_to_string e)), [])
         | Inr workflow \<Rightarrow>
            (case resolve_send_message_channel lib channel (tc_channel_id ctx) (wk_channel_id workflow) of
               Inl e \<Rightarrow> (Inl e, [])
             | Inr channel_id \<Rightarrow>
                if \<not> sink_set
                then (Inl (InvalidDefinition (''action_sink not initialized '' @ em_dash @ '' call set_action_sink() before executing workflows'')), [])
                else (case se_sink env of
                        Inl e \<Rightarrow> Inl (WebhookError (sink_error_to_string e))
                      | Inr event_id \<Rightarrow> Inr (StepCompleted (JObject [(''sent'', JBool True), (''event_id'', JString event_id)])),
                      [SinkMessage community_id channel_id body (wl_hex lib (wk_owner_pubkey workflow))]))))"

definition map_result :: "('a \<Rightarrow> 'b) \<Rightarrow> ('e + 'a) \<times> effect list \<Rightarrow> ('e + 'b) \<times> effect list" where
  "map_result f r = (case fst r of Inl e \<Rightarrow> (Inl e, snd r) | Inr x \<Rightarrow> (Inr (f x), snd r))"

definition run_action ::
  "workflow_lib \<Rightarrow> step_env \<Rightarrow> bool \<Rightarrow> uuid \<Rightarrow> uuid \<Rightarrow> trigger_context \<Rightarrow> action_def \<Rightarrow> (workflow_error + step_result) \<times> effect list" where
  "run_action lib env sink_set community_id run_id ctx action =
    (case action of
       SendMessage body channel \<Rightarrow> send_message_action lib env sink_set community_id run_id ctx body channel
     | SendDm dest body \<Rightarrow> (Inl (NotImplemented ''SendDm''), [])
     | SetChannelTopic topic \<Rightarrow> (Inl (NotImplemented ''SetChannelTopic''), [])
     | AddReaction emoji \<Rightarrow>
         if tc_message_id ctx = [] then (Inl (InvalidDefinition ''AddReaction: no trigger.message_id available''), [])
         else map_result StepCompleted (add_reaction_impl lib env (tc_message_id ctx) emoji)
     | CallWebhook url meth headers body \<Rightarrow>
         map_result StepCompleted (call_webhook_impl lib env url (case meth of Some m \<Rightarrow> m | None \<Rightarrow> ''POST'') headers body)
     | RequestApproval approver message timeout \<Rightarrow> (Inr (Suspended (se_token env)), [])
     | Delay duration \<Rightarrow>
        (case parse_duration_secs duration of
           Inl e \<Rightarrow> (Inl e, [])
         | Inr secs \<Rightarrow>
            if secs > max_delay_secs
            then (Inl (InvalidDefinition (''delay exceeds maximum of '' @ decimal max_delay_secs @ '' seconds (got '' @ decimal secs @
              ''s); use the scheduled resume pattern for long delays'')), [])
            else (Inr (StepCompleted (JObject [(''slept_secs'', JNumber (decimal secs))])), [Slept secs])))"

text \<open>\<open>ServingWriteGuard::protect\<close>: the lease is verified before and after, and the action is dropped when it is lost meanwhile.\<close>

definition protect :: "step_env \<Rightarrow> 'a \<times> effect list \<Rightarrow> (string + 'a) \<times> effect list" where
  "protect env op =
    (case se_verify_before env of
       Some e \<Rightarrow> (Inl e, [])
     | None \<Rightarrow>
        (case se_lost_after env of
           Some n \<Rightarrow> (Inl ''serving write lease heartbeat was lost'', take n (snd op))
         | None \<Rightarrow> (case se_verify_after env of Some e \<Rightarrow> (Inl e, snd op) | None \<Rightarrow> (Inr (fst op), snd op))))"

definition dispatch_action ::
  "workflow_lib \<Rightarrow> step_env \<Rightarrow> bool \<Rightarrow> uuid \<Rightarrow> uuid \<Rightarrow> trigger_context \<Rightarrow> action_def \<Rightarrow> (workflow_error + step_result) \<times> effect list" where
  "dispatch_action lib env sink_set community_id run_id ctx action =
    (case se_acquire env of
       Some e \<Rightarrow> (Inl (WebhookError (''community write fence rejected workflow side effect: '' @ e)), [])
     | None \<Rightarrow>
        (case se_verify env of
           Some e \<Rightarrow> (Inl (WebhookError (''community write lease lost: '' @ e)), [])
         | None \<Rightarrow>
            (case protect env (run_action lib env sink_set community_id run_id ctx action) of
               (Inl e, log) \<Rightarrow> (Inl (WebhookError (''community write lease lost: '' @ e)), log)
             | (Inr (Inl e), log) \<Rightarrow> (Inl e, log)
             | (Inr (Inr v), log) \<Rightarrow>
                (case se_finish env of
                   Some e \<Rightarrow> (Inl (WebhookError (''community write lease release failed: '' @ e)), log)
                 | None \<Rightarrow> (Inr v, log)))))"


section \<open>The loop over the steps\<close>

record workflow_config =
  cf_max_concurrent :: nat
  cf_default_timeout_secs :: nat

record execution_result =
  xr_approval_token :: "string option"
  xr_step_index :: nat
  xr_step_outputs :: step_outputs
  xr_trace :: "json list"

record partial_progress =
  pg_step_index :: nat
  pg_trace :: "json list"

type_synonym run_result = "(workflow_error \<times> partial_progress) + execution_result"

text \<open>What does not change during a run: the library, the configuration, the sink, the tenant, the run and its trigger.\<close>

record run_setup =
  rs_lib :: workflow_lib
  rs_config :: workflow_config
  rs_sink_set :: bool
  rs_community_id :: uuid
  rs_run_id :: uuid
  rs_trigger :: trigger_context

definition skipped_entry :: "string \<Rightarrow> json" where
  "skipped_entry step_id = JObject [(''step_id'', JString step_id), (''status'', JString ''skipped'')]"

definition completed_entry :: "string \<Rightarrow> json \<Rightarrow> json" where
  "completed_entry step_id output =
    JObject [(''step_id'', JString step_id), (''status'', JString ''completed''), (''output'', output)]"

text \<open>One step: condition, templates, and the dispatch within the step's time limit.\<close>

definition run_step :: "run_setup \<Rightarrow> step_env \<Rightarrow> wf_step \<Rightarrow> step_outputs \<Rightarrow> (workflow_error + step_result) \<times> effect list" where
  "run_step rs env step outs =
    (let lib = rs_lib rs; ctx = rs_trigger rs;
         go = (case resolve_step_templates lib (st_action step) ctx outs of
             Inl e \<Rightarrow> (Inl e, [])
           | Inr action \<Rightarrow>
              (let timeout_secs = (case st_timeout_secs step of Some t \<Rightarrow> t | None \<Rightarrow> cf_default_timeout_secs (rs_config rs));
                   r = dispatch_action lib env (rs_sink_set rs) (rs_community_id rs) (rs_run_id rs) ctx action
               in case se_deadline env of
                    Some n \<Rightarrow> (Inl (StepTimeout (st_id step) timeout_secs), take n (snd r))
                  | None \<Rightarrow> r))
     in case st_if_expr step of
          None \<Rightarrow> go
        | Some expr \<Rightarrow>
           (case evaluate_condition lib (se_eval env) expr ctx outs of
              Inl e \<Rightarrow> (Inl e, [])
            | Inr False \<Rightarrow> (Inr StepSkipped, [])
            | Inr True \<Rightarrow> go))"

fun execute_loop ::
  "run_setup \<Rightarrow> (nat \<Rightarrow> step_env) \<Rightarrow> nat \<Rightarrow> nat \<Rightarrow> wf_step list \<Rightarrow> step_outputs \<Rightarrow> json list \<Rightarrow> run_result \<times> effect list" where
  "execute_loop rs envs start i [] outs trace =
    (Inr \<lparr>xr_approval_token = None, xr_step_index = i, xr_step_outputs = outs, xr_trace = trace\<rparr>, [])"
| "execute_loop rs envs start i (step # steps) outs trace =
    (if i < start then execute_loop rs envs start (Suc i) steps outs trace
     else case run_step rs (envs i) step outs of
         (Inl e, log) \<Rightarrow> (Inl (e, \<lparr>pg_step_index = i, pg_trace = trace\<rparr>), log)
       | (Inr (Suspended token), log) \<Rightarrow>
           (Inr \<lparr>xr_approval_token = Some token, xr_step_index = i, xr_step_outputs = outs, xr_trace = trace\<rparr>, log)
       | (Inr StepSkipped, log) \<Rightarrow>
           (let (r, log') = execute_loop rs envs start (Suc i) steps outs (trace @ [skipped_entry (st_id step)]) in (r, log @ log'))
       | (Inr (StepCompleted output), log) \<Rightarrow>
           (let (r, log') = execute_loop rs envs start (Suc i) steps (AList.update (st_id step) output outs)
                 (trace @ [completed_entry (st_id step) output])
            in (r, log @ log')))"

definition execute_steps ::
  "run_setup \<Rightarrow> (nat \<Rightarrow> step_env) \<Rightarrow> workflow_def \<Rightarrow> nat \<Rightarrow> step_outputs option \<Rightarrow> run_result \<times> effect list" where
  "execute_steps rs envs def start_index initial_outputs =
    execute_loop rs envs start_index 0 (df_steps def) (case initial_outputs of Some outs \<Rightarrow> outs | None \<Rightarrow> []) []"

section \<open>Runs\<close>

definition i32_of :: "nat \<Rightarrow> int" where
  "i32_of n = sint (word_of_nat n :: 32 word)"

definition no_progress :: partial_progress where
  "no_progress = \<lparr>pg_step_index = 0, pg_trace = []\<rparr>"

text \<open>\<open>permit\<close> tells whether a permit of the semaphore was free; \<open>failure\<close> is an error of the connection.\<close>

definition execute_run ::
  "run_setup \<Rightarrow> bool \<Rightarrow> workflow_db_error option \<Rightarrow> timestamp \<Rightarrow> (nat \<Rightarrow> step_env) \<Rightarrow> workflow_def \<Rightarrow> workflow_db \<Rightarrow>
   run_result \<times> effect list \<times> workflow_db" where
  "execute_run rs permit failure now envs def db =
    (if \<not> permit then (Inl (CapacityExceeded, no_progress), [], db)
     else case failing failure (update_workflow_run now (rs_community_id rs) (rs_run_id rs) Running 0 (JArray []) None db) of
         Inl e \<Rightarrow> (Inl (workflow_error_from e, no_progress), [], db)
       | Inr db' \<Rightarrow> (let (r, log) = execute_steps rs envs def 0 None in (r, log, db')))"

definition execute_from_step ::
  "run_setup \<Rightarrow> bool \<Rightarrow> workflow_db_error option \<Rightarrow> workflow_db_error option \<Rightarrow> timestamp \<Rightarrow> (nat \<Rightarrow> step_env) \<Rightarrow> workflow_def \<Rightarrow> nat \<Rightarrow>
   step_outputs option \<Rightarrow> workflow_db \<Rightarrow> run_result \<times> effect list \<times> workflow_db" where
  "execute_from_step rs permit read_failure failure now envs def start_index initial_outputs db =
    (if \<not> permit then (Inl (CapacityExceeded, no_progress), [], db)
     else let existing_trace = (case failing read_failure (get_workflow_run (rs_community_id rs) (rs_run_id rs) db) of
                  Inr r \<Rightarrow> rr_execution_trace r | Inl _ \<Rightarrow> JArray [])
          in case failing failure (update_workflow_run now (rs_community_id rs) (rs_run_id rs) Running (i32_of start_index) existing_trace None db) of
               Inl e \<Rightarrow> (Inl (workflow_error_from e, no_progress), [], db)
             | Inr db' \<Rightarrow> (let (r, log) = execute_steps rs envs def start_index initial_outputs in (r, log, db')))"

definition finalize_run ::
  "workflow_db_error option \<Rightarrow> timestamp \<Rightarrow> uuid \<Rightarrow> uuid \<Rightarrow> run_result \<Rightarrow> json list option \<Rightarrow> workflow_db \<Rightarrow> workflow_db" where
  "finalize_run failure now community_id run_id result existing_trace db =
    (let prefix = (case existing_trace of Some t \<Rightarrow> t | None \<Rightarrow> []);
         update = (\<lambda>status step trace error.
           state_after (\<lambda>x. x) db (failing failure (update_workflow_run now community_id run_id status step (JArray (prefix @ trace)) error db)))
     in case result of
          Inr r \<Rightarrow>
            (if xr_approval_token r \<noteq> None
             then update Failed (i32_of (xr_step_index r)) (xr_trace r) (Some (''approval gates not yet implemented '' @ em_dash @ '' see WF-08''))
             else update Completed (i32_of (xr_step_index r)) (xr_trace r) None)
        | Inl (e, progress) \<Rightarrow> update Failed (i32_of (pg_step_index progress)) (pg_trace progress) (Some (workflow_error_to_string e)))"

section \<open>What a run does\<close>

text \<open>
  The specification of a run: from step to step, every step is skipped or completes, until one fails or waits for an approval or
  none is left. The state is the next index, the outputs, the trace and the effects so far.
\<close>

inductive run_steps ::
  "run_setup \<Rightarrow> (nat \<Rightarrow> step_env) \<Rightarrow> wf_step list \<Rightarrow> nat \<times> step_outputs \<times> json list \<times> effect list \<Rightarrow>
   nat \<times> step_outputs \<times> json list \<times> effect list \<Rightarrow> bool" for rs envs steps where
  start: "run_steps rs envs steps s s"
| skipped: "run_steps rs envs steps s (i, outs, trace, log) \<Longrightarrow> i < length steps \<Longrightarrow>
    run_step rs (envs i) (steps ! i) outs = (Inr StepSkipped, log') \<Longrightarrow>
    run_steps rs envs steps s (Suc i, outs, trace @ [skipped_entry (st_id (steps ! i))], log @ log')"
| completed: "run_steps rs envs steps s (i, outs, trace, log) \<Longrightarrow> i < length steps \<Longrightarrow>
    run_step rs (envs i) (steps ! i) outs = (Inr (StepCompleted output), log') \<Longrightarrow>
    run_steps rs envs steps s (Suc i, AList.update (st_id (steps ! i)) output outs, trace @ [completed_entry (st_id (steps ! i)) output],
      log @ log')"

text \<open>How a run ends in such a state.\<close>

definition run_ends ::
  "run_setup \<Rightarrow> (nat \<Rightarrow> step_env) \<Rightarrow> wf_step list \<Rightarrow> nat \<times> step_outputs \<times> json list \<times> effect list \<Rightarrow> run_result \<Rightarrow> effect list \<Rightarrow> bool" where
  "run_ends rs envs steps s res log \<longleftrightarrow>
    (case s of (i, outs, trace, log0) \<Rightarrow>
      (i = length steps \<and> res = Inr \<lparr>xr_approval_token = None, xr_step_index = i, xr_step_outputs = outs, xr_trace = trace\<rparr> \<and> log = log0) \<or>
      (i < length steps \<and> (\<exists>log' token. run_step rs (envs i) (steps ! i) outs = (Inr (Suspended token), log') \<and> log = log0 @ log' \<and>
        res = Inr \<lparr>xr_approval_token = Some token, xr_step_index = i, xr_step_outputs = outs, xr_trace = trace\<rparr>)) \<or>
      (i < length steps \<and> (\<exists>log' e. run_step rs (envs i) (steps ! i) outs = (Inl e, log') \<and> log = log0 @ log' \<and>
        res = Inl (e, \<lparr>pg_step_index = i, pg_trace = trace\<rparr>))))"


lemma run_steps_trans: "run_steps rs envs steps s' s'' \<Longrightarrow> run_steps rs envs steps s s' \<Longrightarrow> run_steps rs envs steps s s''"
  by (induction rule: run_steps.induct) (auto intro: run_steps.intros)

lemma execute_loop_skip:
  "i \<le> start \<Longrightarrow> start \<le> i + length steps \<Longrightarrow>
    execute_loop rs envs start i steps outs trace = execute_loop rs envs start start (drop (start - i) steps) outs trace"
proof (induction steps arbitrary: i)
  case (Cons step steps)
  then show ?case by (cases "i = start") (simp_all add: Suc_diff_le [symmetric] drop_Cons' Suc_leI)
qed simp

lemma execute_loop_run:
  assumes "execute_loop rs envs start i (drop i steps) outs trace = (res, log)" "start \<le> i" "i \<le> length steps"
    and "run_steps rs envs steps s (i, outs, trace, log0)"
  shows "\<exists>s'. run_steps rs envs steps s s' \<and> run_ends rs envs steps s' res (log0 @ log)"
  using assms
proof (induction "length steps - i" arbitrary: i outs trace log log0)
  case 0
  then have "i = length steps" by simp
  with 0 show ?case by (intro exI [of _ "(i, outs, trace, log0)"]) (simp add: run_ends_def)
next
  case (Suc n)
  then have i: "i < length steps" by simp
  then have drop: "drop i steps = steps ! i # drop (Suc i) steps" by (simp add: Cons_nth_drop_Suc)
  obtain r log1 where step: "run_step rs (envs i) (steps ! i) outs = (r, log1)" by fastforce
  have rest: "\<exists>s'. run_steps rs envs steps s s' \<and> run_ends rs envs steps s' res ((log0 @ log1) @ log2)"
    if "execute_loop rs envs start (Suc i) (drop (Suc i) steps) outs' trace' = (res, log2)" "run_steps rs envs steps s (Suc i, outs', trace', log0 @ log1)"
    for outs' trace' log2
    using Suc(1) [of "Suc i" outs' trace' log2 "log0 @ log1"] Suc(2,4) i that by simp
  show ?case
  proof (cases "\<exists>e token. r = Inl e \<or> r = Inr (Suspended token)")
    case True
    then have "run_ends rs envs steps (i, outs, trace, log0) res (log0 @ log)"
      using Suc(3,4) i step by (auto simp: drop run_ends_def)
    then show ?thesis using Suc(6) by blast
  next
    case False
    then consider (skip) "r = Inr StepSkipped" | (complete) out where "r = Inr (StepCompleted out)"
      by (metis (full_types) old.sum.exhaust step_result.exhaust)
    then show ?thesis
    proof cases
      case skip
      then obtain log2 where "execute_loop rs envs start (Suc i) (drop (Suc i) steps) outs (trace @ [skipped_entry (st_id (steps ! i))]) = (res, log2)"
        "log = log1 @ log2"
        using Suc(3,4) step by (auto simp: drop split: prod.splits)
      then show ?thesis using rest run_steps.skipped [OF Suc(6) i] step skip by fastforce
    next
      case complete
      then obtain log2 where "execute_loop rs envs start (Suc i) (drop (Suc i) steps) (AList.update (st_id (steps ! i)) out outs)
          (trace @ [completed_entry (st_id (steps ! i)) out]) = (res, log2)" "log = log1 @ log2"
        using Suc(3,4) step by (auto simp: drop split: prod.splits)
      then show ?thesis using rest run_steps.completed [OF Suc(6) i] step complete by fastforce
    qed
  qed
qed

lemma execute_steps_run:
  assumes "execute_steps rs envs def start init = (res, log)" "start \<le> length (df_steps def)"
  shows "\<exists>s. run_steps rs envs (df_steps def) (start, (case init of Some outs \<Rightarrow> outs | None \<Rightarrow> []), [], []) s \<and>
    run_ends rs envs (df_steps def) s res log"
proof -
  have "execute_loop rs envs start start (drop start (df_steps def)) (case init of Some outs \<Rightarrow> outs | None \<Rightarrow> []) [] = (res, log)"
    using assms execute_loop_skip [of 0 start "df_steps def"] by (simp add: execute_steps_def)
  from execute_loop_run [OF this order_refl assms(2) run_steps.start, of "[]"] show ?thesis by simp
qed

text \<open>One entry for every step passed, in order, and the output of every completed step.\<close>

definition entry_for :: "wf_step \<Rightarrow> step_outputs \<Rightarrow> json \<Rightarrow> bool" where
  "entry_for step outs entry \<longleftrightarrow> entry = skipped_entry (st_id step) \<or>
    (\<exists>output. entry = completed_entry (st_id step) output \<and> map_of outs (st_id step) = Some output)"

lemma run_steps_report:
  assumes "run_steps rs envs steps (start, outs0, [], []) (i, outs, trace, log)" "start \<le> length steps" "distinct (map st_id steps)"
  shows "start \<le> i \<and> i \<le> length steps \<and> length trace = i - start \<and> (\<forall>k < i - start. entry_for (steps ! (start + k)) outs (trace ! k)) \<and>
    (\<forall>s. s \<notin> set (map st_id (drop start (take i steps))) \<longrightarrow> map_of outs s = map_of outs0 s)"
  using assms
proof (induction "(start, outs0, [] :: json list, [] :: effect list)" "(i, outs, trace, log)" arbitrary: i outs trace log rule: run_steps.induct)
  case start
  then show ?case by simp
next
  case (skipped i outs trace log log')
  then have len: "start \<le> i" "length trace = i - start" and old: "\<forall>k < i - start. entry_for (steps ! (start + k)) outs (trace ! k)"
    and rest: "\<forall>s. s \<notin> set (map st_id (drop start (take i steps))) \<longrightarrow> map_of outs s = map_of outs0 s" by auto
  have "entry_for (steps ! (start + k)) outs ((trace @ [skipped_entry (st_id (steps ! i))]) ! k)" if "k < Suc i - start" for k
    using that old len by (cases "k = i - start") (auto simp: nth_append entry_for_def)
  moreover have "set (map st_id (drop start (take i steps))) \<subseteq> set (map st_id (drop start (take (Suc i) steps)))"
    by (auto simp: take_Suc_conv_app_nth skipped.hyps(3) len)
  then have "map_of outs s = map_of outs0 s" if "s \<notin> set (map st_id (drop start (take (Suc i) steps)))" for s
    using that rest by blast
  ultimately show ?case using skipped.hyps(3) len by (simp add: Suc_diff_le)
next
  case (completed i outs trace log out log')
  then have len: "start \<le> i" "length trace = i - start" and old: "\<forall>k < i - start. entry_for (steps ! (start + k)) outs (trace ! k)"
    and rest: "\<forall>s. s \<notin> set (map st_id (drop start (take i steps))) \<longrightarrow> map_of outs s = map_of outs0 s" by auto
  let ?id = "st_id (steps ! i)" and ?outs = "AList.update (st_id (steps ! i)) out outs"
  have fresh: "st_id (steps ! (start + k)) \<noteq> ?id" if "k < i - start" for k
    using nth_eq_iff_index_eq [OF completed.prems(2), of "start + k" i] that completed.hyps(3) by simp
  have "entry_for (steps ! (start + k)) ?outs ((trace @ [completed_entry ?id out]) ! k)" if "k < Suc i - start" for k
  proof (cases "k = i - start")
    case True
    then show ?thesis using len by (auto simp: nth_append entry_for_def update_Some_unfold)
  next
    case False
    then have "k < i - start" using that len by simp
    then show ?thesis using old fresh [of k] len by (auto simp: nth_append entry_for_def update_conv)
  qed
  moreover have "set (map st_id (drop start (take (Suc i) steps))) = insert ?id (set (map st_id (drop start (take i steps))))"
    using completed.hyps(3) len by (auto simp: take_Suc_conv_app_nth)
  ultimately show ?case using completed.hyps(3) len rest by (auto simp: Suc_diff_le update_conv)
qed


section \<open>Continuing a run\<close>

fun prepend_trace :: "json list \<Rightarrow> run_result \<Rightarrow> run_result" where
  "prepend_trace trace (Inl (e, p)) = Inl (e, p\<lparr>pg_trace := trace @ pg_trace p\<rparr>)"
| "prepend_trace trace (Inr r) = Inr (r\<lparr>xr_trace := trace @ xr_trace r\<rparr>)"

lemma prepend_trace_append [simp]: "prepend_trace t (prepend_trace t' r) = prepend_trace (t @ t') r"
  by (induction t' r rule: prepend_trace.induct) simp_all

lemma execute_loop_trace:
  "execute_loop rs envs start i steps outs trace = map_prod (prepend_trace trace) (\<lambda>log. log) (execute_loop rs envs start i steps outs [])"
proof (induction steps arbitrary: i outs trace)
  case (Cons step steps)
  have snoc: "execute_loop rs envs start j steps os (trace @ [x]) = map_prod (prepend_trace trace) (\<lambda>log. log) (execute_loop rs envs start j steps os [x])"
    for j os x
    unfolding Cons.IH [of j os "trace @ [x]"] Cons.IH [of j os "[x]"] by (simp add: map_prod_def case_prod_unfold del: execute_loop.simps)
  show ?case
  proof (cases "i < start")
    case True
    then show ?thesis using Cons.IH [of "Suc i" outs trace] by simp
  next
    case False
    obtain r log where step: "run_step rs (envs i) step outs = (r, log)" by fastforce
    with False show ?thesis by (auto simp: snoc case_prod_unfold Let_def split: sum.splits step_result.splits)
  qed
qed simp

lemma execute_loop_start:
  "start \<le> i \<Longrightarrow> start' \<le> i \<Longrightarrow> execute_loop rs envs start i steps outs trace = execute_loop rs envs start' i steps outs trace"
proof (induction steps arbitrary: i outs trace)
  case (Cons step steps)
  obtain r log where step: "run_step rs (envs i) step outs = (r, log)" by fastforce
  have IH: "execute_loop rs envs start (Suc i) steps = execute_loop rs envs start' (Suc i) steps"
    using Cons by (intro ext) simp
  show ?case using Cons.prems step by (simp add: IH split: sum.splits step_result.splits)
qed simp

lemma run_steps_execute:
  assumes "run_steps rs envs steps (i, outs, trace, []) (k, outs', trace', log')" "execute_loop rs envs k k (drop k steps) outs' trace' = (res, log)"
  shows "i \<le> k \<and> execute_loop rs envs i i (drop i steps) outs trace = (res, log' @ log)"
  using assms
proof (induction "(i, outs, trace, [] :: effect list)" "(k, outs', trace', log')" arbitrary: k outs' trace' log' log rule: run_steps.induct)
  case (skipped k outs' trace' log' log'')
  have "execute_loop rs envs k k (steps ! k # drop (Suc k) steps) outs' trace' = (res, log'' @ log)"
    using skipped.prems skipped.hyps(4) execute_loop_start [of k "Suc k" "Suc k" rs envs "drop (Suc k) steps"] by simp
  then have loop: "execute_loop rs envs k k (drop k steps) outs' trace' = (res, log'' @ log)"
    by (simp only: Cons_nth_drop_Suc [OF skipped.hyps(3)])
  show ?case using skipped(2) [OF loop] by simp
next
  case (completed k outs' trace' log' out log'')
  have "execute_loop rs envs k k (steps ! k # drop (Suc k) steps) outs' trace' = (res, log'' @ log)"
    using completed.prems completed.hyps(4) execute_loop_start [of k "Suc k" "Suc k" rs envs "drop (Suc k) steps"] by simp
  then have loop: "execute_loop rs envs k k (drop k steps) outs' trace' = (res, log'' @ log)"
    by (simp only: Cons_nth_drop_Suc [OF completed.hyps(3)])
  show ?case using completed(2) [OF loop] by simp
qed simp

section \<open>Effects and outputs of a step\<close>

text \<open>The lease was acquired and verified before the action began.\<close>

definition lease_held :: "step_env \<Rightarrow> bool" where
  "lease_held env \<longleftrightarrow> se_acquire env = None \<and> se_verify env = None \<and> se_verify_before env = None"

definition effect_of :: "run_setup \<Rightarrow> step_env \<Rightarrow> wf_step \<Rightarrow> effect \<Rightarrow> bool" where
  "effect_of rs env step e \<longleftrightarrow> lease_held env \<and> (\<exists>action.
    e \<in> set (snd (run_action (rs_lib rs) env (rs_sink_set rs) (rs_community_id rs) (rs_run_id rs) (rs_trigger rs) action)) \<and>
    (is_call_webhook action \<longrightarrow> is_call_webhook (st_action step)))"

lemma protect_log: "set (snd (protect env op)) \<subseteq> set (snd op)" "e \<in> set (snd (protect env op)) \<Longrightarrow> se_verify_before env = None"
  by (auto simp: protect_def dest: in_set_takeD split: option.splits)

lemma dispatch_log:
  assumes "e \<in> set (snd (dispatch_action lib env sink c run ctx action))"
  shows "lease_held env \<and> e \<in> set (snd (run_action lib env sink c run ctx action))"
proof -
  have acq: "se_acquire env = None" "se_verify env = None" using assms by (auto simp: dispatch_action_def split: option.splits)
  have "snd (dispatch_action lib env sink c run ctx action) = snd (protect env (run_action lib env sink c run ctx action))"
    using acq by (auto simp: dispatch_action_def split: prod.splits sum.splits option.splits)
  then show ?thesis using acq assms protect_log by (fastforce simp: lease_held_def)
qed

lemma result_bind_Inr: "result_bind r f = Inr x \<longleftrightarrow> (\<exists>y. r = Inr y \<and> f y = Inr x)"
  by (cases r) simp_all

lemma resolved_webhook: "resolve_step_templates lib action ctx outs = Inr action' \<Longrightarrow> is_call_webhook action' = is_call_webhook action"
  by (cases action) (auto simp: resolve_step_templates_def result_bind_Inr is_call_webhook_def)

lemma run_step_log:
  assumes "run_step rs env step outs = (r, log)" "e \<in> set log"
  shows "effect_of rs env step e"
proof -
  obtain action where action: "resolve_step_templates (rs_lib rs) (st_action step) (rs_trigger rs) outs = Inr action"
    and e: "e \<in> set (snd (dispatch_action (rs_lib rs) env (rs_sink_set rs) (rs_community_id rs) (rs_run_id rs) (rs_trigger rs) action))"
    using assms by (auto simp: run_step_def Let_def dest: in_set_takeD split: option.splits sum.splits bool.splits)
  show ?thesis
    using dispatch_log [OF e] resolved_webhook [OF action] by (auto simp: effect_of_def)
qed

lemma run_steps_log:
  assumes "run_steps rs envs steps (i, outs, trace, []) (k, outs', trace', log)" "e \<in> set log"
  shows "\<exists>j < length steps. effect_of rs (envs j) (steps ! j) e"
  using assms
  by (induction "(i, outs, trace, [] :: effect list)" "(k, outs', trace', log)" arbitrary: k outs' trace' log rule: run_steps.induct)
    (auto dest: run_step_log)

lemma execute_steps_log:
  assumes "execute_steps rs envs def start init = (res, log)" "start \<le> length (df_steps def)" "e \<in> set log"
  shows "\<exists>j < length (df_steps def). effect_of rs (envs j) (df_steps def ! j) e"
proof -
  obtain k outs trace log0 where run: "run_steps rs envs (df_steps def) (start, (case init of Some outs \<Rightarrow> outs | None \<Rightarrow> []), [], []) (k, outs, trace, log0)"
    and ends: "run_ends rs envs (df_steps def) (k, outs, trace, log0) res log" using execute_steps_run [OF assms(1,2)] by (auto simp: split_paired_Ex)
  show ?thesis
  proof (cases "e \<in> set log0")
    case True
    then show ?thesis using run_steps_log [OF run] by blast
  next
    case False
    then obtain r log' where "k < length (df_steps def)" "run_step rs (envs k) (df_steps def ! k) outs = (r, log')" "e \<in> set log'"
      using ends assms(3) by (auto simp: run_ends_def)
    then show ?thesis using run_step_log by blast
  qed
qed

text \<open>What each kind of effect depends on.\<close>

lemma map_result_log [simp]: "snd (map_result f r) = snd r"
  by (simp add: map_result_def split: sum.splits)

lemma sink_message_from:
  assumes "SinkMessage c ch body author \<in> set (snd (run_action lib env sink community run ctx action))"
  shows "c = community \<and> sink \<and> (\<exists>u w. get_workflow_run c run (se_db env) = Inr u \<and> get_workflow c (rr_workflow_id u) (se_db env) = Inr w \<and>
    author = wl_hex lib (wk_owner_pubkey w) \<and> (\<forall>wid. wk_channel_id w = Some wid \<longrightarrow> ch = wl_uuid_str lib wid))"
proof -
  obtain body' channel where action: "action = SendMessage body' channel"
    using assms by (cases action) (auto simp: run_action_def call_webhook_impl_def add_reaction_impl_def Let_def
      split: if_splits sum.splits option.splits prod.splits)
  obtain u where u: "get_workflow_run community run (se_db env) = Inr u"
    using assms by (auto simp: action run_action_def send_message_action_def failing_def split: option.splits sum.splits)
  obtain w where w: "get_workflow community (rr_workflow_id u) (se_db env) = Inr w"
    using assms u by (auto simp: action run_action_def send_message_action_def failing_def split: option.splits sum.splits)
  have chan: "resolve_send_message_channel lib channel (tc_channel_id ctx) (wk_channel_id w) = Inr ch"
    and rest: "c = community" "sink" "author = wl_hex lib (wk_owner_pubkey w)"
    using assms u w by (auto simp: action run_action_def send_message_action_def failing_def split: option.splits sum.splits if_splits)
  have "ch = wl_uuid_str lib wid" if "wk_channel_id w = Some wid" for wid
    using chan that by (auto simp: resolve_send_message_channel_def Let_def split: option.splits sum.splits if_splits)
  then show ?thesis using u w rest by blast
qed




lemma dispatch_plain:
  assumes "fst (dispatch_action lib env sink c run ctx action) = Inr (StepCompleted out)"
  shows "plain_output out"
proof -
  have "fst (run_action lib env sink c run ctx action) = Inr (StepCompleted out)"
    using assms by (auto simp: dispatch_action_def protect_def split: option.splits prod.splits sum.splits)
  then show ?thesis
    by (cases action) (auto simp: run_action_def send_message_action_def map_result_def call_webhook_impl_def add_reaction_impl_def Let_def
        plain_output_def output_fields_def split: if_splits sum.splits option.splits prod.splits)
qed

lemma run_step_plain: "run_step rs env step outs = (Inr (StepCompleted out), log) \<Longrightarrow> plain_output out"
  by (auto simp: run_step_def Let_def split: option.splits sum.splits bool.splits intro: dispatch_plain dest!: arg_cong [where f = fst])

lemma run_steps_plain:
  assumes "run_steps rs envs steps (i, outs0, trace0, log0) (k, outs, trace, log)" "distinct (map fst outs0)" "\<forall>(s, v) \<in> set outs0. plain_output v"
  shows "distinct (map fst outs) \<and> (\<forall>(s, v) \<in> set outs. plain_output v)"
  using assms
proof (induction "(i, outs0, trace0, log0)" "(k, outs, trace, log)" arbitrary: k outs trace log rule: run_steps.induct)
  case (completed k outs trace log out log')
  then show ?case using run_step_plain alist_update_subset [of "st_id (steps ! k)" out outs] by (fastforce simp: distinct_update)
qed simp_all

section \<open>Properties\<close>

definition reached :: "run_result \<Rightarrow> nat" where
  "reached res = (case res of Inl (e, p) \<Rightarrow> pg_step_index p | Inr r \<Rightarrow> xr_step_index r)"

definition trace_of :: "run_result \<Rightarrow> json list" where
  "trace_of res = (case res of Inl (e, p) \<Rightarrow> pg_trace p | Inr r \<Rightarrow> xr_trace r)"

text \<open>
  C29. A run reports every step it passed and nothing else: the trace has one entry for each step from the first to the one the run
  stopped at, in order, either skipped or completed with the output that later steps read. The run stops at the end exactly
  when it neither failed nor waits for an approval.
\<close>

theorem run_reports_steps:
  assumes "execute_steps rs envs def start init = (res, log)" "start \<le> length (df_steps def)" "distinct (map st_id (df_steps def))"
  shows "start \<le> reached res \<and> reached res \<le> length (df_steps def) \<and> length (trace_of res) = reached res - start \<and>
    (\<exists>outs. (\<forall>k < reached res - start. entry_for (df_steps def ! (start + k)) outs (trace_of res ! k)) \<and>
      (\<forall>r. res = Inr r \<longrightarrow> xr_step_outputs r = outs)) \<and>
    (reached res = length (df_steps def) \<longleftrightarrow> (\<exists>r. res = Inr r \<and> xr_approval_token r = None))"
proof -
  obtain k outs trace log0 where run: "run_steps rs envs (df_steps def) (start, (case init of Some outs \<Rightarrow> outs | None \<Rightarrow> []), [], []) (k, outs, trace, log0)"
    and ends: "run_ends rs envs (df_steps def) (k, outs, trace, log0) res log" using execute_steps_run [OF assms(1,2)] by (auto simp: split_paired_Ex)
  have "reached res = k" "trace_of res = trace" "\<forall>r. res = Inr r \<longrightarrow> xr_step_outputs r = outs"
    "k = length (df_steps def) \<longleftrightarrow> (\<exists>r. res = Inr r \<and> xr_approval_token r = None)"
    using ends by (auto simp: run_ends_def reached_def trace_of_def)
  then show ?thesis using run_steps_report [OF run assms(2,3)] by auto
qed

text \<open>
  C23. A run continued at a step is the rest of the run: when the steps before \<open>k\<close> gave some outputs, trace and effects, then executing
  from \<open>k\<close> with these outputs, behind that trace, is executing the whole run.
\<close>

theorem run_resumes:
  assumes "run_steps rs envs (df_steps def) (0, [], [], []) (k, outs, trace, log)" "k \<le> length (df_steps def)"
    and "execute_steps rs envs def k (Some outs) = (res, log')"
  shows "execute_steps rs envs def 0 None = (prepend_trace trace res, log @ log')"
proof -
  have "execute_loop rs envs k k (drop k (df_steps def)) outs [] = (res, log')"
    using assms(2,3) execute_loop_skip [of 0 k "df_steps def"] by (simp add: execute_steps_def)
  then have "execute_loop rs envs k k (drop k (df_steps def)) outs trace = (prepend_trace trace res, log')"
    using execute_loop_trace [of rs envs k k "drop k (df_steps def)" outs trace] by simp
  from run_steps_execute [OF assms(1) this] show ?thesis by (simp add: execute_steps_def)
qed

text \<open>
  C13. Messages of a run go only where its workflow belongs: the community is the run's, the author is the owner of the run's workflow
  in that community, and when the workflow has a channel, it is that channel, whatever the definition, the trigger or a
  template say.
\<close>

theorem messages_confined:
  assumes "execute_steps rs envs def start init = (res, log)" "start \<le> length (df_steps def)" "SinkMessage c ch body author \<in> set log"
  shows "\<exists>j < length (df_steps def). \<exists>u w. c = rs_community_id rs \<and> get_workflow_run c (rs_run_id rs) (se_db (envs j)) = Inr u \<and>
    get_workflow c (rr_workflow_id u) (se_db (envs j)) = Inr w \<and> author = wl_hex (rs_lib rs) (wk_owner_pubkey w) \<and>
    (\<forall>wid. wk_channel_id w = Some wid \<longrightarrow> ch = wl_uuid_str (rs_lib rs) wid)"
proof -
  obtain j where j: "j < length (df_steps def)" "effect_of rs (envs j) (df_steps def ! j) (SinkMessage c ch body author)"
    using execute_steps_log [OF assms] by blast
  then obtain action where
    "SinkMessage c ch body author \<in> set (snd (run_action (rs_lib rs) (envs j) (rs_sink_set rs) (rs_community_id rs) (rs_run_id rs) (rs_trigger rs) action))"
    by (auto simp: effect_of_def)
  from sink_message_from [OF this] j(1) show ?thesis by blast
qed



text \<open>
  In every run, the variables of the next condition do not depend on the order in which the hash map of the outputs is iterated:
  the outputs of different steps never share a variable.
\<close>

theorem run_conditions_unordered:
  assumes "run_steps rs envs steps (0, [], [], []) (k, outs, trace, log)" "set_value_law (rs_lib rs)" "mset outs' = mset outs"
    and "build_eval_context (rs_lib rs) (rs_trigger rs) outs = Inr vars" "build_eval_context (rs_lib rs) (rs_trigger rs) outs' = Inr vars'"
    and "distinct (map fst (tc_webhook_fields (rs_trigger rs)))"
  shows "vars' = vars"
proof (rule context_unordered [OF assms(2) _ _ assms(6,3) refl assms(4)])
  show "distinct (map fst outs)" "\<forall>(s, v) \<in> set outs. plain_output v" using run_steps_plain [OF assms(1)] by auto
  show "build_eval_context (rs_lib rs) (rs_trigger rs\<lparr>tc_webhook_fields := tc_webhook_fields (rs_trigger rs)\<rparr>) outs' = Inr vars'"
    using assms(5) by simp
qed

text \<open>
  A finished run is recorded: unless the connection fails or the community is fenced, the run's row is then completed
  or failed, with the time, the index reached, the earlier trace before the run's own, and an error exactly when it failed.
  A run that waits for an approval is recorded as failed.
\<close>

theorem finished_run_recorded:
  assumes "get_workflow_run c run db = Inr u" "wd_fence db c = None"
  shows "\<exists>u'. get_workflow_run c run (finalize_run None now c run res existing db) = Inr u' \<and>
    rr_status u' = (if \<exists>r. res = Inr r \<and> xr_approval_token r = None then Completed else Failed) \<and> rr_completed_at u' = Some now \<and>
    rr_current_step u' = i32_of (reached res) \<and> rr_execution_trace u' = JArray ((case existing of Some t \<Rightarrow> t | None \<Rightarrow> []) @ trace_of res) \<and>
    (rr_error_message u' = None \<longleftrightarrow> rr_status u' = Completed) \<and> rr_workflow_id u' = rr_workflow_id u"
proof -
  obtain row where row: "row_get run_key (c, run) (wd_runs db) = Some row" "row_to_run_record row = Inr u"
    using assms(1) by (auto simp: get_workflow_run_def split: option.splits)
  then have mem: "(c, run) \<in> run_key ` set (wd_runs db)" by (force dest: row_get_SomeD)
  have upd: "get_workflow_run c run (state_after (\<lambda>x. x) db (failing None (update_workflow_run now c run st n tr err db))) =
      Inr (u\<lparr>rr_status := st, rr_current_step := n, rr_execution_trace := tr, rr_error_message := err, rr_completed_at := Some now\<rparr>)"
    if "st \<in> {Completed, Failed}" for st n tr err
    using that mem assms(2) row run_status_codec.parse_as_str
    by (auto simp: update_workflow_run_def failing_def guarded_def get_workflow_run_def row_get_upd row_to_run_record_def Let_def split: option.splits)
  show ?thesis
    by (cases res) (auto simp: finalize_run_def reached_def trace_of_def upd Let_def row(2) split: option.splits)
qed


section \<open>Witnesses\<close>

definition sample_step_env :: step_env where
  "sample_step_env = \<lparr>se_db = sample_filled, se_load_run = None, se_load_workflow = None, se_eval = (\<lambda>_ _. EvalBool False), se_acquire = None,
    se_verify = None, se_verify_before = None, se_lost_after = None, se_verify_after = None, se_finish = None, se_sink = Inr ''e'',
    se_dns = (\<lambda>_. DnsAddrs [(V4 (Ipv4 93 184 216 34), ''a'')]), se_client = None,
    se_send = (\<lambda>_. Inr \<lparr>hr_status = 200, hr_chunks = [Inr [1]], hr_text = None\<rparr>), se_vars = (\<lambda>_. None), se_token = ''t'', se_deadline = None\<rparr>"

definition sample_run_setup :: run_setup where
  "sample_run_setup = \<lparr>rs_lib = sample_wf_lib, rs_config = \<lparr>cf_max_concurrent = 2, cf_default_timeout_secs = 300\<rparr>, rs_sink_set = True,
    rs_community_id = 1, rs_run_id = 6, rs_trigger = sample_trigger\<rparr>"

definition sample_http_request :: http_request where
  "sample_http_request = \<lparr>rq_method = ''POST'', rq_url = ''u'', rq_headers = [], rq_body = None, rq_pinned = Some (''u'', V4 (Ipv4 93 184 216 34), 443)\<rparr>"

definition sample_sent :: json where
  "sample_sent = JObject [(''sent'', JBool True), (''event_id'', JString ''e'')]"

definition sample_hooked :: json where
  "sample_hooked = JObject [(''status'', JNumber ''200''), (''body'', JString ''x'')]"

definition sample_result :: execution_result where
  "sample_result = \<lparr>xr_approval_token = None, xr_step_index = 3, xr_step_outputs = [(''s1'', sample_sent), (''s3'', sample_hooked)],
    xr_trace = [completed_entry ''s1'' sample_sent, skipped_entry ''s2'', completed_entry ''s3'' sample_hooked]\<rparr>"

abbreviation sample_execute :: "nat \<Rightarrow> step_outputs option \<Rightarrow> run_result \<times> effect list" where
  "sample_execute \<equiv> execute_steps sample_run_setup (\<lambda>_. sample_step_env) sample_workflow"

lemma sample_steps_length: "length (df_steps sample_workflow) = 3" "distinct (map st_id (df_steps sample_workflow))"
  by (simp_all add: sample_workflow_def)

lemma sample_run_step:
  "run_step sample_run_setup sample_step_env (df_steps sample_workflow ! 0) [] =
    (Inr (StepCompleted sample_sent), [SinkMessage 1 ''000000000'' ''hi {{trigger.author}}'' ''f''])"
  "run_step sample_run_setup sample_step_env (df_steps sample_workflow ! 1) [(''s1'', sample_sent)] = (Inr StepSkipped, [])"
  "run_step sample_run_setup sample_step_env (df_steps sample_workflow ! 2) [(''s1'', sample_sent)] = (Inr (StepCompleted sample_hooked), [HttpSent sample_http_request])"
  by code_simp+

lemma sample_execute_all: "sample_execute 0 None =
    (Inr sample_result, [SinkMessage 1 ''000000000'' ''hi {{trigger.author}}'' ''f'', HttpSent sample_http_request])"
  by code_simp

lemma sample_first_step:
  "run_steps sample_run_setup (\<lambda>_. sample_step_env) (df_steps sample_workflow) (0, [], [], [])
    (1, [(''s1'', sample_sent)], [completed_entry ''s1'' sample_sent], [SinkMessage 1 ''000000000'' ''hi {{trigger.author}}'' ''f''])"
proof -
  have "st_id (df_steps sample_workflow ! 0) = ''s1''" by (simp add: sample_workflow_def)
  then show ?thesis
    using run_steps.completed [OF run_steps.start, of 0 "df_steps sample_workflow" sample_run_setup "\<lambda>_. sample_step_env" "[]" sample_sent _ "[]" "[]"]
      sample_run_step(1) sample_steps_length by simp
qed

theorem run_reports_steps_witness:
  "reached (fst (sample_execute 0 None)) = 3 \<and> length (trace_of (fst (sample_execute 0 None))) = 3"
  using run_reports_steps [OF sample_execute_all _ sample_steps_length(2)] sample_steps_length
  by (simp add: sample_execute_all reached_def trace_of_def sample_result_def)

theorem run_resumes_witness:
  "sample_execute 0 None = (prepend_trace [completed_entry ''s1'' sample_sent] (fst (sample_execute 1 (Some [(''s1'', sample_sent)]))),
    SinkMessage 1 ''000000000'' ''hi {{trigger.author}}'' ''f'' # snd (sample_execute 1 (Some [(''s1'', sample_sent)])))"
  using run_resumes [OF sample_first_step _ prod.collapse [symmetric]] sample_steps_length by simp

theorem messages_confined_witness:
  "\<exists>u w. get_workflow_run 1 6 sample_filled = Inr u \<and> get_workflow 1 (rr_workflow_id u) sample_filled = Inr w \<and> ''f'' = wl_hex sample_wf_lib (wk_owner_pubkey w)"
  using messages_confined [OF sample_execute_all, of 1 "''000000000''" "''hi {{trigger.author}}''" "''f''"]
  by (auto simp: sample_run_setup_def sample_step_env_def)



theorem run_conditions_unordered_witness:
  "build_eval_context sample_wf_lib sample_trigger [(''s3'', sample_hooked), (''s1'', sample_sent)] =
   build_eval_context sample_wf_lib sample_trigger [(''s1'', sample_sent), (''s3'', sample_hooked)]"
proof -
  let ?outs = "[(''s1'', sample_sent), (''s3'', sample_hooked)]"
  obtain k outs trace log where run: "run_steps sample_run_setup (\<lambda>_. sample_step_env) (df_steps sample_workflow) (0, [], [], []) (k, outs, trace, log)"
    and "run_ends sample_run_setup (\<lambda>_. sample_step_env) (df_steps sample_workflow) (k, outs, trace, log) (Inr sample_result)
      [SinkMessage 1 ''000000000'' ''hi {{trigger.author}}'' ''f'', HttpSent sample_http_request]"
    using execute_steps_run [OF sample_execute_all] by (auto simp: split_paired_Ex)
  then have outs: "outs = ?outs" by (auto simp: run_ends_def sample_result_def)
  obtain vars vars' where vars: "build_eval_context sample_wf_lib sample_trigger ?outs = Inr vars"
    "build_eval_context sample_wf_lib sample_trigger (rev ?outs) = Inr vars'"
    using sample_set_values unfolding build_eval_context_def by blast
  have parts: "rs_lib sample_run_setup = sample_wf_lib" "rs_trigger sample_run_setup = sample_trigger" by (simp_all add: sample_run_setup_def)
  have dist: "distinct (map fst (tc_webhook_fields sample_trigger))" by (simp add: sample_trigger_def)
  have "vars' = vars"
    by (rule run_conditions_unordered [OF run [unfolded outs], unfolded parts, OF sample_set_value _ vars dist]) simp
  then show ?thesis using vars by simp
qed

theorem finished_run_recorded_witness:
  "\<exists>u'. get_workflow_run 1 6 (finalize_run None 99 1 6 (Inr sample_result) None sample_filled) = Inr u' \<and> rr_status u' = Completed \<and> rr_completed_at u' = Some 99"
proof -
  have "(case get_workflow_run 1 6 sample_filled of Inl _ \<Rightarrow> False | Inr _ \<Rightarrow> True)" "wd_fence sample_filled 1 = None" by code_simp+
  then obtain u where "get_workflow_run 1 6 sample_filled = Inr u" "wd_fence sample_filled 1 = None" by (auto split: sum.splits)
  from finished_run_recorded [OF this, of 99 "Inr sample_result" None] show ?thesis by (auto simp: sample_result_def)
qed

end
