(* ===== verification/Workflow_Engine.thy ===== *)
theory Workflow_Engine
  imports Workflow_Exec Nostr_Filter
begin

text \<open>
  The workflow engine of a relay (\<open>crates/buzz-workflow/src/lib.rs\<close>): which workflows an event or the clock starts, and with what
  authority. A relay keeps a cache of the enabled workflows of a channel and the time each interval workflow last fired
  (\<open>engine\<close>); the tables are shared by all relays. Times count nanoseconds. What the database answers beyond the workflow tables (the
  role of an owner, failed statements, new identifiers) and the clock are arguments. Shown: an event starts a run only of an
  enabled workflow of its channel whose owner has the authority at that moment; of all relays together one starts a run for
  a scheduled instant; and an interval workflow fires once its interval has passed.
\<close>

section \<open>State\<close>

record engine =
  en_last_fired :: "uuid \<times> uuid \<Rightarrow> timestamp option"
  en_cache :: "uuid \<times> uuid \<Rightarrow> workflow_record list option"

record engine_lib =
  el_workflow :: workflow_lib
  el_to_value :: "trigger_context \<Rightarrow> string + json"
  el_from_timestamp :: "int \<Rightarrow> timestamp option"


definition workflow_config_default :: workflow_config where
  "workflow_config_default = \<lparr>cf_max_concurrent = 100, cf_default_timeout_secs = 300\<rparr>"

definition engine_new :: "workflow_config \<Rightarrow> nat \<times> engine" where
  "engine_new config = (max 1 (cf_max_concurrent config), \<lparr>en_last_fired = Map.empty, en_cache = Map.empty\<rparr>)"

definition invalidate_channel_workflows :: "uuid \<Rightarrow> uuid \<Rightarrow> engine \<Rightarrow> engine" where
  "invalidate_channel_workflows community_id channel_id en = en\<lparr>en_cache := (en_cache en)((community_id, channel_id) := None)\<rparr>"

section \<open>Authority\<close>


type_synonym role_lookup = "uuid \<Rightarrow> uuid \<Rightarrow> bytes \<Rightarrow> workflow_db_error + string option"


section \<open>Events\<close>

















section \<open>Schedules\<close>

abbreviation nanos :: int where
  "nanos \<equiv> 1000000000"

text \<open>\<open>div_euclid\<close> of signed integers, the cast of an unsigned number to a signed one, and the text of an integer.\<close>

definition div_euclid :: "int \<Rightarrow> int \<Rightarrow> int" where
  "div_euclid a b = (if 0 < b then a div b else - (a div (- b)))"

definition as_i64 :: "nat \<Rightarrow> int" where
  "as_i64 n = sint (word_of_nat n :: 64 word)"


definition cron_fire_instant :: "engine_lib \<Rightarrow> string \<Rightarrow> timestamp \<Rightarrow> int \<Rightarrow> timestamp option" where
  "cron_fire_instant el expr now window_secs =
    (case wl_parse_cron (el_workflow el) (normalize_cron expr) of
       Inl e \<Rightarrow> None
     | Inr sched \<Rightarrow>
        (case sched (now - window_secs * nanos) of None \<Rightarrow> None | Some t \<Rightarrow> if t \<le> now then Some t else None))"

definition interval_fire_instant :: "engine_lib \<Rightarrow> string \<Rightarrow> timestamp \<Rightarrow> timestamp option" where
  "interval_fire_instant el dur now =
    (case parse_duration_secs dur of
       Inl e \<Rightarrow> None
     | Inr interval_secs \<Rightarrow>
        if interval_secs > 0
        then (let secs = as_i64 interval_secs; bucket = div_euclid (now div nanos) secs * secs in el_from_timestamp el bucket)
        else None)"

definition interval_should_fire :: "string \<Rightarrow> timestamp option \<Rightarrow> timestamp \<Rightarrow> bool" where
  "interval_should_fire dur last_fired now =
    (case parse_duration_secs dur of
       Inl e \<Rightarrow> False
     | Inr interval_secs \<Rightarrow>
        (let prev = (case last_fired of Some t \<Rightarrow> t | None \<Rightarrow> now); elapsed = nat (\<bar>now - prev\<bar> div nanos)
         in interval_secs \<le> elapsed))"

definition interval_prefilter_should_fire ::
  "(uuid \<times> uuid \<Rightarrow> timestamp option) \<Rightarrow> uuid \<Rightarrow> uuid \<Rightarrow> string \<Rightarrow> timestamp option \<Rightarrow> timestamp \<Rightarrow>
   bool \<times> (uuid \<times> uuid \<Rightarrow> timestamp option)" where
  "interval_prefilter_should_fire last_fired community_id workflow_id dur prev now =
    (if interval_should_fire dur prev now then (True, last_fired)
     else (False, if prev = None then last_fired((community_id, workflow_id) \<mapsto> now) else last_fired))"

text \<open>What the surroundings answer during a tick; the workflows of the tick are counted from 0.\<close>

record tick_env =
  te_now :: timestamp
  te_list :: "workflow_db_error option"
  te_anchor :: "nat \<Rightarrow> workflow_db_error option"
  te_role :: "nat \<Rightarrow> role_lookup"
  te_claim :: "nat \<Rightarrow> workflow_db_error option"
  te_create :: "nat \<Rightarrow> workflow_db_error option"
  te_attach :: "nat \<Rightarrow> workflow_db_error option"
  te_run_id :: "nat \<Rightarrow> uuid"
  te_db_now :: "nat \<Rightarrow> timestamp"

text \<open>The instant a tick fires for, and whether the schedule is an interval.\<close>

definition scheduled_instant ::
  "engine_lib \<Rightarrow> tick_env \<Rightarrow> nat \<Rightarrow> workflow_record \<Rightarrow> workflow_def \<Rightarrow> engine \<Rightarrow> workflow_db \<Rightarrow> (timestamp \<times> bool) option \<times> engine" where
  "scheduled_instant el te i workflow def en db =
    (let key = (wk_community_id workflow, wk_id workflow); now = te_now te
     in case df_trigger def of
          Schedule (Some expr) None \<Rightarrow> (map_option (\<lambda>t. (t, False)) (cron_fire_instant el expr now 60), en)
        | Schedule None (Some dur) \<Rightarrow>
           (let prev = (case en_last_fired en key of
                  Some t \<Rightarrow> Some t
                | None \<Rightarrow> (case te_anchor te i of Some e \<Rightarrow> None | None \<Rightarrow> latest_scheduled_workflow_fire (fst key) (snd key) db));
                (fire, last_fired) = interval_prefilter_should_fire (en_last_fired en) (fst key) (snd key) dur prev now;
                en' = en\<lparr>en_last_fired := last_fired\<rparr>
            in if fire then (map_option (\<lambda>t. (t, True)) (interval_fire_instant el dur now), en') else (None, en'))
        | _ \<Rightarrow> (None, en))"







section \<open>Relays that share the tables\<close>



















section \<open>Runs started by events\<close>








lemma le_div_iff_mult: "k \<le> x div nanos \<longleftrightarrow> k * nanos \<le> x" for k x :: int
proof
  assume "k \<le> x div nanos"
  then have "k * nanos \<le> x div nanos * nanos" by simp
  also have "\<dots> \<le> x" using pos_mod_sign [of nanos x] div_mult_mod_eq [of x nanos] by linarith
  finally show "k * nanos \<le> x" .
next
  assume "k * nanos \<le> x"
  then show "k \<le> x div nanos" using zdiv_mono1 [of "k * nanos" x nanos] by simp
qed

section \<open>Properties\<close>




text \<open>
  C35. An interval workflow that never fired does fire: the first tick that sees it waits, ticks before the interval has passed since
  then neither fire nor postpone it, and every tick from then on goes for the claim of its instant.
\<close>

theorem interval_fires_after_cold_start:
  assumes "df_trigger def = Schedule None (Some dur)" "parse_duration_secs dur = Inr secs" "0 < secs"
    and "en_last_fired en (wk_community_id w, wk_id w) = None"
    and "te_anchor te i \<noteq> None \<or> latest_scheduled_workflow_fire (wk_community_id w) (wk_id w) db = None"
  shows "\<exists>en1. scheduled_instant el te i w def en db = (None, en1) \<and>
    (\<forall>te' j db'. te_now te \<le> te_now te' \<longrightarrow>
      (if te_now te' - te_now te < int secs * nanos then scheduled_instant el te' j w def en1 db' = (None, en1)
       else scheduled_instant el te' j w def en1 db' = (map_option (\<lambda>t. (t, True)) (interval_fire_instant el dur (te_now te')), en1)))"
proof -
  let ?key = "(wk_community_id w, wk_id w)"
  let ?en1 = "en\<lparr>en_last_fired := (en_last_fired en)(?key \<mapsto> te_now te)\<rparr>"
  have first: "scheduled_instant el te i w def en db = (None, ?en1)"
    using assms by (cases "te_anchor te i") (simp_all add: scheduled_instant_def interval_prefilter_should_fire_def interval_should_fire_def Let_def)
  have "interval_should_fire dur (Some (te_now te)) now \<longleftrightarrow> int secs * nanos \<le> now - te_now te" if "te_now te \<le> now" for now
  proof -
    have "secs \<le> nat ((now - te_now te) div nanos) \<longleftrightarrow> int secs \<le> (now - te_now te) div nanos" using that by (simp add: le_nat_iff pos_imp_zdiv_nonneg_iff)
    also have "\<dots> \<longleftrightarrow> int secs * nanos \<le> now - te_now te" by (rule le_div_iff_mult)
    finally show ?thesis using that assms(2) by (simp add: interval_should_fire_def Let_def)
  qed
  then have "scheduled_instant el te' j w def ?en1 db' =
      (if te_now te' - te_now te < int secs * nanos then (None, ?en1)
       else (map_option (\<lambda>t. (t, True)) (interval_fire_instant el dur (te_now te')), ?en1))" if "te_now te \<le> te_now te'" for te' j db'
    using that assms(1) by (simp add: scheduled_instant_def interval_prefilter_should_fire_def Let_def)
  with first show ?thesis by (intro exI [of _ ?en1]) simp
qed

text \<open>
  The instant of an interval is a multiple of the interval that all relays agree on: it is at most the interval old, and every clock
  within the same interval computes the same one.
\<close>

theorem interval_instant_agreed:
  assumes "parse_duration_secs dur = Inr secs" "0 < secs" "secs < 2 ^ 63" "\<And>b. el_from_timestamp el b = Some (b * nanos)"
  shows "\<exists>t. interval_fire_instant el dur now = Some t \<and> int secs * nanos dvd t \<and> t \<le> now \<and> now < t + int secs * nanos \<and>
    (\<forall>now'. t \<le> now' \<and> now' < t + int secs * nanos \<longrightarrow> interval_fire_instant el dur now' = Some t)"
proof -
  let ?I = "int secs * nanos"
  have "as_i64 secs = int secs" using assms(3) by (simp add: as_i64_def signed_of_nat signed_take_bit_int_eq_self)
  moreover have "n div ?I = n div nanos div int secs" for n by (subst mult.commute) (simp add: zdiv_zmult2_eq)
  ultimately have instant: "interval_fire_instant el dur n = Some (n div ?I * ?I)" for n
    using assms(1,2,4) by (simp add: interval_fire_instant_def div_euclid_def Let_def)
  have I: "0 < ?I" using assms(2) by simp
  have lower: "now div ?I * ?I \<le> now" and upper: "now < now div ?I * ?I + ?I"
    using I div_mult_mod_eq [of now ?I] pos_mod_sign [OF I, of now] pos_mod_bound [OF I, of now] by linarith+
  have "n' div ?I = now div ?I" if "now div ?I * ?I \<le> n'" "n' < now div ?I * ?I + ?I" for n'
    using that I int_div_pos_eq [of n' ?I "now div ?I" "n' - now div ?I * ?I"] by (simp add: mult.commute)
  then have "interval_fire_instant el dur n' = Some (now div ?I * ?I)" if "now div ?I * ?I \<le> n' \<and> n' < now div ?I * ?I + ?I" for n'
    using that instant [of n'] by presburger
  then show ?thesis using instant [of now] lower upper dvd_triv_right [of ?I "now div ?I"] by blast
qed


text \<open>
  A relay that restarts takes the instant of the last claim for the time of the last fire. For an interval of an hour that
  fired at 5000 seconds, for the instant 3600, a relay that kept running waits at 7200 seconds and one that restarted fires.
\<close>

theorem restart_shortens_interval:
  assumes "\<And>b. el_from_timestamp el b = Some (b * nanos)" "parse_duration_secs dur = Inr 3600"
  shows "interval_fire_instant el dur (5000 * nanos) = Some (3600 * nanos) \<and> \<not> interval_should_fire dur (Some (5000 * nanos)) (7200 * nanos) \<and>
    interval_should_fire dur (Some (3600 * nanos)) (7200 * nanos)"
proof -
  have "as_i64 3600 = 3600" by (simp add: as_i64_def)
  then show ?thesis using assms by (simp add: interval_fire_instant_def interval_should_fire_def div_euclid_def)
qed

section \<open>Witnesses\<close>

definition minutely :: cron_schedule where
  "minutely t = Some ((t div (60 * nanos) + 1) * (60 * nanos))"

definition sample_engine_lib :: engine_lib where
  "sample_engine_lib = \<lparr>el_workflow = sample_wf_lib\<lparr>wl_from_value := (\<lambda>d. Inr (case d of
      JString _ \<Rightarrow> sample_workflow\<lparr>df_trigger := MessagePosted None\<rparr> | _ \<Rightarrow> sample_workflow)), wl_parse_cron := (\<lambda>_. Inr minutely)\<rparr>,
    el_to_value = (\<lambda>_. Inr JNull), el_from_timestamp = (\<lambda>b. Some (b * nanos))\<rparr>"

definition sample_roles :: role_lookup where
  "sample_roles c ch pk = Inr (if pk = [7] then Some ''admin'' else None)"



definition sample_tick_env :: tick_env where
  "sample_tick_env = \<lparr>te_now = 300 * nanos, te_list = None, te_anchor = (\<lambda>_. None), te_role = (\<lambda>_. sample_roles), te_claim = (\<lambda>_. None),
    te_create = (\<lambda>_. None), te_attach = (\<lambda>_. None), te_run_id = (\<lambda>_. 8), te_db_now = (\<lambda>_. 77)\<rparr>"



definition sample_record :: workflow_record where
  "sample_record = \<lparr>wk_id = 5, wk_community_id = 1, wk_name = [], wk_owner_pubkey = [], wk_channel_id = None, wk_definition = JNull,
    wk_definition_hash = [], wk_status = Active, wk_enabled = True, wk_created_at = 0, wk_updated_at = 0\<rparr>"

definition cold_engine :: engine where
  "cold_engine = \<lparr>en_last_fired = (\<lambda>_. None), en_cache = (\<lambda>_. None)\<rparr>"

lemma sample_interval: "parse_duration_secs ''2m'' = Inr 120"
  using parse_duration_decimal [of "''m''" 60 2] by (simp add: decimal.simps digit_def)




theorem interval_fires_after_cold_start_witness:
  "\<exists>en1. scheduled_instant sample_engine_lib sample_tick_env 0 sample_record sample_workflow cold_engine sample_store = (None, en1) \<and>
    fst (scheduled_instant sample_engine_lib (sample_tick_env\<lparr>te_now := 420 * nanos\<rparr>) 0 sample_record sample_workflow en1 sample_store) =
      Some (360 * nanos, True)"
proof -
  have hyps: "df_trigger sample_workflow = Schedule None (Some ''2m'')" "0 < (120 :: nat)"
    "en_last_fired cold_engine (wk_community_id sample_record, wk_id sample_record) = None"
    "te_anchor sample_tick_env 0 \<noteq> None \<or> latest_scheduled_workflow_fire (wk_community_id sample_record) (wk_id sample_record) sample_store = None"
    by (simp_all add: sample_workflow_def cold_engine_def sample_store_def latest_scheduled_workflow_fire_def)
  obtain en1 where en1: "scheduled_instant sample_engine_lib sample_tick_env 0 sample_record sample_workflow cold_engine sample_store = (None, en1)"
    and later: "\<And>te' j db'. te_now sample_tick_env \<le> te_now te' \<Longrightarrow>
      (if te_now te' - te_now sample_tick_env < int 120 * nanos then scheduled_instant sample_engine_lib te' j sample_record sample_workflow en1 db' = (None, en1)
       else scheduled_instant sample_engine_lib te' j sample_record sample_workflow en1 db' =
         (map_option (\<lambda>t. (t, True)) (interval_fire_instant sample_engine_lib ''2m'' (te_now te')), en1))"
    using interval_fires_after_cold_start [OF hyps(1) sample_interval hyps(2-4)] by blast
  have "interval_fire_instant sample_engine_lib ''2m'' (420 * nanos) = Some (360 * nanos)"
    by (simp add: interval_fire_instant_def sample_interval sample_engine_lib_def div_euclid_def as_i64_def)
  then show ?thesis using en1 later [of "sample_tick_env\<lparr>te_now := 420 * nanos\<rparr>" 0 sample_store] by (simp add: sample_tick_env_def)
qed

theorem interval_instant_agreed_witness:
  "\<exists>t. interval_fire_instant sample_engine_lib ''2m'' (420 * nanos) = Some t \<and> t \<le> 420 * nanos \<and> int 120 * nanos dvd t"
proof -
  have law: "el_from_timestamp sample_engine_lib b = Some (b * nanos)" for b by (simp add: sample_engine_lib_def)
  show ?thesis using interval_instant_agreed [OF sample_interval _ _ law, of "420 * nanos"] by auto
qed


end
