(* ===== verification/Spec2Isabelle.thy ===== *)
theory Spec2Isabelle
  imports Coord_Http Subscription Git_Perms Acp_Queue Pairing_Session Audio_Mesh Mesh_Runtime Audit_Log Workflow_Engine
begin

text \<open>
  Vingilot, a workspace for people and agents over a Nostr relay: a verification of its core logic.

  \<^bold>\<open>The program.\<close> A relay (\<open>crates/buzz-relay\<close>) stores signed events and sends each to the
  subscriptions it matches; git pushes pass a policy (\<open>crates/buzz-core/src/git_perms.rs\<close>); a harness
  (\<open>crates/buzz-acp\<close>) batches the events of a channel into turns of an agent; devices are paired by
  a QR code and a short authentication string (\<open>crates/buzz-core/src/pairing\<close>); voice calls run in
  rooms of one relay and span relays over a mesh (\<open>crates/buzz-relay/src/audio\<close>, \<open>crates/buzz-relay-mesh\<close>); an audit
  log keeps a hash chain per community (\<open>crates/buzz-audit\<close>); workflows react to events and to the clock
  (\<open>crates/buzz-workflow\<close>, their tables in \<open>crates/buzz-db/src/workflow.rs\<close>); a coordinator
  (\<open>vingilot/coordinator/coordinator\<close>) keeps runs, worktree bindings, leases and evidence in a
  database and serves them over HTTP.

  \<^bold>\<open>The theories.\<close>

  \<^item> \<open>Prelude\<close>: the lemma collections, the locales \<open>string_codec\<close> (enums stored as text), \<open>seq_log\<close> (numbered logs),
    \<open>tenant_isolation\<close> (what one tenant does is unseen by the others, which every numbered log gives),
    \<open>invariant_system\<close> (a step function and a predicate it keeps) and \<open>monotone_fence\<close> (a counter that refuses
    what is behind it), and text functions (\<open>split\<close>, \<open>split_once\<close>, decimal numbers).
    \<open>Rust_Text\<close>: white space, trimming, prefixes, searching and number parsing of Rust's \<open>str\<close>.
  \<^item> \<open>Coord_Domain\<close> (\<open>domain.rs\<close>), \<open>Coord_Store\<close> (\<open>migrations\<close>), \<open>Coord_Run\<close> (\<open>run.rs\<close>), \<open>Coord_Binding\<close>
    (\<open>binding.rs\<close>), \<open>Coord_Workspace\<close> (\<open>workspace.rs\<close>), \<open>Coord_Evidence\<close> (\<open>evidence.rs\<close>), \<open>Coord_Saga\<close> and
    \<open>Coord_Provision\<close> (\<open>saga.rs\<close>), \<open>Coord_Reconcile\<close> (\<open>reconcile.rs\<close>), \<open>Coord_System\<close> (all operations as
    atomic steps of one database), \<open>Coord_Http\<close> (\<open>http.rs\<close>, \<open>main.rs\<close>), \<open>Coord_Sample\<close> (states for examples).
    The database is a record of tables; a statement is one update of it, and a function that runs
    several statements composes them. An SQL error (a violated key or check) is an error value.
  \<^item> \<open>Nostr_Filter\<close> (\<open>filter.rs\<close>, \<open>event.rs\<close>) and \<open>Subscription\<close> (\<open>buzz-relay/src/subscription.rs\<close>): filter
    matching and the registry with its five indexes.
  \<^item> \<open>Git_Perms\<close> (\<open>git_perms.rs\<close>, the roles of \<open>channel.rs\<close>): ref patterns, protection tags, push policy.
  \<^item> \<open>Acp_Queue\<close> (\<open>buzz-acp/src/queue.rs\<close>): the event queue with in-flight turns, retries and cancellation.
  \<^item> \<open>Audio_Room\<close> (\<open>audio/room.rs\<close>, \<open>audio/wire.rs\<close>): admission, peer indices, fan-out of frames and control
    messages, the room manager. \<open>Audio_Mesh\<close> (\<open>audio/mesh.rs\<close>, \<open>audio/join.rs\<close>, the frames and errors of
    \<open>buzz-relay-mesh\<close>): the fence on media datagrams, the control stream seen from the owner and from
    the remote relay, the resolution of a join, the registry of owned calls. Rooms are shared between tasks,
    so the manager keeps a store of rooms and a map from keys to references into it. A bounded
    channel is the list of its messages; the roster broadcast is the log of what was sent. What an
    awaited call returns (a directory lookup, a send, a received frame) is an argument.
  \<^item> \<open>Mesh_Wire\<close> (\<open>wire.rs\<close>, the errors of \<open>lib.rs\<close>, \<open>peer.rs\<close> of \<open>buzz-relay-mesh\<close>): frames, their length-delimited streams and the
    operations of one connection. \<open>Mesh_Membership\<close> (\<open>gossip.rs\<close>, \<open>registry.rs\<close>, \<open>membership.rs\<close>, \<open>status.rs\<close>): gossip
    records, digests and deltas, the registry of attested relays, the table of peers with its failure detector. \<open>Mesh_Gossip\<close>: the
    tables of many relays exchanging messages that may be lost, repeated or misdelivered. \<open>Mesh_Runtime\<close> (\<open>runtime.rs\<close>): the
    connections of one relay, one definition per turn of each loop, with the queue of each control stream. The mean
    interval of heartbeats is computed exactly, over rational numbers.
  \<^item> \<open>Audit_Log\<close> (\<open>buzz-audit\<close>): entries and their hash, the service over its table, and concurrent writers under the advisory lock.
  \<^item> \<open>Workflow_Store\<close> (\<open>buzz-db/src/workflow.rs\<close> and its tables in the initial migration): workflows, runs, approvals and claims
    of scheduled fires, every statement an update of a record of tables. \<open>Workflow_Def\<close> (\<open>schema.rs\<close>, \<open>error.rs\<close> and the
    texts of \<open>executor.rs\<close> of \<open>buzz-workflow\<close>): definitions and their validation, durations, templates, the variables of conditions.
    \<open>Core_Network\<close> (\<open>buzz-core/src/network.rs\<close>): private and reserved addresses. \<open>Workflow_Exec\<close> (\<open>executor.rs\<close>,
    \<open>action_sink.rs\<close>, \<open>finalize_run\<close>): the steps of a run with an environment per step that fixes what the lease, the sink, the
    network and the clock answer, and a log of effects. \<open>Workflow_Engine\<close> (\<open>lib.rs\<close>): runs started by events and by ticks of
    many relays over one database, statement by statement.
  \<^item> \<open>Pairing_Qr\<close> (\<open>qr.rs\<close>, \<open>crypto.rs\<close>, \<open>types.rs\<close>) and \<open>Pairing_Session\<close> (\<open>session.rs\<close>): both sides of a pairing.

  \<^bold>\<open>Conventions.\<close> A method on \<open>&mut self\<close> takes the state and returns it with its result. \<open>Result\<close> is a
  sum with the error on the left; a panic of the source is an error value of its own. Hash maps are
  association lists with distinct keys or maps; no theorem depends on their order unless it says
  so. Clock readings, fresh identifiers and random numbers are arguments, so a theorem holds for all of
  them. An \<open>Instant\<close> is a number of nanoseconds. Integers are unbounded where the code cannot reach the
  limits and words or explicit bounds where it can. The floating-point jitter of the retry delay
  is computed exactly, over rational numbers.

  \<^bold>\<open>Parameters.\<close> Libraries outside the repository are arguments: the SHA-256 of a workspace state, the text
  of a UUID, JSON decoding, for pairing a record \<open>pairing_lib\<close> of hex, HKDF, URL, JSON, NIP-44
  and signature functions, for the mesh the \<open>postcard\<close> codec of frames and the records \<open>attest_lib\<close> and \<open>gossip_lib\<close>, for the
  audit log the record \<open>audit_lib\<close>, for workflows the records \<open>workflow_lib\<close> (YAML, JSON, cron, UUID, URL and key texts, the
  context of the expression evaluator) and \<open>engine_lib\<close>. The outcome of a call into code of the repository that is not modelled (a
  serving-write lease, the role of a member) is an argument of the definitions too. A scan of the registry and a dial are functions of the state at the call. What a theorem needs of them (that decoding undoes encoding on the
  values at hand, that key agreement is symmetric) is a premise, and its example instantiates
  them with concrete functions.

  \<^bold>\<open>What is shown.\<close> For the coordinator: fencing of stale lease holders, at most one writable worktree per
  run, an audit log that explains every status, a workspace log that replays to its state, a
  saga that ends with everything or nothing, a sweep that does exactly its job and converges, HTTP
  requests as sequences of atomic steps behind the bearer check. For the relay: the indexed
  fan-out equals the direct definition in every reachable registry. For the policy: evaluation equals
  its specification and rules only restrict. For the queue: one turn per channel, conservation of
  events, fairness, backoff. For pairing: the order of the protocol, no replay, completion between honest
  devices, and a codec that returns what it wrote and nothing malformed. For calls: unique peer indices,
  exact fan-out, one end per call, a mirrored roster on every relay, no media of an older
  owner, no join without an owner, and cleanup after a control stream. For the mesh: a framed stream read as it was
  written, copies that are published states, convergence by one exchange each way, seeds that are attested, both
  ends keeping the same of two simultaneous connections, and a gossip round over control streams that is such an exchange. For the audit log:
  a chain that verifies in every interleaving, tampering that shows and the one kind that does not. For workflows: tables whose references hold in every reachable
  state, communities that do not see each other, an instant claimed and an approval decided once, templates resolved in one
  pass, trigger fields a webhook cannot forge, durations exact or rejected, addresses blocked exactly as documented, runs that report
  the steps they passed and can be continued, effects only under the lease, messages only in the workflow's channel, webhooks only
  to public addresses, runs only with the current authority of the owner, and one run per instant over all relays. The invariants are
  proved for every sequence of operations; for the coordinator, the registry, the queue, the rooms, the mesh, the audit log and the workflow tables by an
  interpretation of \<open>invariant_system\<close>.

  \<^bold>\<open>Termination and fuel.\<close> The walk to the root run (\<open>depth\<close>) is a partial function into options, and is
  shown to return in every reachable state; every other recursion is structural or has a measure (the scanners of texts).

  \<^bold>\<open>Not modelled.\<close> Network, process and database drivers; the sockets of
  \<open>audio/handler.rs\<close>, the lease renewal timer and the session directory of the mesh; binding and dialling an
  endpoint (\<open>endpoint.rs\<close>), the timers of the mesh loops and the greeting of a dialled control stream; the executor of the coordinator; the lease of \<open>buzz-deletion\<close> and the membership tables that workflows
  ask; the 60-second timer and the task spawning of the workflow engine; the prompt
  formatting of the queue's file; the other crates, listed in the manifest with their reasons.
\<close>

end
